(* ===== verification/Prelude.thy ===== *)
theory Prelude
  imports Complex_Main "HOL-Library.Monad_Syntax" "HOL-Library.Word" "HOL-Library.AList_Mapping"
begin

text \<open>
  What the component theories share: the collections of facts their proofs are driven by, the
  vocabulary of the Go runtime (a panic is \<^term>\<open>None\<close>, an error return is \<^term>\<open>Inl\<close>), and
  generic lemmas on maps and lists.

  Conventions of the whole development:
  \<^item> a Go \<^verbatim>\<open>map[K]V\<close> is a partial function; reading a missing key yields the zero value of the
    element type, which the models write out (\<^verbatim>\<open>map_int\<close> below);
  \<^item> a handler that can panic (nil interface, index out of range) returns an option and composes
    with do-notation, so that "this never panics" is a theorem and not an assumption;
  \<^item> a range over a Go map visits every entry once in an unspecified order. Where the body only
    touches the visited entry, the loop is the pointwise update of the map; where it accumulates,
    the visiting order is an explicit list and order independence is proved.
\<close>

named_theorems names "the named constants of an enumeration, unfolded to their numbers"
named_theorems handlers "the defining equations of the adaptive cache's handlers"
named_theorems frames "fields an operation leaves alone"

subsection \<open>Go maps\<close>

text \<open>Reading an int map: a missing key is the zero value.\<close>

definition map_int :: "('k \<rightharpoonup> int) \<Rightarrow> 'k \<Rightarrow> int" where
  "map_int m k = (case m k of None \<Rightarrow> 0 | Some n \<Rightarrow> n)"

lemma map_int_Some [simp]: "m k = Some n \<Longrightarrow> map_int m k = n"
  by (simp add: map_int_def)

lemma map_int_upd [simp]: "map_int (m(k \<mapsto> n)) j = (if j = k then n else map_int m j)"
  by (simp add: map_int_def)

text \<open>
  The pointwise update of a map whose body may look at the key: the shape of every
  \<^verbatim>\<open>for policyType, policy := range c.policies\<close> loop.
\<close>

definition map_entries :: "('k \<Rightarrow> 'a \<Rightarrow> 'b) \<Rightarrow> ('k \<rightharpoonup> 'a) \<Rightarrow> ('k \<rightharpoonup> 'b)" where
  "map_entries f m = (\<lambda>k. map_option (f k) (m k))"

lemma map_entries_apply [simp]: "map_entries f m k = map_option (f k) (m k)"
  by (simp add: map_entries_def)

lemma dom_map_entries [simp]: "dom (map_entries f m) = dom m"
  by (auto simp: dom_def)

lemma map_entries_upd: "map_entries f (m(k \<mapsto> x)) = (map_entries f m)(k \<mapsto> f k x)"
  by (rule ext) simp

text \<open>
  The same loop with its visiting order made explicit. Whatever permutation of the entries Go
  picks, the result is the pointwise update.
\<close>

definition visit_entry :: "('k \<Rightarrow> 'a \<Rightarrow> 'a) \<Rightarrow> 'k \<Rightarrow> ('k \<rightharpoonup> 'a) \<Rightarrow> ('k \<rightharpoonup> 'a)" where
  "visit_entry f k m = (case m k of None \<Rightarrow> m | Some x \<Rightarrow> m(k \<mapsto> f k x))"

lemma visit_entries_apply:
  "distinct ks \<Longrightarrow>
    fold (visit_entry f) ks m k = (if k \<in> set ks then map_option (f k) (m k) else m k)"
  by (induction ks arbitrary: m) (auto simp: visit_entry_def split: option.splits)

lemma visit_entries_any_order:
  assumes "distinct ks" and "dom m \<subseteq> set ks"
  shows "fold (visit_entry f) ks m = map_entries f m"
proof (rule ext)
  fix k
  show "fold (visit_entry f) ks m k = map_entries f m k"
    using assms by (cases "m k") (auto simp: visit_entries_apply)
qed

subsection \<open>Sub-maps\<close>

lemma map_le_empty_iff [simp]: "m \<subseteq>\<^sub>m Map.empty \<longleftrightarrow> m = Map.empty"
  by (auto simp: map_le_def fun_eq_iff)

lemma map_le_SomeD: "m \<subseteq>\<^sub>m n \<Longrightarrow> m k = Some v \<Longrightarrow> n k = Some v"
  by (auto simp: map_le_def dom_def)

lemma map_le_NoneD: "m \<subseteq>\<^sub>m n \<Longrightarrow> n k = None \<Longrightarrow> m k = None"
  by (cases "m k") (auto dest: map_le_SomeD)

lemma map_leI: "(\<And>k v. m k = Some v \<Longrightarrow> n k = Some v) \<Longrightarrow> m \<subseteq>\<^sub>m n"
  by (auto simp: map_le_def dom_def)

lemma map_le_insert: "m \<subseteq>\<^sub>m n \<Longrightarrow> m(k \<mapsto> v) \<subseteq>\<^sub>m n(k \<mapsto> v)"
  by (simp add: map_le_def)

lemma map_le_delete: "m \<subseteq>\<^sub>m n \<Longrightarrow> m(k := None) \<subseteq>\<^sub>m n(k := None)"
  by (auto simp: map_le_def)

lemma map_le_delete_self: "m(k := None) \<subseteq>\<^sub>m m"
  by (auto simp: map_le_def)

lemma map_le_delete_upd: "m(k := None) \<subseteq>\<^sub>m m(k \<mapsto> v)"
  by (auto simp: map_le_def)

lemma map_le_restrict: "m \<subseteq>\<^sub>m n \<Longrightarrow> A \<subseteq> B \<Longrightarrow> m |` A \<subseteq>\<^sub>m n |` B"
  by (auto simp: map_le_def dom_def restrict_map_def)

lemma map_le_restrict_self: "m |` A \<subseteq>\<^sub>m m"
  by (auto simp: map_le_def restrict_map_def)

lemma ran_map_le: "m \<subseteq>\<^sub>m n \<Longrightarrow> ran m \<subseteq> ran n"
  by (auto simp: ran_def dest: map_le_SomeD)

lemma map_le_finite: "m \<subseteq>\<^sub>m n \<Longrightarrow> finite (dom n) \<Longrightarrow> finite (dom m)"
  by (meson finite_subset map_le_implies_dom_le)

subsection \<open>Options as possibly panicking computations\<close>

lemma bind_eq_SomeE:
  "Option.bind x f = Some y \<Longrightarrow> (\<And>z. x = Some z \<Longrightarrow> f z = Some y \<Longrightarrow> P) \<Longrightarrow> P"
  by (auto simp: bind_eq_Some_conv)

subsection \<open>Lists\<close>

lemma filter_remove_key:
  "distinct (map f xs) \<Longrightarrow> x \<in> set xs \<Longrightarrow>
    length (filter (\<lambda>y. f y \<noteq> f x) xs) + 1 = length xs"
proof (induction xs)
  case (Cons a xs)
  show ?case
  proof (cases "f a = f x")
    case True
    then have "\<forall>y \<in> set xs. f y \<noteq> f x" using Cons.prems(1) by (auto simp: image_iff)
    with True show ?thesis by (simp add: filter_id_conv)
  next
    case False
    with Cons show ?thesis by auto
  qed
qed simp

lemma distinct_butlast_last: "distinct xs \<Longrightarrow> xs \<noteq> [] \<Longrightarrow> last xs \<notin> set (butlast xs)"
  by (metis append_butlast_last_id distinct.simps(2) distinct1_rotate rotate1.simps(2))


text \<open>
  A list sorted by a key, with ties in a known order, is determined by its classes: the fact that
  relates bucketed structures to a single priority order.
\<close>

lemma sorted_classes_unique:
  fixes f :: "'a \<Rightarrow> 'b :: linorder"
  assumes "sorted (map f xs)" "sorted (map f ys)"
    and "\<And>a. filter (\<lambda>x. f x = a) xs = filter (\<lambda>x. f x = a) ys"
  shows "xs = ys"
  using assms
proof (induction xs arbitrary: ys)
  case Nil
  show ?case
  proof (cases ys)
    case (Cons y ys')
    with Nil.prems(3) [of "f y"] show ?thesis by simp
  qed simp
next
  case (Cons x xs)
  have "x \<in> set (filter (\<lambda>y. f y = f x) (x # xs))" by simp
  then have x: "x \<in> set ys" unfolding Cons.prems(3) by simp
  then obtain y ys' where ys: "ys = y # ys'" by (cases ys) auto
  have "y \<in> set (filter (\<lambda>x. f x = f y) ys)" by (simp add: ys)
  then have y: "y \<in> set (x # xs)" unfolding Cons.prems(3) [symmetric]
    by (simp split: if_splits)
  have "f x \<le> f y" using Cons.prems(1) y by auto
  moreover have "f y \<le> f x" using Cons.prems(2) x ys by auto
  ultimately have eq: "f x = f y" by simp
  with Cons.prems(3) [of "f x"] ys have "x = y" by simp
  moreover have "xs = ys'"
  proof (rule Cons.IH)
    show "filter (\<lambda>x. f x = a) xs = filter (\<lambda>x. f x = a) ys'" for a
      using Cons.prems(3) [of a] ys eq \<open>x = y\<close> by (simp split: if_splits)
  qed (use Cons.prems(1,2) ys in simp_all)
  ultimately show ?case using ys by simp
qed

lemma find_append:
  "find P (xs @ ys) = (case find P xs of None \<Rightarrow> find P ys | Some x \<Rightarrow> Some x)"
  by (induction xs) simp_all

lemma sorted_between:
  assumes "sorted (map f (t @ d))" "\<And>x. x \<in> set t \<Longrightarrow> f x \<le> f e" "\<And>x. x \<in> set d \<Longrightarrow> f e \<le> f x"
  shows "sorted (map f (t @ e # d))"
  using assms by (auto simp: sorted_append)

lemma distinct_classes:
  assumes "\<And>a. distinct (filter (\<lambda>x. f x = a) xs)"
  shows "distinct xs"
  using assms
proof (induction xs)
  case (Cons x xs)
  have "distinct (filter (\<lambda>y. f y = a) xs)" for a
    using Cons.prems [of a] by (auto split: if_splits)
  moreover have "x \<notin> set xs" using Cons.prems [of "f x"] by simp
  ultimately show ?case using Cons.IH by simp
qed simp

subsection \<open>Go maps that are counted or ranged over\<close>

text \<open>
  Where the code takes \<^verbatim>\<open>len\<close> of a map or ranges over its keys, the model uses the library's
  \<^verbatim>\<open>mapping\<close>, which evaluates. Lookups after updates in one conditional form each.
\<close>

lemma lookup_update_if [simp]:
  "Mapping.lookup (Mapping.update k v m) j = (if j = k then Some v else Mapping.lookup m j)"
  by transfer simp

lemma lookup_delete_if [simp]:
  "Mapping.lookup (Mapping.delete k m) j = (if j = k then None else Mapping.lookup m j)"
  by transfer simp

lemma lookup_empty_map [simp]: "Mapping.lookup Mapping.empty = Map.empty"
  by transfer simp

lemma delete_update_same [simp]: "Mapping.delete k (Mapping.update k v m) = Mapping.delete k m"
  by transfer simp

lemma mapping_keys: "Mapping.keys m = dom (Mapping.lookup m)"
  by transfer simp

lemma in_mapping_keys: "k \<in> Mapping.keys m \<longleftrightarrow> Mapping.lookup m k \<noteq> None"
  by (simp add: mapping_keys domIff)

lemma mapping_size: "finite (dom (Mapping.lookup m)) \<Longrightarrow> Mapping.size m = card (dom (Mapping.lookup m))"
  by (simp add: Mapping.size_def mapping_keys)

lemma mapping_ordered_keys:
  "finite (dom (Mapping.lookup m)) \<Longrightarrow>
    set (Mapping.ordered_keys m) = dom (Mapping.lookup m) \<and> sorted (Mapping.ordered_keys m) \<and>
    distinct (Mapping.ordered_keys m)"
  by (simp add: Mapping.ordered_keys_def mapping_keys)

subsection \<open>Go slices\<close>

text \<open>Indexing, assignment and re-slicing, which panic out of range.\<close>

definition slice_get :: "'a list \<Rightarrow> int \<Rightarrow> 'a option" where
  "slice_get xs i = (if 0 \<le> i \<and> i < int (length xs) then Some (xs ! nat i) else None)"

definition slice_set :: "'a list \<Rightarrow> int \<Rightarrow> 'a \<Rightarrow> 'a list option" where
  "slice_set xs i x = (if 0 \<le> i \<and> i < int (length xs) then Some (xs[nat i := x]) else None)"

definition slice_to :: "'a list \<Rightarrow> int \<Rightarrow> 'a list option" where
  "slice_to xs n = (if 0 \<le> n \<and> n \<le> int (length xs) then Some (take (nat n) xs) else None)"

lemma slice_in_range [simp]:
  "0 \<le> i \<Longrightarrow> i < int (length xs) \<Longrightarrow> slice_get xs i = Some (xs ! nat i)"
  "0 \<le> i \<Longrightarrow> i < int (length xs) \<Longrightarrow> slice_set xs i x = Some (xs[nat i := x])"
  "0 \<le> n \<Longrightarrow> n \<le> int (length xs) \<Longrightarrow> slice_to xs n = Some (take (nat n) xs)"
  by (simp_all add: slice_get_def slice_set_def slice_to_def)

text \<open>Two's complement arithmetic on \<^verbatim>\<open>int64\<close> and \<^verbatim>\<open>int\<close>, where the code does not exclude overflow.\<close>

definition go_int64 :: "int \<Rightarrow> int" where
  "go_int64 n = signed_take_bit 63 n"

lemma go_int64_exact: "- (2 ^ 63) \<le> n \<Longrightarrow> n < 2 ^ 63 \<Longrightarrow> go_int64 n = n"
  unfolding go_int64_def by (rule signed_take_bit_int_eq_self) simp_all

text \<open>A panicking method as a total one, where a theorem shows it never panics.\<close>

definition or_else :: "'a \<Rightarrow> 'a option \<Rightarrow> 'a" where
  "or_else d r = (case r of None \<Rightarrow> d | Some x \<Rightarrow> x)"

lemma or_else_Some [simp]: "or_else d (Some x) = x"
  by (simp add: or_else_def)

end
