(* ===== verification/PolicyTypes.thy ===== *)
theory PolicyTypes
  imports Prelude
begin

text \<open>
  The data types every component exchanges: \<^verbatim>\<open>src/models.go\<close>.

  \<^verbatim>\<open>PolicyType\<close> is an open unsigned integer in Go, not a closed enumeration: a bandit, or a decision
  read from a store, may carry any value. The model keeps the 64-bit number under a constructor and
  names the eight constants the source names.
\<close>

subsection \<open>Policy types\<close>

datatype policy_type = PolicyType (policy_num: "64 word")

definition Undefined :: policy_type where "Undefined = PolicyType 0"
definition LRU :: policy_type where "LRU = PolicyType 1"
definition LFU :: policy_type where "LFU = PolicyType 2"
definition TwoQueue :: policy_type where "TwoQueue = PolicyType 3"
definition ARC :: policy_type where "ARC = PolicyType 4"
definition Random :: policy_type where "Random = PolicyType 5"
definition TTL :: policy_type where "TTL = PolicyType 6"
definition TinyLFU :: policy_type where "TinyLFU = PolicyType 7"

lemmas policy_names [names] =
  Undefined_def LRU_def LFU_def TwoQueue_def ARC_def Random_def TTL_def TinyLFU_def

text \<open>Policy types are ordered by their number, which is what \<^verbatim>\<open>slices.Sort\<close> sorts by.\<close>

instantiation policy_type :: linorder
begin

definition less_eq_policy_type :: "policy_type \<Rightarrow> policy_type \<Rightarrow> bool" where
  "less_eq_policy_type a b \<longleftrightarrow> policy_num a \<le> policy_num b"

definition less_policy_type :: "policy_type \<Rightarrow> policy_type \<Rightarrow> bool" where
  "less_policy_type a b \<longleftrightarrow> policy_num a < policy_num b"

instance
  by standard (auto simp: less_eq_policy_type_def less_policy_type_def intro: policy_type.expand)

end

lemma policy_type_le_iff [simp]: "PolicyType a \<le> PolicyType b \<longleftrightarrow> a \<le> b"
  by (simp add: less_eq_policy_type_def)

lemma policy_type_less_iff [simp]: "PolicyType a < PolicyType b \<longleftrightarrow> a < b"
  by (simp add: less_policy_type_def)

lemma Undefined_least: "Undefined \<le> p"
  by (simp add: less_eq_policy_type_def names)

subsection \<open>Migration strategies\<close>

text \<open>
  \<^verbatim>\<open>MigrationStrategy\<close> is an open integer too, counted from one. Its zero value names no strategy; the
  code treats every value it does not recognise as cold, and so does the model's case split.
\<close>

datatype migration_strategy =
  MigrationCold | MigrationWarm | MigrationGradual | MigrationOther "64 word"

subsection \<open>Statistics\<close>

record policy_stats =
  Hits :: int
  Misses :: int

abbreviation zero_stats :: policy_stats where
  "zero_stats \<equiv> \<lparr>Hits = 0, Misses = 0\<rparr>"

definition add_stats :: "policy_stats \<Rightarrow> policy_stats \<Rightarrow> policy_stats" where
  "add_stats a b = \<lparr>Hits = Hits a + Hits b, Misses = Misses a + Misses b\<rparr>"

lemma add_stats_sel [simp]:
  "Hits (add_stats a b) = Hits a + Hits b" "Misses (add_stats a b) = Misses a + Misses b"
  by (simp_all add: add_stats_def)

lemma add_stats_zero [simp]: "add_stats a zero_stats = a" "add_stats zero_stats a = a"
  by (cases a; simp add: add_stats_def)+

lemma add_stats_assoc: "add_stats (add_stats a b) c = add_stats a (add_stats b c)"
  by (simp add: add_stats_def)

fun sum_stats :: "policy_stats list \<Rightarrow> policy_stats" where
  "sum_stats [] = zero_stats"
| "sum_stats (s # ss) = add_stats s (sum_stats ss)"

text \<open>Reading a map of statistics: a missing key is the zero struct.\<close>

definition map_stats :: "('k \<rightharpoonup> policy_stats) \<Rightarrow> 'k \<Rightarrow> policy_stats" where
  "map_stats m k = (case m k of None \<Rightarrow> zero_stats | Some s \<Rightarrow> s)"

lemma map_stats_upd [simp]:
  "map_stats (m(k \<mapsto> s)) j = (if j = k then s else map_stats m j)"
  by (simp add: map_stats_def)

lemma map_stats_Some [simp]: "m k = Some s \<Longrightarrow> map_stats m k = s"
  by (simp add: map_stats_def)

text \<open>What one policy reports for an epoch.\<close>

record shadow_stats =
  ss_policy :: policy_type
  ss_hits :: int
  ss_misses :: int

end
