(* ===== verification/PolicyIface.thy ===== *)
theory PolicyIface
  imports PolicyTypes
begin

text \<open>
  The interfaces of \<^verbatim>\<open>src/interfaces.go\<close> as records of operations, their contracts as locales, and
  the adapter \<^verbatim>\<open>CacheWrapper\<close> of \<^verbatim>\<open>src/wrapper.go\<close> that turns a \<^verbatim>\<open>Cacher\<close> into a \<^verbatim>\<open>Policy\<close>.

  A Go interface value is an object plus the operations of its dynamic type. The model passes the
  operations as a record (one per implementation) and the objects as values of a type \<open>'c\<close>; an
  operation that mutates its receiver returns the new receiver first. A Go pair \<open>(value, ok)\<close> is an
  option: whenever \<^verbatim>\<open>ok\<close> is false every implementation returns the zero value with it.

  Three contracts are stated:
  \<^item> \<^verbatim>\<open>cacher_contract\<close>: what the adaptive cache needs of any arm to never serve a value that was not
    stored under that key. An arm may evict, expire or refuse entries whenever it likes.
  \<^item> \<^verbatim>\<open>exact_cacher\<close>: what an arm with exact bookkeeping adds (lookups find what is stored, evictions
    happen only at capacity and are reported).
  \<^item> \<^verbatim>\<open>policy_contract\<close> and \<^verbatim>\<open>exact_policy\<close>: the same with the measurements of \<^verbatim>\<open>CacheStats\<close>.
\<close>

subsection \<open>The interfaces\<close>

record ('c, 'k, 'v) cacher_ops =
  op_add :: "'c \<Rightarrow> 'k \<Rightarrow> 'v \<Rightarrow> 'c \<times> bool"
  op_contains :: "'c \<Rightarrow> 'k \<Rightarrow> bool"
  op_get :: "'c \<Rightarrow> 'k \<Rightarrow> 'c \<times> 'v option"
  op_keys :: "'c \<Rightarrow> 'k list"
  op_len :: "'c \<Rightarrow> int"
  op_peek :: "'c \<Rightarrow> 'k \<Rightarrow> 'v option"
  op_purge :: "'c \<Rightarrow> 'c"
  op_remove :: "'c \<Rightarrow> 'k \<Rightarrow> 'c \<times> bool"
  op_resize :: "'c \<Rightarrow> int \<Rightarrow> 'c \<times> int"
  op_values :: "'c \<Rightarrow> 'v list"

record ('c, 'k, 'v) policy_ops = "('c, 'k, 'v) cacher_ops" +
  op_cap :: "'c \<Rightarrow> int"
  op_get_stats :: "'c \<Rightarrow> policy_stats"
  op_reset_stats :: "'c \<Rightarrow> 'c"
  op_get_type :: "'c \<Rightarrow> policy_type"

subsection \<open>The contract of a cache that may drop entries at will\<close>

locale cacher_contract =
  fixes ops :: "('c, 'k, 'v, 'z) cacher_ops_scheme"
    and inv :: "'c \<Rightarrow> bool"
    and content :: "'c \<Rightarrow> 'k \<rightharpoonup> 'v"
  assumes add_inv: "inv c \<Longrightarrow> inv (fst (op_add ops c k v))"
    and get_inv: "inv c \<Longrightarrow> inv (fst (op_get ops c k))"
    and purge_inv: "inv c \<Longrightarrow> inv (op_purge ops c)"
    and remove_inv: "inv c \<Longrightarrow> inv (fst (op_remove ops c k))"
    and resize_inv: "inv c \<Longrightarrow> inv (fst (op_resize ops c n))"
    and add_content: "inv c \<Longrightarrow> content (fst (op_add ops c k v)) \<subseteq>\<^sub>m (content c)(k \<mapsto> v)"
    and get_content: "inv c \<Longrightarrow> content (fst (op_get ops c k)) \<subseteq>\<^sub>m content c"
    and get_result: "inv c \<Longrightarrow> snd (op_get ops c k) = Some v \<Longrightarrow> content c k = Some v"
    and peek_result: "inv c \<Longrightarrow> op_peek ops c k = Some v \<Longrightarrow> content c k = Some v"
    and contains_result: "inv c \<Longrightarrow> op_contains ops c k \<Longrightarrow> k \<in> dom (content c)"
    and purge_content: "inv c \<Longrightarrow> content (op_purge ops c) = Map.empty"
    and remove_content: "inv c \<Longrightarrow> content (fst (op_remove ops c k)) \<subseteq>\<^sub>m (content c)(k := None)"
    and resize_content: "inv c \<Longrightarrow> content (fst (op_resize ops c n)) \<subseteq>\<^sub>m content c"
    and keys_content: "inv c \<Longrightarrow> dom (content c) \<subseteq> set (op_keys ops c)"
    and values_content: "inv c \<Longrightarrow> set (op_values ops c) \<subseteq> ran (content c)"
begin

lemmas op_inv = add_inv get_inv purge_inv remove_inv resize_inv

lemma add_dom: "inv c \<Longrightarrow> dom (content (fst (op_add ops c k v))) \<subseteq> insert k (dom (content c))"
  using map_le_implies_dom_le [OF add_content] by (metis dom_fun_upd option.distinct(1))

lemma remove_dom: "inv c \<Longrightarrow> dom (content (fst (op_remove ops c k))) \<subseteq> dom (content c) - {k}"
  using map_le_implies_dom_le [OF remove_content] by simp

text \<open>The same facts read pointwise, as the loops over a policy use them.\<close>

lemma add_at:
  "inv c \<Longrightarrow> content (fst (op_add ops c k v)) j = Some w \<Longrightarrow> (if j = k then w = v else content c j = Some w)"
  using map_le_SomeD [OF add_content] by (fastforce split: if_splits)

lemma get_at: "inv c \<Longrightarrow> content (fst (op_get ops c k)) j = Some w \<Longrightarrow> content c j = Some w"
  by (rule map_le_SomeD [OF get_content])

lemma remove_at:
  "inv c \<Longrightarrow> content (fst (op_remove ops c k)) j = Some w \<Longrightarrow> j \<noteq> k \<and> content c j = Some w"
  using map_le_SomeD [OF remove_content] by (fastforce split: if_splits)

lemma resize_at: "inv c \<Longrightarrow> content (fst (op_resize ops c n)) j = Some w \<Longrightarrow> content c j = Some w"
  by (rule map_le_SomeD [OF resize_content])

end

subsection \<open>The contract of a cache with exact bookkeeping\<close>

locale exact_cacher = cacher_contract ops inv content
  for ops :: "('c, 'k, 'v, 'z) cacher_ops_scheme"
    and inv :: "'c \<Rightarrow> bool"
    and content :: "'c \<Rightarrow> 'k \<rightharpoonup> 'v" +
  fixes capacity :: "'c \<Rightarrow> int"
  assumes finite_content: "inv c \<Longrightarrow> finite (dom (content c))"
    and within_capacity: "inv c \<Longrightarrow> int (card (dom (content c))) \<le> capacity c"
    and get_finds: "inv c \<Longrightarrow> snd (op_get ops c k) = content c k"
    and get_keeps: "inv c \<Longrightarrow> content (fst (op_get ops c k)) = content c"
    and peek_finds: "inv c \<Longrightarrow> op_peek ops c k = content c k"
    and contains_finds: "inv c \<Longrightarrow> op_contains ops c k \<longleftrightarrow> k \<in> dom (content c)"
    and len_counts: "inv c \<Longrightarrow> op_len ops c = int (card (dom (content c)))"
    and keys_enumerate: "inv c \<Longrightarrow> distinct (op_keys ops c) \<and> set (op_keys ops c) = dom (content c)"
    and values_enumerate: "inv c \<Longrightarrow> map Some (op_values ops c) = map (content c) (op_keys ops c)"
    and add_resident: "inv c \<Longrightarrow> k \<in> dom (content c) \<Longrightarrow>
      content (fst (op_add ops c k v)) = (content c)(k \<mapsto> v) \<and> \<not> snd (op_add ops c k v)"
    and add_room: "inv c \<Longrightarrow> k \<notin> dom (content c) \<Longrightarrow> int (card (dom (content c))) < capacity c \<Longrightarrow>
      content (fst (op_add ops c k v)) = (content c)(k \<mapsto> v) \<and> \<not> snd (op_add ops c k v)"
    and add_full: "inv c \<Longrightarrow> k \<notin> dom (content c) \<Longrightarrow> int (card (dom (content c))) = capacity c \<Longrightarrow>
      0 < capacity c \<Longrightarrow>
      \<exists>victim \<in> dom (content c).
        content (fst (op_add ops c k v)) = (content c)(victim := None, k \<mapsto> v) \<and> snd (op_add ops c k v)"
    and add_zero: "inv c \<Longrightarrow> capacity c = 0 \<Longrightarrow>
      content (fst (op_add ops c k v)) = content c \<and> \<not> snd (op_add ops c k v)"
    and remove_exact: "inv c \<Longrightarrow>
      content (fst (op_remove ops c k)) = (content c)(k := None) \<and>
      (snd (op_remove ops c k) \<longleftrightarrow> k \<in> dom (content c))"
    and resize_exact: "inv c \<Longrightarrow>
      int (card (dom (content (fst (op_resize ops c n))))) = min (int (card (dom (content c)))) (max 0 n) \<and>
      snd (op_resize ops c n) =
        int (card (dom (content c))) - int (card (dom (content (fst (op_resize ops c n)))))"
    and add_capacity: "inv c \<Longrightarrow> capacity (fst (op_add ops c k v)) = capacity c"
    and get_capacity: "inv c \<Longrightarrow> capacity (fst (op_get ops c k)) = capacity c"
    and purge_capacity: "inv c \<Longrightarrow> capacity (op_purge ops c) = capacity c"
    and remove_capacity: "inv c \<Longrightarrow> capacity (fst (op_remove ops c k)) = capacity c"
    and resize_capacity: "inv c \<Longrightarrow> capacity (fst (op_resize ops c n)) = max 0 n"
begin

lemma capacity_nonneg: "inv c \<Longrightarrow> 0 \<le> capacity c"
  using within_capacity [of c] by linarith

text \<open>An arm with room for anything keeps what it was just given.\<close>

lemma add_stored:
  assumes "inv c" and "0 < capacity c"
  shows "content (fst (op_add ops c k v)) k = Some v"
proof (cases "k \<in> dom (content c)")
  case True
  with add_resident [OF assms(1)] show ?thesis by simp
next
  case False
  show ?thesis
  proof (cases "int (card (dom (content c))) < capacity c")
    case True
    with add_room [OF assms(1) False] show ?thesis by simp
  next
    case full: False
    with within_capacity [OF assms(1)] have "int (card (dom (content c))) = capacity c" by simp
    from add_full [OF assms(1) False this assms(2)] obtain victim where
      "content (fst (op_add ops c k v)) = (content c)(victim := None, k \<mapsto> v)" by blast
    then show ?thesis by simp
  qed
qed

text \<open>Growing a cache loses nothing.\<close>

lemma resize_grow:
  assumes "inv c" and "capacity c \<le> n"
  shows "content (fst (op_resize ops c n)) = content c"
proof -
  let ?d = "fst (op_resize ops c n)"
  have "int (card (dom (content ?d))) = int (card (dom (content c)))"
    using resize_exact [OF assms(1), of n] within_capacity [OF assms(1)] assms(2)
      capacity_nonneg [OF assms(1)] by simp
  moreover have "content ?d \<subseteq>\<^sub>m content c" by (rule resize_content [OF assms(1)])
  ultimately have "dom (content ?d) = dom (content c)"
    using finite_content [OF assms(1)] by (metis card_subset_eq map_le_implies_dom_le of_nat_eq_iff)
  with \<open>content ?d \<subseteq>\<^sub>m content c\<close> show ?thesis
    by (metis map_le_antisym map_le_def)
qed

end

subsection \<open>The contract of a policy\<close>

text \<open>
  A policy is a cacher that counts: a lookup is one hit or one miss according to its result, and
  nothing else moves the counters. It also knows its own type, which never changes.
\<close>

definition outcome :: "'v option \<Rightarrow> policy_stats" where
  "outcome r = (if r \<noteq> None then \<lparr>Hits = 1, Misses = 0\<rparr> else \<lparr>Hits = 0, Misses = 1\<rparr>)"

locale policy_contract = cacher_contract ops inv content
  for ops :: "('c, 'k, 'v, 'z) policy_ops_scheme"
    and inv :: "'c \<Rightarrow> bool"
    and content :: "'c \<Rightarrow> 'k \<rightharpoonup> 'v" +
  assumes reset_inv: "inv c \<Longrightarrow> inv (op_reset_stats ops c)"
    and reset_content: "inv c \<Longrightarrow> content (op_reset_stats ops c) = content c"
    and add_type: "inv c \<Longrightarrow> op_get_type ops (fst (op_add ops c k v)) = op_get_type ops c"
    and get_type: "inv c \<Longrightarrow> op_get_type ops (fst (op_get ops c k)) = op_get_type ops c"
    and purge_type: "inv c \<Longrightarrow> op_get_type ops (op_purge ops c) = op_get_type ops c"
    and remove_type: "inv c \<Longrightarrow> op_get_type ops (fst (op_remove ops c k)) = op_get_type ops c"
    and resize_type: "inv c \<Longrightarrow> op_get_type ops (fst (op_resize ops c n)) = op_get_type ops c"
    and reset_type: "inv c \<Longrightarrow> op_get_type ops (op_reset_stats ops c) = op_get_type ops c"
    and get_stats: "inv c \<Longrightarrow> op_get_stats ops (fst (op_get ops c k)) =
      add_stats (op_get_stats ops c) (outcome (snd (op_get ops c k)))"
    and add_stats_same: "inv c \<Longrightarrow> op_get_stats ops (fst (op_add ops c k v)) = op_get_stats ops c"
    and purge_stats: "inv c \<Longrightarrow> op_get_stats ops (op_purge ops c) = op_get_stats ops c"
    and remove_stats: "inv c \<Longrightarrow> op_get_stats ops (fst (op_remove ops c k)) = op_get_stats ops c"
    and resize_stats: "inv c \<Longrightarrow> op_get_stats ops (fst (op_resize ops c n)) = op_get_stats ops c"
    and reset_stats: "inv c \<Longrightarrow> op_get_stats ops (op_reset_stats ops c) = zero_stats"
begin

lemmas policy_inv = op_inv reset_inv
lemmas policy_type_stable = add_type get_type purge_type remove_type resize_type reset_type

end

locale exact_policy = policy_contract ops inv content + exact_cacher ops inv content capacity
  for ops :: "('c, 'k, 'v, 'z) policy_ops_scheme"
    and inv :: "'c \<Rightarrow> bool"
    and content :: "'c \<Rightarrow> 'k \<rightharpoonup> 'v"
    and capacity :: "'c \<Rightarrow> int" +
  assumes cap_reports: "inv c \<Longrightarrow> max 0 (op_cap ops c) = capacity c"
    and reset_capacity: "inv c \<Longrightarrow> capacity (op_reset_stats ops c) = capacity c"

subsection \<open>CacheWrapper\<close>

text \<open>
  \<^verbatim>\<open>src/wrapper.go\<close>: a \<^verbatim>\<open>Cacher\<close> with a capacity, a policy type and hit and miss counters. The
  methods not overridden are promoted from the embedded \<^verbatim>\<open>Cacher\<close>.
\<close>

record 'c cache_wrapper =
  Cacher :: 'c
  wsize :: int
  wpolicy :: policy_type
  whits :: int
  wmisses :: int

definition NewCache :: "'c \<Rightarrow> policy_type \<Rightarrow> int \<Rightarrow> 'c cache_wrapper" where
  "NewCache cache policy sz =
     \<lparr>Cacher = cache, wsize = sz, wpolicy = policy, whits = 0, wmisses = 0\<rparr>"

definition wrapper_get ::
  "('c, 'k, 'v, 'z) cacher_ops_scheme \<Rightarrow> 'c cache_wrapper \<Rightarrow> 'k \<Rightarrow> 'c cache_wrapper \<times> 'v option"
  where
  "wrapper_get ops w key =
     (let (c, r) = op_get ops (Cacher w) key; w = w\<lparr>Cacher := c\<rparr>
      in if r \<noteq> None then (w\<lparr>whits := whits w + 1\<rparr>, r) else (w\<lparr>wmisses := wmisses w + 1\<rparr>, r))"

definition wrapper_cap :: "'c cache_wrapper \<Rightarrow> int" where
  "wrapper_cap w = wsize w"

definition wrapper_resize ::
  "('c, 'k, 'v, 'z) cacher_ops_scheme \<Rightarrow> 'c cache_wrapper \<Rightarrow> int \<Rightarrow> 'c cache_wrapper \<times> int" where
  "wrapper_resize ops w sz =
     (let (c, evicted) = op_resize ops (Cacher w) sz
      in (w\<lparr>Cacher := c, wsize := sz\<rparr>, evicted))"

definition wrapper_get_stats :: "'c cache_wrapper \<Rightarrow> policy_stats" where
  "wrapper_get_stats w = \<lparr>Hits = whits w, Misses = wmisses w\<rparr>"

definition wrapper_reset_stats :: "'c cache_wrapper \<Rightarrow> 'c cache_wrapper" where
  "wrapper_reset_stats w = w\<lparr>whits := 0, wmisses := 0\<rparr>"

definition wrapper_get_type :: "'c cache_wrapper \<Rightarrow> policy_type" where
  "wrapper_get_type w = wpolicy w"

definition wrapper_ops ::
  "('c, 'k, 'v, 'z) cacher_ops_scheme \<Rightarrow> ('c cache_wrapper, 'k, 'v) policy_ops" where
  "wrapper_ops ops =
     \<lparr>op_add = (\<lambda>w k v. let (c, ev) = op_add ops (Cacher w) k v in (w\<lparr>Cacher := c\<rparr>, ev)),
      op_contains = (\<lambda>w. op_contains ops (Cacher w)),
      op_get = wrapper_get ops,
      op_keys = (\<lambda>w. op_keys ops (Cacher w)),
      op_len = (\<lambda>w. op_len ops (Cacher w)),
      op_peek = (\<lambda>w. op_peek ops (Cacher w)),
      op_purge = (\<lambda>w. w\<lparr>Cacher := op_purge ops (Cacher w)\<rparr>),
      op_remove = (\<lambda>w k. let (c, present) = op_remove ops (Cacher w) k in (w\<lparr>Cacher := c\<rparr>, present)),
      op_resize = wrapper_resize ops,
      op_values = (\<lambda>w. op_values ops (Cacher w)),
      op_cap = wrapper_cap,
      op_get_stats = wrapper_get_stats,
      op_reset_stats = wrapper_reset_stats,
      op_get_type = wrapper_get_type\<rparr>"

text \<open>What each operation does to the wrapped cache and to its result.\<close>

lemma wrapper_ops_sel [simp]:
  "op_add (wrapper_ops ops) w k v = (w\<lparr>Cacher := fst (op_add ops (Cacher w) k v)\<rparr>, snd (op_add ops (Cacher w) k v))"
  "op_contains (wrapper_ops ops) w k = op_contains ops (Cacher w) k"
  "op_keys (wrapper_ops ops) w = op_keys ops (Cacher w)"
  "op_len (wrapper_ops ops) w = op_len ops (Cacher w)"
  "op_peek (wrapper_ops ops) w k = op_peek ops (Cacher w) k"
  "op_purge (wrapper_ops ops) w = w\<lparr>Cacher := op_purge ops (Cacher w)\<rparr>"
  "op_remove (wrapper_ops ops) w k = (w\<lparr>Cacher := fst (op_remove ops (Cacher w) k)\<rparr>, snd (op_remove ops (Cacher w) k))"
  "op_resize (wrapper_ops ops) w n = (w\<lparr>Cacher := fst (op_resize ops (Cacher w) n), wsize := n\<rparr>, snd (op_resize ops (Cacher w) n))"
  "op_values (wrapper_ops ops) w = op_values ops (Cacher w)"
  "op_cap (wrapper_ops ops) w = wsize w"
  "op_get_stats (wrapper_ops ops) w = \<lparr>Hits = whits w, Misses = wmisses w\<rparr>"
  "op_reset_stats (wrapper_ops ops) w = w\<lparr>whits := 0, wmisses := 0\<rparr>"
  "op_get_type (wrapper_ops ops) w = wpolicy w"
  by (simp_all add: wrapper_ops_def wrapper_resize_def wrapper_cap_def wrapper_get_stats_def
      wrapper_reset_stats_def wrapper_get_type_def split_beta)

lemma wrapper_get_sel [simp]:
  "snd (op_get (wrapper_ops ops) w k) = snd (op_get ops (Cacher w) k)"
  "Cacher (fst (op_get (wrapper_ops ops) w k)) = fst (op_get ops (Cacher w) k)"
  "wsize (fst (op_get (wrapper_ops ops) w k)) = wsize w"
  "wpolicy (fst (op_get (wrapper_ops ops) w k)) = wpolicy w"
  by (simp_all add: wrapper_ops_def wrapper_get_def split_beta Let_def)

lemma wrapper_get_counts:
  "\<lparr>Hits = whits (fst (op_get (wrapper_ops ops) w k)), Misses = wmisses (fst (op_get (wrapper_ops ops) w k))\<rparr> =
    add_stats \<lparr>Hits = whits w, Misses = wmisses w\<rparr> (outcome (snd (op_get ops (Cacher w) k)))"
  by (auto simp: wrapper_ops_def wrapper_get_def split_beta Let_def add_stats_def outcome_def)

text \<open>Wrapping turns a cacher's contract into a policy's.\<close>

definition wrapped :: "('c \<Rightarrow> 'a) \<Rightarrow> 'c cache_wrapper \<Rightarrow> 'a" where
  "wrapped f w = f (Cacher w)"

lemma wrapped_sel [simp]: "wrapped f w = f (Cacher w)"
  by (simp add: wrapped_def)

context cacher_contract begin

lemma wrapped_policy: "policy_contract (wrapper_ops ops) (wrapped inv) (wrapped content)"
  by unfold_locales
    (auto simp: op_inv add_content get_content get_result peek_result contains_result purge_content
      remove_content resize_content wrapper_get_counts
      dest: keys_content [THEN subsetD] values_content [THEN subsetD] contains_result)

end

text \<open>With exact bookkeeping inside, the wrapper's \<^verbatim>\<open>Cap\<close> is the wrapped cache's capacity.\<close>

definition wrapped_exact :: "('c \<Rightarrow> bool) \<Rightarrow> ('c \<Rightarrow> int) \<Rightarrow> 'c cache_wrapper \<Rightarrow> bool" where
  "wrapped_exact good capacity w \<longleftrightarrow> good (Cacher w) \<and> max 0 (wsize w) = capacity (Cacher w)"

context exact_cacher begin

lemma wrapped_exact_contract:
  "policy_contract (wrapper_ops ops) (wrapped_exact inv capacity) (wrapped content)"
  by unfold_locales
    (simp_all add: wrapped_exact_def op_inv add_content get_content get_result peek_result
      contains_result purge_content remove_content resize_content keys_content values_content
      wrapper_get_counts add_capacity get_capacity purge_capacity remove_capacity resize_capacity)

lemma wrapped_exact_cacher:
  "exact_cacher (wrapper_ops ops) (wrapped_exact inv capacity) (wrapped content) (wrapped capacity)"
proof (rule exact_cacher.intro)
  show "cacher_contract (wrapper_ops ops) (wrapped_exact inv capacity) (wrapped content)"
    by (rule policy_contract.axioms(1) [OF wrapped_exact_contract])
  show "exact_cacher_axioms (wrapper_ops ops) (wrapped_exact inv capacity) (wrapped content)
    (wrapped capacity)"
    by unfold_locales
      (simp_all add: wrapped_exact_def finite_content within_capacity get_finds get_keeps peek_finds
        contains_finds len_counts keys_enumerate values_enumerate add_resident add_room add_full
        add_zero remove_exact resize_exact add_capacity get_capacity purge_capacity remove_capacity
        resize_capacity del: domIff, blast dest: add_full)
qed

lemma wrapped_exact_policy:
  "exact_policy (wrapper_ops ops) (wrapped_exact inv capacity) (wrapped content) (wrapped capacity)"
  by (intro exact_policy.intro wrapped_exact_contract wrapped_exact_cacher exact_policy_axioms.intro)
    (simp_all add: wrapped_exact_def)

end

end
