(* ===== verification/SimpleLFU.thy ===== *)
theory SimpleLFU
  imports PolicyIface
begin

text \<open>
  The least-frequently-used cache of \<^verbatim>\<open>src/lfu/simplelfu/lfu.go\<close>: a map from keys to entries and, per
  frequency, a bucket of entries in recency order.

  Buckets are lists with the front first (\<^verbatim>\<open>PushFront\<close> is \<open>Cons\<close>, \<^verbatim>\<open>Back\<close> is \<open>last\<close>); theory
  \<^verbatim>\<open>LinkedList\<close> shows that the pointer structure of \<^verbatim>\<open>src/lfu/internal/list.go\<close> implements
  exactly these list operations. An entry is identified by its key, since a key has one entry at a time.

  The eviction callback is a flag (is one installed) and the log of its invocations. Dereferencing a
  bucket that is not there, or writing past the end of a slice, is a panic: \<^term>\<open>None\<close>.
\<close>

subsection \<open>State\<close>

record ('k, 'v) entry =
  Key :: 'k
  Value :: 'v
  Freq :: int

record ('k, 'v) lfu =
  lsize :: int
  minFreq :: int
  items :: "('k, ('k, 'v) entry) mapping"
  evictList :: "(int, ('k, 'v) entry list) mapping"
  onEvict :: bool
  calls :: "('k \<times> 'v) list"

datatype lfu_error = ErrPositiveSize

definition NewLFU :: "int \<Rightarrow> bool \<Rightarrow> lfu_error + ('k, 'v) lfu" where
  "NewLFU sz cb =
     (if sz \<le> 0 then Inl ErrPositiveSize
      else Inr \<lparr>lsize = sz, minFreq = 0, items = Mapping.empty, evictList = Mapping.empty,
                onEvict = cb, calls = []\<rparr>)"

subsection \<open>Buckets\<close>

text \<open>\<^verbatim>\<open>bucket.Remove(ent)\<close>\<close>

definition list_remove :: "('k, 'v) entry \<Rightarrow> ('k, 'v) entry list \<Rightarrow> ('k, 'v) entry list" where
  "list_remove ent = filter (\<lambda>x. Key x \<noteq> Key ent)"

text \<open>The list at a frequency, created empty when the map has none.\<close>

definition bucket_or_new :: "('k, 'v) lfu \<Rightarrow> int \<Rightarrow> ('k, 'v) entry list" where
  "bucket_or_new c freq = (case Mapping.lookup (evictList c) freq of None \<Rightarrow> [] | Some b \<Rightarrow> b)"

definition recomputeMinFreq :: "('k, 'v) lfu \<Rightarrow> ('k, 'v) lfu" where
  "recomputeMinFreq c =
     c\<lparr>minFreq := fold (\<lambda>freq m. if m = 0 \<or> freq < m then freq else m)
         (Mapping.ordered_keys (evictList c)) 0\<rparr>"

definition detach :: "('k, 'v) entry \<Rightarrow> ('k, 'v) lfu \<Rightarrow> ('k, 'v) lfu" where
  "detach ent c =
     (case Mapping.lookup (evictList c) (Freq ent) of
        None \<Rightarrow> c
      | Some bucket \<Rightarrow>
          (let bucket = list_remove ent bucket in
           if bucket \<noteq> [] then c\<lparr>evictList := Mapping.update (Freq ent) bucket (evictList c)\<rparr>
           else let c = c\<lparr>evictList := Mapping.delete (Freq ent) (evictList c)\<rparr> in
                if minFreq c = Freq ent then recomputeMinFreq c else c))"

definition notify :: "('k, 'v) entry \<Rightarrow> ('k, 'v) lfu \<Rightarrow> ('k, 'v) lfu" where
  "notify ent c = (if onEvict c then c\<lparr>calls := calls c @ [(Key ent, Value ent)]\<rparr> else c)"

definition removeElement :: "('k, 'v) entry \<Rightarrow> ('k, 'v) lfu \<Rightarrow> ('k, 'v) lfu" where
  "removeElement ent c =
     (let c = detach ent c; c = c\<lparr>items := Mapping.delete (Key ent) (items c)\<rparr> in notify ent c)"

definition updateFreq :: "('k, 'v) entry \<Rightarrow> ('k, 'v) lfu \<Rightarrow> ('k, 'v) lfu option" where
  "updateFreq ent c = do {
     let oldFreq = Freq ent;
     bucket \<leftarrow> Mapping.lookup (evictList c) oldFreq;
     let bucket = list_remove ent bucket;
     let c = c\<lparr>evictList := Mapping.update oldFreq bucket (evictList c)\<rparr>;
     let c = (if bucket = []
              then (let c = c\<lparr>evictList := Mapping.delete oldFreq (evictList c)\<rparr> in
                    if minFreq c = oldFreq then c\<lparr>minFreq := oldFreq + 1\<rparr> else c)
              else c);
     let newFreq = oldFreq + 1;
     let ent = ent\<lparr>Freq := newFreq\<rparr>;
     let c = c\<lparr>evictList := Mapping.update newFreq (ent # bucket_or_new c newFreq) (evictList c)\<rparr>;
     Some (c\<lparr>items := Mapping.update (Key ent) ent (items c)\<rparr>)
   }"

subsection \<open>Operations\<close>

definition lfu_len :: "('k, 'v) lfu \<Rightarrow> int" where
  "lfu_len c = int (Mapping.size (items c))"

definition oldest :: "('k, 'v) lfu \<Rightarrow> ('k, 'v) entry option" where
  "oldest c =
     (if Mapping.size (items c) = 0 then None
      else case Mapping.lookup (evictList c) (minFreq c) of
             None \<Rightarrow> None
           | Some bucket \<Rightarrow> if bucket = [] then None else Some (last bucket))"

definition GetOldest :: "('k, 'v) lfu \<Rightarrow> ('k \<times> 'v) option" where
  "GetOldest c = map_option (\<lambda>ent. (Key ent, Value ent)) (oldest c)"

definition evictOldest :: "('k, 'v) lfu \<Rightarrow> ('k, 'v) lfu \<times> ('k \<times> 'v) option" where
  "evictOldest c =
     (case oldest c of
        None \<Rightarrow> (c, None)
      | Some ent \<Rightarrow>
          (let c = detach ent c; c = c\<lparr>items := Mapping.delete (Key ent) (items c)\<rparr>
           in (notify ent c, Some (Key ent, Value ent))))"

definition RemoveOldest :: "('k, 'v) lfu \<Rightarrow> ('k, 'v) lfu \<times> ('k \<times> 'v) option" where
  "RemoveOldest c = evictOldest c"

definition lfu_add :: "('k, 'v) lfu \<Rightarrow> 'k \<Rightarrow> 'v \<Rightarrow> (('k, 'v) lfu \<times> bool) option" where
  "lfu_add c key val =
     (if lsize c \<le> 0 then Some (c, False)
      else case Mapping.lookup (items c) key of
        Some ent \<Rightarrow> map_option (\<lambda>c. (c, False)) (updateFreq (ent\<lparr>Value := val\<rparr>) c)
      | None \<Rightarrow>
          (let (c, evicted) =
             (if Mapping.size (items c) > 0 \<and> lfu_len c \<ge> lsize c
              then (let (c, victim) = evictOldest c in (c, victim \<noteq> None)) else (c, False));
               newFreq = 1;
               ent = \<lparr>Key = key, Value = val, Freq = newFreq\<rparr>;
               c = c\<lparr>evictList := Mapping.update newFreq (ent # bucket_or_new c newFreq) (evictList c)\<rparr>;
               c = c\<lparr>items := Mapping.update key ent (items c)\<rparr>;
               c = c\<lparr>minFreq := newFreq\<rparr>
           in Some (c, evicted)))"

definition lfu_get :: "('k, 'v) lfu \<Rightarrow> 'k \<Rightarrow> (('k, 'v) lfu \<times> 'v option) option" where
  "lfu_get c key =
     (case Mapping.lookup (items c) key of
        None \<Rightarrow> Some (c, None)
      | Some ent \<Rightarrow> map_option (\<lambda>c. (c, Some (Value ent))) (updateFreq ent c))"

definition lfu_contains :: "('k, 'v) lfu \<Rightarrow> 'k \<Rightarrow> bool" where
  "lfu_contains c key \<longleftrightarrow> Mapping.lookup (items c) key \<noteq> None"

definition lfu_peek :: "('k, 'v) lfu \<Rightarrow> 'k \<Rightarrow> 'v option" where
  "lfu_peek c key = map_option Value (Mapping.lookup (items c) key)"

definition lfu_remove :: "('k, 'v) lfu \<Rightarrow> 'k \<Rightarrow> ('k, 'v) lfu \<times> bool" where
  "lfu_remove c key =
     (case Mapping.lookup (items c) key of
        None \<Rightarrow> (c, False)
      | Some ent \<Rightarrow> (removeElement ent c, True))"

text \<open>
  \<^verbatim>\<open>Keys\<close> and \<^verbatim>\<open>Values\<close> fill a slice of \<^verbatim>\<open>len(items)\<close> elements from the buckets, lowest frequency
  first, oldest first. Too many entries would write past the end; too few would leave zero values.
\<close>

definition entries_in_order :: "('k, 'v) lfu \<Rightarrow> ('k, 'v) entry list" where
  "entries_in_order c = concat (map (\<lambda>f. rev (bucket_or_new c f)) (Mapping.ordered_keys (evictList c)))"

definition fill_slice :: "'a \<Rightarrow> nat \<Rightarrow> 'a list \<Rightarrow> 'a list option" where
  "fill_slice z n xs = (if length xs > n then None else Some (xs @ replicate (n - length xs) z))"

definition lfu_keys :: "'k \<Rightarrow> ('k, 'v) lfu \<Rightarrow> 'k list option" where
  "lfu_keys zk c = fill_slice zk (Mapping.size (items c)) (map Key (entries_in_order c))"

definition lfu_values :: "'v \<Rightarrow> ('k, 'v) lfu \<Rightarrow> 'v list option" where
  "lfu_values zv c = fill_slice zv (Mapping.size (items c)) (map Value (entries_in_order c))"

text \<open>The loop of \<^verbatim>\<open>Resize\<close>: at most \<open>n\<close> evictions, stopping when there is nothing left.\<close>

fun evict_loop :: "nat \<Rightarrow> ('k, 'v) lfu \<times> int \<Rightarrow> ('k, 'v) lfu \<times> int" where
  "evict_loop 0 s = s"
| "evict_loop (Suc n) (c, evicted) =
     (case evictOldest c of
        (c', None) \<Rightarrow> (c', evicted)
      | (c', Some _) \<Rightarrow> evict_loop n (c', evicted + 1))"

text \<open>
  Sizes are integers: that \<^verbatim>\<open>Len() - size\<close> wraps around for a size within the length of the smallest \<^verbatim>\<open>int\<close>, about
  \<open>- 2^63\<close>, where nothing is evicted, is not modelled.
\<close>

definition lfu_resize :: "('k, 'v) lfu \<Rightarrow> int \<Rightarrow> ('k, 'v) lfu \<times> int" where
  "lfu_resize c sz =
     (let diff = lfu_len c - sz;
          diff = (if diff < 0 then 0 else diff);
          (c, evicted) = evict_loop (nat diff) (c, 0)
      in (c\<lparr>lsize := sz\<rparr>, evicted))"

text \<open>
  \<^verbatim>\<open>Purge\<close> ranges over the items map, deleting each entry and calling back for it; the order is the
  runtime's choice, given by \<open>order\<close>.
\<close>

definition lfu_purge :: "('k set \<Rightarrow> 'k list) \<Rightarrow> ('k, 'v) lfu \<Rightarrow> ('k, 'v) lfu" where
  "lfu_purge order c =
     (let visited = List.map_filter (\<lambda>k. map_option (\<lambda>ent. (k, Value ent)) (Mapping.lookup (items c) k))
            (order (Mapping.keys (items c)))
      in c\<lparr>calls := (if onEvict c then calls c @ visited else calls c),
           items := Mapping.empty, evictList := Mapping.empty, minFreq := 0\<rparr>)"

end
