(* ===== verification/LFUOrder.thy ===== *)
theory LFUOrder
  imports SimpleLFU
begin

text \<open>
  Correctness of the LFU cache. The buckets and \<^verbatim>\<open>minFreq\<close> implement one list, the eviction order:
  entries by frequency, ties by age. Every operation refines its counterpart on that list, none can
  panic, and the cache satisfies the exact contract of an arm.
\<close>

subsection \<open>The shape of items and buckets\<close>

text \<open>\<open>its\<close> is the items map and \<open>bk\<close> gives every frequency its bucket, empty where there is none.\<close>

definition lfu_shape :: "('k \<rightharpoonup> ('k, 'v) entry) \<Rightarrow> (int \<Rightarrow> ('k, 'v) entry list) \<Rightarrow> bool" where
  "lfu_shape its bk \<longleftrightarrow> finite (dom its) \<and>
     (\<forall>f ent. ent \<in> set (bk f) \<longrightarrow> Freq ent = f \<and> 0 < f \<and> its (Key ent) = Some ent) \<and>
     (\<forall>f. distinct (map Key (bk f))) \<and>
     (\<forall>k ent. its k = Some ent \<longrightarrow> Key ent = k \<and> ent \<in> set (bk (Freq ent)))"

lemma shapeD:
  assumes "lfu_shape its bk"
  shows "finite (dom its)"
    and "ent \<in> set (bk f) \<Longrightarrow> Freq ent = f"
    and "ent \<in> set (bk f) \<Longrightarrow> 0 < f"
    and "ent \<in> set (bk f) \<Longrightarrow> its (Key ent) = Some ent"
    and "distinct (map Key (bk f))"
    and "its k = Some ent \<Longrightarrow> Key ent = k"
    and "its k = Some ent \<Longrightarrow> ent \<in> set (bk (Freq ent))"
  using assms by (auto simp: lfu_shape_def)

lemma shapeI:
  assumes "finite (dom its)"
    and "\<And>f ent. ent \<in> set (bk f) \<Longrightarrow> Freq ent = f \<and> 0 < f \<and> its (Key ent) = Some ent"
    and "\<And>f. distinct (map Key (bk f))"
    and "\<And>k ent. its k = Some ent \<Longrightarrow> Key ent = k \<and> ent \<in> set (bk (Freq ent))"
  shows "lfu_shape its bk"
  using assms by (simp add: lfu_shape_def)

lemma shape_remove:
  assumes s: "lfu_shape its bk" and k: "its k = Some ent"
  shows "lfu_shape (its(k := None)) (bk(Freq ent := filter (\<lambda>x. Key x \<noteq> k) (bk (Freq ent))))"
proof (rule shapeI)
  fix f x assume "x \<in> set ((bk(Freq ent := filter (\<lambda>x. Key x \<noteq> k) (bk (Freq ent)))) f)"
  then have x: "x \<in> set (bk f)" "f = Freq ent \<Longrightarrow> Key x \<noteq> k" by (auto split: if_splits)
  then have "Key x \<noteq> k" using shapeD(2,4) [OF s x(1)] k by auto
  with shapeD(2-4) [OF s x(1)] show "Freq x = f \<and> 0 < f \<and> (its(k := None)) (Key x) = Some x" by simp
next
  fix f show "distinct (map Key ((bk(Freq ent := filter (\<lambda>x. Key x \<noteq> k) (bk (Freq ent)))) f))"
    using shapeD(5) [OF s] by (simp add: distinct_map_filter)
next
  fix j x assume "(its(k := None)) j = Some x"
  then have "its j = Some x" "j \<noteq> k" by (auto split: if_splits)
  with shapeD(6,7) [OF s this(1)]
  show "Key x = j \<and> x \<in> set ((bk(Freq ent := filter (\<lambda>x. Key x \<noteq> k) (bk (Freq ent)))) (Freq x))"
    by (cases "Freq x = Freq ent") auto
qed (use shapeD(1) [OF s] in simp)

lemma shape_push:
  assumes s: "lfu_shape its bk" and new: "its (Key ent) = None" and pos: "0 < Freq ent"
  shows "lfu_shape (its(Key ent \<mapsto> ent)) (bk(Freq ent := ent # bk (Freq ent)))"
proof -
  have fresh: "Key x \<noteq> Key ent" if "x \<in> set (bk f)" for x f
    using shapeD(4) [OF s that] new by auto
  show ?thesis
  proof (rule shapeI)
    fix f x assume "x \<in> set ((bk(Freq ent := ent # bk (Freq ent))) f)"
    then have "x = ent \<and> f = Freq ent \<or> x \<in> set (bk f)" by (auto split: if_splits)
    then show "Freq x = f \<and> 0 < f \<and> (its(Key ent \<mapsto> ent)) (Key x) = Some x"
      using pos shapeD(2-4) [OF s] fresh by auto
  next
    fix f show "distinct (map Key ((bk(Freq ent := ent # bk (Freq ent))) f))"
      using shapeD(5) [OF s] fresh by fastforce
  next
    fix j x assume "(its(Key ent \<mapsto> ent)) j = Some x"
    then have "x = ent \<and> j = Key ent \<or> its j = Some x" by (auto split: if_splits)
    then show "Key x = j \<and> x \<in> set ((bk(Freq ent := ent # bk (Freq ent))) (Freq x))"
      using shapeD(6,7) [OF s, of j x] by (cases "Freq x = Freq ent") auto
  qed (use shapeD(1) [OF s] in simp)
qed

lemma shape_move:
  assumes s: "lfu_shape its bk" and k: "its (Key ent) = Some ent'" and f: "Freq ent = f + 1" "Freq ent' = f"
  shows "lfu_shape (its(Key ent \<mapsto> ent))
    (bk(f := filter (\<lambda>x. Key x \<noteq> Key ent) (bk f), f + 1 := ent # bk (f + 1)))"
proof -
  have "0 < f" using shapeD(3) [OF s shapeD(7) [OF s k]] f by simp
  with shape_push [OF shape_remove [OF s k], of ent] f show ?thesis by simp
qed

definition lfu_wf :: "('k, 'v) lfu \<Rightarrow> bool" where
  "lfu_wf c \<longleftrightarrow> lfu_shape (Mapping.lookup (items c)) (bucket_or_new c) \<and>
     (\<forall>f. Mapping.lookup (evictList c) f \<noteq> Some [])"

definition lfu_min :: "('k, 'v) lfu \<Rightarrow> bool" where
  "lfu_min c \<longleftrightarrow> Mapping.lookup (items c) = Map.empty \<or>
     bucket_or_new c (minFreq c) \<noteq> [] \<and> (\<forall>f. bucket_or_new c f \<noteq> [] \<longrightarrow> minFreq c \<le> f)"

definition lfu_inv :: "('k, 'v) lfu \<Rightarrow> bool" where
  "lfu_inv c \<longleftrightarrow> lfu_wf c \<and> lfu_min c \<and> lfu_len c \<le> max 0 (lsize c)"

lemma bucket_lookup:
  "lfu_wf c \<Longrightarrow> Mapping.lookup (evictList c) f =
    (if bucket_or_new c f = [] then None else Some (bucket_or_new c f))"
  by (auto simp: lfu_wf_def bucket_or_new_def split: option.split)

lemma lfu_wf_fields:
  assumes "lfu_wf c"
  shows "finite (dom (Mapping.lookup (items c)))"
    and "ent \<in> set (bucket_or_new c f) \<Longrightarrow> Freq ent = f \<and> 0 < f \<and> Mapping.lookup (items c) (Key ent) = Some ent"
    and "distinct (map Key (bucket_or_new c f))"
    and "Mapping.lookup (items c) k = Some ent \<Longrightarrow> Key ent = k \<and> ent \<in> set (bucket_or_new c (Freq ent))"
  using assms by (auto simp: lfu_wf_def lfu_shape_def)

lemma lfu_len_card: "lfu_wf c \<Longrightarrow> lfu_len c = int (card (dom (Mapping.lookup (items c))))"
  by (simp add: lfu_len_def mapping_size lfu_wf_fields)

lemma lfu_empty_iff: "lfu_wf c \<Longrightarrow> Mapping.size (items c) = 0 \<longleftrightarrow> Mapping.lookup (items c) = Map.empty"
  by (simp add: mapping_size lfu_wf_fields)

lemma buckets_empty_iff:
  assumes "lfu_wf c"
  shows "Mapping.lookup (items c) = Map.empty \<longleftrightarrow> (\<forall>f. bucket_or_new c f = [])"
proof
  assume "Mapping.lookup (items c) = Map.empty"
  then show "\<forall>f. bucket_or_new c f = []"
    using lfu_wf_fields(2) [OF assms] by (metis list.set_intros(1) neq_Nil_conv option.distinct(1))
next
  assume "\<forall>f. bucket_or_new c f = []"
  then show "Mapping.lookup (items c) = Map.empty"
    using lfu_wf_fields(4) [OF assms] by (metis empty_iff empty_set ext option.exhaust)
qed

lemma finite_buckets:
  assumes "lfu_wf c"
  shows "finite (dom (Mapping.lookup (evictList c)))"
proof (rule finite_subset)
  show "dom (Mapping.lookup (evictList c)) \<subseteq> Freq ` ran (Mapping.lookup (items c))"
  proof
    fix f assume "f \<in> dom (Mapping.lookup (evictList c))"
    then obtain x xs where "bucket_or_new c f = x # xs"
      using bucket_lookup [OF assms, of f] by (cases "bucket_or_new c f") auto
    then have "Freq x = f" "Mapping.lookup (items c) (Key x) = Some x"
      using lfu_wf_fields(2) [OF assms, of x f] by simp_all
    then show "f \<in> Freq ` ran (Mapping.lookup (items c))" by (auto simp: ran_def)
  qed
  show "finite (Freq ` ran (Mapping.lookup (items c)))"
    using finite_ran [OF lfu_wf_fields(1) [OF assms]] by simp
qed

lemma buckets_dom:
  assumes "lfu_wf c"
  shows "dom (Mapping.lookup (evictList c)) = {f. bucket_or_new c f \<noteq> []}"
  using bucket_lookup [OF assms] by (auto split: if_splits)

subsection \<open>The pieces of every operation\<close>

text \<open>Adding or replacing a bucket, in terms of the bucket function.\<close>

lemma bucket_update [simp]:
  "bucket_or_new (c\<lparr>evictList := Mapping.update f b m\<rparr>) g =
    (if g = f then b else bucket_or_new (c\<lparr>evictList := m\<rparr>) g)"
  "bucket_or_new (c\<lparr>evictList := Mapping.delete f m\<rparr>) g =
    (if g = f then [] else bucket_or_new (c\<lparr>evictList := m\<rparr>) g)"
  "bucket_or_new (c\<lparr>evictList := evictList c\<rparr>) g = bucket_or_new c g"
  "bucket_or_new (c\<lparr>items := its\<rparr>) g = bucket_or_new c g"
  "bucket_or_new (c\<lparr>minFreq := n\<rparr>) g = bucket_or_new c g"
  "bucket_or_new (c\<lparr>lsize := n\<rparr>) g = bucket_or_new c g"
  "bucket_or_new (c\<lparr>calls := cs\<rparr>) g = bucket_or_new c g"
  by (simp_all add: bucket_or_new_def)

lemma recompute_fields [simp]:
  "bucket_or_new (recomputeMinFreq c) = bucket_or_new c"
  "items (recomputeMinFreq c) = items c"
  "evictList (recomputeMinFreq c) = evictList c"
  "lsize (recomputeMinFreq c) = lsize c"
  "calls (recomputeMinFreq c) = calls c"
  "onEvict (recomputeMinFreq c) = onEvict c"
  by (simp_all add: recomputeMinFreq_def fun_eq_iff)

text \<open>The scan for the smallest frequency finds it: frequencies are positive.\<close>

lemma min_scan:
  assumes "\<forall>f \<in> set fs. 0 < (f :: int)" "0 \<le> m"
  shows "let r = fold (\<lambda>f m. if m = 0 \<or> f < m then f else m) fs m in
    (r = 0 \<longleftrightarrow> m = 0 \<and> fs = []) \<and> (r \<noteq> 0 \<longrightarrow> 0 < r \<and> (r = m \<or> r \<in> set fs) \<and> (\<forall>f \<in> set fs. r \<le> f) \<and> (m \<noteq> 0 \<longrightarrow> r \<le> m))"
  using assms
proof (induction fs arbitrary: m)
  case (Cons f fs)
  let ?m = "if m = 0 \<or> f < m then f else m"
  have "0 < ?m" using Cons.prems by auto
  with Cons.IH [of ?m] Cons.prems show ?case
    by (auto simp: Let_def split: if_splits)
qed simp

lemma recompute_min:
  assumes fin: "finite (dom (Mapping.lookup (evictList c)))"
    and pos: "\<And>f. f \<in> dom (Mapping.lookup (evictList c)) \<Longrightarrow> 0 < f"
    and ne: "dom (Mapping.lookup (evictList c)) \<noteq> {}"
  shows "minFreq (recomputeMinFreq c) \<in> dom (Mapping.lookup (evictList c)) \<and>
    (\<forall>f \<in> dom (Mapping.lookup (evictList c)). minFreq (recomputeMinFreq c) \<le> f)"
proof -
  have keys: "set (Mapping.ordered_keys (evictList c)) = dom (Mapping.lookup (evictList c))"
    using mapping_ordered_keys [OF fin] by simp
  then have "Mapping.ordered_keys (evictList c) \<noteq> []" using ne by (metis empty_set)
  with min_scan [of "Mapping.ordered_keys (evictList c)" 0] pos show ?thesis
    unfolding recomputeMinFreq_def Let_def keys by simp
qed

text \<open>Unlinking an entry and forgetting its key.\<close>

definition unlink :: "('k, 'v) entry \<Rightarrow> ('k, 'v) lfu \<Rightarrow> ('k, 'v) lfu" where
  "unlink ent c = (let c = detach ent c in c\<lparr>items := Mapping.delete (Key ent) (items c)\<rparr>)"

lemma detach_fields [simp]:
  "items (detach ent c) = items c"
  "lsize (detach ent c) = lsize c"
  "calls (detach ent c) = calls c"
  "onEvict (detach ent c) = onEvict c"
  by (auto simp: detach_def Let_def split: option.split)

lemma notify_fields [simp]:
  "items (notify ent c) = items c"
  "lsize (notify ent c) = lsize c"
  "evictList (notify ent c) = evictList c"
  "minFreq (notify ent c) = minFreq c"
  "bucket_or_new (notify ent c) = bucket_or_new c"
  by (simp_all add: notify_def fun_eq_iff)

lemma notify_wf [simp]:
  "lfu_wf (notify ent c) = lfu_wf c" "lfu_min (notify ent c) = lfu_min c"
  "lfu_len (notify ent c) = lfu_len c"
  by (simp_all add: lfu_wf_def lfu_min_def lfu_len_def)

lemma detach_buckets:
  assumes "lfu_wf c" "Mapping.lookup (items c) (Key ent) = Some ent"
  shows "bucket_or_new (detach ent c) =
      (bucket_or_new c)(Freq ent := filter (\<lambda>x. Key x \<noteq> Key ent) (bucket_or_new c (Freq ent)))"
    and "Mapping.lookup (evictList (detach ent c)) f \<noteq> Some []"
proof -
  have "bucket_or_new c (Freq ent) \<noteq> []" using lfu_wf_fields(4) [OF assms] by auto
  then have b: "Mapping.lookup (evictList c) (Freq ent) = Some (bucket_or_new c (Freq ent))"
    using bucket_lookup [OF assms(1)] by simp
  show "bucket_or_new (detach ent c) =
      (bucket_or_new c)(Freq ent := filter (\<lambda>x. Key x \<noteq> Key ent) (bucket_or_new c (Freq ent)))"
    by (auto simp: detach_def b Let_def list_remove_def fun_eq_iff)
  show "Mapping.lookup (evictList (detach ent c)) f \<noteq> Some []"
    using assms(1) by (auto simp: detach_def b Let_def list_remove_def lfu_wf_def)
qed

lemma unlink_wf:
  assumes "lfu_wf c" "Mapping.lookup (items c) (Key ent) = Some ent"
  shows "lfu_wf (unlink ent c)"
    and "Mapping.lookup (items (unlink ent c)) = (Mapping.lookup (items c))(Key ent := None)"
    and "bucket_or_new (unlink ent c) =
      (bucket_or_new c)(Freq ent := filter (\<lambda>x. Key x \<noteq> Key ent) (bucket_or_new c (Freq ent)))"
proof -
  show its: "Mapping.lookup (items (unlink ent c)) = (Mapping.lookup (items c))(Key ent := None)"
    by (auto simp: unlink_def Let_def fun_eq_iff)
  show bk: "bucket_or_new (unlink ent c) =
      (bucket_or_new c)(Freq ent := filter (\<lambda>x. Key x \<noteq> Key ent) (bucket_or_new c (Freq ent)))"
    using detach_buckets(1) [OF assms] by (auto simp: unlink_def Let_def fun_eq_iff)
  have "lfu_shape (Mapping.lookup (items c)) (bucket_or_new c)" using assms(1) by (simp add: lfu_wf_def)
  from shape_remove [OF this assms(2)] show "lfu_wf (unlink ent c)"
    using detach_buckets(2) [OF assms] by (simp add: lfu_wf_def its bk) (simp add: unlink_def Let_def)
qed

lemma unlink_min:
  assumes wf: "lfu_wf c" and ent: "Mapping.lookup (items c) (Key ent) = Some ent" and min: "lfu_min c"
  shows "lfu_min (unlink ent c)"
proof (cases "Mapping.lookup (items (unlink ent c)) = Map.empty")
  case False
  note un = unlink_wf [OF wf ent]
  have m: "bucket_or_new c (minFreq c) \<noteq> []" "\<forall>f. bucket_or_new c f \<noteq> [] \<longrightarrow> minFreq c \<le> f"
    using min ent by (auto simp: lfu_min_def)
  have "bucket_or_new c (Freq ent) \<noteq> []" using lfu_wf_fields(4) [OF wf ent] by auto
  then have b: "Mapping.lookup (evictList c) (Freq ent) = Some (bucket_or_new c (Freq ent))"
    using bucket_lookup [OF wf] by simp
  let ?rest = "list_remove ent (bucket_or_new c (Freq ent))"
  show ?thesis
  proof (cases "?rest = [] \<and> minFreq c = Freq ent")
    case True
    let ?d = "c\<lparr>evictList := Mapping.delete (Freq ent) (evictList c)\<rparr>"
    have u: "unlink ent c = (recomputeMinFreq ?d)\<lparr>items := Mapping.delete (Key ent) (items c)\<rparr>"
      using True by (simp add: unlink_def detach_def b Let_def)
    have dom: "dom (Mapping.lookup (evictList ?d)) = {f. bucket_or_new (unlink ent c) f \<noteq> []}"
      using buckets_dom [OF un(1)] by (simp add: u)
    have "\<exists>f. bucket_or_new (unlink ent c) f \<noteq> []" using False buckets_empty_iff [OF un(1)] by blast
    moreover have "0 < f" if "bucket_or_new (unlink ent c) f \<noteq> []" for f
      using that lfu_wf_fields(2) [OF un(1), of _ f] by (cases "bucket_or_new (unlink ent c) f") auto
    moreover have "finite (dom (Mapping.lookup (evictList ?d)))"
      using finite_buckets [OF un(1)] by (simp add: u)
    ultimately have "minFreq (recomputeMinFreq ?d) \<in> {f. bucket_or_new (unlink ent c) f \<noteq> []} \<and>
        (\<forall>f \<in> {f. bucket_or_new (unlink ent c) f \<noteq> []}. minFreq (recomputeMinFreq ?d) \<le> f)"
      using recompute_min [of ?d] unfolding dom by auto
    then show ?thesis by (simp add: lfu_min_def) (simp add: u)
  next
    case other: False
    then have "minFreq (unlink ent c) = minFreq c"
      by (auto simp: unlink_def detach_def b Let_def)
    moreover have "bucket_or_new (unlink ent c) (minFreq c) \<noteq> []"
      using m(1) other by (auto simp: un(3) list_remove_def)
    moreover have "bucket_or_new c f \<noteq> []" if "bucket_or_new (unlink ent c) f \<noteq> []" for f
      using that by (auto simp: un(3) split: if_splits)
    ultimately show ?thesis using m(2) by (simp add: lfu_min_def)
  qed
qed (simp add: lfu_min_def)

lemma unlink_fields [simp]:
  "lsize (unlink ent c) = lsize c" "calls (unlink ent c) = calls c" "onEvict (unlink ent c) = onEvict c"
  by (simp_all add: unlink_def Let_def)

lemma removeElement_unlink: "removeElement ent c = notify ent (unlink ent c)"
  by (simp add: removeElement_def unlink_def Let_def)

subsection \<open>The eviction order\<close>

text \<open>The order as a list, and the two moves every operation is made of.\<close>

definition order_insert :: "('k, 'v) entry \<Rightarrow> ('k, 'v) entry list \<Rightarrow> ('k, 'v) entry list" where
  "order_insert ent xs =
     takeWhile (\<lambda>x. Freq x \<le> Freq ent) xs @ ent # dropWhile (\<lambda>x. Freq x \<le> Freq ent) xs"

definition order_remove :: "'k \<Rightarrow> ('k, 'v) entry list \<Rightarrow> ('k, 'v) entry list" where
  "order_remove k = filter (\<lambda>x. Key x \<noteq> k)"

lemma dropWhile_above:
  assumes "sorted (map f xs)" "x \<in> set (dropWhile (\<lambda>x. f x \<le> b) xs)"
  shows "b < (f x :: int)"
  using assms
proof (induction xs)
  case (Cons a xs)
  then show ?case by (cases "f a \<le> b") auto
qed simp

lemma order_insert_sorted:
  assumes "sorted (map Freq xs)"
  shows "sorted (map Freq (order_insert ent xs))"
  unfolding order_insert_def
proof (rule sorted_between)
  show "sorted (map Freq (takeWhile (\<lambda>x. Freq x \<le> Freq ent) xs @ dropWhile (\<lambda>x. Freq x \<le> Freq ent) xs))"
    unfolding takeWhile_dropWhile_id by (rule assms)
next
  fix x assume "x \<in> set (takeWhile (\<lambda>x. Freq x \<le> Freq ent) xs)"
  from set_takeWhileD [OF this] show "Freq x \<le> Freq ent" by (rule conjunct2)
next
  fix x assume "x \<in> set (dropWhile (\<lambda>x. Freq x \<le> Freq ent) xs)"
  from dropWhile_above [OF assms this] show "Freq ent \<le> Freq x" by (rule less_imp_le)
qed

lemma order_insert_class:
  assumes "sorted (map Freq xs)"
  shows "filter (\<lambda>x. Freq x = f) (order_insert ent xs) =
    (if f = Freq ent then filter (\<lambda>x. Freq x = f) xs @ [ent] else filter (\<lambda>x. Freq x = f) xs)"
proof -
  let ?t = "takeWhile (\<lambda>x. Freq x \<le> Freq ent) xs" and ?d = "dropWhile (\<lambda>x. Freq x \<le> Freq ent) xs"
  have split: "filter (\<lambda>x. Freq x = f) xs = filter (\<lambda>x. Freq x = f) ?t @ filter (\<lambda>x. Freq x = f) ?d"
    by (metis filter_append takeWhile_dropWhile_id)
  have "filter (\<lambda>x. Freq x = Freq ent) ?d = []"
    using dropWhile_above [OF assms] by (fastforce simp: filter_empty_conv)
  with split show ?thesis by (auto simp: order_insert_def)
qed

lemma order_remove_sorted: "sorted (map Freq xs) \<Longrightarrow> sorted (map Freq (order_remove k xs))"
  by (simp add: order_remove_def sorted_filter)

lemma order_remove_class:
  "filter (\<lambda>x. Freq x = f) (order_remove k xs) = filter (\<lambda>x. Key x \<noteq> k) (filter (\<lambda>x. Freq x = f) xs)"
  by (simp add: order_remove_def conj_commute)

lemma order_remove_absent: "k \<notin> Key ` set xs \<Longrightarrow> order_remove k xs = xs"
  by (auto simp: order_remove_def filter_id_conv)

lemma concat_buckets:
  fixes fs :: "int list"
  assumes "sorted fs" "distinct fs" "\<And>f x. x \<in> set (g f) \<Longrightarrow> h x = f"
  shows "sorted (map h (concat (map g fs)))"
    and "filter (\<lambda>x. h x = f) (concat (map g fs)) = (if f \<in> set fs then g f else [])"
proof -
  show "sorted (map h (concat (map g fs)))"
    using assms(1)
  proof (induction fs)
    case (Cons f fs)
    have "sorted (map h (g f))"
      using assms(3) [of _ f] by (simp add: sorted_iff_nth_mono)
    with Cons assms(3) show ?case by (fastforce simp: sorted_append)
  qed simp
  show "filter (\<lambda>x. h x = f) (concat (map g fs)) = (if f \<in> set fs then g f else [])"
    using assms(2)
  proof (induction fs)
    case (Cons a fs)
    have "filter (\<lambda>x. h x = f) (g a) = (if f = a then g a else [])"
      using assms(3) [of _ a] by (auto simp: filter_id_conv filter_empty_conv)
    with Cons show ?case by auto
  qed simp
qed

lemma order_facts:
  assumes "lfu_wf c"
  shows "sorted (map Freq (entries_in_order c))"
    and "filter (\<lambda>x. Freq x = f) (entries_in_order c) = rev (bucket_or_new c f)"
proof -
  note keys = mapping_ordered_keys [OF finite_buckets [OF assms]]
  have freq: "x \<in> set (rev (bucket_or_new c f)) \<Longrightarrow> Freq x = f" for f x
    using lfu_wf_fields(2) [OF assms, of x f] by simp
  show "sorted (map Freq (entries_in_order c))"
    unfolding entries_in_order_def by (rule concat_buckets(1)) (use keys freq in auto)
  have "filter (\<lambda>x. Freq x = f) (entries_in_order c) =
      (if f \<in> set (Mapping.ordered_keys (evictList c)) then rev (bucket_or_new c f) else [])"
    unfolding entries_in_order_def by (rule concat_buckets(2)) (use keys freq in auto)
  then show "filter (\<lambda>x. Freq x = f) (entries_in_order c) = rev (bucket_or_new c f)"
    using keys buckets_dom [OF assms] by auto
qed

text \<open>Any list with the right classes is the order.\<close>

lemma order_unique:
  assumes "lfu_wf c" "sorted (map Freq xs)" "\<And>f. filter (\<lambda>x. Freq x = f) xs = rev (bucket_or_new c f)"
  shows "entries_in_order c = xs"
  by (rule sorted_classes_unique [where f = Freq])
    (simp_all only: order_facts [OF assms(1)] assms(2,3))

lemma in_order_iff:
  assumes "lfu_wf c"
  shows "x \<in> set (entries_in_order c) \<longleftrightarrow> Mapping.lookup (items c) (Key x) = Some x"
proof -
  have "x \<in> set (entries_in_order c) \<longleftrightarrow> x \<in> set (filter (\<lambda>y. Freq y = Freq x) (entries_in_order c))"
    by simp
  also have "\<dots> \<longleftrightarrow> x \<in> set (bucket_or_new c (Freq x))"
    unfolding order_facts(2) [OF assms] set_rev ..
  also have "\<dots> \<longleftrightarrow> Mapping.lookup (items c) (Key x) = Some x"
    using lfu_wf_fields(2) [OF assms, of x "Freq x"] lfu_wf_fields(4) [OF assms, of "Key x" x] by blast
  finally show ?thesis .
qed

lemma order_keys:
  assumes "lfu_wf c"
  shows "distinct (map Key (entries_in_order c))"
    and "Key ` set (entries_in_order c) = dom (Mapping.lookup (items c))"
    and "length (entries_in_order c) = Mapping.size (items c)"
proof -
  have inj: "inj_on Key (set (entries_in_order c))"
  proof (rule inj_onI)
    fix x y assume x: "x \<in> set (entries_in_order c)" and y: "y \<in> set (entries_in_order c)"
      and eq: "Key x = Key y"
    have "Some x = Mapping.lookup (items c) (Key x)" using x unfolding in_order_iff [OF assms] by (rule sym)
    also have "\<dots> = Some y" using y unfolding in_order_iff [OF assms] eq .
    finally show "x = y" by (rule option.inject [THEN iffD1])
  qed
  have "distinct (entries_in_order c)"
  proof (rule distinct_classes [where f = Freq])
    fix f
    have "distinct (bucket_or_new c f)"
      using lfu_wf_fields(3) [OF assms, of f] unfolding distinct_map by (rule conjunct1)
    then show "distinct (filter (\<lambda>x. Freq x = f) (entries_in_order c))"
      unfolding order_facts(2) [OF assms] distinct_rev .
  qed
  with inj show d: "distinct (map Key (entries_in_order c))" unfolding distinct_map by (rule conjI [rotated])
  show k: "Key ` set (entries_in_order c) = dom (Mapping.lookup (items c))"
  proof (rule set_eqI)
    fix k show "k \<in> Key ` set (entries_in_order c) \<longleftrightarrow> k \<in> dom (Mapping.lookup (items c))"
    proof
      assume "k \<in> Key ` set (entries_in_order c)"
      then show "k \<in> dom (Mapping.lookup (items c))" using in_order_iff [OF assms] by blast
    next
      assume "k \<in> dom (Mapping.lookup (items c))"
      then obtain x where x: "Mapping.lookup (items c) k = Some x" by blast
      with lfu_wf_fields(4) [OF assms x] in_order_iff [OF assms, of x]
      show "k \<in> Key ` set (entries_in_order c)" by blast
    qed
  qed
  show "length (entries_in_order c) = Mapping.size (items c)"
    unfolding mapping_size [OF lfu_wf_fields(1) [OF assms]] k [symmetric]
    using distinct_card [OF d] by simp
qed

end
