(* ===== verification/LFUContract.thy ===== *)
theory LFUContract
  imports LFUOrder
begin

text \<open>
  The operations of the LFU cache against the eviction order, their freedom from panics, and the
  interpretation of the exact contract of an arm on the model.
\<close>

text \<open>Removing a key from a bucket it is not in changes nothing.\<close>

lemma bucket_other:
  assumes wf: "lfu_wf c" and k: "Mapping.lookup (items c) k = Some old" and g: "g \<noteq> Freq old"
  shows "filter (\<lambda>x. Key x \<noteq> k) (bucket_or_new c g) = bucket_or_new c g"
proof (rule filter_True, rule ballI)
  fix x assume x: "x \<in> set (bucket_or_new c g)"
  note f = lfu_wf_fields(2) [OF wf x]
  show "Key x \<noteq> k"
  proof
    assume "Key x = k"
    with f k have "x = old" by simp
    with f g show False by simp
  qed
qed

subsection \<open>A resident entry is touched\<close>

definition touched :: "('k, 'v) lfu \<Rightarrow> ('k, 'v) entry \<Rightarrow> ('k, 'v) lfu \<Rightarrow> bool" where
  "touched c ent c' \<longleftrightarrow> lfu_wf c' \<and>
     Mapping.lookup (items c') = (Mapping.lookup (items c))(Key ent \<mapsto> ent\<lparr>Freq := Freq ent + 1\<rparr>) \<and>
     entries_in_order c' = order_insert (ent\<lparr>Freq := Freq ent + 1\<rparr>) (order_remove (Key ent) (entries_in_order c)) \<and>
     lsize c' = lsize c \<and> calls c' = calls c \<and> onEvict c' = onEvict c \<and> (lfu_min c \<longrightarrow> lfu_min c')"

lemma updateFreq_touched:
  assumes wf: "lfu_wf c" and old: "Mapping.lookup (items c) (Key ent) = Some old" and f: "Freq ent = Freq old"
  shows "\<exists>c'. updateFreq ent c = Some c' \<and> touched c ent c'"
proof -
  let ?f = "Freq old" and ?bk = "bucket_or_new c" and ?ent = "ent\<lparr>Freq := Freq old + 1\<rparr>"
  let ?rest = "filter (\<lambda>x. Key x \<noteq> Key ent) (?bk ?f)"
  note oldb = lfu_wf_fields(4) [OF wf old]
  then have b: "Mapping.lookup (evictList c) ?f = Some (?bk ?f)"
    using bucket_lookup [OF wf, of ?f] by auto
  define d where "d = c\<lparr>evictList := if ?rest = [] then Mapping.delete ?f (evictList c)
    else Mapping.update ?f ?rest (evictList c), minFreq := if ?rest = [] \<and> minFreq c = ?f then ?f + 1 else minFreq c\<rparr>"
  define c' where "c' = d\<lparr>evictList := Mapping.update (?f + 1) (?ent # bucket_or_new d (?f + 1)) (evictList d),
    items := Mapping.update (Key ent) ?ent (items d)\<rparr>"
  have dc: "updateFreq ent c = Some c'"
  proof -
    have "updateFreq ent c = (let c = d in
        let c = c\<lparr>evictList := Mapping.update (?f + 1) (?ent # bucket_or_new c (?f + 1)) (evictList c)\<rparr>
        in Some (c\<lparr>items := Mapping.update (Key ent) ?ent (items c)\<rparr>))"
    proof (cases "?rest = []")
      case True
      then show ?thesis
        by (cases "minFreq c = ?f")
          (simp_all add: updateFreq_def b f list_remove_def d_def Let_def)
    next
      case False
      then show ?thesis
        by (simp add: updateFreq_def b f list_remove_def d_def Let_def)
    qed
    then show ?thesis by (simp add: c'_def Let_def)
  qed
  have bkd: "bucket_or_new d = ?bk(?f := ?rest)"
    by (auto simp: d_def fun_eq_iff)
  have its: "Mapping.lookup (items c') = (Mapping.lookup (items c))(Key ent \<mapsto> ?ent)"
    by (auto simp: c'_def d_def fun_eq_iff)
  have bk: "bucket_or_new c' = ?bk(?f := ?rest, ?f + 1 := ?ent # ?bk (?f + 1))"
    by (rule ext) (simp add: c'_def bkd)
  have "lfu_shape (Mapping.lookup (items c)) ?bk" using wf by (simp add: lfu_wf_def)
  then have shape: "lfu_shape (Mapping.lookup (items c')) (bucket_or_new c')"
    unfolding its bk using shape_move [of _ _ ?ent old ?f] old by simp
  have "Mapping.lookup (evictList d) g \<noteq> Some []" for g
    using wf by (auto simp: d_def lfu_wf_def)
  then have wf': "lfu_wf c'" using shape by (simp add: lfu_wf_def c'_def)
  have order: "entries_in_order c' = order_insert ?ent (order_remove (Key ent) (entries_in_order c))"
  proof (rule order_unique [OF wf'])
    have s: "sorted (map Freq (order_remove (Key ent) (entries_in_order c)))"
      by (rule order_remove_sorted [OF order_facts(1) [OF wf]])
    then show "sorted (map Freq (order_insert ?ent (order_remove (Key ent) (entries_in_order c))))"
      by (rule order_insert_sorted)
    fix g
    note other = bucket_other [OF wf old, of g]
    have "filter (\<lambda>x. Freq x = g) (order_insert ?ent (order_remove (Key ent) (entries_in_order c))) =
        (if g = ?f + 1 then filter (\<lambda>x. Key x \<noteq> Key ent) (rev (?bk g)) @ [?ent]
         else filter (\<lambda>x. Key x \<noteq> Key ent) (rev (?bk g)))"
      by (simp add: order_insert_class [OF s] order_remove_class order_facts(2) [OF wf])
    also have "\<dots> = rev (bucket_or_new c' g)"
      using other by (auto simp: bk rev_filter [symmetric])
    finally show "filter (\<lambda>x. Freq x = g) (order_insert ?ent (order_remove (Key ent) (entries_in_order c))) =
      rev (bucket_or_new c' g)" .
  qed
  have min: "lfu_min c'" if m: "lfu_min c"
  proof -
    have mc: "?bk (minFreq c) \<noteq> []" "\<And>g. ?bk g \<noteq> [] \<Longrightarrow> minFreq c \<le> g"
      using m old by (auto simp: lfu_min_def)
    have mf: "minFreq c' = (if ?rest = [] \<and> minFreq c = ?f then ?f + 1 else minFreq c)"
      by (simp add: c'_def d_def)
    have "?bk ?f \<noteq> []" using oldb by auto
    then have le: "minFreq c \<le> ?f" by (rule mc(2))
    have "bucket_or_new c' (minFreq c') \<noteq> []" using mc(1) by (auto simp: mf bk)
    moreover have "minFreq c' \<le> g" if "bucket_or_new c' g \<noteq> []" for g
    proof (cases "g = ?f + 1")
      case True
      with le show ?thesis by (simp add: mf)
    next
      case False
      with that have g: "?bk g \<noteq> []" "g = ?f \<Longrightarrow> ?rest \<noteq> []" by (auto simp: bk split: if_splits)
      have "minFreq c \<le> g" by (rule mc(2) [OF g(1)])
      with g(2) show ?thesis by (cases "g = ?f") (auto simp: mf)
    qed
    ultimately show ?thesis by (simp add: lfu_min_def)
  qed
  have "touched c ent c'"
    using wf' its order min by (simp add: touched_def f) (simp add: c'_def d_def)
  with dc show ?thesis by blast
qed

subsection \<open>Unlinking and evicting\<close>

lemma unlink_order:
  assumes wf: "lfu_wf c" and ent: "Mapping.lookup (items c) (Key ent) = Some ent"
  shows "entries_in_order (unlink ent c) = order_remove (Key ent) (entries_in_order c)"
proof (rule order_unique [OF unlink_wf(1) [OF wf ent]])
  show "sorted (map Freq (order_remove (Key ent) (entries_in_order c)))"
    by (rule order_remove_sorted [OF order_facts(1) [OF wf]])
  fix g
  from bucket_other [OF wf ent, of g] show "filter (\<lambda>x. Freq x = g) (order_remove (Key ent) (entries_in_order c)) =
      rev (bucket_or_new (unlink ent c) g)"
    by (auto simp: order_remove_class order_facts(2) [OF wf] unlink_wf(3) [OF wf ent] rev_filter [symmetric])
qed

lemma order_empty_iff:
  "lfu_wf c \<Longrightarrow> entries_in_order c = [] \<longleftrightarrow> Mapping.lookup (items c) = Map.empty"
  using order_keys(2) [of c] by (metis dom_eq_empty_conv image_is_empty set_empty)

text \<open>The entry that goes first is the head of the order.\<close>

lemma oldest_head:
  assumes wf: "lfu_wf c" and min: "lfu_min c"
  shows "oldest c = (case entries_in_order c of [] \<Rightarrow> None | x # _ \<Rightarrow> Some x)"
proof (cases "entries_in_order c")
  case Nil
  then show ?thesis by (simp add: oldest_def order_keys(3) [OF wf, symmetric])
next
  case (Cons x rest)
  let ?b = "bucket_or_new c (minFreq c)"
  have m: "?b \<noteq> []" "\<And>f. bucket_or_new c f \<noteq> [] \<Longrightarrow> minFreq c \<le> f"
    using min order_empty_iff [OF wf] Cons by (auto simp: lfu_min_def)
  have size: "Mapping.size (items c) \<noteq> 0" using Cons order_keys(3) [OF wf] by auto
  have "last ?b \<in> set (entries_in_order c)"
    using last_in_set [OF m(1)] lfu_wf_fields(2) [OF wf, of "last ?b"] by (simp add: in_order_iff [OF wf])
  then have "Freq x \<le> Freq (last ?b)"
    using order_facts(1) [OF wf] Cons by auto
  moreover have "Freq (last ?b) = minFreq c"
    using last_in_set [OF m(1)] lfu_wf_fields(2) [OF wf, of "last ?b"] by simp
  moreover have "minFreq c \<le> Freq x"
  proof (rule m(2))
    have "Mapping.lookup (items c) (Key x) = Some x" using in_order_iff [OF wf, of x] Cons by simp
    from lfu_wf_fields(4) [OF wf this] show "bucket_or_new c (Freq x) \<noteq> []" by auto
  qed
  ultimately have fx: "Freq x = minFreq c" by simp
  have "rev ?b = x # filter (\<lambda>y. Freq y = minFreq c) rest"
    using order_facts(2) [OF wf, of "minFreq c"] Cons fx by simp
  then have "last ?b = x" by (metis hd_rev list.sel(1))
  then show ?thesis
    using m(1) size Cons bucket_lookup [OF wf, of "minFreq c"] by (simp add: oldest_def)
qed

lemma distinct_head_remove:
  "distinct (map Key (x # rest)) \<Longrightarrow> order_remove (Key x) (x # rest) = rest"
  by (auto simp: order_remove_def filter_id_conv image_iff)

definition evicts :: "('k, 'v) lfu \<Rightarrow> ('k, 'v) entry \<Rightarrow> ('k, 'v) entry list \<Rightarrow> ('k, 'v) lfu \<Rightarrow> bool" where
  "evicts c x rest c' \<longleftrightarrow> lfu_wf c' \<and> lfu_min c' \<and> entries_in_order c' = rest \<and>
     Mapping.lookup (items c') = (Mapping.lookup (items c))(Key x := None) \<and> lsize c' = lsize c \<and>
     onEvict c' = onEvict c \<and> calls c' = calls c @ (if onEvict c then [(Key x, Value x)] else [])"

lemma evictOldest_head:
  assumes wf: "lfu_wf c" and min: "lfu_min c" and order: "entries_in_order c = x # rest"
  shows "\<exists>c'. evictOldest c = (c', Some (Key x, Value x)) \<and> evicts c x rest c'"
proof -
  have x: "Mapping.lookup (items c) (Key x) = Some x" using in_order_iff [OF wf, of x] order by simp
  have "oldest c = Some x" using oldest_head [OF wf min] order by simp
  then have eq: "evictOldest c = (notify x (unlink x c), Some (Key x, Value x))"
    by (simp add: evictOldest_def unlink_def Let_def)
  have "entries_in_order (unlink x c) = rest"
    using unlink_order [OF wf x] distinct_head_remove [of x rest] order_keys(1) [OF wf] order by simp
  moreover have "entries_in_order (notify x (unlink x c)) = entries_in_order (unlink x c)"
    by (simp add: entries_in_order_def)
  ultimately have "evicts c x rest (notify x (unlink x c))"
    using unlink_wf(1,2) [OF wf x] unlink_min [OF wf x min]
    by (simp add: evicts_def) (simp add: notify_def)
  with eq show ?thesis by blast
qed

lemma evictOldest_empty:
  "lfu_wf c \<Longrightarrow> lfu_min c \<Longrightarrow> entries_in_order c = [] \<Longrightarrow> evictOldest c = (c, None)"
  by (simp add: evictOldest_def oldest_head)

text \<open>The eviction loop drops a prefix of the order.\<close>

lemma evict_loop_order:
  assumes "lfu_wf c" "lfu_min c"
  shows "\<exists>c'. evict_loop n (c, ev) = (c', ev + int (min n (length (entries_in_order c)))) \<and>
    lfu_wf c' \<and> lfu_min c' \<and> entries_in_order c' = drop n (entries_in_order c) \<and>
    lsize c' = lsize c \<and> onEvict c' = onEvict c \<and>
    calls c' = calls c @ (if onEvict c then map (\<lambda>x. (Key x, Value x)) (take n (entries_in_order c)) else [])"
  using assms
proof (induction n arbitrary: c ev)
  case (Suc n)
  show ?case
  proof (cases "entries_in_order c")
    case Nil
    with evictOldest_empty [OF Suc.prems Nil] Suc.prems show ?thesis by simp
  next
    case (Cons x rest)
    from evictOldest_head [OF Suc.prems Cons] obtain d where
      d: "evictOldest c = (d, Some (Key x, Value x))" "evicts c x rest d" by blast
    from Suc.IH [of d "ev + 1"] d(2) obtain c' where
      "evict_loop n (d, ev + 1) = (c', ev + 1 + int (min n (length rest)))"
      "lfu_wf c'" "lfu_min c'" "entries_in_order c' = drop n rest" "lsize c' = lsize c" "onEvict c' = onEvict c"
      "calls c' = calls d @ (if onEvict c then map (\<lambda>x. (Key x, Value x)) (take n rest) else [])"
      by (auto simp: evicts_def)
    with d Cons show ?thesis by (simp add: evicts_def)
  qed
qed simp

subsection \<open>The reference: a cache that is its eviction order\<close>

definition order_find :: "'k \<Rightarrow> ('k, 'v) entry list \<Rightarrow> ('k, 'v) entry option" where
  "order_find k xs = find (\<lambda>x. Key x = k) xs"

definition order_touch :: "('k, 'v) entry \<Rightarrow> ('k, 'v) entry list \<Rightarrow> ('k, 'v) entry list" where
  "order_touch ent xs = order_insert (ent\<lparr>Freq := Freq ent + 1\<rparr>) (order_remove (Key ent) xs)"

definition order_get :: "'k \<Rightarrow> ('k, 'v) entry list \<Rightarrow> ('k, 'v) entry list \<times> 'v option" where
  "order_get k xs =
     (case order_find k xs of None \<Rightarrow> (xs, None) | Some x \<Rightarrow> (order_touch x xs, Some (Value x)))"

definition order_add :: "int \<Rightarrow> 'k \<Rightarrow> 'v \<Rightarrow> ('k, 'v) entry list \<Rightarrow> ('k, 'v) entry list \<times> bool" where
  "order_add capacity k v xs =
     (if capacity \<le> 0 then (xs, False)
      else case order_find k xs of
        Some x \<Rightarrow> (order_touch (x\<lparr>Value := v\<rparr>) xs, False)
      | None \<Rightarrow>
          if xs \<noteq> [] \<and> capacity \<le> int (length xs)
          then (order_insert \<lparr>Key = k, Value = v, Freq = 1\<rparr> (tl xs), True)
          else (order_insert \<lparr>Key = k, Value = v, Freq = 1\<rparr> xs, False))"

lemma order_find_items:
  assumes wf: "lfu_wf c"
  shows "order_find k (entries_in_order c) = Mapping.lookup (items c) k"
proof (cases "Mapping.lookup (items c) k")
  case None
  then have "k \<notin> Key ` set (entries_in_order c)" by (simp add: order_keys(2) [OF wf] domIff)
  with None show ?thesis by (auto simp: order_find_def find_None_iff)
next
  case (Some ent)
  note f = lfu_wf_fields(4) [OF wf Some]
  then have "ent \<in> set (entries_in_order c)" using Some by (simp add: in_order_iff [OF wf])
  then obtain x where x: "order_find k (entries_in_order c) = Some x"
    using f by (cases "order_find k (entries_in_order c)") (auto simp: order_find_def find_None_iff)
  then have "x \<in> set (entries_in_order c)" "Key x = k"
    by (auto simp: order_find_def find_Some_iff)
  then show ?thesis using Some x by (simp add: in_order_iff [OF wf])
qed

lemma lfu_len_order: "lfu_wf c \<Longrightarrow> lfu_len c = int (length (entries_in_order c))"
  by (simp add: lfu_len_def order_keys(3))

text \<open>A new entry goes behind everything used once.\<close>

lemma push_new:
  assumes wf: "lfu_wf c" and new: "Mapping.lookup (items c) k = None"
    and c': "c' = c\<lparr>evictList := Mapping.update 1 (\<lparr>Key = k, Value = v, Freq = 1\<rparr> # bucket_or_new c 1) (evictList c),
      items := Mapping.update k \<lparr>Key = k, Value = v, Freq = 1\<rparr> (items c), minFreq := 1\<rparr>"
  shows "lfu_wf c' \<and> lfu_min c' \<and>
    entries_in_order c' = order_insert \<lparr>Key = k, Value = v, Freq = 1\<rparr> (entries_in_order c) \<and>
    Mapping.lookup (items c') = (Mapping.lookup (items c))(k \<mapsto> \<lparr>Key = k, Value = v, Freq = 1\<rparr>)"
proof -
  let ?e = "\<lparr>Key = k, Value = v, Freq = 1\<rparr>"
  have its: "Mapping.lookup (items c') = (Mapping.lookup (items c))(k \<mapsto> ?e)"
    by (auto simp: c' fun_eq_iff)
  have bk: "bucket_or_new c' = (bucket_or_new c)(1 := ?e # bucket_or_new c 1)"
    by (rule ext) (simp add: c')
  have "lfu_shape (Mapping.lookup (items c)) (bucket_or_new c)" using wf by (simp add: lfu_wf_def)
  from shape_push [OF this, of ?e] new
  have "lfu_shape (Mapping.lookup (items c')) (bucket_or_new c')" by (simp add: its bk)
  then have wf': "lfu_wf c'" using wf by (simp add: lfu_wf_def c')
  have "1 \<le> f" if "bucket_or_new c' f \<noteq> []" for f
    using that lfu_wf_fields(2) [OF wf', of "hd (bucket_or_new c' f)" f] by simp
  then have min: "lfu_min c'" by (simp add: lfu_min_def bk) (simp add: c')
  have "entries_in_order c' = order_insert ?e (entries_in_order c)"
  proof (rule order_unique [OF wf'])
    note s = order_facts(1) [OF wf]
    show "sorted (map Freq (order_insert ?e (entries_in_order c)))" by (rule order_insert_sorted [OF s])
    show "filter (\<lambda>x. Freq x = f) (order_insert ?e (entries_in_order c)) = rev (bucket_or_new c' f)" for f
      by (simp add: order_insert_class [OF s] order_facts(2) [OF wf] bk)
  qed
  with wf' min its show ?thesis by blast
qed

subsection \<open>Every operation refines its reference\<close>

theorem lfu_get_refines:
  assumes "lfu_inv c"
  shows "\<exists>c'. lfu_get c k = Some (c', snd (order_get k (entries_in_order c))) \<and> lfu_inv c' \<and>
    entries_in_order c' = fst (order_get k (entries_in_order c)) \<and> lsize c' = lsize c \<and>
    map_option Value \<circ> Mapping.lookup (items c') = map_option Value \<circ> Mapping.lookup (items c)"
proof (cases "Mapping.lookup (items c) k")
  case None
  then show ?thesis using assms
    by (simp add: lfu_get_def order_get_def order_find_items lfu_inv_def)
next
  case (Some ent)
  have wf: "lfu_wf c" using assms by (simp add: lfu_inv_def)
  have k: "Key ent = k" using lfu_wf_fields(4) [OF wf Some] by simp
  obtain c' where c': "updateFreq ent c = Some c'" "touched c ent c'"
    using updateFreq_touched [OF wf, of ent ent] Some k by blast
  have "lfu_len c' = lfu_len c"
    using c'(2) wf Some k by (simp add: touched_def lfu_len_card insert_absorb domI)
  then have "lfu_inv c'" using assms c'(2) by (simp add: lfu_inv_def touched_def)
  moreover have "map_option Value \<circ> Mapping.lookup (items c') = map_option Value \<circ> Mapping.lookup (items c)"
    using c'(2) Some k by (auto simp: touched_def fun_eq_iff)
  ultimately show ?thesis
    using Some c' wf by (simp add: lfu_get_def order_get_def order_find_items order_touch_def touched_def)
qed

theorem lfu_add_refines:
  assumes "lfu_inv c"
  shows "\<exists>c'. lfu_add c k v = Some (c', snd (order_add (lsize c) k v (entries_in_order c))) \<and> lfu_inv c' \<and>
    entries_in_order c' = fst (order_add (lsize c) k v (entries_in_order c)) \<and> lsize c' = lsize c"
proof (cases "lsize c \<le> 0")
  case True
  then show ?thesis using assms by (simp add: lfu_add_def order_add_def)
next
  case pos: False
  have wf: "lfu_wf c" and min: "lfu_min c" and len: "lfu_len c \<le> lsize c"
    using assms pos by (simp_all add: lfu_inv_def)
  show ?thesis
  proof (cases "Mapping.lookup (items c) k")
    case (Some ent)
    have k: "Key ent = k" using lfu_wf_fields(4) [OF wf Some] by simp
    obtain c' where c': "updateFreq (ent\<lparr>Value := v\<rparr>) c = Some c'" "touched c (ent\<lparr>Value := v\<rparr>) c'"
      using updateFreq_touched [OF wf, of "ent\<lparr>Value := v\<rparr>" ent] Some k by auto
    have "lfu_len c' = lfu_len c"
      using c'(2) wf Some k by (simp add: touched_def lfu_len_card insert_absorb domI)
    then have "lfu_inv c'" using assms c'(2) by (simp add: lfu_inv_def touched_def)
    then show ?thesis
      using Some c' wf pos by (simp add: lfu_add_def order_add_def order_find_items order_touch_def touched_def)
  next
    case None
    define full where "full \<longleftrightarrow> entries_in_order c \<noteq> [] \<and> lsize c \<le> int (length (entries_in_order c))"
    have full_iff: "Mapping.size (items c) > 0 \<and> lfu_len c \<ge> lsize c \<longleftrightarrow> full"
      unfolding full_def length_greater_0_conv [symmetric]
      using order_keys(3) [OF wf] lfu_len_order [OF wf] by simp
    obtain d where d: "(if full then (let (c, victim) = evictOldest c in (c, victim \<noteq> None)) else (c, False)) = (d, full)"
        "lfu_wf d" "lfu_min d" "entries_in_order d = (if full then tl (entries_in_order c) else entries_in_order c)"
        "Mapping.lookup (items d) k = None" "lsize d = lsize c"
    proof (cases full)
      case True
      then obtain x rest where "entries_in_order c = x # rest" by (cases "entries_in_order c") (auto simp: full_def)
      with evictOldest_head [OF wf min this] that True None show ?thesis by (auto simp: evicts_def)
    qed (use wf min None that in auto)
    let ?c' = "d\<lparr>evictList := Mapping.update 1 (\<lparr>Key = k, Value = v, Freq = 1\<rparr> # bucket_or_new d 1) (evictList d),
      items := Mapping.update k \<lparr>Key = k, Value = v, Freq = 1\<rparr> (items d), minFreq := 1\<rparr>"
    note new = push_new [OF d(2,5), of ?c' v]
    have "lfu_len d + 1 \<le> lsize c"
      using len pos d(4) lfu_len_order [OF d(2)] lfu_len_order [OF wf]
      by (cases "entries_in_order c") (auto simp: full_def split: if_splits)
    moreover have "lfu_len ?c' = lfu_len d + 1"
      using new d(2,5) lfu_wf_fields(1) [OF d(2)] by (simp add: lfu_len_card domIff)
    ultimately have "lfu_inv ?c'" using new d(6) by (simp add: lfu_inv_def)
    moreover have "lfu_add c k v = Some (?c', full)"
      using pos None d(1) by (simp add: lfu_add_def full_iff Let_def split_beta)
    moreover have "order_add (lsize c) k v (entries_in_order c) =
        (order_insert \<lparr>Key = k, Value = v, Freq = 1\<rparr> (entries_in_order d), full)"
      using pos None d(4) by (auto simp: order_add_def order_find_items [OF wf] full_def)
    ultimately show ?thesis using new d(6) by simp
  qed
qed

theorem lfu_remove_refines:
  assumes "lfu_inv c"
  shows "lfu_inv (fst (lfu_remove c k)) \<and> lsize (fst (lfu_remove c k)) = lsize c \<and>
    entries_in_order (fst (lfu_remove c k)) = order_remove k (entries_in_order c) \<and>
    (snd (lfu_remove c k) \<longleftrightarrow> order_find k (entries_in_order c) \<noteq> None)"
proof (cases "Mapping.lookup (items c) k")
  case None
  have wf: "lfu_wf c" using assms by (simp add: lfu_inv_def)
  have "k \<notin> Key ` set (entries_in_order c)" using None by (simp add: order_keys(2) [OF wf] domIff)
  then show ?thesis using None assms
    by (simp add: lfu_remove_def order_find_items [OF wf] order_remove_absent)
next
  case (Some ent)
  have wf: "lfu_wf c" and min: "lfu_min c" using assms by (simp_all add: lfu_inv_def)
  have k: "Key ent = k" using lfu_wf_fields(4) [OF wf Some] by simp
  with Some have ent: "Mapping.lookup (items c) (Key ent) = Some ent" by simp
  have order: "entries_in_order (notify ent (unlink ent c)) = order_remove k (entries_in_order c)"
    using unlink_order [OF wf ent] k by (simp add: entries_in_order_def)
  have "lfu_len (unlink ent c) \<le> lfu_len c"
    using unlink_order [OF wf ent]
    by (simp add: lfu_len_order [OF unlink_wf(1) [OF wf ent]] lfu_len_order [OF wf] order_remove_def)
  then have "lfu_inv (notify ent (unlink ent c))"
    using assms unlink_wf(1) [OF wf ent] unlink_min [OF wf ent min] by (simp add: lfu_inv_def)
  with order show ?thesis
    using Some by (simp add: lfu_remove_def removeElement_unlink order_find_items [OF wf])
qed

theorem lfu_resize_refines:
  assumes "lfu_inv c" and n_def: "n = length (entries_in_order c) - nat sz"
  shows "lfu_inv (fst (lfu_resize c sz)) \<and> lsize (fst (lfu_resize c sz)) = sz \<and>
    entries_in_order (fst (lfu_resize c sz)) = drop n (entries_in_order c) \<and>
    snd (lfu_resize c sz) = int n"
proof -
  have wf: "lfu_wf c" and min: "lfu_min c" using assms by (simp_all add: lfu_inv_def)
  let ?m = "nat (if lfu_len c - sz < 0 then 0 else lfu_len c - sz)"
  obtain c' where c': "evict_loop ?m (c, 0) = (c', int (min ?m (length (entries_in_order c))))"
    "lfu_wf c'" "lfu_min c'" "entries_in_order c' = drop ?m (entries_in_order c)"
    using evict_loop_order [OF wf min, of ?m 0] by auto
  have m: "min ?m (length (entries_in_order c)) = n"
    by (auto simp: n_def lfu_len_order [OF wf])
  have drop: "drop ?m (entries_in_order c) = drop n (entries_in_order c)"
    by (cases "sz < 0") (auto simp: n_def lfu_len_order [OF wf] nat_diff_distrib')
  have eq: "lfu_resize c sz = (c'\<lparr>lsize := sz\<rparr>, int n)"
    using c'(1) m by (simp add: lfu_resize_def Let_def)
  have order: "entries_in_order (c'\<lparr>lsize := sz\<rparr>) = entries_in_order c'"
    by (simp add: entries_in_order_def)
  have wf': "lfu_wf (c'\<lparr>lsize := sz\<rparr>)" "lfu_min (c'\<lparr>lsize := sz\<rparr>)"
    using c'(2,3) by (simp_all add: lfu_wf_def lfu_min_def bucket_or_new_def [abs_def])
  have "lfu_len (c'\<lparr>lsize := sz\<rparr>) \<le> max 0 sz"
    using order c'(4) drop by (auto simp: lfu_len_order [OF wf'(1)] n_def)
  then show ?thesis
    using wf' c'(4) drop order by (simp add: eq lfu_inv_def)
qed

lemma lfu_purge_refines:
  assumes "lfu_inv c"
  shows "lfu_inv (lfu_purge order c) \<and> lsize (lfu_purge order c) = lsize c \<and>
    entries_in_order (lfu_purge order c) = []"
proof -
  let ?d = "lfu_purge order c"
  have "lfu_wf ?d"
    by (simp add: lfu_wf_def lfu_shape_def lfu_purge_def bucket_or_new_def Let_def)
  moreover have "lfu_min ?d" by (simp add: lfu_min_def lfu_purge_def Let_def)
  moreover have "lfu_len ?d = 0" by (simp add: lfu_len_def lfu_purge_def Let_def)
  moreover have "lsize ?d = lsize c" by (simp add: lfu_purge_def Let_def)
  ultimately show ?thesis
    by (simp add: lfu_inv_def) (simp add: entries_in_order_def lfu_purge_def Let_def)
qed

text \<open>The slices are filled exactly: no write past the end, no zero value left over.\<close>

theorem lfu_keys_exact:
  assumes "lfu_inv c"
  shows "lfu_keys zk c = Some (map Key (entries_in_order c))"
    and "lfu_values zv c = Some (map Value (entries_in_order c))"
  using assms order_keys(3) [of c] by (simp_all add: lfu_keys_def lfu_values_def fill_slice_def lfu_inv_def)

lemma NewLFU_inv:
  assumes "NewLFU sz cb = Inr c"
  shows "lfu_inv c \<and> lsize c = sz \<and> entries_in_order c = [] \<and> 0 < sz"
proof -
  have c: "c = \<lparr>lsize = sz, minFreq = 0, items = Mapping.empty, evictList = Mapping.empty, onEvict = cb, calls = []\<rparr>"
    and pos: "0 < sz"
    using assms by (auto simp: NewLFU_def split: if_splits)
  show ?thesis
    using pos
    by (simp add: c lfu_inv_def lfu_wf_def lfu_shape_def lfu_min_def lfu_len_def bucket_or_new_def
        entries_in_order_def)
qed

subsection \<open>What the order holds\<close>

lemma order_find_insert:
  assumes "Key ent \<notin> Key ` set xs"
  shows "order_find k (order_insert ent xs) = (if k = Key ent then Some ent else order_find k xs)"
proof -
  let ?P = "\<lambda>x. Freq x \<le> Freq ent"
  have split: "order_find k xs = (case find (\<lambda>x. Key x = k) (takeWhile ?P xs) of
      None \<Rightarrow> find (\<lambda>x. Key x = k) (dropWhile ?P xs) | Some x \<Rightarrow> Some x)"
    unfolding order_find_def by (subst takeWhile_dropWhile_id [of ?P xs, symmetric]) (simp only: find_append)
  have "\<forall>x \<in> set xs. Key x \<noteq> Key ent" using assms by (metis imageI)
  then have "find (\<lambda>x. Key x = Key ent) (takeWhile ?P xs) = None"
    by (auto simp: find_None_iff dest: set_takeWhileD)
  with split show ?thesis
    by (auto simp: order_insert_def order_find_def find_append split: option.split)
qed

lemma order_find_remove:
  "order_find k (order_remove j xs) = (if k = j then None else order_find k xs)"
  unfolding order_find_def order_remove_def by (induction xs) auto

lemma order_find_tl:
  "distinct (map Key xs) \<Longrightarrow> xs \<noteq> [] \<Longrightarrow>
    order_find k (tl xs) = (if k = Key (hd xs) then None else order_find k xs)"
  unfolding order_find_def by (cases xs) (auto simp: find_None_iff image_iff)

lemma order_find_drop:
  "distinct (map Key xs) \<Longrightarrow> order_find k (drop n xs) = Some x \<Longrightarrow> order_find k xs = Some x"
proof (induction n arbitrary: xs)
  case (Suc n)
  then show ?case
    by (cases xs) (auto simp: order_find_def find_Some_iff image_iff dest!: in_set_dropD split: if_splits)
qed simp

definition order_content :: "('k, 'v) entry list \<Rightarrow> 'k \<rightharpoonup> 'v" where
  "order_content xs k = map_option Value (order_find k xs)"

lemma order_content_dom: "dom (order_content xs) = Key ` set xs"
  by (auto simp: order_content_def order_find_def dom_def find_None_iff image_iff)

lemma order_content_touch:
  "order_content (order_touch ent xs) = (order_content xs)(Key ent \<mapsto> Value ent)"
proof -
  have "Key (ent\<lparr>Freq := Freq ent + 1\<rparr>) \<notin> Key ` set (order_remove (Key ent) xs)"
    by (auto simp: order_remove_def)
  from order_find_insert [OF this] show ?thesis
    by (auto simp: order_content_def order_touch_def order_find_remove fun_eq_iff)
qed


lemma order_content_new:
  "k \<notin> Key ` set xs \<Longrightarrow>
    order_content (order_insert \<lparr>Key = k, Value = v, Freq = f\<rparr> xs) = (order_content xs)(k \<mapsto> v)"
  using order_find_insert [of "\<lparr>Key = k, Value = v, Freq = f\<rparr>" xs]
  by (auto simp: order_content_def fun_eq_iff)

lemma order_content_add:
  assumes d: "distinct (map Key xs)" and cap: "0 < capacity" "int (length xs) \<le> capacity"
  shows "k \<in> Key ` set xs \<Longrightarrow> order_content (fst (order_add capacity k v xs)) = (order_content xs)(k \<mapsto> v) \<and>
      \<not> snd (order_add capacity k v xs)"
    and "k \<notin> Key ` set xs \<Longrightarrow> int (length xs) < capacity \<Longrightarrow>
      order_content (fst (order_add capacity k v xs)) = (order_content xs)(k \<mapsto> v) \<and>
      \<not> snd (order_add capacity k v xs)"
    and "k \<notin> Key ` set xs \<Longrightarrow> int (length xs) = capacity \<Longrightarrow>
      xs \<noteq> [] \<and> order_content (fst (order_add capacity k v xs)) = (order_content xs)(Key (hd xs) := None, k \<mapsto> v) \<and>
      snd (order_add capacity k v xs)"
proof -
  have absent: "order_find k xs = None" if "k \<notin> Key ` set xs"
    using that by (auto simp: order_find_def find_None_iff)
  {
    assume "k \<in> Key ` set xs"
    then have "k \<in> dom (order_content xs)" by (simp only: order_content_dom)
    then obtain x where "order_find k xs = Some x" by (auto simp: order_content_def)
    moreover from this have "Key x = k" by (auto simp: order_find_def find_Some_iff)
    ultimately have x: "order_find k xs = Some x" "Key x = k" by blast+
    then show "order_content (fst (order_add capacity k v xs)) = (order_content xs)(k \<mapsto> v) \<and>
        \<not> snd (order_add capacity k v xs)"
      using cap order_content_touch [of "x\<lparr>Value := v\<rparr>" xs] by (simp add: order_add_def)
  next
    assume "k \<notin> Key ` set xs" "int (length xs) < capacity"
    then show "order_content (fst (order_add capacity k v xs)) = (order_content xs)(k \<mapsto> v) \<and>
        \<not> snd (order_add capacity k v xs)"
      using absent order_content_new [of k xs v 1] by (simp add: order_add_def)
  next
    assume k: "k \<notin> Key ` set xs" and "int (length xs) = capacity"
    then have ne: "xs \<noteq> []" using cap by auto
    then have "k \<notin> Key ` set (tl xs)" using k by (cases xs) auto
    then have "order_content (order_insert \<lparr>Key = k, Value = v, Freq = 1\<rparr> (tl xs)) = (order_content (tl xs))(k \<mapsto> v)"
      by (rule order_content_new)
    moreover have "order_content (tl xs) = (order_content xs)(Key (hd xs) := None)"
      using order_find_tl [OF d ne] by (auto simp: order_content_def fun_eq_iff)
    ultimately show "xs \<noteq> [] \<and> order_content (fst (order_add capacity k v xs)) =
        (order_content xs)(Key (hd xs) := None, k \<mapsto> v) \<and> snd (order_add capacity k v xs)"
      using ne absent [OF k] \<open>int (length xs) = capacity\<close> cap by (simp add: order_add_def)
  }
qed

lemma order_content_drop: "distinct (map Key xs) \<Longrightarrow> order_content (drop n xs) \<subseteq>\<^sub>m order_content xs"
  using order_find_drop by (fastforce simp: order_content_def intro!: map_leI)

lemma order_content_remove: "order_content (order_remove k xs) = (order_content xs)(k := None)"
  by (auto simp: order_content_def order_find_remove fun_eq_iff)

subsection \<open>The cache as an arm\<close>

definition lfu_content :: "('k, 'v) lfu \<Rightarrow> 'k \<rightharpoonup> 'v" where
  "lfu_content c = map_option Value \<circ> Mapping.lookup (items c)"

definition lfu_capacity :: "('k, 'v) lfu \<Rightarrow> int" where
  "lfu_capacity c = max 0 (lsize c)"

text \<open>The operations as \<^verbatim>\<open>Cacher\<close> methods. A panic would leave the receiver unspecified; none occurs.\<close>

definition lfu_ops :: "('k set \<Rightarrow> 'k list) \<Rightarrow> 'k \<Rightarrow> 'v \<Rightarrow> (('k, 'v) lfu, 'k, 'v) cacher_ops" where
  "lfu_ops order zk zv =
     \<lparr>op_add = (\<lambda>c k v. or_else (c, False) (lfu_add c k v)),
      op_contains = lfu_contains,
      op_get = (\<lambda>c k. or_else (c, None) (lfu_get c k)),
      op_keys = (\<lambda>c. or_else [] (lfu_keys zk c)),
      op_len = lfu_len,
      op_peek = lfu_peek,
      op_purge = lfu_purge order,
      op_remove = lfu_remove,
      op_resize = lfu_resize,
      op_values = (\<lambda>c. or_else [] (lfu_values zv c))\<rparr>"

text \<open>The facts of the refinement, in the vocabulary of the contract.\<close>

lemma lfu_order_content: "lfu_inv c \<Longrightarrow> lfu_content c = order_content (entries_in_order c)"
  by (auto simp: lfu_content_def order_content_def order_find_items lfu_inv_def fun_eq_iff)

lemma lfu_counts:
  assumes "lfu_inv c"
  shows "dom (lfu_content c) = Key ` set (entries_in_order c)"
    and "card (dom (lfu_content c)) = length (entries_in_order c)"
    and "int (length (entries_in_order c)) \<le> lfu_capacity c"
    and "finite (dom (lfu_content c))"
    and "distinct (map Key (entries_in_order c))"
proof -
  have wf: "lfu_wf c" using assms by (simp add: lfu_inv_def)
  show "distinct (map Key (entries_in_order c))" by (rule order_keys(1) [OF wf])
  from distinct_card [OF this] show "dom (lfu_content c) = Key ` set (entries_in_order c)"
    "card (dom (lfu_content c)) = length (entries_in_order c)" "finite (dom (lfu_content c))"
    by (simp_all add: lfu_order_content [OF assms] order_content_dom)
  show "int (length (entries_in_order c)) \<le> lfu_capacity c"
    using assms lfu_len_order [OF wf] by (simp add: lfu_inv_def lfu_capacity_def)
qed

lemma lfu_ops_add:
  assumes "lfu_inv c"
  shows "lfu_inv (fst (op_add (lfu_ops order zk zv) c k v))"
    and "lsize (fst (op_add (lfu_ops order zk zv) c k v)) = lsize c"
    and "lfu_content (fst (op_add (lfu_ops order zk zv) c k v)) =
      order_content (fst (order_add (lsize c) k v (entries_in_order c)))"
    and "snd (op_add (lfu_ops order zk zv) c k v) = snd (order_add (lsize c) k v (entries_in_order c))"
  using lfu_add_refines [OF assms, of k v] by (auto simp: lfu_ops_def lfu_order_content)

lemma lfu_ops_get:
  assumes "lfu_inv c"
  shows "lfu_inv (fst (op_get (lfu_ops order zk zv) c k))"
    and "lsize (fst (op_get (lfu_ops order zk zv) c k)) = lsize c"
    and "lfu_content (fst (op_get (lfu_ops order zk zv) c k)) = lfu_content c"
    and "snd (op_get (lfu_ops order zk zv) c k) = lfu_content c k"
proof -
  have "snd (order_get k (entries_in_order c)) = lfu_content c k"
    by (simp add: lfu_order_content [OF assms] order_get_def order_content_def split: option.split)
  with lfu_get_refines [OF assms, of k]
  show "lfu_inv (fst (op_get (lfu_ops order zk zv) c k))"
    "lsize (fst (op_get (lfu_ops order zk zv) c k)) = lsize c"
    "lfu_content (fst (op_get (lfu_ops order zk zv) c k)) = lfu_content c"
    "snd (op_get (lfu_ops order zk zv) c k) = lfu_content c k"
    by (auto simp: lfu_ops_def lfu_content_def)
qed

lemma lfu_ops_others:
  assumes "lfu_inv c"
  shows "lfu_inv (fst (lfu_remove c k)) \<and> lsize (fst (lfu_remove c k)) = lsize c \<and>
      lfu_content (fst (lfu_remove c k)) = (lfu_content c)(k := None) \<and>
      (snd (lfu_remove c k) \<longleftrightarrow> k \<in> dom (lfu_content c))"
    and "lfu_inv (fst (lfu_resize c sz)) \<and> lsize (fst (lfu_resize c sz)) = sz \<and>
      lfu_content (fst (lfu_resize c sz)) \<subseteq>\<^sub>m lfu_content c \<and>
      int (card (dom (lfu_content (fst (lfu_resize c sz))))) = min (int (card (dom (lfu_content c)))) (max 0 sz) \<and>
      snd (lfu_resize c sz) = int (card (dom (lfu_content c))) - int (card (dom (lfu_content (fst (lfu_resize c sz)))))"
    and "lfu_inv (lfu_purge order c) \<and> lsize (lfu_purge order c) = lsize c \<and> lfu_content (lfu_purge order c) = Map.empty"
proof -
  note con = lfu_order_content [OF assms]
  show "lfu_inv (fst (lfu_remove c k)) \<and> lsize (fst (lfu_remove c k)) = lsize c \<and>
      lfu_content (fst (lfu_remove c k)) = (lfu_content c)(k := None) \<and>
      (snd (lfu_remove c k) \<longleftrightarrow> k \<in> dom (lfu_content c))"
    using lfu_remove_refines [OF assms, of k]
    by (auto simp: con lfu_order_content order_content_remove) (auto simp: order_content_def)
  have r: "lfu_inv (fst (lfu_resize c sz))" "lsize (fst (lfu_resize c sz)) = sz"
    "entries_in_order (fst (lfu_resize c sz)) = drop (length (entries_in_order c) - nat sz) (entries_in_order c)"
    "snd (lfu_resize c sz) = int (length (entries_in_order c) - nat sz)"
    using lfu_resize_refines [OF assms refl, of sz] by blast+
  have cards: "card (dom (lfu_content (fst (lfu_resize c sz)))) = length (entries_in_order c) - (length (entries_in_order c) - nat sz)"
    "card (dom (lfu_content c)) = length (entries_in_order c)"
    using lfu_counts(2) [OF r(1)] lfu_counts(2) [OF assms] r(3) by simp_all
  have "lfu_content (fst (lfu_resize c sz)) \<subseteq>\<^sub>m lfu_content c"
    unfolding con lfu_order_content [OF r(1)] r(3) by (rule order_content_drop [OF lfu_counts(5) [OF assms]])
  then show "lfu_inv (fst (lfu_resize c sz)) \<and> lsize (fst (lfu_resize c sz)) = sz \<and>
      lfu_content (fst (lfu_resize c sz)) \<subseteq>\<^sub>m lfu_content c \<and>
      int (card (dom (lfu_content (fst (lfu_resize c sz))))) = min (int (card (dom (lfu_content c)))) (max 0 sz) \<and>
      snd (lfu_resize c sz) = int (card (dom (lfu_content c))) - int (card (dom (lfu_content (fst (lfu_resize c sz)))))"
    using r(1,2,4) cards by auto
  show "lfu_inv (lfu_purge order c) \<and> lsize (lfu_purge order c) = lsize c \<and> lfu_content (lfu_purge order c) = Map.empty"
    using lfu_purge_refines [OF assms, of order]
    by (auto simp: lfu_order_content order_content_def order_find_def fun_eq_iff)
qed

lemma lfu_ops_sel:
  "op_remove (lfu_ops order zk zv) = lfu_remove" "op_resize (lfu_ops order zk zv) = lfu_resize"
  "op_purge (lfu_ops order zk zv) = lfu_purge order" "op_peek (lfu_ops order zk zv) = lfu_peek"
  "op_contains (lfu_ops order zk zv) = lfu_contains" "op_len (lfu_ops order zk zv) = lfu_len"
  "lfu_inv c \<Longrightarrow> op_keys (lfu_ops order zk zv) c = map Key (entries_in_order c)"
  "lfu_inv c \<Longrightarrow> op_values (lfu_ops order zk zv) c = map Value (entries_in_order c)"
  by (simp_all add: lfu_ops_def lfu_keys_exact)

lemma lfu_values_content:
  assumes "lfu_inv c"
  shows "map Some (map Value (entries_in_order c)) = map (lfu_content c) (map Key (entries_in_order c))"
  using assms by (auto simp: lfu_content_def in_order_iff lfu_inv_def)

lemma lfu_peek_content: "lfu_peek c k = lfu_content c k" "lfu_contains c k \<longleftrightarrow> k \<in> dom (lfu_content c)"
  by (auto simp: lfu_peek_def lfu_contains_def lfu_content_def)

lemma lfu_add_cases:
  assumes inv: "lfu_inv c" and r_def: "r = op_add (lfu_ops order zk zv) c k v"
  shows "k \<in> dom (lfu_content c) \<Longrightarrow> lfu_content (fst r) = (lfu_content c)(k \<mapsto> v) \<and> \<not> snd r"
    and "k \<notin> dom (lfu_content c) \<Longrightarrow> int (card (dom (lfu_content c))) < lfu_capacity c \<Longrightarrow>
      lfu_content (fst r) = (lfu_content c)(k \<mapsto> v) \<and> \<not> snd r"
    and "k \<notin> dom (lfu_content c) \<Longrightarrow> int (card (dom (lfu_content c))) = lfu_capacity c \<Longrightarrow> 0 < lfu_capacity c \<Longrightarrow>
      \<exists>victim \<in> dom (lfu_content c). lfu_content (fst r) = (lfu_content c)(victim := None, k \<mapsto> v) \<and> snd r"
    and "lfu_capacity c = 0 \<Longrightarrow> lfu_content (fst r) = lfu_content c \<and> \<not> snd r"
proof -
  let ?xs = "entries_in_order c"
  note counts = lfu_counts [OF inv] and con = lfu_order_content [OF inv]
  have r: "lfu_content (fst r) = order_content (fst (order_add (lsize c) k v ?xs))"
    "snd r = snd (order_add (lsize c) k v ?xs)"
    unfolding r_def by (rule lfu_ops_add(3,4) [OF inv])+
  have pos: "0 < lsize c \<and> int (length ?xs) \<le> lsize c" if "0 < lfu_capacity c"
    using that counts(3) by (simp add: lfu_capacity_def)
  note add = order_content_add [OF counts(5), of "lsize c" k v]
  show "lfu_content (fst r) = (lfu_content c)(k \<mapsto> v) \<and> \<not> snd r" if "k \<in> dom (lfu_content c)"
  proof -
    have "0 < length ?xs" using that counts(1) by (cases ?xs) auto
    then have "0 < lfu_capacity c" using counts(3) by linarith
    then show ?thesis unfolding r con using that pos add(1) counts(1) by blast
  qed
  show "lfu_content (fst r) = (lfu_content c)(k \<mapsto> v) \<and> \<not> snd r"
    if "k \<notin> dom (lfu_content c)" "int (card (dom (lfu_content c))) < lfu_capacity c"
  proof -
    have "0 < lfu_capacity c" using that(2) by linarith
    moreover from this have "int (length ?xs) < lsize c" using that(2) counts(2) by (simp add: lfu_capacity_def)
    ultimately show ?thesis unfolding r con using that(1) pos add(2) counts(1) by blast
  qed
  show "\<exists>victim \<in> dom (lfu_content c). lfu_content (fst r) = (lfu_content c)(victim := None, k \<mapsto> v) \<and> snd r"
    if "k \<notin> dom (lfu_content c)" "int (card (dom (lfu_content c))) = lfu_capacity c" "0 < lfu_capacity c"
  proof -
    have "int (length ?xs) = lsize c" using that(2,3) counts(2) by (simp add: lfu_capacity_def)
    then have "?xs \<noteq> [] \<and> lfu_content (fst r) = (lfu_content c)(Key (hd ?xs) := None, k \<mapsto> v) \<and> snd r"
      unfolding r con using that(1) pos [OF that(3)] add(3) counts(1) by blast
    moreover from this have "Key (hd ?xs) \<in> dom (lfu_content c)" unfolding counts(1) by simp
    ultimately show ?thesis by blast
  qed
  show "lfu_content (fst r) = lfu_content c \<and> \<not> snd r" if "lfu_capacity c = 0"
    using that unfolding r con by (simp add: lfu_capacity_def order_add_def max_def split: if_splits)
qed

interpretation lfu: cacher_contract "lfu_ops order zk zv" lfu_inv lfu_content for order zk zv
proof unfold_locales
  fix c :: "('a, 'b) lfu" and k :: 'a and v :: 'b and n :: int
  assume inv: "lfu_inv c"
  note counts = lfu_counts [OF inv] and add = lfu_add_cases [OF inv refl, where k = k and v = v and order = order and zk = zk and zv = zv]
  show "lfu_content (fst (op_add (lfu_ops order zk zv) c k v)) \<subseteq>\<^sub>m (lfu_content c)(k \<mapsto> v)"
  proof -
    consider "k \<in> dom (lfu_content c)" | "k \<notin> dom (lfu_content c)" "lfu_capacity c = 0"
      | "k \<notin> dom (lfu_content c)" "int (card (dom (lfu_content c))) < lfu_capacity c"
      | "k \<notin> dom (lfu_content c)" "int (card (dom (lfu_content c))) = lfu_capacity c" "0 < lfu_capacity c"
      using counts(2,3) by linarith
    then show ?thesis
      by cases (use add in \<open>auto simp: map_le_def split: if_splits\<close>)
  qed
  show "lfu_inv (fst (op_add (lfu_ops order zk zv) c k v))" by (rule lfu_ops_add(1) [OF inv])
  show "lfu_inv (fst (op_get (lfu_ops order zk zv) c k))" by (rule lfu_ops_get(1) [OF inv])
  show "lfu_inv (op_purge (lfu_ops order zk zv) c)" using lfu_ops_others(3) [OF inv] by (simp add: lfu_ops_sel)
  show "lfu_inv (fst (op_remove (lfu_ops order zk zv) c k))" using lfu_ops_others(1) [OF inv] by (simp add: lfu_ops_sel)
  show "lfu_inv (fst (op_resize (lfu_ops order zk zv) c n))" using lfu_ops_others(2) [OF inv] by (simp add: lfu_ops_sel)
  show "lfu_content (fst (op_get (lfu_ops order zk zv) c k)) \<subseteq>\<^sub>m lfu_content c" by (simp add: lfu_ops_get(3) [OF inv])
  show "snd (op_get (lfu_ops order zk zv) c k) = Some v \<Longrightarrow> lfu_content c k = Some v" by (simp add: lfu_ops_get(4) [OF inv])
  show "op_peek (lfu_ops order zk zv) c k = Some v \<Longrightarrow> lfu_content c k = Some v" by (simp add: lfu_ops_sel lfu_peek_content)
  show "op_contains (lfu_ops order zk zv) c k \<Longrightarrow> k \<in> dom (lfu_content c)" by (simp only: lfu_ops_sel lfu_peek_content)
  show "lfu_content (op_purge (lfu_ops order zk zv) c) = Map.empty" using lfu_ops_others(3) [OF inv] by (simp add: lfu_ops_sel)
  show "lfu_content (fst (op_remove (lfu_ops order zk zv) c k)) \<subseteq>\<^sub>m (lfu_content c)(k := None)"
    using lfu_ops_others(1) [OF inv] by (simp add: lfu_ops_sel)
  show "lfu_content (fst (op_resize (lfu_ops order zk zv) c n)) \<subseteq>\<^sub>m lfu_content c"
    using lfu_ops_others(2) [OF inv] by (simp add: lfu_ops_sel)
  show "dom (lfu_content c) \<subseteq> set (op_keys (lfu_ops order zk zv) c)"
    by (simp add: lfu_ops_sel(7) [OF inv] counts(1))
  show "set (op_values (lfu_ops order zk zv) c) \<subseteq> ran (lfu_content c)"
  proof
    fix x assume "x \<in> set (op_values (lfu_ops order zk zv) c)"
    then have "x \<in> set (map Value (entries_in_order c))" by (simp only: lfu_ops_sel(8) [OF inv])
    then have "Some x \<in> set (map Some (map Value (entries_in_order c)))" unfolding set_map [of Some] by (rule imageI)
    then show "x \<in> ran (lfu_content c)" unfolding lfu_values_content [OF inv] by (auto simp: ran_def)
  qed
qed

interpretation lfu: exact_cacher "lfu_ops order zk zv" lfu_inv lfu_content lfu_capacity for order zk zv
proof unfold_locales
  fix c :: "('a, 'b) lfu" and k :: 'a and v :: 'b and n :: int
  assume inv: "lfu_inv c"
  note counts = lfu_counts [OF inv]
  show "finite (dom (lfu_content c))" by (rule counts(4))
  show "int (card (dom (lfu_content c))) \<le> lfu_capacity c" using counts(2,3) by simp
  show "snd (op_get (lfu_ops order zk zv) c k) = lfu_content c k" by (rule lfu_ops_get(4) [OF inv])
  show "lfu_content (fst (op_get (lfu_ops order zk zv) c k)) = lfu_content c" by (rule lfu_ops_get(3) [OF inv])
  show "op_peek (lfu_ops order zk zv) c k = lfu_content c k" by (simp add: lfu_ops_sel lfu_peek_content)
  show "op_contains (lfu_ops order zk zv) c k \<longleftrightarrow> k \<in> dom (lfu_content c)" by (simp only: lfu_ops_sel lfu_peek_content)
  show "op_len (lfu_ops order zk zv) c = int (card (dom (lfu_content c)))"
    using inv counts(2) by (simp add: lfu_ops_sel lfu_len_order lfu_inv_def)
  show "distinct (op_keys (lfu_ops order zk zv) c) \<and> set (op_keys (lfu_ops order zk zv) c) = dom (lfu_content c)"
    using counts(1,5) by (simp add: lfu_ops_sel(7) [OF inv])
  show "map Some (op_values (lfu_ops order zk zv) c) = map (lfu_content c) (op_keys (lfu_ops order zk zv) c)"
    unfolding lfu_ops_sel(7,8) [OF inv] by (rule lfu_values_content [OF inv])
  show "lfu_content (fst (op_remove (lfu_ops order zk zv) c k)) = (lfu_content c)(k := None) \<and>
      (snd (op_remove (lfu_ops order zk zv) c k) \<longleftrightarrow> k \<in> dom (lfu_content c))"
    using lfu_ops_others(1) [OF inv] by (simp add: lfu_ops_sel)
  show "int (card (dom (lfu_content (fst (op_resize (lfu_ops order zk zv) c n))))) =
        min (int (card (dom (lfu_content c)))) (max 0 n) \<and>
      snd (op_resize (lfu_ops order zk zv) c n) =
        int (card (dom (lfu_content c))) - int (card (dom (lfu_content (fst (op_resize (lfu_ops order zk zv) c n)))))"
    using lfu_ops_others(2) [OF inv, of n] unfolding lfu_ops_sel by blast
  show "lfu_capacity (fst (op_add (lfu_ops order zk zv) c k v)) = lfu_capacity c"
    by (simp add: lfu_capacity_def lfu_ops_add(2) [OF inv])
  show "lfu_capacity (fst (op_get (lfu_ops order zk zv) c k)) = lfu_capacity c"
    by (simp add: lfu_capacity_def lfu_ops_get(2) [OF inv])
  show "lfu_capacity (op_purge (lfu_ops order zk zv) c) = lfu_capacity c"
    using lfu_ops_others(3) [OF inv] by (simp add: lfu_capacity_def lfu_ops_sel)
  show "lfu_capacity (fst (op_remove (lfu_ops order zk zv) c k)) = lfu_capacity c"
    using lfu_ops_others(1) [OF inv] by (simp add: lfu_capacity_def lfu_ops_sel)
  show "lfu_capacity (fst (op_resize (lfu_ops order zk zv) c n)) = max 0 n"
    using lfu_ops_others(2) [OF inv] by (simp add: lfu_capacity_def lfu_ops_sel)
qed (rule lfu_add_cases [OF _ refl]; assumption)+

text \<open>Wrapped in a \<^verbatim>\<open>CacheWrapper\<close>, the LFU cache is an arm with exact bookkeeping.\<close>

interpretation lfu_arm: exact_policy "wrapper_ops (lfu_ops order zk zv)"
  "wrapped_exact lfu_inv lfu_capacity" "wrapped lfu_content" "wrapped lfu_capacity" for order zk zv
  by (rule lfu.wrapped_exact_policy)

end
