(* ===== verification/RandomCache.thy ===== *)
theory RandomCache
  imports PolicyIface
begin

text \<open>
  The random-eviction cache of \<^verbatim>\<open>src/policies/random.go\<close>: the entries, the list of keys that makes
  drawing one uniform, and the index of every key's slot in that list. Removal swaps the last key
  into the freed slot.

  The generator is a stream of natural numbers of which \<^verbatim>\<open>IntN(n)\<close> consumes the next, modulo \<open>n\<close>:
  every sequence of results Go could produce is one such stream, and everything below holds for all
  of them. Index errors are panics; an eviction loop that made no progress would not return. Both are
  \<^term>\<open>None\<close>, and neither happens.
\<close>

record ('k, 'v) random_cache =
  rdata :: "('k, 'v) mapping"
  rkeys :: "'k list"
  rindex :: "('k, int) mapping"
  rsize :: int
  rng_draws :: "nat \<Rightarrow> nat"
  rng_pos :: nat

definition NewRandom :: "(nat \<Rightarrow> nat) \<Rightarrow> int \<Rightarrow> ('k, 'v) random_cache" where
  "NewRandom seed sz =
     (let sz = (if sz < 0 then 0 else sz) in
      \<lparr>rdata = Mapping.empty, rkeys = [], rindex = Mapping.empty, rsize = sz,
       rng_draws = seed, rng_pos = 0\<rparr>)"

definition rng_intn :: "('k, 'v) random_cache \<Rightarrow> int \<Rightarrow> (('k, 'v) random_cache \<times> int) option" where
  "rng_intn c n =
     (if n \<le> 0 then None
      else Some (c\<lparr>rng_pos := rng_pos c + 1\<rparr>, int (rng_draws c (rng_pos c)) mod n))"

definition trackLocked :: "'k \<Rightarrow> ('k, 'v) random_cache \<Rightarrow> ('k, 'v) random_cache" where
  "trackLocked key c =
     c\<lparr>rindex := Mapping.update key (int (length (rkeys c))) (rindex c), rkeys := rkeys c @ [key]\<rparr>"

definition untrackLocked :: "'k \<Rightarrow> ('k, 'v) random_cache \<Rightarrow> ('k, 'v) random_cache option" where
  "untrackLocked key c =
     (case Mapping.lookup (rindex c) key of
        None \<Rightarrow> Some c
      | Some slot \<Rightarrow> do {
          let last = int (length (rkeys c)) - 1;
          c \<leftarrow> (if slot \<noteq> last then do {
                  moved \<leftarrow> slice_get (rkeys c) last;
                  keys \<leftarrow> slice_set (rkeys c) slot moved;
                  Some (c\<lparr>rkeys := keys, rindex := Mapping.update moved slot (rindex c)\<rparr>)
                } else Some c);
          keys \<leftarrow> slice_to (rkeys c) last;
          Some (c\<lparr>rkeys := keys, rindex := Mapping.delete key (rindex c)\<rparr>)
        })"

definition removeLocked :: "'k \<Rightarrow> ('k, 'v) random_cache \<Rightarrow> (('k, 'v) random_cache \<times> bool) option" where
  "removeLocked key c =
     (if Mapping.lookup (rdata c) key = None then Some (c, False)
      else map_option (\<lambda>c. (c, True)) (untrackLocked key (c\<lparr>rdata := Mapping.delete key (rdata c)\<rparr>)))"

text \<open>
  The eviction loop, down to at most \<open>bound\<close> keys; \<open>fuel\<close> counts iterations, and as many as there
  are keys are always enough.
\<close>

fun evict_down ::
  "nat \<Rightarrow> int \<Rightarrow> ('k, 'v) random_cache \<times> int \<Rightarrow> (('k, 'v) random_cache \<times> int) option" where
  "evict_down fuel bound (c, evicted) =
     (if int (length (rkeys c)) > bound
      then (case fuel of
              0 \<Rightarrow> None
            | Suc fuel \<Rightarrow> do {
                (c, i) \<leftarrow> rng_intn c (int (length (rkeys c)));
                victim \<leftarrow> slice_get (rkeys c) i;
                (c, _) \<leftarrow> removeLocked victim c;
                evict_down fuel bound (c, evicted + 1)
              })
      else Some (c, evicted))"

declare evict_down.simps [simp del]

definition evictLocked :: "('k, 'v) random_cache \<Rightarrow> (('k, 'v) random_cache \<times> int) option" where
  "evictLocked c = evict_down (length (rkeys c)) (rsize c) (c, 0)"

definition random_add :: "('k, 'v) random_cache \<Rightarrow> 'k \<Rightarrow> 'v \<Rightarrow> (('k, 'v) random_cache \<times> bool) option" where
  "random_add c key val =
     (if Mapping.lookup (rdata c) key \<noteq> None
      then Some (c\<lparr>rdata := Mapping.update key val (rdata c)\<rparr>, False)
      else if rsize c \<le> 0 then Some (c, False)
      else do {
        (c, evicted) \<leftarrow> evict_down (length (rkeys c)) (rsize c - 1) (c, 0);
        let c = trackLocked key c;
        Some (c\<lparr>rdata := Mapping.update key val (rdata c)\<rparr>, evicted > 0)
      })"

definition random_get :: "('k, 'v) random_cache \<Rightarrow> 'k \<Rightarrow> 'v option" where
  "random_get c key = Mapping.lookup (rdata c) key"

definition random_peek :: "('k, 'v) random_cache \<Rightarrow> 'k \<Rightarrow> 'v option" where
  "random_peek c key = random_get c key"

definition random_contains :: "('k, 'v) random_cache \<Rightarrow> 'k \<Rightarrow> bool" where
  "random_contains c key \<longleftrightarrow> Mapping.lookup (rdata c) key \<noteq> None"

definition random_remove :: "('k, 'v) random_cache \<Rightarrow> 'k \<Rightarrow> (('k, 'v) random_cache \<times> bool) option" where
  "random_remove c key = removeLocked key c"

definition random_purge :: "('k, 'v) random_cache \<Rightarrow> ('k, 'v) random_cache" where
  "random_purge c = c\<lparr>rdata := Mapping.empty, rkeys := [], rindex := Mapping.empty\<rparr>"

definition random_keys :: "('k, 'v) random_cache \<Rightarrow> 'k list" where
  "random_keys c = rkeys c"

definition random_values :: "'v \<Rightarrow> ('k, 'v) random_cache \<Rightarrow> 'v list" where
  "random_values zv c = map (\<lambda>key. or_else zv (Mapping.lookup (rdata c) key)) (rkeys c)"

definition random_len :: "('k, 'v) random_cache \<Rightarrow> int" where
  "random_len c = int (Mapping.size (rdata c))"

definition random_resize :: "('k, 'v) random_cache \<Rightarrow> int \<Rightarrow> (('k, 'v) random_cache \<times> int) option" where
  "random_resize c sz = (let sz = (if sz < 0 then 0 else sz) in evictLocked (c\<lparr>rsize := sz\<rparr>))"

definition random_cap :: "('k, 'v) random_cache \<Rightarrow> int" where
  "random_cap c = rsize c"

subsection \<open>The index is the inverse of the key list\<close>

definition random_tracked :: "('k, 'v) random_cache \<Rightarrow> bool" where
  "random_tracked c \<longleftrightarrow> distinct (rkeys c) \<and> set (rkeys c) = dom (Mapping.lookup (rdata c)) \<and>
     (\<forall>k i. Mapping.lookup (rindex c) k = Some i \<longleftrightarrow>
        0 \<le> i \<and> i < int (length (rkeys c)) \<and> rkeys c ! nat i = k)"

definition random_inv :: "('k, 'v) random_cache \<Rightarrow> bool" where
  "random_inv c \<longleftrightarrow> random_tracked c \<and> 0 \<le> rsize c \<and> int (length (rkeys c)) \<le> rsize c"

lemma index_of:
  assumes "random_tracked c" "k \<in> set (rkeys c)"
  obtains i where "i < length (rkeys c)" "rkeys c ! i = k" "Mapping.lookup (rindex c) k = Some (int i)"
proof -
  from assms(2) obtain i where "i < length (rkeys c)" "rkeys c ! i = k" by (auto simp: in_set_conv_nth)
  with assms(1) show thesis by (intro that) (simp_all add: random_tracked_def)
qed

lemma swap_remove_set:
  assumes "distinct xs" "i < length xs"
  shows "set (take (length xs - Suc 0) (xs[i := last xs])) = set xs - {xs ! i} \<and>
    distinct (take (length xs - Suc 0) (xs[i := last xs]))"
proof -
  let ?n = "length xs - Suc 0" and ?ys = "take (length xs - Suc 0) (xs[i := last xs])"
  have ne: "xs \<noteq> []" using assms(2) by auto
  have nth: "?ys ! j = (if j = i then xs ! ?n else xs ! j)" if "j < ?n" for j
    using that ne by (auto simp: last_conv_nth nth_list_update)
  have len: "length ?ys = ?n" by simp
  have inj: "xs ! a = xs ! b \<longleftrightarrow> a = b" if "a < length xs" "b < length xs" for a b
    using that assms(1) by (simp add: nth_eq_iff_index_eq)
  have "x \<in> set ?ys \<longleftrightarrow> x \<in> set xs \<and> x \<noteq> xs ! i" for x
  proof
    assume "x \<in> set ?ys"
    then obtain j where j: "j < ?n" "?ys ! j = x" by (auto simp: in_set_conv_nth)
    with nth [OF j(1)] inj assms(2) last_in_set [OF ne] show "x \<in> set xs \<and> x \<noteq> xs ! i"
      by (auto split: if_splits)
  next
    assume x: "x \<in> set xs \<and> x \<noteq> xs ! i"
    then obtain j where j: "j < length xs" "xs ! j = x" by (auto simp: in_set_conv_nth)
    with x have "j \<noteq> i" by auto
    show "x \<in> set ?ys"
    proof (cases "j = ?n")
      case True
      with \<open>j \<noteq> i\<close> assms(2) have "i < ?n" by simp
      with nth [OF this] True j len show ?thesis by (metis nth_mem)
    next
      case False
      with j(1) have "j < ?n" by simp
      with nth [OF this] \<open>j \<noteq> i\<close> j len show ?thesis by (metis nth_mem)
    qed
  qed
  then have "set ?ys = set xs - {xs ! i}" by blast
  moreover have "distinct ?ys"
    unfolding distinct_conv_nth len
  proof (intro allI impI)
    fix a b assume ab: "a < ?n" "b < ?n" "a \<noteq> b"
    then have "a < length xs" "b < length xs" "?n < length xs" by simp_all
    with ab inj show "?ys ! a \<noteq> ?ys ! b" unfolding nth [OF ab(1)] nth [OF ab(2)] by auto
  qed
  ultimately show ?thesis by blast
qed


subsection \<open>Removal and eviction\<close>

lemma swap_remove_nth:
  assumes "i < length xs" "j < length xs - Suc 0"
  shows "take (length xs - Suc 0) (xs[i := last xs]) ! j = (if j = i then last xs else xs ! j)"
  using assms by (auto simp: nth_list_update)

lemma random_tracked_upd:
  "random_tracked (c\<lparr>rdata := D, rkeys := ks, rindex := ix\<rparr>) \<longleftrightarrow>
    distinct ks \<and> set ks = dom (Mapping.lookup D) \<and>
    (\<forall>k i. Mapping.lookup ix k = Some i \<longleftrightarrow> 0 \<le> i \<and> i < int (length ks) \<and> ks ! nat i = k)"
  by (simp add: random_tracked_def)

text \<open>Removing a tracked key keeps everything else tracked.\<close>

lemma removeLocked_tracked:
  assumes t: "random_tracked c" and k: "k \<in> set (rkeys c)"
  shows "\<exists>c'. removeLocked k c = Some (c', True) \<and> random_tracked c' \<and>
    Mapping.lookup (rdata c') = (Mapping.lookup (rdata c))(k := None) \<and>
    length (rkeys c') + 1 = length (rkeys c) \<and> rsize c' = rsize c \<and> rng_draws c' = rng_draws c"
proof -
  obtain i where i: "i < length (rkeys c)" "rkeys c ! i = k" "Mapping.lookup (rindex c) k = Some (int i)"
    by (rule index_of [OF t k])
  let ?xs = "rkeys c" and ?n = "length (rkeys c) - Suc 0"
  let ?ys = "take ?n (?xs[i := last ?xs])"
  have ne: "?xs \<noteq> []" using i(1) by auto
  have d: "distinct ?xs" "set ?xs = dom (Mapping.lookup (rdata c))"
    "\<And>k i. Mapping.lookup (rindex c) k = Some i \<longleftrightarrow> 0 \<le> i \<and> i < int (length ?xs) \<and> ?xs ! nat i = k"
    using t by (auto simp: random_tracked_def)
  have last: "last ?xs = ?xs ! ?n" using ne by (simp add: last_conv_nth)
  let ?idx = "if i = ?n then Mapping.delete k (rindex c)
    else Mapping.delete k (Mapping.update (last ?xs) (int i) (rindex c))"
  let ?c = "c\<lparr>rdata := Mapping.delete k (rdata c), rkeys := ?ys, rindex := ?idx\<rparr>"
  have n: "int (length ?xs) - 1 = int ?n" using ne by (cases ?xs) auto
  have nn: "nat (int (length ?xs) - 1) = length ?xs - Suc 0" by linarith
  have slices: "slice_get ?xs (int ?n) = Some (last ?xs)"
    "slice_set ?xs (int i) (last ?xs) = Some (?xs[i := last ?xs])"
    "slice_to (?xs[i := last ?xs]) (int ?n) = Some ?ys" "slice_to ?xs (int ?n) = Some (take ?n ?xs)"
    using i(1) ne last by (simp_all add: slice_get_def slice_set_def slice_to_def nn)
  obtain v where v: "Mapping.lookup (rdata c) k = Some v" using k d(2) by blast
  have untrack: "untrackLocked k (c\<lparr>rdata := Mapping.delete k (rdata c)\<rparr>) = Some ?c"
  proof (cases "i = ?n")
    case True
    then have "?xs[i := last ?xs] = ?xs" using last by simp
    with True show ?thesis
      unfolding untrackLocked_def by (simp add: i(3) n Let_def slices(4) del: slice_in_range)
  next
    case False
    then have "int i \<noteq> int ?n" by simp
    with False show ?thesis
      unfolding untrackLocked_def by (simp add: i(3) n Let_def slices(1-3) del: slice_in_range of_nat_eq_iff)
  qed
  then have eq: "removeLocked k c = Some (?c, True)"
    unfolding removeLocked_def v by simp
  have ys: "set ?ys = set ?xs - {k}" "distinct ?ys"
    using swap_remove_set [OF d(1) i(1)] i(2) by simp_all
  have nth: "?ys ! j = (if j = i then ?xs ! ?n else ?xs ! j)" if "j < ?n" for j
    using swap_remove_nth [OF i(1) that] last by simp
  have inj: "?xs ! a = ?xs ! b \<longleftrightarrow> a = b" if "a < length ?xs" "b < length ?xs" for a b
    using that d(1) by (simp add: nth_eq_iff_index_eq)
  have idx: "Mapping.lookup ?idx j = Some z \<longleftrightarrow> 0 \<le> z \<and> z < int (length ?ys) \<and> ?ys ! nat z = j" for j z
  proof (cases "j = k")
    case True
    have "?ys ! nat z \<noteq> k" if "0 \<le> z" "z < int (length ?ys)"
      using nth_mem [of "nat z" ?ys] that ys(1) by (metis Diff_iff insertI1 nat_less_iff)
    moreover have "Mapping.lookup ?idx k = None" by simp
    ultimately show ?thesis unfolding True by (metis option.distinct(1))
  next
    case j: False
    show ?thesis
    proof (cases "0 \<le> z \<and> z < int ?n")
      case True
      then have z: "nat z < ?n" by (metis nat_less_iff)
      have jl: "i \<noteq> ?n \<Longrightarrow> nat z = i \<Longrightarrow> (j = ?xs ! ?n \<longleftrightarrow> ?ys ! nat z = j)" using nth [OF z] by auto
      have lookup: "Mapping.lookup ?idx j = (if i \<noteq> ?n \<and> j = ?xs ! ?n then Some (int i) else Mapping.lookup (rindex c) j)"
        using j last by simp
      show ?thesis
        unfolding lookup using True z nth [OF z] d(3) [of j z] i j inj [of "nat z" ?n] inj [of i ?n]
        by (auto split: if_splits)
    next
      case False
      have "Mapping.lookup ?idx j \<noteq> Some z"
      proof
        assume a: "Mapping.lookup ?idx j = Some z"
        then have "(i \<noteq> ?n \<and> j = ?xs ! ?n \<and> z = int i) \<or>
            (\<not> (i \<noteq> ?n \<and> j = ?xs ! ?n) \<and> Mapping.lookup (rindex c) j = Some z)"
          using j last by (auto split: if_splits)
        then show False
        proof
          assume "i \<noteq> ?n \<and> j = ?xs ! ?n \<and> z = int i"
          with False i(1) show False by auto
        next
          assume b: "\<not> (i \<noteq> ?n \<and> j = ?xs ! ?n) \<and> Mapping.lookup (rindex c) j = Some z"
          then have "0 \<le> z" "z < int (length ?xs)" "?xs ! nat z = j" using d(3) by auto
          with False have "nat z = ?n" by auto
          with b \<open>?xs ! nat z = j\<close> i(2) j show False by auto
        qed
      qed
      with False show ?thesis by auto
    qed
  qed
  have "random_tracked ?c"
  proof -
    have "dom (Mapping.lookup (Mapping.delete k (rdata c))) = set ?xs - {k}"
      using d(2) by (auto split: if_splits)
    with ys have "distinct ?ys \<and> set ?ys = dom (Mapping.lookup (Mapping.delete k (rdata c))) \<and>
        (\<forall>j z. Mapping.lookup ?idx j = Some z \<longleftrightarrow> 0 \<le> z \<and> z < int (length ?ys) \<and> ?ys ! nat z = j)"
      by (intro conjI allI idx) (simp_all only:)
    then show ?thesis
      unfolding random_tracked_upd .
  qed
  moreover have "length ?ys + 1 = length ?xs" using i(1) by simp
  ultimately show ?thesis using eq by auto
qed

text \<open>The eviction loop returns, removes exactly the surplus, and only entries that were resident.\<close>

lemma evict_down_ok:
  assumes "random_tracked c" "0 \<le> bound" "length (rkeys c) \<le> fuel + nat bound"
  shows "\<exists>c'. evict_down fuel bound (c, ev) = Some (c', ev + int (length (rkeys c) - nat bound)) \<and>
    random_tracked c' \<and> Mapping.lookup (rdata c') \<subseteq>\<^sub>m Mapping.lookup (rdata c) \<and>
    length (rkeys c') = min (length (rkeys c)) (nat bound) \<and> rsize c' = rsize c"
  using assms
proof (induction fuel arbitrary: c ev)
  case 0
  then have "\<not> int (length (rkeys c)) > bound" by linarith
  with 0 show ?case by (auto simp: evict_down.simps)
next
  case (Suc fuel)
  show ?case
  proof (cases "int (length (rkeys c)) > bound")
    case False
    with Suc.prems show ?thesis by (auto simp: evict_down.simps)
  next
    case True
    let ?n = "int (length (rkeys c))"
    let ?d = "c\<lparr>rng_pos := rng_pos c + 1\<rparr>" and ?i = "int (rng_draws c (rng_pos c)) mod ?n"
    have n: "0 < ?n" using True Suc.prems(2) by linarith
    then have draw: "rng_intn c ?n = Some (?d, ?i)" "0 \<le> ?i" "?i < ?n" by (simp_all add: rng_intn_def)
    let ?v = "rkeys c ! nat ?i"
    have v: "?v \<in> set (rkeys ?d)" using draw(2,3) by (simp add: nat_less_iff)
    have "random_tracked ?d" using Suc.prems(1) by (simp add: random_tracked_def)
    from removeLocked_tracked [OF this v] obtain f where f: "removeLocked ?v ?d = Some (f, True)"
        "random_tracked f" "Mapping.lookup (rdata f) = (Mapping.lookup (rdata c))(?v := None)"
        "length (rkeys f) + 1 = length (rkeys c)" "rsize f = rsize c" by auto
    have "length (rkeys f) \<le> fuel + nat bound" using f(4) Suc.prems(3) by simp
    from Suc.IH [OF f(2) Suc.prems(2) this, of "ev + 1"] obtain c' where
      c': "evict_down fuel bound (f, ev + 1) = Some (c', ev + 1 + int (length (rkeys f) - nat bound))"
        "random_tracked c'" "Mapping.lookup (rdata c') \<subseteq>\<^sub>m Mapping.lookup (rdata f)"
        "length (rkeys c') = min (length (rkeys f)) (nat bound)" "rsize c' = rsize f" by blast
    have "evict_down (Suc fuel) bound (c, ev) = evict_down fuel bound (f, ev + 1)"
      using True draw f(1) by (subst evict_down.simps) simp
    moreover have "ev + 1 + int (length (rkeys f) - nat bound) = ev + int (length (rkeys c) - nat bound)"
      using f(4) True by linarith
    moreover have "Mapping.lookup (rdata c') \<subseteq>\<^sub>m Mapping.lookup (rdata c)"
      using map_le_trans [OF c'(3)] f(3) map_le_delete_self by simp
    moreover have "length (rkeys c') = min (length (rkeys c)) (nat bound)"
      using c'(4) f(4) True by linarith
    ultimately show ?thesis using c'(1,2,5) f(5) by metis
  qed
qed


subsection \<open>The cache as an arm\<close>

abbreviation random_content :: "('k, 'v) random_cache \<Rightarrow> 'k \<rightharpoonup> 'v" where
  "random_content c \<equiv> Mapping.lookup (rdata c)"

definition random_ops :: "'v \<Rightarrow> (('k, 'v) random_cache, 'k, 'v) cacher_ops" where
  "random_ops zv =
     \<lparr>op_add = (\<lambda>c k v. or_else (c, False) (random_add c k v)),
      op_contains = random_contains,
      op_get = (\<lambda>c k. (c, random_get c k)),
      op_keys = random_keys,
      op_len = random_len,
      op_peek = random_peek,
      op_purge = random_purge,
      op_remove = (\<lambda>c k. or_else (c, False) (random_remove c k)),
      op_resize = (\<lambda>c n. or_else (c, 0) (random_resize c n)),
      op_values = random_values zv\<rparr>"

lemma random_facts:
  assumes "random_inv c"
  shows "random_tracked c" "0 \<le> rsize c" "int (length (rkeys c)) \<le> rsize c" "distinct (rkeys c)"
    "set (rkeys c) = dom (random_content c)" "finite (dom (random_content c))"
    "card (dom (random_content c)) = length (rkeys c)"
proof -
  show "random_tracked c" "0 \<le> rsize c" "int (length (rkeys c)) \<le> rsize c" "distinct (rkeys c)"
    "set (rkeys c) = dom (random_content c)"
    using assms by (simp_all add: random_inv_def random_tracked_def)
  then show "finite (dom (random_content c))" "card (dom (random_content c)) = length (rkeys c)"
    using distinct_card by (metis List.finite_set)+
qed

lemma NewRandom_inv: "random_inv (NewRandom seed sz)" "random_content (NewRandom seed sz) = Map.empty"
    "rsize (NewRandom seed sz) = max 0 sz"
  by (simp_all add: NewRandom_def random_inv_def random_tracked_def Let_def)

text \<open>A new entry takes the slot at the end.\<close>

lemma track_new:
  assumes t: "random_tracked c" and k: "k \<notin> dom (random_content c)"
  shows "random_tracked ((trackLocked k c)\<lparr>rdata := Mapping.update k v (rdata (trackLocked k c))\<rparr>)"
proof -
  have "k \<notin> set (rkeys c)" using t k by (simp add: random_tracked_def)
  have idx: "Mapping.lookup (Mapping.update k (int (length (rkeys c))) (rindex c)) j = Some z \<longleftrightarrow>
      0 \<le> z \<and> z < int (length (rkeys c @ [k])) \<and> (rkeys c @ [k]) ! nat z = j" for j z
  proof -
    have old: "Mapping.lookup (rindex c) j = Some z \<longleftrightarrow> 0 \<le> z \<and> z < int (length (rkeys c)) \<and> rkeys c ! nat z = j"
      using t by (simp add: random_tracked_def)
    consider "0 \<le> z" "nat z < length (rkeys c)" | "0 \<le> z" "nat z = length (rkeys c)"
      | "z < 0 \<or> length (rkeys c) < nat z" by linarith
    then show ?thesis
    proof cases
      case 1
      then have "rkeys c ! nat z \<noteq> k" using \<open>k \<notin> set (rkeys c)\<close> nth_mem by blast
      with 1 show ?thesis by (auto simp: old nth_append)
    next
      case 2
      then have z: "z = int (length (rkeys c))" by linarith
      have "Mapping.lookup (rindex c) j \<noteq> Some z" unfolding old using z by simp
      with z show ?thesis by (auto simp: nth_append)
    next
      case 3
      then show ?thesis by (auto simp: old)
    qed
  qed
  have "distinct (rkeys c @ [k])" "set (rkeys c @ [k]) = dom (Mapping.lookup (Mapping.update k v (rdata c)))"
    using t \<open>k \<notin> set (rkeys c)\<close> by (auto simp: random_tracked_def)
  moreover have "(trackLocked k c)\<lparr>rdata := Mapping.update k v (rdata (trackLocked k c))\<rparr> =
      c\<lparr>rdata := Mapping.update k v (rdata c), rkeys := rkeys c @ [k],
        rindex := Mapping.update k (int (length (rkeys c))) (rindex c)\<rparr>"
    by (simp add: trackLocked_def)
  ultimately show ?thesis using idx by (simp only: random_tracked_upd) simp
qed

lemma random_add_resident:
  assumes "random_inv c" "k \<in> dom (random_content c)"
  shows "\<exists>c'. random_add c k v = Some (c', False) \<and> random_inv c' \<and> rsize c' = rsize c \<and>
    random_content c' = (random_content c)(k \<mapsto> v)"
proof -
  have "random_inv (c\<lparr>rdata := Mapping.update k v (rdata c)\<rparr>)"
  proof -
    have "dom (Mapping.lookup (Mapping.update k v (rdata c))) = dom (random_content c)"
      using assms(2) by (auto split: if_splits)
    then show ?thesis using assms(1) by (simp add: random_inv_def random_tracked_def)
  qed
  moreover have "random_content (c\<lparr>rdata := Mapping.update k v (rdata c)\<rparr>) = (random_content c)(k \<mapsto> v)"
    by (auto simp: fun_eq_iff)
  ultimately show ?thesis using assms(2) by (auto simp: random_add_def)
qed

text \<open>
  Making room happens before the insertion, so the new key is never its own victim, and a cache
  within its capacity evicts one entry at most.
\<close>

lemma random_add_new:
  assumes inv: "random_inv c" and k: "k \<notin> dom (random_content c)" and pos: "0 < rsize c"
  shows "\<exists>c' m. random_add c k v = Some (c', int (length (rkeys c)) = rsize c) \<and> random_inv c' \<and>
    rsize c' = rsize c \<and> random_content c' = m(k \<mapsto> v) \<and> m \<subseteq>\<^sub>m random_content c \<and>
    int (card (dom m)) = min (int (length (rkeys c))) (rsize c - 1)"
proof -
  note f = random_facts [OF inv]
  have b: "0 \<le> rsize c - 1" "length (rkeys c) \<le> length (rkeys c) + nat (rsize c - 1)" using pos by simp_all
  from evict_down_ok [OF f(1) b, of 0] obtain d where d:
      "evict_down (length (rkeys c)) (rsize c - 1) (c, 0) = Some (d, int (length (rkeys c) - nat (rsize c - 1)))"
      "random_tracked d" "random_content d \<subseteq>\<^sub>m random_content c"
      "length (rkeys d) = min (length (rkeys c)) (nat (rsize c - 1))" "rsize d = rsize c" by auto
  let ?c' = "(trackLocked k d)\<lparr>rdata := Mapping.update k v (rdata (trackLocked k d))\<rparr>"
  have kd: "k \<notin> dom (random_content d)" using d(3) k map_le_implies_dom_le by blast
  have "random_inv ?c'"
    using track_new [OF d(2) kd, of v] d(4,5) pos f(2,3) by (simp add: random_inv_def) (simp add: trackLocked_def)
  moreover have "random_content ?c' = (random_content d)(k \<mapsto> v)" by (auto simp: trackLocked_def fun_eq_iff)
  moreover have "int (card (dom (random_content d))) = min (int (length (rkeys c))) (rsize c - 1)"
  proof -
    have "card (dom (random_content d)) = length (rkeys d)"
      using d(2) distinct_card by (metis random_tracked_def)
    then show ?thesis using d(4) pos by simp
  qed
  moreover have "(int (length (rkeys c) - nat (rsize c - 1)) > 0) \<longleftrightarrow> int (length (rkeys c)) = rsize c"
    using f(3) pos by linarith
  then have "random_add c k v = Some (?c', int (length (rkeys c)) = rsize c)"
    using k pos d(1) by (auto simp: random_add_def domIff Let_def)
  moreover have "rsize ?c' = rsize c" by (simp add: trackLocked_def d(5))
  ultimately show ?thesis using d(3) by blast
qed

lemma random_add_zero: "random_inv c \<Longrightarrow> rsize c = 0 \<Longrightarrow> random_add c k v = Some (c, False)"
proof -
  assume inv: "random_inv c" and z: "rsize c = 0"
  then have "rkeys c = []" using random_facts(3) [OF inv] by simp
  then have "random_content c k = None" using random_facts(5) [OF inv] by auto
  with z show ?thesis by (simp add: random_add_def)
qed

lemma random_remove_ok:
  assumes inv: "random_inv c"
  shows "\<exists>c'. random_remove c k = Some (c', k \<in> dom (random_content c)) \<and> random_inv c' \<and> rsize c' = rsize c \<and>
    random_content c' = (random_content c)(k := None)"
proof (cases "k \<in> dom (random_content c)")
  case True
  then have "k \<in> set (rkeys c)" using random_facts(5) [OF inv] by simp
  from removeLocked_tracked [OF random_facts(1) [OF inv] this] True random_facts(2,3) [OF inv]
  show ?thesis by (auto simp: random_remove_def random_inv_def)
next
  case False
  then have "random_content c k = None" by blast
  then show ?thesis using inv by (auto simp: random_remove_def removeLocked_def fun_eq_iff)
qed

lemma random_resize_ok:
  assumes inv: "random_inv c"
  shows "\<exists>c'. random_resize c n = Some (c', int (length (rkeys c)) - int (length (rkeys c'))) \<and> random_inv c' \<and>
    rsize c' = max 0 n \<and> random_content c' \<subseteq>\<^sub>m random_content c \<and>
    int (length (rkeys c')) = min (int (length (rkeys c))) (max 0 n)"
proof -
  let ?d = "c\<lparr>rsize := max 0 n\<rparr>"
  have "random_tracked ?d" using random_facts(1) [OF inv] by (simp add: random_tracked_def)
  from evict_down_ok [OF this, of "max 0 n" "length (rkeys c)" 0] obtain c' where c':
      "evict_down (length (rkeys c)) (max 0 n) (?d, 0) = Some (c', int (length (rkeys c) - nat (max 0 n)))"
      "random_tracked c'" "random_content c' \<subseteq>\<^sub>m random_content c"
      "length (rkeys c') = min (length (rkeys c)) (nat (max 0 n))" "rsize c' = max 0 n" by auto
  have "random_resize c n = Some (c', int (length (rkeys c) - nat (max 0 n)))"
    using c'(1) by (cases "n < 0") (simp_all add: random_resize_def evictLocked_def max_def)
  moreover have "int (length (rkeys c) - nat (max 0 n)) = int (length (rkeys c)) - int (length (rkeys c'))"
    "int (length (rkeys c')) = min (int (length (rkeys c))) (max 0 n)"
    by (cases "n < 0"; cases "length (rkeys c) \<le> nat n"; simp add: c'(4))+
  moreover from this(2) have "random_inv c'"
    unfolding random_inv_def c'(5) using c'(2) by simp
  ultimately show ?thesis using c'(3,5) by metis
qed

interpretation random: cacher_contract "random_ops zv" random_inv random_content for zv :: 'v
proof unfold_locales
  fix c :: "('k, 'v) random_cache" and k :: 'k and v :: 'v and n :: int
  assume inv: "random_inv c"
  note f = random_facts [OF inv]
  have add: "random_inv (fst (op_add (random_ops zv) c k v)) \<and>
      random_content (fst (op_add (random_ops zv) c k v)) \<subseteq>\<^sub>m (random_content c)(k \<mapsto> v)"
  proof -
    consider "k \<in> dom (random_content c)" | "k \<notin> dom (random_content c)" "0 < rsize c" | "rsize c = 0"
      using f(2) by linarith
    then show ?thesis
    proof cases
      case 1
      with random_add_resident [OF inv, of k v] show ?thesis by (auto simp: random_ops_def)
    next
      case 2
      with random_add_new [OF inv, of k v] show ?thesis by (auto simp: random_ops_def map_le_insert)
    next
      case 3
      with random_add_zero [OF inv] inv f(3,5) show ?thesis
        by (auto simp: random_ops_def map_le_def)
    qed
  qed
  then show "random_inv (fst (op_add (random_ops zv) c k v))"
    "random_content (fst (op_add (random_ops zv) c k v)) \<subseteq>\<^sub>m (random_content c)(k \<mapsto> v)" by blast+
  show "random_inv (fst (op_get (random_ops zv) c k))" "random_content (fst (op_get (random_ops zv) c k)) \<subseteq>\<^sub>m random_content c"
    using inv by (simp_all add: random_ops_def)
  show "random_inv (op_purge (random_ops zv) c)" "random_content (op_purge (random_ops zv) c) = Map.empty"
    using f(2) by (simp_all add: random_ops_def random_purge_def random_inv_def random_tracked_def)
  show "random_inv (fst (op_remove (random_ops zv) c k))"
    "random_content (fst (op_remove (random_ops zv) c k)) \<subseteq>\<^sub>m (random_content c)(k := None)"
    using random_remove_ok [OF inv, of k] by (auto simp: random_ops_def)
  show "random_inv (fst (op_resize (random_ops zv) c n))"
    "random_content (fst (op_resize (random_ops zv) c n)) \<subseteq>\<^sub>m random_content c"
    using random_resize_ok [OF inv, of n] by (auto simp: random_ops_def)
  show "snd (op_get (random_ops zv) c k) = Some v \<Longrightarrow> random_content c k = Some v"
    "op_peek (random_ops zv) c k = Some v \<Longrightarrow> random_content c k = Some v"
    "op_contains (random_ops zv) c k \<Longrightarrow> k \<in> dom (random_content c)"
    by (auto simp: random_ops_def random_get_def random_peek_def random_contains_def)
  show "dom (random_content c) \<subseteq> set (op_keys (random_ops zv) c)"
    using f(5) by (simp add: random_ops_def random_keys_def)
  show "set (op_values (random_ops zv) c) \<subseteq> ran (random_content c)"
    using f(5) by (auto simp: random_ops_def random_values_def ran_def)
qed

interpretation random: exact_cacher "random_ops zv" random_inv random_content rsize for zv :: 'v
proof unfold_locales
  fix c :: "('k, 'v) random_cache" and k :: 'k and v :: 'v and n :: int
  assume inv: "random_inv c"
  note f = random_facts [OF inv]
  show "finite (dom (random_content c))" by (rule f(6))
  show "int (card (dom (random_content c))) \<le> rsize c" using f(3,7) by simp
  show "snd (op_get (random_ops zv) c k) = random_content c k"
    "random_content (fst (op_get (random_ops zv) c k)) = random_content c"
    "op_peek (random_ops zv) c k = random_content c k"
    "rsize (fst (op_get (random_ops zv) c k)) = rsize c"
    "rsize (op_purge (random_ops zv) c) = rsize c"
    by (simp_all add: random_ops_def random_get_def random_peek_def random_purge_def)
  show "op_contains (random_ops zv) c k \<longleftrightarrow> k \<in> dom (random_content c)"
    by (auto simp: random_ops_def random_contains_def)
  show "op_len (random_ops zv) c = int (card (dom (random_content c)))"
    by (simp add: random_ops_def random_len_def mapping_size f(6))
  show "distinct (op_keys (random_ops zv) c) \<and> set (op_keys (random_ops zv) c) = dom (random_content c)"
    using f(4,5) by (simp add: random_ops_def random_keys_def)
  show "map Some (op_values (random_ops zv) c) = map (random_content c) (op_keys (random_ops zv) c)"
    using f(5) by (auto simp: random_ops_def random_values_def random_keys_def)
  show "k \<in> dom (random_content c) \<Longrightarrow>
      random_content (fst (op_add (random_ops zv) c k v)) = (random_content c)(k \<mapsto> v) \<and>
      \<not> snd (op_add (random_ops zv) c k v)"
    using random_add_resident [OF inv, of k v] by (auto simp: random_ops_def)
  show "random_content (fst (op_add (random_ops zv) c k v)) = (random_content c)(k \<mapsto> v) \<and>
      \<not> snd (op_add (random_ops zv) c k v)"
    if "k \<notin> dom (random_content c)" "int (card (dom (random_content c))) < rsize c"
  proof -
    from random_add_new [OF inv that(1), of v] that(2) f(7) obtain c' m where r:
        "random_add c k v = Some (c', int (length (rkeys c)) = rsize c)" "random_content c' = m(k \<mapsto> v)"
        "m \<subseteq>\<^sub>m random_content c" "int (card (dom m)) = min (int (length (rkeys c))) (rsize c - 1)" by auto
    have "card (dom m) = card (dom (random_content c))" using r(4) that(2) f(7) by simp
    then have "dom m = dom (random_content c)"
      using r(3) f(6) by (metis card_subset_eq map_le_implies_dom_le)
    with r(3) have "m = random_content c" by (metis map_le_antisym map_le_def)
    with r(1,2) that(2) f(7) show ?thesis by (simp add: random_ops_def)
  qed
  show "\<exists>victim \<in> dom (random_content c).
      random_content (fst (op_add (random_ops zv) c k v)) = (random_content c)(victim := None, k \<mapsto> v) \<and>
      snd (op_add (random_ops zv) c k v)"
    if "k \<notin> dom (random_content c)" "int (card (dom (random_content c))) = rsize c" "0 < rsize c"
  proof -
    from random_add_new [OF inv that(1,3), of v] obtain c' m where r:
        "random_add c k v = Some (c', int (length (rkeys c)) = rsize c)" "random_content c' = m(k \<mapsto> v)"
        "m \<subseteq>\<^sub>m random_content c" "int (card (dom m)) = min (int (length (rkeys c))) (rsize c - 1)" by auto
    have sub: "dom m \<subseteq> dom (random_content c)" using r(3) by (rule map_le_implies_dom_le)
    have "card (dom (random_content c) - dom m) = 1"
      using r(4) that(2) f(7) card_Diff_subset [OF finite_subset [OF sub f(6)] sub] by simp
    then obtain victim where v: "dom (random_content c) - dom m = {victim}" by (rule card_1_singletonE)
    have "m = (random_content c)(victim := None)"
    proof (rule ext)
      fix j
      have victim: "victim \<notin> dom m" using v by blast
      show "m j = ((random_content c)(victim := None)) j"
      proof (cases "j \<in> dom m")
        case True
        then have "m j = random_content c j" using r(3) unfolding map_le_def by blast
        with True victim show ?thesis by auto
      next
        case False
        then have "j = victim \<or> j \<notin> dom (random_content c)" using v by blast
        with False show ?thesis by auto
      qed
    qed
    with r(1,2) v that(2) f(7) show ?thesis by (auto simp: random_ops_def)
  qed
  show "rsize c = 0 \<Longrightarrow> random_content (fst (op_add (random_ops zv) c k v)) = random_content c \<and>
      \<not> snd (op_add (random_ops zv) c k v)"
    using random_add_zero [OF inv] by (simp add: random_ops_def)
  show "random_content (fst (op_remove (random_ops zv) c k)) = (random_content c)(k := None) \<and>
      (snd (op_remove (random_ops zv) c k) \<longleftrightarrow> k \<in> dom (random_content c))"
    "rsize (fst (op_remove (random_ops zv) c k)) = rsize c"
    using random_remove_ok [OF inv, of k] by (auto simp: random_ops_def)
  show "int (card (dom (random_content (fst (op_resize (random_ops zv) c n))))) =
        min (int (card (dom (random_content c)))) (max 0 n) \<and>
      snd (op_resize (random_ops zv) c n) =
        int (card (dom (random_content c))) - int (card (dom (random_content (fst (op_resize (random_ops zv) c n)))))"
    "rsize (fst (op_resize (random_ops zv) c n)) = max 0 n"
  proof -
    from random_resize_ok [OF inv, of n] obtain c' where r:
        "random_resize c n = Some (c', int (length (rkeys c)) - int (length (rkeys c')))" "random_inv c'"
        "rsize c' = max 0 n" "int (length (rkeys c')) = min (int (length (rkeys c))) (max 0 n)" by blast
    have eq: "op_resize (random_ops zv) c n = (c', int (length (rkeys c)) - int (length (rkeys c')))"
      by (simp add: random_ops_def r(1))
    show "int (card (dom (random_content (fst (op_resize (random_ops zv) c n))))) =
        min (int (card (dom (random_content c)))) (max 0 n) \<and>
      snd (op_resize (random_ops zv) c n) =
        int (card (dom (random_content c))) - int (card (dom (random_content (fst (op_resize (random_ops zv) c n)))))"
      "rsize (fst (op_resize (random_ops zv) c n)) = max 0 n"
      unfolding eq fst_conv snd_conv f(7) random_facts(7) [OF r(2)] using r(3,4) by blast+
  qed
  show "rsize (fst (op_add (random_ops zv) c k v)) = rsize c"
    using random_add_resident [OF inv, of k v] random_add_new [OF inv, of k v] random_add_zero [OF inv, of k v] f(2)
    by (cases "k \<in> dom (random_content c)"; cases "rsize c = 0") (auto simp: random_ops_def)
qed

interpretation random_arm: exact_policy "wrapper_ops (random_ops zv)"
  "wrapped_exact random_inv rsize" "wrapped random_content" "wrapped rsize" for zv :: 'v
  by (rule random.wrapped_exact_policy)

end
