(* ===== verification/Float64.thy ===== *)
theory Float64
  imports Prelude
begin

text \<open>
  Go's \<^verbatim>\<open>float64\<close>: a finite double is the rational number it denotes, and every arithmetic operation
  is the exact operation followed by one rounding to binary64 (round to nearest, ties to even, 53
  significant bits, subnormals below \<open>2^-1022\<close>), which is what IEEE 754 prescribes and Go's
  specification relies on. Not modelled: overflow to infinity and NaN (the components convert
  int64 counts and multiply and divide numbers of that size, far below \<open>2^1024\<close>), and the fused
  multiply-add a compiler may emit on other architectures than amd64.

  The lemmas are the facts the components need: rounding is monotone, exact on representable
  numbers (integers up to \<open>2^53\<close> and powers of two among them) and idempotent.
\<close>

type_synonym float64 = rat

subsection \<open>The exponent of a number\<close>

text \<open>Number of binary digits.\<close>

fun nbits :: "nat \<Rightarrow> nat" where
  "nbits n = (if n = 0 then 0 else Suc (nbits (n div 2)))"

declare nbits.simps [simp del]

lemma nbits_bounds: "0 < n \<Longrightarrow> 2 ^ (nbits n - 1) \<le> n \<and> n < 2 ^ nbits n \<and> 0 < nbits n"
proof (induction n rule: nbits.induct)
  case (1 n)
  show ?case
  proof (cases "n div 2 = 0")
    case True
    then have "n = 1" using 1(2) by simp
    then show ?thesis by (simp add: nbits.simps [of "Suc 0"] nbits.simps [of 0])
  next
    case False
    then have IH: "2 ^ (nbits (n div 2) - 1) \<le> n div 2 \<and> n div 2 < 2 ^ nbits (n div 2) \<and>
      0 < nbits (n div 2)" using 1 by simp
    have n: "nbits n = Suc (nbits (n div 2))" using 1(2) by (simp add: nbits.simps [of n])
    obtain b where b: "nbits (n div 2) = Suc b" using IH gr0_implies_Suc by blast
    from IH b have "2 ^ b \<le> n div 2" "n div 2 < 2 * 2 ^ b" by simp_all
    then have "2 * 2 ^ b \<le> n" "n < 2 * (2 * 2 ^ b)" by linarith+
    with n b show ?thesis by simp
  qed
qed

text \<open>Floor of the binary logarithm of a positive rational.\<close>

definition ilog2 :: "rat \<Rightarrow> int" where
  "ilog2 x = (let (p, q) = quotient_of x;
                  d = int (nbits (nat p)) - int (nbits (nat q))
              in if 2 powi d \<le> x then d else d - 1)"

lemma nbits_pow_bounds:
  assumes "0 < p"
  shows "(2::rat) powi (int (nbits (nat p)) - 1) \<le> of_int p"
    and "(of_int p :: rat) < 2 powi int (nbits (nat p))"
proof -
  let ?n = "nbits (nat p)"
  have b: "2 ^ (?n - 1) \<le> nat p" "nat p < 2 ^ ?n" "0 < ?n"
    using nbits_bounds [of "nat p"] assms by auto
  then have "(2::int) ^ (?n - 1) \<le> p" "p < 2 ^ ?n"
    using assms by (metis int_nat_eq less_imp_le nat_int_comparison(3) of_nat_numeral of_nat_power)
      (use b assms in \<open>metis nat_less_iff less_imp_le of_nat_numeral of_nat_power\<close>)
  then have "(of_int (2 ^ (?n - 1)) :: rat) \<le> of_int p" "(of_int p :: rat) < of_int (2 ^ ?n)"
    by (simp_all only: of_int_le_iff of_int_less_iff)
  moreover have "int ?n - 1 = int (?n - 1)" using b(3) by simp
  ultimately show "(2::rat) powi (int ?n - 1) \<le> of_int p" "(of_int p :: rat) < 2 powi int ?n"
    by (simp_all only: power_int_of_nat of_int_power of_int_numeral)
qed

lemma ilog2_bounds:
  assumes "0 < x"
  shows "2 powi (ilog2 x) \<le> x \<and> x < 2 powi (ilog2 x + 1)"
proof -
  obtain p q where pq: "quotient_of x = (p, q)" by (cases "quotient_of x")
  have q: "0 < q" using quotient_of_denom_pos [OF pq] .
  have x: "x = of_int p / of_int q" using quotient_of_div [OF pq] .
  have p: "0 < p" using assms x q by (simp add: zero_less_divide_iff)
  let ?a = "int (nbits (nat p))" and ?b = "int (nbits (nat q))"
  note P = nbits_pow_bounds [OF p] and Q = nbits_pow_bounds [OF q]
  have q': "(0::rat) < of_int q" using q by simp
  have "x < 2 powi ?a / 2 powi (?b - 1)"
    unfolding x using P Q p q by (intro frac_less) auto
  then have up: "x < 2 powi (?a - ?b + 1)"
    by (simp add: power_int_diff power_int_add)
  have "2 powi (?a - 1) / 2 powi ?b \<le> x"
    unfolding x using P Q p q' by (intro frac_le) auto
  then have lo: "2 powi (?a - ?b - 1) \<le> x"
    by (simp add: power_int_diff)
  show ?thesis using up lo by (auto simp: ilog2_def pq Let_def)
qed

lemma powi_mono2: "a \<le> b \<Longrightarrow> (2::rat) powi a \<le> 2 powi b"
  by (rule power_int_increasing) simp_all

lemma powi_less2: "(2::rat) powi a < 2 powi b \<longleftrightarrow> a < b"
  by (metis linorder_not_le one_less_numeral_iff power_int_strict_increasing powi_mono2
      semiring_norm(76) not_le)

lemma ilog2_unique:
  assumes "2 powi e \<le> x" "x < 2 powi (e + 1)"
  shows "ilog2 x = e"
proof -
  have "0 < x" using assms(1) by (meson less_le_trans zero_less_numeral zero_less_power_int)
  from ilog2_bounds [OF this] assms have "2 powi e < (2::rat) powi (ilog2 x + 1)"
    and "2 powi (ilog2 x) < (2::rat) powi (e + 1)" by auto
  then show ?thesis by (simp add: powi_less2)
qed

lemma ilog2_mono: "0 < x \<Longrightarrow> x \<le> y \<Longrightarrow> ilog2 x \<le> ilog2 y"
proof -
  assume "0 < x" "x \<le> y"
  then have "2 powi (ilog2 x) < (2::rat) powi (ilog2 y + 1)"
    using ilog2_bounds [of x] ilog2_bounds [of y] by linarith
  then show ?thesis by (simp add: powi_less2)
qed

subsection \<open>Rounding\<close>

text \<open>Round to the nearest integer, ties to even.\<close>

definition round_even :: "rat \<Rightarrow> int" where
  "round_even r = (let f = \<lfloor>r\<rfloor>; d = r - of_int f
     in if d < 1 / 2 then f else if 1 / 2 < d then f + 1 else if even f then f else f + 1)"

lemma round_even_of_int [simp]: "round_even (of_int n) = n"
  by (simp add: round_even_def)

lemma round_even_cases: "round_even r = \<lfloor>r\<rfloor> \<or> round_even r = \<lfloor>r\<rfloor> + 1"
  by (simp add: round_even_def Let_def)

lemma round_even_mono:
  assumes "r \<le> s"
  shows "round_even r \<le> round_even s"
proof (cases "\<lfloor>r\<rfloor> = \<lfloor>s\<rfloor>")
  case True
  with assms show ?thesis by (simp add: round_even_def Let_def)
next
  case False
  with assms have "\<lfloor>r\<rfloor> + 1 \<le> \<lfloor>s\<rfloor>" by (meson floor_mono order_le_less zless_imp_add1_zle)
  with round_even_cases [of r] round_even_cases [of s] show ?thesis by auto
qed

lemma round_even_minus: "round_even (- r) = - round_even r"
proof (cases "r = of_int \<lfloor>r\<rfloor>")
  case True
  then show ?thesis by (metis of_int_minus round_even_of_int)
next
  case False
  then have c: "\<lfloor>- r\<rfloor> = - \<lfloor>r\<rfloor> - 1"
    by (simp add: floor_minus ceiling_altdef)
  have d: "- r - of_int \<lfloor>- r\<rfloor> = 1 - (r - of_int \<lfloor>r\<rfloor>)" by (simp add: c)
  show ?thesis by (auto simp: round_even_def Let_def c)
qed

text \<open>The exponent of the last significant bit: 53 bits, and no finer than \<open>2^-1074\<close>.\<close>

definition ulp_exp :: "rat \<Rightarrow> int" where
  "ulp_exp x = max (ilog2 \<bar>x\<bar> - 52) (- 1074)"

definition rnd :: "rat \<Rightarrow> float64" where
  "rnd x = (if x = 0 then 0
            else of_int (round_even (x / 2 powi (ulp_exp x))) * 2 powi (ulp_exp x))"

lemma rnd_0 [simp]: "rnd 0 = 0"
  by (simp add: rnd_def)

lemma rnd_minus: "rnd (- x) = - rnd x"
  by (simp add: rnd_def ulp_exp_def round_even_minus)

text \<open>A number with at most 53 significant bits above the subnormal threshold is exact.\<close>

lemma rnd_exact_mult:
  assumes "x = of_int m * 2 powi e" and "ulp_exp x \<le> e"
  shows "rnd x = x"
proof (cases "x = 0")
  case False
  have "(2::rat) powi e = 2 powi (e - ulp_exp x) * 2 powi (ulp_exp x)"
    by (simp add: power_int_diff)
  also have "(2::rat) powi (e - ulp_exp x) = of_int (2 ^ nat (e - ulp_exp x))"
    using assms(2) by (simp add: power_int_def)
  finally have "x / 2 powi (ulp_exp x) = of_int (m * 2 ^ nat (e - ulp_exp x))"
    by (subst assms(1)) simp
  with False show ?thesis by (simp add: rnd_def) (metis nonzero_divide_eq_eq of_int_mult
      of_int_numeral of_int_power power_int_eq_0_iff round_even_of_int zero_neq_numeral)
qed simp

lemma rnd_exact:
  assumes "x = of_int m * 2 powi e" and "\<bar>m\<bar> < 2 ^ 53" and "- 1074 \<le> e"
  shows "rnd x = x"
proof (cases "x = 0")
  case False
  have "\<bar>x\<bar> = of_int \<bar>m\<bar> * 2 powi e" by (simp add: assms(1) abs_mult)
  also have "\<dots> < of_int (2 ^ 53) * 2 powi e"
    using assms(2) by (intro mult_strict_right_mono) (simp_all only: of_int_less_iff zero_less_power_int zero_less_numeral)
  also have "\<dots> = 2 powi (53 + e)" by (simp add: power_int_add)
  finally have "ilog2 \<bar>x\<bar> < 53 + e"
    using ilog2_bounds [of "\<bar>x\<bar>"] False powi_less2 [of "ilog2 \<bar>x\<bar>" "53 + e"] by auto
  then have "ulp_exp x \<le> e" using assms(3) by (simp add: ulp_exp_def)
  with assms(1) show ?thesis by (rule rnd_exact_mult)
qed simp

lemma rnd_of_int [simp]: "\<bar>n\<bar> < 2 ^ 53 \<Longrightarrow> rnd (of_int n) = of_int n"
  by (rule rnd_exact [where m = n and e = 0]) simp_all

lemma rnd_powi: "- 1074 \<le> e \<Longrightarrow> rnd (2 powi e) = 2 powi e"
  by (rule rnd_exact [where m = 1 and e = e]) simp_all

lemma rnd_1 [simp]: "rnd 1 = 1"
  using rnd_of_int [of 1] by simp

lemma rnd_nonneg: "0 \<le> x \<Longrightarrow> 0 \<le> rnd x"
  using round_even_mono [of 0 "x / 2 powi (ulp_exp x)"]
  by (auto simp: rnd_def round_even_def)

text \<open>The grid of the next binade contains every boundary below it.\<close>

lemma rnd_le_boundary:
  assumes "0 < x" and "x \<le> 2 powi k" and "ulp_exp x \<le> k"
  shows "rnd x \<le> 2 powi k"
proof -
  let ?u = "(2::rat) powi (ulp_exp x)"
  have k: "(2::rat) powi k = of_int (2 ^ nat (k - ulp_exp x)) * ?u"
    using assms(3) by (simp add: power_int_diff power_int_def [of _ "k - ulp_exp x"] flip: power_int_add)
      (metis add.commute diff_add_cancel diff_ge_0_iff_ge power_int_add power_int_def
        zero_neq_numeral)
  have "x / ?u \<le> of_int (2 ^ nat (k - ulp_exp x))"
    using assms(2) unfolding k by (simp add: divide_le_eq)
  then have "round_even (x / ?u) \<le> 2 ^ nat (k - ulp_exp x)"
    using round_even_mono [of "x / ?u" "of_int (2 ^ nat (k - ulp_exp x))"] by (simp only: round_even_of_int)
  then have "of_int (round_even (x / ?u)) * ?u \<le> of_int (2 ^ nat (k - ulp_exp x)) * ?u"
    by (intro mult_right_mono) (simp_all only: of_int_le_iff, simp)
  with assms(1) show ?thesis unfolding k by (simp add: rnd_def)
qed

lemma rnd_ge_boundary:
  assumes "2 powi k \<le> x" and "ulp_exp x \<le> k"
  shows "2 powi k \<le> rnd x"
proof -
  let ?u = "(2::rat) powi (ulp_exp x)"
  have x: "0 < x" using assms(1) by (meson less_le_trans zero_less_numeral zero_less_power_int)
  have k: "(2::rat) powi k = of_int (2 ^ nat (k - ulp_exp x)) * ?u"
    using assms(2) by (simp add: power_int_diff power_int_def [of _ "k - ulp_exp x"] flip: power_int_add)
      (metis add.commute diff_add_cancel diff_ge_0_iff_ge power_int_add power_int_def
        zero_neq_numeral)
  have "of_int (2 ^ nat (k - ulp_exp x)) \<le> x / ?u"
    using assms(1) unfolding k by (simp add: le_divide_eq)
  then have "2 ^ nat (k - ulp_exp x) \<le> round_even (x / ?u)"
    using round_even_mono [of "of_int (2 ^ nat (k - ulp_exp x))" "x / ?u"] by (simp only: round_even_of_int)
  then have "of_int (2 ^ nat (k - ulp_exp x)) * ?u \<le> of_int (round_even (x / ?u)) * ?u"
    by (intro mult_right_mono) (simp_all only: of_int_le_iff, simp)
  with x show ?thesis unfolding k by (simp add: rnd_def)
qed

lemma rnd_mono_pos:
  assumes "0 < x" and "x \<le> y"
  shows "rnd x \<le> rnd y"
proof (cases "ulp_exp x = ulp_exp y")
  case True
  have "round_even (x / 2 powi (ulp_exp y)) \<le> round_even (y / 2 powi (ulp_exp y))"
    using assms by (intro round_even_mono divide_right_mono) simp_all
  with True assms show ?thesis by (simp add: rnd_def mult_right_mono)
next
  case False
  have m: "ilog2 x \<le> ilog2 y" using assms by (rule ilog2_mono)
  with False assms have e: "ulp_exp y = ilog2 y - 52" "- 1074 < ilog2 y - 52" "ilog2 x < ilog2 y"
    by (auto simp: ulp_exp_def)
  have "ulp_exp x \<le> ilog2 y" using e assms by (auto simp: ulp_exp_def)
  moreover have "x \<le> 2 powi (ilog2 y)"
    using ilog2_bounds [OF assms(1)] e(3) powi_mono2 [of "ilog2 x + 1" "ilog2 y"] by linarith
  ultimately have "rnd x \<le> 2 powi (ilog2 y)" using assms(1) by (intro rnd_le_boundary)
  also have "\<dots> \<le> rnd y"
    using ilog2_bounds [of y] assms e by (intro rnd_ge_boundary) auto
  finally show ?thesis .
qed

lemma rnd_mono: "x \<le> y \<Longrightarrow> rnd x \<le> rnd y"
proof -
  assume le: "x \<le> y"
  consider "0 < x" | "x \<le> 0" "0 \<le> y" | "y < 0" by linarith
  then show ?thesis
  proof cases
    case 1
    then show ?thesis using le by (rule rnd_mono_pos)
  next
    case 2
    then have "0 \<le> rnd (- x)" "0 \<le> rnd y" by (simp_all add: rnd_nonneg)
    then show ?thesis by (simp add: rnd_minus)
  next
    case 3
    with le have "rnd (- y) \<le> rnd (- x)" by (intro rnd_mono_pos) simp_all
    then show ?thesis by (simp add: rnd_minus)
  qed
qed

lemma rnd_le_1: "x \<le> 1 \<Longrightarrow> rnd x \<le> 1"
  using rnd_mono [of x 1] by simp

lemma rnd_pos_of_ge_1: "1 \<le> x \<Longrightarrow> 1 \<le> rnd x"
  using rnd_mono [of 1 x] by simp

text \<open>Rounding twice is rounding once: a result of an operation is a double.\<close>

lemma rnd_idem_pos:
  assumes "0 < x"
  shows "rnd (rnd x) = rnd x"
proof (cases "rnd x = 2 powi (max (ilog2 x + 1) (- 1074))")
  case True
  then show ?thesis by (simp add: rnd_powi)
next
  case False
  let ?k = "max (ilog2 x + 1) (- 1074)"
  have "x \<le> 2 powi ?k"
    using ilog2_bounds [OF assms] powi_mono2 [of "ilog2 x + 1" ?k] by linarith
  then have "rnd x \<le> 2 powi ?k"
    using assms by (intro rnd_le_boundary) (auto simp: ulp_exp_def)
  with False have lt: "rnd x < 2 powi ?k" by simp
  have "0 \<le> rnd x" using assms by (simp add: rnd_nonneg)
  show ?thesis
  proof (cases "rnd x = 0")
    case False
    with \<open>0 \<le> rnd x\<close> have pos: "0 < rnd x" by simp
    then have "2 powi (ilog2 (rnd x)) < (2::rat) powi ?k"
      using ilog2_bounds [of "rnd x"] lt by linarith
    then have "ulp_exp (rnd x) \<le> ulp_exp x"
      using pos assms by (auto simp: powi_less2 ulp_exp_def max_def split: if_splits)
    then show ?thesis
      using assms by (intro rnd_exact_mult [where e = "ulp_exp x"]) (auto simp: rnd_def)
  qed simp
qed

lemma rnd_idem [simp]: "rnd (rnd x) = rnd x"
proof -
  consider "0 < x" | "x = 0" | "0 < - x" by linarith
  then show ?thesis
  proof cases
    case 3
    then have "rnd (rnd (- x)) = rnd (- x)" by (rule rnd_idem_pos)
    then show ?thesis by (simp add: rnd_minus)
  qed (simp_all add: rnd_idem_pos)
qed

text \<open>Rounding written out for a number whose binade is known.\<close>

lemma rnd_in_binade:
  assumes "2 powi k \<le> x" "x < 2 powi (k + 1)" "- 1022 \<le> k"
  shows "rnd x = of_int (round_even (x / 2 powi (k - 52))) * 2 powi (k - 52)"
proof -
  have "0 < x" using assms(1) by (meson less_le_trans zero_less_numeral zero_less_power_int)
  then have "ulp_exp x = k - 52" using ilog2_unique [OF assms(1,2)] assms(3) by (simp add: ulp_exp_def)
  with \<open>0 < x\<close> show ?thesis by (simp add: rnd_def)
qed

subsection \<open>The operations the components use\<close>

text \<open>
  \<^verbatim>\<open>float64(n)\<close> of an integer, the four arithmetic operations, and \<^verbatim>\<open>int(math.Ceil(x))\<close> as the code
  combines them. Comparisons are the comparisons of the rationals.
\<close>

definition f64_of_int :: "int \<Rightarrow> float64" where
  "f64_of_int n = rnd (of_int n)"

definition f64_add :: "float64 \<Rightarrow> float64 \<Rightarrow> float64" where
  "f64_add a b = rnd (a + b)"

definition f64_sub :: "float64 \<Rightarrow> float64 \<Rightarrow> float64" where
  "f64_sub a b = rnd (a - b)"

definition f64_mul :: "float64 \<Rightarrow> float64 \<Rightarrow> float64" where
  "f64_mul a b = rnd (a * b)"

definition f64_div :: "float64 \<Rightarrow> float64 \<Rightarrow> float64" where
  "f64_div a b = rnd (a / b)"

definition f64_ceil :: "float64 \<Rightarrow> int" where
  "f64_ceil x = \<lceil>x\<rceil>"

lemmas f64_defs = f64_of_int_def f64_add_def f64_sub_def f64_mul_def f64_div_def f64_ceil_def

lemma f64_of_int_exact: "\<bar>n\<bar> < 2 ^ 53 \<Longrightarrow> f64_of_int n = of_int n"
  by (simp add: f64_of_int_def)

lemma f64_of_int_mono: "m \<le> n \<Longrightarrow> f64_of_int m \<le> f64_of_int n"
  by (simp add: f64_of_int_def rnd_mono)

lemma f64_of_int_nonneg: "0 \<le> n \<Longrightarrow> 0 \<le> f64_of_int n"
  by (simp add: f64_of_int_def rnd_nonneg)

lemma f64_of_int_pos: "0 < n \<Longrightarrow> 1 \<le> f64_of_int n"
  by (simp add: f64_of_int_def rnd_pos_of_ge_1)

lemma f64_ratio_bounds:
  assumes "0 \<le> h" and "h \<le> t" and "0 < t"
  shows "0 \<le> f64_div (f64_of_int h) (f64_of_int t) \<and> f64_div (f64_of_int h) (f64_of_int t) \<le> 1"
proof -
  have "0 \<le> f64_of_int h" "f64_of_int h \<le> f64_of_int t" "1 \<le> f64_of_int t"
    using assms by (simp_all add: f64_of_int_nonneg f64_of_int_mono f64_of_int_pos)
  then show ?thesis
    by (simp add: f64_div_def rnd_nonneg rnd_le_1)
qed

end
