(* ===== verification/Sampling.thy ===== *)
theory Sampling
  imports Float64
begin

text \<open>
  \<^verbatim>\<open>src/sampling.go\<close>: which keys shadow policies track, and the miniature capacity a shadow runs at.

  The hash of a key (\<^verbatim>\<open>maphash.Comparable\<close> under the cache's random seed) is a function
  \<open>'k \<Rightarrow> 64 word\<close> drawn when the sampler is built; everything below holds for every such function.
\<close>

record 'k key_sampler =
  seed_hash :: "'k \<Rightarrow> 64 word"
  threshold :: "64 word"
  sampling :: bool
  rate :: float64

text \<open>\<open>uint64(math.Max(0, rate) * 2^64)\<close>: the conversion truncates, and the rate is below one.\<close>

definition new_key_sampler :: "('k \<Rightarrow> 64 word) \<Rightarrow> float64 \<Rightarrow> 'k key_sampler" where
  "new_key_sampler hash r =
     (let s = \<lparr>seed_hash = hash, threshold = 0, sampling = False, rate = r\<rparr> in
      if 1 \<le> r then s\<lparr>rate := 1\<rparr>
      else s\<lparr>sampling := True,
             threshold := word_of_int \<lfloor>f64_mul (max 0 r) (2 ^ 64)\<rfloor>\<rparr>)"

definition sampled :: "'k key_sampler \<Rightarrow> 'k \<Rightarrow> bool" where
  "sampled s key = (if \<not> sampling s then True else seed_hash s key < threshold s)"

text \<open>\<open>scaledCapacity\<close>: no floor, the identity capacity/size = rate wins.\<close>

definition scaled_capacity :: "int \<Rightarrow> float64 \<Rightarrow> int" where
  "scaled_capacity sz r =
     (if sz \<le> 0 \<or> 1 \<le> r then sz
      else let capacity = f64_ceil (f64_mul r (f64_of_int sz));
               capacity = (if capacity < 1 then 1 else capacity);
               capacity = (if capacity > sz then sz else capacity)
           in capacity)"

text \<open>\<open>shadowCapacity\<close>: the capacity and the effective rate it corresponds to.\<close>

definition shadow_capacity :: "int \<Rightarrow> float64 \<Rightarrow> int \<Rightarrow> int \<times> float64" where
  "shadow_capacity nominalCap r minCapacity =
     (if nominalCap \<le> 0 \<or> 1 \<le> r then (nominalCap, 1)
      else let capacity = f64_ceil (f64_mul r (f64_of_int nominalCap));
               effectiveRate = r;
               (capacity, effectiveRate) =
                 (if capacity < minCapacity
                  then (minCapacity, f64_div (f64_of_int minCapacity) (f64_of_int nominalCap))
                  else (capacity, effectiveRate))
           in if capacity \<ge> nominalCap then (nominalCap, 1) else (capacity, effectiveRate))"

subsection \<open>The sampler\<close>

lemma sampled_full: "1 \<le> r \<Longrightarrow> sampled (new_key_sampler hash r) key"
  by (simp add: sampled_def new_key_sampler_def)

lemma new_key_sampler_rate: "rate (new_key_sampler hash r) = (if 1 \<le> r then 1 else r)"
  by (simp add: new_key_sampler_def Let_def)

lemma new_key_sampler_sampling: "sampling (new_key_sampler hash r) \<longleftrightarrow> r < 1"
  by (simp add: new_key_sampler_def Let_def not_le)

text \<open>
  A double below one is at most \<open>1 - 2^-53\<close>, so the scaled threshold fits 64 bits: the conversion
  back to \<^verbatim>\<open>uint64\<close> is defined.
\<close>

lemma f64_below_1:
  assumes "rnd r = r" and "r < 1"
  shows "r \<le> 1 - 2 powi (- 53)"
proof (rule ccontr)
  assume a: "\<not> r \<le> 1 - 2 powi (- 53)"
  then have r: "1 - 2 powi (- 53) < r" by simp
  have "(1 / 2 :: rat) \<le> 1 - 2 powi (- 53)" by (simp add: power_int_minus)
  with r have "1 / 2 < r" by linarith
  then have il: "ilog2 r = - 1" by (intro ilog2_unique) (simp_all add: power_int_minus assms)
  have "0 < r" using \<open>1 / 2 < r\<close> by (meson dual_order.strict_trans half_gt_zero_iff zero_less_one)
  then have u: "ulp_exp r = - 53" by (simp add: ulp_exp_def il)
  define m where "m = round_even (r / 2 powi (- 53))"
  have "r = of_int m * 2 powi (- 53)"
    using assms(1) \<open>0 < r\<close> by (simp add: rnd_def u m_def)
  then have "of_int m * (2::rat) powi (- 53) < 1" "1 - 2 powi (- 53) < of_int m * (2::rat) powi (- 53)"
    using assms(2) r by simp_all
  then have "(of_int m :: rat) < of_int (2 ^ 53)" "of_int (2 ^ 53 - 1) < (of_int m :: rat)"
    by (simp_all add: power_int_minus field_simps)
  then show False by (simp only: of_int_less_iff)
qed

lemma threshold_fits:
  assumes "rnd r = r" and "r < 1"
  shows "0 \<le> \<lfloor>f64_mul (max 0 r) (2 ^ 64)\<rfloor> \<and> \<lfloor>f64_mul (max 0 r) (2 ^ 64)\<rfloor> < 2 ^ 64"
proof -
  have le: "max 0 r * 2 ^ 64 \<le> of_int (2 ^ 64 - 2 ^ 11)"
    using f64_below_1 [OF assms] by (auto simp: power_int_minus max_def)
  have "rnd (of_int (2 ^ 64 - 2 ^ 11)) = (of_int (2 ^ 64 - 2 ^ 11) :: rat)"
    by (rule rnd_exact [where m = "2 ^ 53 - 1" and e = 11]) simp_all
  with rnd_mono [OF le] have up: "rnd (max 0 r * 2 ^ 64) \<le> of_int (2 ^ 64 - 2 ^ 11)" by simp
  have "0 \<le> rnd (max 0 r * 2 ^ 64)" by (intro rnd_nonneg) simp
  with up show ?thesis by (simp add: f64_mul_def floor_less_iff)
qed

text \<open>
  Samples are nested: a key tracked at some rate is tracked at every larger one, so raising the
  effective rate (the capacity floor does) only adds keys to the measured substream.
\<close>

lemma sampled_rate_mono:
  assumes s: "sampled (new_key_sampler hash r) key" and le: "r \<le> r'"
    and "rnd r = r" and "rnd r' = r'"
  shows "sampled (new_key_sampler hash r') key"
proof (cases "1 \<le> r'")
  case True
  then show ?thesis by (rule sampled_full)
next
  case False
  with le have r: "r < 1" "r' < 1" by simp_all
  let ?t = "\<lambda>r. \<lfloor>f64_mul (max 0 r) (2 ^ 64)\<rfloor>"
  have "max 0 r * 2 ^ 64 \<le> max 0 r' * (2 ^ 64 :: rat)"
    using le by (intro mult_right_mono) auto
  then have "?t r \<le> ?t r'" by (intro floor_mono) (simp add: f64_mul_def rnd_mono)
  moreover have "0 \<le> ?t r" "?t r' < 2 ^ 64"
    using threshold_fits [of r] threshold_fits [of r'] assms(3,4) r by auto
  ultimately have "take_bit 64 (?t r) = ?t r" "take_bit 64 (?t r') = ?t r'" "?t r \<le> ?t r'"
    by (meson order_le_less_trans order_trans take_bit_int_eq_self)+
  then have "(word_of_int (?t r) :: 64 word) \<le> word_of_int (?t r')"
    by (simp only: word_le_def uint_word_of_int_eq) simp
  with s r show ?thesis by (simp add: sampled_def new_key_sampler_def Let_def)
qed

subsection \<open>Miniature capacities\<close>

lemma scaled_capacity_bounds: "0 < sz \<Longrightarrow> 1 \<le> scaled_capacity sz r \<and> scaled_capacity sz r \<le> sz"
  by (auto simp: scaled_capacity_def Let_def)

lemma scaled_capacity_nonpos: "sz \<le> 0 \<Longrightarrow> scaled_capacity sz r = sz"
  by (simp add: scaled_capacity_def)

lemma shadow_capacity_full: "nominalCap \<le> 0 \<or> 1 \<le> r \<Longrightarrow> shadow_capacity nominalCap r m = (nominalCap, 1)"
  by (simp add: shadow_capacity_def)

text \<open>The floor raises the rate, never lowers it.\<close>

lemma floored_rate_ge:
  assumes "0 < n" "n < 2 ^ 53" "0 \<le> m" "m < 2 ^ 53" "rnd r = r"
    and below: "f64_ceil (f64_mul r (f64_of_int n)) < m"
  shows "r \<le> f64_div (f64_of_int m) (f64_of_int n)"
proof -
  have n: "f64_of_int n = of_int n" and m: "f64_of_int m = of_int m"
    using assms by (simp_all add: f64_of_int_exact)
  have "r * of_int n < of_int m"
  proof (rule ccontr)
    assume "\<not> r * of_int n < of_int m"
    then have "rnd (of_int m) \<le> rnd (r * of_int n)" by (intro rnd_mono) simp
    then have "of_int m \<le> rnd (r * of_int n)" using assms by simp
    with below show False by (simp add: n f64_mul_def f64_ceil_def ceiling_less_iff)
  qed
  then have "r \<le> of_int m / of_int n" using assms(1) by (simp add: field_simps)
  then have "rnd r \<le> rnd (of_int m / of_int n)" by (rule rnd_mono)
  then show ?thesis by (simp add: n m f64_div_def assms(5))
qed

lemma floored_rate_le_1:
  assumes "0 < n" "0 \<le> m" "m \<le> n"
  shows "f64_div (f64_of_int m) (f64_of_int n) \<le> 1"
  using f64_ratio_bounds [of m n] assms by simp

text \<open>The capacity before the final clamp, and the rate that goes with it.\<close>

lemma shadow_capacity_cases:
  assumes "shadow_capacity n r m = (c, e)" "0 < n" "r < 1"
  obtains "c = n" "e = 1"
  | "c = m" "m < n" "e = f64_div (f64_of_int m) (f64_of_int n)" "f64_ceil (f64_mul r (f64_of_int n)) < m"
  | "m \<le> c" "c < n" "e = r" "c = f64_ceil (f64_mul r (f64_of_int n))"
  using assms by (auto simp: shadow_capacity_def Let_def split: if_splits)

end
