(* ===== verification/CacheState.thy ===== *)
theory CacheState
  imports PolicyIface Sampling
begin

text \<open>
  The state of \<^verbatim>\<open>AdaptiveCache\<close> (\<^verbatim>\<open>src/cache.go\<close>), its settings (\<^verbatim>\<open>src/settings.go\<close>) and the bandit
  interfaces (\<^verbatim>\<open>src/interfaces.go\<close>, \<^verbatim>\<open>src/models.go\<close>), with the primitive accesses every handler is
  built from: looking a key up in the active policy, adding to it, and counting a sampled lookup.

  A policy looked up under a type the cache does not hold is a nil interface, and calling it panics;
  the accesses therefore return an option.
\<close>

subsection \<open>Bandits\<close>

text \<open>One reporting epoch, delivered whole to a bandit that implements \<^verbatim>\<open>EpochBandit\<close>.\<close>

record epoch_report =
  er_EpochID :: int
  er_Active :: policy_type
  er_Stats :: "shadow_stats list"
  er_Capacity :: int
  er_SampleRate :: float64

text \<open>
  \<^verbatim>\<open>Bandit\<close>, and optionally \<^verbatim>\<open>EpochBandit\<close>: \<open>bo_record_epoch\<close> is present when the type assertion
  to \<^verbatim>\<open>EpochBandit\<close> would succeed.
\<close>

record 'b bandit_ops =
  bo_record_stats :: "'b \<Rightarrow> shadow_stats \<Rightarrow> 'b"
  bo_select_policy :: "'b \<Rightarrow> 'b \<times> policy_type"
  bo_record_epoch :: "('b \<Rightarrow> epoch_report \<Rightarrow> 'b) option"

text \<open>
  The bandit a cache holds: the caller's, or \<^verbatim>\<open>observerBandit\<close> (\<^verbatim>\<open>src/advice.go\<close>), which records
  nothing and selects nothing and is not an \<^verbatim>\<open>EpochBandit\<close>.
\<close>

datatype 'b held_bandit = ObserverBandit | CallerBandit 'b

fun held_record_stats :: "'b bandit_ops \<Rightarrow> 'b held_bandit \<Rightarrow> shadow_stats \<Rightarrow> 'b held_bandit" where
  "held_record_stats bo ObserverBandit s = ObserverBandit"
| "held_record_stats bo (CallerBandit b) s = CallerBandit (bo_record_stats bo b s)"

fun held_select_policy :: "'b bandit_ops \<Rightarrow> 'b held_bandit \<Rightarrow> 'b held_bandit \<times> policy_type" where
  "held_select_policy bo ObserverBandit = (ObserverBandit, Undefined)"
| "held_select_policy bo (CallerBandit b) =
     (let (b', p) = bo_select_policy bo b in (CallerBandit b', p))"

text \<open>The type assertion \<^verbatim>\<open>bandit.(EpochBandit)\<close>.\<close>

fun held_record_epoch :: "'b bandit_ops \<Rightarrow> 'b held_bandit \<Rightarrow> (epoch_report \<Rightarrow> 'b held_bandit) option" where
  "held_record_epoch bo ObserverBandit = None"
| "held_record_epoch bo (CallerBandit b) =
     (case bo_record_epoch bo of None \<Rightarrow> None | Some f \<Rightarrow> Some (\<lambda>r. CallerBandit (f b r)))"

subsection \<open>Settings\<close>

record cache_settings =
  EpochDuration :: int
  EpochRequests :: int
  EvictPartialCapacityFilling :: bool
  MigrationStrategy :: migration_strategy
  MinHitRateImprovement :: float64
  SwitchCooldownEpochs :: int
  MinEpochRequests :: int
  ShadowSampleRate :: float64
  ObserveOnly :: bool
  MinShadowCapacity :: int

subsection \<open>The environment a cache is instantiated with\<close>

text \<open>
  What Go supplies through type parameters and interface values: the operations of the policies'
  dynamic types, the zero value of \<^verbatim>\<open>V\<close>, and the bandit's operations.
\<close>

record ('p, 'k, 'v, 'b) env =
  policy_iface :: "('p, 'k, 'v) policy_ops"
  zero_value :: 'v
  bandit_iface :: "'b bandit_ops"

subsection \<open>The cache\<close>

record ('p, 'k, 'b) cache =
  activePolicy :: policy_type
  policies :: "policy_type \<rightharpoonup> 'p"
  policyOrder :: "policy_type list"
  sampler :: "'k key_sampler"
  nominalCap :: "policy_type \<rightharpoonup> int"
  shadowCap :: "policy_type \<rightharpoonup> int"
  minShadowCap :: int
  activeSampledHits :: int
  activeSampledMisses :: int
  globalStats :: policy_stats
  migrating :: bool
  migrateFrom :: policy_type
  migrationKeys :: "'k list"
  migrationRealKeys :: "'k set"
  bandit :: "'b held_bandit"
  epochBandit :: bool
  epochStats :: "policy_type \<rightharpoonup> policy_stats"
  tenureStats :: "policy_type \<rightharpoonup> policy_stats"
  reportingEpochs :: int
  lastSwitchEpoch :: int
  epochID :: int
  epochRequests :: int
  settings :: cache_settings

subsection \<open>Primitive accesses\<close>

definition put_policy :: "policy_type \<Rightarrow> 'p \<Rightarrow> ('p, 'k, 'b) cache \<Rightarrow> ('p, 'k, 'b) cache" where
  "put_policy pt p c = c\<lparr>policies := (policies c)(pt \<mapsto> p)\<rparr>"

text \<open>\<^verbatim>\<open>c.policies[c.activePolicy].Get(key)\<close> and \<^verbatim>\<open>c.policies[c.activePolicy].Add(key, value)\<close>\<close>

definition active_get ::
  "('p, 'k, 'v, 'b) env \<Rightarrow> 'k \<Rightarrow> ('p, 'k, 'b) cache \<Rightarrow> (('p, 'k, 'b) cache \<times> 'v option) option" where
  "active_get e key c = do {
     p \<leftarrow> policies c (activePolicy c);
     let (p, r) = op_get (policy_iface e) p key;
     Some (put_policy (activePolicy c) p c, r)
   }"

definition active_add ::
  "('p, 'k, 'v, 'b) env \<Rightarrow> 'k \<Rightarrow> 'v \<Rightarrow> ('p, 'k, 'b) cache \<Rightarrow> (('p, 'k, 'b) cache \<times> bool) option" where
  "active_add e key value c = do {
     p \<leftarrow> policies c (activePolicy c);
     let (p, evicted) = op_add (policy_iface e) p key value;
     Some (put_policy (activePolicy c) p c, evicted)
   }"

text \<open>
  The loop over the shadow policies: every policy whose type is not the active one. The body mutates
  only the policy it visits, so Go's random map order cannot matter (\<^verbatim>\<open>visit_entries_any_order\<close>).
\<close>

definition for_shadows ::
  "('p, 'k, 'v, 'b) env \<Rightarrow> ('p \<Rightarrow> 'p) \<Rightarrow> ('p, 'k, 'b) cache \<Rightarrow> ('p, 'k, 'b) cache" where
  "for_shadows e f c =
     c\<lparr>policies := map_entries
        (\<lambda>_ policy. if op_get_type (policy_iface e) policy = activePolicy c then policy else f policy)
        (policies c)\<rparr>"

definition recordActiveSample :: "bool \<Rightarrow> bool \<Rightarrow> ('p, 'k, 'b) cache \<Rightarrow> ('p, 'k, 'b) cache" where
  "recordActiveSample smp hit c =
     (if \<not> smp then c
      else if hit then c\<lparr>activeSampledHits := activeSampledHits c + 1\<rparr>
      else c\<lparr>activeSampledMisses := activeSampledMisses c + 1\<rparr>)"

end
