(* ===== verification/Migration.thy ===== *)
theory Migration
  imports CacheState
begin

text \<open>
  Shadow duty (\<^verbatim>\<open>src/shadow.go\<close>) and data migration (\<^verbatim>\<open>src/migration.go\<close>): demoting a policy,
  restoring one to full capacity, moving entries on a switch, and the gradual migration window with
  its two ways of draining. All of these run under the cache's write lock, as atomic steps.
\<close>

subsection \<open>Shadow duty\<close>

text \<open>One step of the demotion loop: sampled keys are rewritten to the zero value, others dropped.\<close>

definition demote_key :: "('p, 'k, 'v, 'b) env \<Rightarrow> 'k key_sampler \<Rightarrow> 'k \<Rightarrow> 'p \<Rightarrow> 'p" where
  "demote_key e s key policy =
     (if sampled s key then fst (op_add (policy_iface e) policy key (zero_value e))
      else fst (op_remove (policy_iface e) policy key))"

definition demote_policy :: "('p, 'k, 'v, 'b) env \<Rightarrow> 'k key_sampler \<Rightarrow> int \<Rightarrow> 'p \<Rightarrow> 'p" where
  "demote_policy e s capacity policy =
     (let policy = fold (demote_key e s) (op_keys (policy_iface e) policy) policy;
          policy = (if capacity > 0 then fst (op_resize (policy_iface e) policy capacity) else policy)
      in op_reset_stats (policy_iface e) policy)"

definition demoteLocked ::
  "('p, 'k, 'v, 'b) env \<Rightarrow> policy_type \<Rightarrow> ('p, 'k, 'b) cache \<Rightarrow> ('p, 'k, 'b) cache" where
  "demoteLocked e policyType c =
     (case policies c policyType of
        None \<Rightarrow> c
      | Some policy \<Rightarrow>
          put_policy policyType
            (demote_policy e (sampler c) (map_int (shadowCap c) policyType) policy) c)"

definition promoteLockedCapacity ::
  "('p, 'k, 'v, 'b) env \<Rightarrow> policy_type \<Rightarrow> ('p, 'k, 'b) cache \<Rightarrow> ('p, 'k, 'b) cache" where
  "promoteLockedCapacity e policyType c =
     (case policies c policyType of
        None \<Rightarrow> c
      | Some policy \<Rightarrow>
          (let capacity = map_int (nominalCap c) policyType in
           if capacity > 0 \<and> op_cap (policy_iface e) policy \<noteq> capacity
           then put_policy policyType (fst (op_resize (policy_iface e) policy capacity)) c
           else c))"

definition clearMigrationState :: "('p, 'k, 'b) cache \<Rightarrow> ('p, 'k, 'b) cache" where
  "clearMigrationState c =
     c\<lparr>migrating := False, migrateFrom := Undefined, migrationKeys := [], migrationRealKeys := {}\<rparr>"

definition closeMigrationLocked ::
  "('p, 'k, 'v, 'b) env \<Rightarrow> ('p, 'k, 'b) cache \<Rightarrow> ('p, 'k, 'b) cache" where
  "closeMigrationLocked e c =
     (let source = migrateFrom c; wasMigrating = migrating c;
          c = clearMigrationState c
      in if wasMigrating \<and> source \<noteq> Undefined \<and> source \<noteq> activePolicy c
         then demoteLocked e source c else c)"

subsection \<open>Migration on a switch\<close>

text \<open>The copy loop of a warm migration.\<close>

definition copy_key :: "('p, 'k, 'v) policy_ops \<Rightarrow> 'p \<Rightarrow> 'k \<Rightarrow> 'p \<Rightarrow> 'p" where
  "copy_key ops fromPolicy key toPolicy =
     (case op_peek ops fromPolicy key of
        None \<Rightarrow> toPolicy
      | Some val \<Rightarrow> fst (op_add ops toPolicy key val))"

definition migrateData ::
  "('p, 'k, 'v, 'b) env \<Rightarrow> policy_type \<Rightarrow> policy_type \<Rightarrow> ('p, 'k, 'b) cache \<Rightarrow> ('p, 'k, 'b) cache option"
  where
  "migrateData e from to c =
     (let c = clearMigrationState c in
      case MigrationStrategy (settings c) of
        MigrationWarm \<Rightarrow> do {
          _ \<leftarrow> policies c from;
          toPolicy \<leftarrow> policies c to;
          let c = put_policy to (op_purge (policy_iface e) toPolicy) c;
          fromPolicy \<leftarrow> policies c from;
          toPolicy \<leftarrow> policies c to;
          let keys = op_keys (policy_iface e) fromPolicy;
          Some (put_policy to (fold (copy_key (policy_iface e) fromPolicy) keys toPolicy) c)
        }
      | MigrationGradual \<Rightarrow> do {
          toPolicy \<leftarrow> policies c to;
          let c = put_policy to (op_purge (policy_iface e) toPolicy) c;
          fromPolicy \<leftarrow> policies c from;
          let keys = op_keys (policy_iface e) fromPolicy;
          if keys = [] then Some c
          else Some (c\<lparr>migrating := True, migrateFrom := from,
                       migrationKeys := keys, migrationRealKeys := set keys\<rparr>)
        }
      | _ \<Rightarrow> do {
          toPolicy \<leftarrow> policies c to;
          Some (put_policy to (op_purge (policy_iface e) toPolicy) c)
        })"

subsection \<open>The gradual window\<close>

text \<open>
  The loop of \<^verbatim>\<open>drainOneKey\<close> pops keys from the end of the queue; the recursion runs over the reversed
  queue. Keys already promoted or overwritten are skipped, keys the source lost are dropped, and the
  first key still there is migrated and ends the loop.
\<close>

fun drain_loop ::
  "('p, 'k, 'v, 'b) env \<Rightarrow> 'k list \<Rightarrow> ('p, 'k, 'b) cache \<Rightarrow> ('p, 'k, 'b) cache option" where
  "drain_loop e [] c = Some (closeMigrationLocked e c)"
| "drain_loop e (key # rest) c =
     (let c = c\<lparr>migrationKeys := rev rest\<rparr> in
      if key \<notin> migrationRealKeys c then drain_loop e rest c
      else do {
        source \<leftarrow> policies c (migrateFrom c);
        case op_peek (policy_iface e) source key of
          None \<Rightarrow> drain_loop e rest (c\<lparr>migrationRealKeys := migrationRealKeys c - {key}\<rparr>)
        | Some val \<Rightarrow> do {
            (c, _) \<leftarrow> active_add e key val c;
            let c = c\<lparr>migrationRealKeys := migrationRealKeys c - {key}\<rparr>;
            Some (if migrationRealKeys c = {} then closeMigrationLocked e c else c)
          }
      })"

definition drainOneKey ::
  "('p, 'k, 'v, 'b) env \<Rightarrow> ('p, 'k, 'b) cache \<Rightarrow> ('p, 'k, 'b) cache option" where
  "drainOneKey e c = drain_loop e (rev (migrationKeys c)) c"

definition promoteLocked ::
  "('p, 'k, 'v, 'b) env \<Rightarrow> 'k \<Rightarrow> ('p, 'k, 'b) cache \<Rightarrow> ('p, 'k, 'b) cache option" where
  "promoteLocked e key c = do {
     c \<leftarrow> (if key \<in> migrationRealKeys c then do {
             source \<leftarrow> policies c (migrateFrom c);
             c \<leftarrow> (case op_peek (policy_iface e) source key of
                     None \<Rightarrow> Some c
                   | Some val \<Rightarrow> map_option fst (active_add e key val c));
             Some (c\<lparr>migrationRealKeys := migrationRealKeys c - {key}\<rparr>)
           } else Some c);
     Some (if migrationRealKeys c = {} then closeMigrationLocked e c else c)
   }"

subsection \<open>The switch\<close>

definition switchLocked ::
  "('p, 'k, 'v, 'b) env \<Rightarrow> policy_type \<Rightarrow> policy_type \<Rightarrow> ('p, 'k, 'b) cache \<Rightarrow> ('p, 'k, 'b) cache option"
  where
  "switchLocked e from to c = do {
     let c = closeMigrationLocked e c;
     let c = promoteLockedCapacity e to c;
     c \<leftarrow> migrateData e from to c;
     let c = c\<lparr>activePolicy := to\<rparr>;
     let c = c\<lparr>tenureStats := (tenureStats c)(from := None, to := None)\<rparr>;
     Some (if \<not> migrating c then demoteLocked e from c else c)
   }"

end
