(* ===== verification/DataPlane.thy ===== *)
theory DataPlane
  imports Migration
begin

text \<open>
  The request handlers of \<^verbatim>\<open>src/cache.go\<close> without the epoch clock, which \<^verbatim>\<open>Get\<close> drives through
  \<^verbatim>\<open>countRequest\<close> (theory \<^verbatim>\<open>Epoch\<close>). Each definition is one critical section.

  \<^verbatim>\<open>get\<close> has two: the read-locked fast path, and the write-locked path it takes when it saw an open
  gradual window. They are separate definitions because other goroutines can run between them.
\<close>

definition get_read_locked ::
  "('p, 'k, 'v, 'b) env \<Rightarrow> 'k \<Rightarrow> ('p, 'k, 'b) cache \<Rightarrow> (('p, 'k, 'b) cache \<times> 'v option) option" where
  "get_read_locked e key c =
     (let c = (if sampled (sampler c) key
               then for_shadows e (\<lambda>policy. fst (op_get (policy_iface e) policy key)) c else c)
      in active_get e key c)"

definition get_write_locked ::
  "('p, 'k, 'v, 'b) env \<Rightarrow> 'k \<Rightarrow> ('p, 'k, 'b) cache \<Rightarrow> (('p, 'k, 'b) cache \<times> 'v option) option" where
  "get_write_locked e key c = do {
     let smp = sampled (sampler c) key;
     let c = (if smp then for_shadows e (\<lambda>policy. fst (op_get (policy_iface e) policy key)) c else c);
     c \<leftarrow> (if migrating c then promoteLocked e key c else Some c);
     (c, r) \<leftarrow> active_get e key c;
     Some (recordActiveSample smp (r \<noteq> None) c, r)
   }"

definition get_key ::
  "('p, 'k, 'v, 'b) env \<Rightarrow> 'k \<Rightarrow> ('p, 'k, 'b) cache \<Rightarrow> (('p, 'k, 'b) cache \<times> 'v option) option" where
  "get_key e key c =
     (if \<not> migrating c then do {
        (c, r) \<leftarrow> get_read_locked e key c;
        Some (recordActiveSample (sampled (sampler c) key) (r \<noteq> None) c, r)
      }
      else get_write_locked e key c)"

definition Add ::
  "('p, 'k, 'v, 'b) env \<Rightarrow> 'k \<Rightarrow> 'v \<Rightarrow> ('p, 'k, 'b) cache \<Rightarrow> (('p, 'k, 'b) cache \<times> bool) option" where
  "Add e key value c = do {
     let c = (if sampled (sampler c) key
              then for_shadows e (\<lambda>policy. fst (op_add (policy_iface e) policy key (zero_value e))) c
              else c);
     c \<leftarrow> (if migrating c
          then (let c = c\<lparr>migrationRealKeys := migrationRealKeys c - {key}\<rparr> in
                if migrationRealKeys c = {} then Some (closeMigrationLocked e c)
                else drainOneKey e c)
          else Some c);
     active_add e key value c
   }"

definition Stats :: "('p, 'k, 'v, 'b) env \<Rightarrow> ('p, 'k, 'b) cache \<Rightarrow> policy_stats option" where
  "Stats e c = do {
     p \<leftarrow> policies c (activePolicy c);
     let ps = op_get_stats (policy_iface e) p;
     Some \<lparr>Hits = Hits (globalStats c) + Hits ps, Misses = Misses (globalStats c) + Misses ps\<rparr>
   }"

definition Remove ::
  "('p, 'k, 'v, 'b) env \<Rightarrow> 'k \<Rightarrow> ('p, 'k, 'b) cache \<Rightarrow> (('p, 'k, 'b) cache \<times> bool) option" where
  "Remove e key c = do {
     let c = for_shadows e (\<lambda>policy. fst (op_remove (policy_iface e) policy key)) c;
     let c = (if migrating c
              then (let c = c\<lparr>migrationRealKeys := migrationRealKeys c - {key}\<rparr> in
                    if migrationRealKeys c = {} then closeMigrationLocked e c else c)
              else c);
     p \<leftarrow> policies c (activePolicy c);
     let (p, present) = op_remove (policy_iface e) p key;
     Some (put_policy (activePolicy c) p c, present)
   }"

definition Purge :: "('p, 'k, 'v, 'b) env \<Rightarrow> ('p, 'k, 'b) cache \<Rightarrow> ('p, 'k, 'b) cache" where
  "Purge e c =
     closeMigrationLocked e
       (c\<lparr>policies := map_entries (\<lambda>_ policy. op_purge (policy_iface e) policy) (policies c)\<rparr>)"

text \<open>The capacity \<^verbatim>\<open>Resize\<close> gives a policy: full for the active one and for a draining source.\<close>

definition resize_target :: "int \<Rightarrow> ('p, 'k, 'b) cache \<Rightarrow> policy_type \<Rightarrow> int" where
  "resize_target sz c policyType =
     (if policyType = activePolicy c \<or> (migrating c \<and> policyType = migrateFrom c) then sz
      else scaled_capacity sz (rate (sampler c)))"

definition Resize ::
  "('p, 'k, 'v, 'b) env \<Rightarrow> int \<Rightarrow> ('p, 'k, 'b) cache \<Rightarrow> ('p, 'k, 'b) cache \<times> int" where
  "Resize e sz c =
     (let shadowSize = scaled_capacity sz (rate (sampler c));
          resized = map_entries
            (\<lambda>pt policy. op_resize (policy_iface e) policy (resize_target sz c pt)) (policies c);
          evicted = (\<Sum>pt \<leftarrow> policyOrder c. case resized pt of None \<Rightarrow> 0 | Some r \<Rightarrow> snd r)
      in (c\<lparr>policies := map_entries (\<lambda>_. fst) resized,
            nominalCap := (\<lambda>pt. if pt \<in> dom (policies c) then Some sz else nominalCap c pt),
            shadowCap := (\<lambda>pt. if pt \<in> dom (policies c) then Some shadowSize else shadowCap c pt)\<rparr>,
          evicted))"

definition Contains :: "('p, 'k, 'v, 'b) env \<Rightarrow> 'k \<Rightarrow> ('p, 'k, 'b) cache \<Rightarrow> bool option" where
  "Contains e key c = map_option (\<lambda>p. op_contains (policy_iface e) p key) (policies c (activePolicy c))"

definition Keys :: "('p, 'k, 'v, 'b) env \<Rightarrow> ('p, 'k, 'b) cache \<Rightarrow> 'k list option" where
  "Keys e c = map_option (op_keys (policy_iface e)) (policies c (activePolicy c))"

definition Values :: "('p, 'k, 'v, 'b) env \<Rightarrow> ('p, 'k, 'b) cache \<Rightarrow> 'v list option" where
  "Values e c = map_option (op_values (policy_iface e)) (policies c (activePolicy c))"

definition Len :: "('p, 'k, 'v, 'b) env \<Rightarrow> ('p, 'k, 'b) cache \<Rightarrow> int option" where
  "Len e c = map_option (op_len (policy_iface e)) (policies c (activePolicy c))"

definition Peek :: "('p, 'k, 'v, 'b) env \<Rightarrow> 'k \<Rightarrow> ('p, 'k, 'b) cache \<Rightarrow> 'v option option" where
  "Peek e key c = map_option (\<lambda>p. op_peek (policy_iface e) p key) (policies c (activePolicy c))"

definition ActivePolicy :: "('p, 'k, 'b) cache \<Rightarrow> policy_type" where
  "ActivePolicy c = activePolicy c"

end
