(* ===== verification/Epoch.thy ===== *)
theory Epoch
  imports DataPlane
begin

text \<open>
  The control plane: the stability gates (\<^verbatim>\<open>src/stability.go\<close>), the epoch tick (\<^verbatim>\<open>src/epoch.go\<close>) and
  the request-driven epoch clock that \<^verbatim>\<open>Get\<close> advances.
\<close>

subsection \<open>Stability gates\<close>

definition hitRate :: "policy_stats \<Rightarrow> float64" where
  "hitRate s =
     (let total = Hits s + Misses s in
      if total = 0 then 0 else f64_div (f64_of_int (Hits s)) (f64_of_int total))"

definition switchGated :: "cache_settings \<Rightarrow> bool" where
  "switchGated s \<longleftrightarrow>
     MinHitRateImprovement s > 0 \<or> SwitchCooldownEpochs s > 0 \<or> MinEpochRequests s > 0"

definition allowSwitchLocked :: "policy_type \<Rightarrow> ('p, 'k, 'b) cache \<Rightarrow> bool" where
  "allowSwitchLocked candidate c =
     (let s = settings c in
      if \<not> switchGated s then True
      else if SwitchCooldownEpochs s > 0 \<and> epochID c - lastSwitchEpoch c < SwitchCooldownEpochs s
      then False
      else case (epochStats c (activePolicy c), epochStats c candidate) of
             (Some active, Some cand) \<Rightarrow>
               if MinEpochRequests s > 0 \<and>
                  (Hits active + Misses active < MinEpochRequests s \<or>
                   Hits cand + Misses cand < MinEpochRequests s)
               then False
               else if MinHitRateImprovement s > 0 \<and>
                       f64_sub (hitRate cand) (hitRate active) < MinHitRateImprovement s
               then False
               else True
           | _ \<Rightarrow> False)"

subsection \<open>Reporting and selection\<close>

definition hasPolicy :: "policy_type \<Rightarrow> ('p, 'k, 'b) cache \<Rightarrow> bool" where
  "hasPolicy policyType c \<longleftrightarrow> policies c policyType \<noteq> None"

text \<open>
  One iteration of the reporting loop: collect and reset one policy's counters, fold them into the
  cumulative and tenure statistics, and either buffer the arm's report or hand it to the bandit.
\<close>

definition report_arm ::
  "('p, 'k, 'v, 'b) env \<Rightarrow> policy_type \<Rightarrow> policy_type \<Rightarrow> shadow_stats list \<times> ('p, 'k, 'b) cache
    \<Rightarrow> (shadow_stats list \<times> ('p, 'k, 'b) cache) option" where
  "report_arm e currentPolicy policyType = (\<lambda>(report, c). do {
     policy \<leftarrow> policies c policyType;
     let stats = op_get_stats (policy_iface e) policy;
     let policy = op_reset_stats (policy_iface e) policy;
     let c = put_policy policyType policy c;
     let (reported, c) =
       (if op_get_type (policy_iface e) policy = currentPolicy
        then (\<lparr>Hits = activeSampledHits c, Misses = activeSampledMisses c\<rparr>,
              c\<lparr>globalStats := add_stats (globalStats c) stats,
                activeSampledHits := 0, activeSampledMisses := 0\<rparr>)
        else (stats, c));
     let arm = op_get_type (policy_iface e) policy;
     let c = c\<lparr>epochStats := (epochStats c)(arm \<mapsto> reported)\<rparr>;
     let c = c\<lparr>tenureStats := (tenureStats c)(arm \<mapsto> add_stats (map_stats (tenureStats c) arm) reported)\<rparr>;
     let armStats = \<lparr>ss_policy = arm, ss_hits = Hits reported, ss_misses = Misses reported\<rparr>;
     if epochBandit c then Some (report @ [armStats], c)
     else Some (report, c\<lparr>bandit := held_record_stats (bandit_iface e) (bandit c) armStats\<rparr>)
   })"

fun report_loop ::
  "('p, 'k, 'v, 'b) env \<Rightarrow> policy_type \<Rightarrow> policy_type list \<Rightarrow> shadow_stats list \<times> ('p, 'k, 'b) cache
    \<Rightarrow> (shadow_stats list \<times> ('p, 'k, 'b) cache) option" where
  "report_loop e currentPolicy [] s = Some s"
| "report_loop e currentPolicy (policyType # rest) s =
     Option.bind (report_arm e currentPolicy policyType s) (report_loop e currentPolicy rest)"

definition selectPolicyLocked ::
  "('p, 'k, 'v, 'b) env \<Rightarrow> ('p, 'k, 'b) cache \<Rightarrow> (('p, 'k, 'b) cache \<times> policy_type) option" where
  "selectPolicyLocked e c = do {
     let currentPolicy = activePolicy c;
     partial \<leftarrow> (if \<not> ObserveOnly (settings c) \<and> \<not> EvictPartialCapacityFilling (settings c)
                then map_option (\<lambda>p. op_len (policy_iface e) p \<noteq> op_cap (policy_iface e) p)
                       (policies c currentPolicy)
                else Some False);
     if partial then Some (c\<lparr>epochStats := Map.empty\<rparr>, currentPolicy)
     else do {
       let c = c\<lparr>reportingEpochs := reportingEpochs c + 1\<rparr>;
       (report, c) \<leftarrow> report_loop e currentPolicy (policyOrder c) ([], c);
       c \<leftarrow> (if epochBandit c
             then do {
               recordEpoch \<leftarrow> held_record_epoch (bandit_iface e) (bandit c);
               Some (c\<lparr>bandit := recordEpoch
                 \<lparr>er_EpochID = epochID c, er_Active = currentPolicy, er_Stats = report,
                  er_Capacity = map_int (nominalCap c) currentPolicy,
                  er_SampleRate = rate (sampler c)\<rparr>\<rparr>)
             }
             else Some c);
       let (b, selected) = held_select_policy (bandit_iface e) (bandit c);
       Some (c\<lparr>bandit := b\<rparr>, selected)
     }
   }"

text \<open>\<^verbatim>\<open>tryChangePolicy\<close> takes the lock and runs \<^verbatim>\<open>selectPolicyLocked\<close>: as an atomic step they coincide.\<close>

definition tryChangePolicy ::
  "('p, 'k, 'v, 'b) env \<Rightarrow> ('p, 'k, 'b) cache \<Rightarrow> (('p, 'k, 'b) cache \<times> policy_type) option" where
  "tryChangePolicy e c = selectPolicyLocked e c"

definition runEpoch :: "('p, 'k, 'v, 'b) env \<Rightarrow> ('p, 'k, 'b) cache \<Rightarrow> ('p, 'k, 'b) cache option" where
  "runEpoch e c = do {
     let c = closeMigrationLocked e c;
     (c, newPolicy) \<leftarrow> selectPolicyLocked e c;
     if ObserveOnly (settings c) then Some (c\<lparr>epochID := epochID c + 1\<rparr>)
     else do {
       c \<leftarrow> (if activePolicy c \<noteq> newPolicy \<and> hasPolicy newPolicy c \<and> allowSwitchLocked newPolicy c
             then do {
               c \<leftarrow> switchLocked e (activePolicy c) newPolicy c;
               Some (c\<lparr>lastSwitchEpoch := epochID c\<rparr>)
             }
             else Some c);
       Some (c\<lparr>epochID := epochID c + 1\<rparr>)
     }
   }"

subsection \<open>The request-driven clock\<close>

text \<open>
  \<^verbatim>\<open>countRequest\<close> makes two atomic updates of the counter with other goroutines free to run in
  between; here it is run without interference. Theory \<^verbatim>\<open>EpochClock\<close> has the interleavings.
\<close>

definition countRequest :: "('p, 'k, 'v, 'b) env \<Rightarrow> ('p, 'k, 'b) cache \<Rightarrow> ('p, 'k, 'b) cache option" where
  "countRequest e c =
     (let limit = EpochRequests (settings c) in
      if limit \<le> 0 then Some c
      else let c = c\<lparr>epochRequests := epochRequests c + 1\<rparr> in
           if epochRequests c \<noteq> limit then Some c
           else runEpoch e (c\<lparr>epochRequests := epochRequests c - limit\<rparr>))"

definition Get ::
  "('p, 'k, 'v, 'b) env \<Rightarrow> 'k \<Rightarrow> ('p, 'k, 'b) cache \<Rightarrow> (('p, 'k, 'b) cache \<times> 'v option) option" where
  "Get e key c = do {
     (c, r) \<leftarrow> get_key e key c;
     c \<leftarrow> countRequest e c;
     Some (c, r)
   }"

end
