(* ===== verification/Construct.thy ===== *)
theory Construct
  imports Epoch
begin

text \<open>
  \<^verbatim>\<open>NewAdaptiveCache\<close> (\<^verbatim>\<open>src/settings.go\<close>) and \<^verbatim>\<open>initShadowDutyLocked\<close> (\<^verbatim>\<open>src/shadow.go\<close>), with every
  error the constructor returns. Nil arguments are \<^term>\<open>None\<close>. The ticker and the background
  goroutine it starts are the environment's epoch ticks (theory \<^verbatim>\<open>Requests\<close>).
\<close>

datatype construct_error =
    ErrEmptyPolicies
  | ErrNilPolicy
  | ErrDuplicatePolicy policy_type
  | ErrNilBandit
  | ErrNilSettings
  | ErrInvalidEpochDuration int
  | ErrInvalidEpochRequests int

definition DefaultMinShadowCapacity :: int where
  "DefaultMinShadowCapacity = 256"

text \<open>The loop that registers the policies in the order given.\<close>

fun register_policies ::
  "('p, 'k, 'v) policy_ops \<Rightarrow> 'p option list \<Rightarrow> (policy_type \<rightharpoonup> 'p) \<Rightarrow> policy_type list
    \<Rightarrow> construct_error + ((policy_type \<rightharpoonup> 'p) \<times> policy_type list)" where
  "register_policies ops [] available order = Inr (available, order)"
| "register_policies ops (None # rest) available order = Inl ErrNilPolicy"
| "register_policies ops (Some policy # rest) available order =
     (if available (op_get_type ops policy) \<noteq> None
      then Inl (ErrDuplicatePolicy (op_get_type ops policy))
      else register_policies ops rest (available(op_get_type ops policy \<mapsto> policy))
             (order @ [op_get_type ops policy]))"

text \<open>The smallest positive capacity, zero if there is none.\<close>

definition min_nominal :: "int list \<Rightarrow> int" where
  "min_nominal caps =
     fold (\<lambda>capacity minNominal.
       if capacity > 0 \<and> (minNominal = 0 \<or> capacity < minNominal) then capacity else minNominal) caps 0"

definition initShadowDutyLocked ::
  "('p, 'k, 'v, 'b) env \<Rightarrow> ('k \<Rightarrow> 64 word) \<Rightarrow> float64 \<Rightarrow> int \<Rightarrow> ('p, 'k, 'b) cache \<Rightarrow> ('p, 'k, 'b) cache"
  where
  "initShadowDutyLocked e hash r minCapacity c =
     (let cap_of = (\<lambda>_ policy. op_cap (policy_iface e) policy);
          c = c\<lparr>nominalCap := map_entries cap_of (policies c)\<rparr>;
          minNominal = min_nominal (map (map_int (nominalCap c)) (policyOrder c));
          effectiveRate = snd (shadow_capacity minNominal r minCapacity);
          c = c\<lparr>sampler := new_key_sampler hash effectiveRate\<rparr>;
          c = c\<lparr>shadowCap :=
            map_entries (\<lambda>_ nominal. fst (shadow_capacity nominal effectiveRate minCapacity)) (nominalCap c)\<rparr>
      in fold (\<lambda>policyType c. if policyType \<noteq> activePolicy c then demoteLocked e policyType c else c)
           (policyOrder c) c)"

definition NewAdaptiveCache ::
  "('p, 'k, 'v, 'b) env \<Rightarrow> ('k \<Rightarrow> 64 word) \<Rightarrow> 'p option list \<Rightarrow> 'b option \<Rightarrow> cache_settings option
    \<Rightarrow> construct_error + ('p, 'k, 'b) cache" where
  "NewAdaptiveCache e hash pols b settings_ptr =
     (if pols = [] then Inl ErrEmptyPolicies
      else case settings_ptr of None \<Rightarrow> Inl ErrNilSettings | Some s \<Rightarrow>
      if b = None \<and> \<not> ObserveOnly s then Inl ErrNilBandit
      else let held = (case b of None \<Rightarrow> ObserverBandit | Some b \<Rightarrow> CallerBandit b) in
      if EpochRequests s < 0 then Inl (ErrInvalidEpochRequests (EpochRequests s))
      else if EpochDuration s \<le> 0 \<and> EpochRequests s = 0
      then Inl (ErrInvalidEpochDuration (EpochDuration s))
      else case register_policies (policy_iface e) pols Map.empty [] of
        Inl err \<Rightarrow> Inl err
      | Inr (available, order) \<Rightarrow>
          (let sampleRate = (if ShadowSampleRate s \<le> 0 then 1 else ShadowSampleRate s);
               minShadow = (if MinShadowCapacity s \<le> 0 then DefaultMinShadowCapacity
                            else MinShadowCapacity s);
               ac = \<lparr>activePolicy = (case hd pols of None \<Rightarrow> Undefined
                                       | Some p \<Rightarrow> op_get_type (policy_iface e) p),
                     policies = available, policyOrder = sort order,
                     sampler = new_key_sampler hash 1,
                     nominalCap = Map.empty, shadowCap = Map.empty, minShadowCap = minShadow,
                     activeSampledHits = 0, activeSampledMisses = 0, globalStats = zero_stats,
                     migrating = False, migrateFrom = Undefined,
                     migrationKeys = [], migrationRealKeys = {},
                     bandit = held,
                     epochBandit = (held_record_epoch (bandit_iface e) held \<noteq> None),
                     epochStats = Map.empty, tenureStats = Map.empty, reportingEpochs = 0,
                     lastSwitchEpoch = 0, epochID = 0, epochRequests = 0, settings = s\<rparr>
           in Inr (initShadowDutyLocked e hash sampleRate minShadow ac)))"

end
