(* ===== verification/CacheInv.thy ===== *)
theory CacheInv
  imports Construct
begin

text \<open>
  The invariant of the adaptive cache and its preservation by every building block of the handlers,
  for arms of which only \<^verbatim>\<open>policy_contract\<close> is assumed.

  \<open>\<sigma>\<close> is the specification state: the last value stored under each key that has not been removed
  since. The invariant has four parts:
  \<^item> \<^verbatim>\<open>well_formed\<close>: the active policy exists, every policy is registered under its own type, the
    reporting order lists exactly the policies, sorted;
  \<^item> \<^verbatim>\<open>window\<close>: the gradual window's source is another policy than the active one, and every key still
    to be promoted is still in the queue;
  \<^item> \<^verbatim>\<open>serves\<close>: whatever the active policy holds is what \<open>\<sigma>\<close> says, and so is whatever the source of a
    gradual window holds under a key still to be promoted;
  \<^item> \<^verbatim>\<open>shadows_blank\<close>: every other policy holds zero values only, under sampled keys only.
\<close>

definition content_at :: "('p \<Rightarrow> 'k \<rightharpoonup> 'v) \<Rightarrow> ('p, 'k, 'b) cache \<Rightarrow> policy_type \<Rightarrow> 'k \<rightharpoonup> 'v" where
  "content_at content c pt = (case policies c pt of None \<Rightarrow> Map.empty | Some p \<Rightarrow> content p)"

definition well_formed :: "('p, 'k, 'v, 'b) env \<Rightarrow> ('p \<Rightarrow> bool) \<Rightarrow> ('p, 'k, 'b) cache \<Rightarrow> bool" where
  "well_formed e good c \<longleftrightarrow>
     policies c (activePolicy c) \<noteq> None \<and>
     (\<forall>pt p. policies c pt = Some p \<longrightarrow> good p \<and> op_get_type (policy_iface e) p = pt) \<and>
     distinct (policyOrder c) \<and> sorted (policyOrder c) \<and> set (policyOrder c) = dom (policies c) \<and>
     (epochBandit c \<longleftrightarrow> held_record_epoch (bandit_iface e) (bandit c) \<noteq> None)"

definition window :: "('p, 'k, 'b) cache \<Rightarrow> bool" where
  "window c \<longleftrightarrow>
     (if migrating c
      then policies c (migrateFrom c) \<noteq> None \<and> migrateFrom c \<noteq> activePolicy c \<and>
           migrationRealKeys c \<subseteq> set (migrationKeys c)
      else migrationKeys c = [] \<and> migrationRealKeys c = {})"

definition serves ::
  "('p \<Rightarrow> 'k \<rightharpoonup> 'v) \<Rightarrow> ('k \<rightharpoonup> 'v) \<Rightarrow> ('p, 'k, 'b) cache \<Rightarrow> bool" where
  "serves content \<sigma> c \<longleftrightarrow>
     content_at content c (activePolicy c) \<subseteq>\<^sub>m \<sigma> \<and>
     (migrating c \<longrightarrow> content_at content c (migrateFrom c) |` migrationRealKeys c \<subseteq>\<^sub>m \<sigma>)"

definition shadows_blank ::
  "('p, 'k, 'v, 'b) env \<Rightarrow> ('p \<Rightarrow> 'k \<rightharpoonup> 'v) \<Rightarrow> ('p, 'k, 'b) cache \<Rightarrow> bool" where
  "shadows_blank e content c \<longleftrightarrow>
     (\<forall>pt p. policies c pt = Some p \<longrightarrow> pt \<noteq> activePolicy c \<longrightarrow> pt \<noteq> Undefined \<longrightarrow>
        \<not> (migrating c \<and> pt = migrateFrom c) \<longrightarrow>
        (\<forall>k v. content p k = Some v \<longrightarrow> v = zero_value e \<and> sampled (sampler c) k))"

definition cache_inv ::
  "('p, 'k, 'v, 'b) env \<Rightarrow> ('p \<Rightarrow> bool) \<Rightarrow> ('p \<Rightarrow> 'k \<rightharpoonup> 'v) \<Rightarrow> ('k \<rightharpoonup> 'v) \<Rightarrow> ('p, 'k, 'b) cache \<Rightarrow> bool"
  where
  "cache_inv e good content \<sigma> c \<longleftrightarrow>
     well_formed e good c \<and> window c \<and> serves content \<sigma> c \<and> shadows_blank e content c"

text \<open>Between two handlers an open window always has something left to promote.\<close>

definition window_open :: "('p, 'k, 'b) cache \<Rightarrow> bool" where
  "window_open c \<longleftrightarrow> (migrating c \<longrightarrow> migrationRealKeys c \<noteq> {})"

definition cache_ok ::
  "('p, 'k, 'v, 'b) env \<Rightarrow> ('p \<Rightarrow> bool) \<Rightarrow> ('p \<Rightarrow> 'k \<rightharpoonup> 'v) \<Rightarrow> ('k \<rightharpoonup> 'v) \<Rightarrow> ('p, 'k, 'b) cache \<Rightarrow> bool"
  where
  "cache_ok e good content \<sigma> c \<longleftrightarrow> cache_inv e good content \<sigma> c \<and> window_open c"

lemmas inv_defs = cache_inv_def well_formed_def window_def serves_def shadows_blank_def content_at_def

lemma content_at_Some [simp]: "policies c pt = Some p \<Longrightarrow> content_at content c pt = content p"
  by (simp add: content_at_def)

lemma cache_invD:
  assumes "cache_inv e good content \<sigma> c"
  shows "\<exists>p. policies c (activePolicy c) = Some p \<and> good p \<and>
           op_get_type (policy_iface e) p = activePolicy c \<and> content p \<subseteq>\<^sub>m \<sigma>"
    and "policies c pt = Some p \<Longrightarrow> good p \<and> op_get_type (policy_iface e) p = pt"
    and "migrating c \<Longrightarrow> \<exists>p. policies c (migrateFrom c) = Some p \<and> good p \<and>
           content p |` migrationRealKeys c \<subseteq>\<^sub>m \<sigma> \<and> migrateFrom c \<noteq> activePolicy c"
  using assms by (auto simp: inv_defs split: if_splits)

subsection \<open>Frames: updates of bookkeeping fields\<close>

text \<open>Fields the invariant does not mention can change freely.\<close>

lemma cache_inv_frames [frames]:
  "cache_inv e good content \<sigma> (c\<lparr>activeSampledHits := n\<rparr>) = cache_inv e good content \<sigma> c"
  "cache_inv e good content \<sigma> (c\<lparr>activeSampledMisses := n\<rparr>) = cache_inv e good content \<sigma> c"
  "cache_inv e good content \<sigma> (c\<lparr>globalStats := g\<rparr>) = cache_inv e good content \<sigma> c"
  "cache_inv e good content \<sigma> (c\<lparr>epochStats := m\<rparr>) = cache_inv e good content \<sigma> c"
  "cache_inv e good content \<sigma> (c\<lparr>tenureStats := m\<rparr>) = cache_inv e good content \<sigma> c"
  "cache_inv e good content \<sigma> (c\<lparr>reportingEpochs := n\<rparr>) = cache_inv e good content \<sigma> c"
  "cache_inv e good content \<sigma> (c\<lparr>lastSwitchEpoch := n\<rparr>) = cache_inv e good content \<sigma> c"
  "cache_inv e good content \<sigma> (c\<lparr>epochID := n\<rparr>) = cache_inv e good content \<sigma> c"
  "cache_inv e good content \<sigma> (c\<lparr>epochRequests := n\<rparr>) = cache_inv e good content \<sigma> c"
  "cache_inv e good content \<sigma> (c\<lparr>nominalCap := m'\<rparr>) = cache_inv e good content \<sigma> c"
  "cache_inv e good content \<sigma> (c\<lparr>shadowCap := m'\<rparr>) = cache_inv e good content \<sigma> c"
  by (simp_all add: inv_defs)

lemma record_sample_inv [frames]:
  "cache_inv e good content \<sigma> (recordActiveSample smp hit c) = cache_inv e good content \<sigma> c"
  by (simp add: recordActiveSample_def frames)

lemma record_sample_fields [frames]:
  "migrating (recordActiveSample smp hit c) = migrating c"
  "migrationRealKeys (recordActiveSample smp hit c) = migrationRealKeys c"
  "activePolicy (recordActiveSample smp hit c) = activePolicy c"
  "policies (recordActiveSample smp hit c) = policies c"
  "sampler (recordActiveSample smp hit c) = sampler c"
  "settings (recordActiveSample smp hit c) = settings c"
  by (simp_all add: recordActiveSample_def)

text \<open>Forgetting a pending key: it must never be promoted again.\<close>

lemma forget_key_inv:
  "cache_inv e good content \<sigma> c \<Longrightarrow>
    cache_inv e good content \<sigma> (c\<lparr>migrationRealKeys := migrationRealKeys c - {key}\<rparr>)"
  by (auto simp: inv_defs map_le_def restrict_map_def split: if_splits)

text \<open>The specification may learn about a key no policy still has to serve from the source.\<close>

lemma serves_weaken:
  assumes "serves content \<sigma> c" and "\<And>k v. \<sigma> k = Some v \<Longrightarrow> \<sigma>' k = Some v"
  shows "serves content \<sigma>' c"
  using assms by (auto simp: serves_def map_le_def dom_def)

subsection \<open>The building blocks\<close>

locale adaptive_cache = policy_contract "policy_iface e" inv content
  for e :: "('p, 'k, 'v, 'b) env"
    and inv :: "'p \<Rightarrow> bool"
    and content :: "'p \<Rightarrow> 'k \<rightharpoonup> 'v"
begin

abbreviation ok :: "('k \<rightharpoonup> 'v) \<Rightarrow> ('p, 'k, 'b) cache \<Rightarrow> bool" where
  "ok \<equiv> cache_inv e inv content"

text \<open>Replacing the active policy by one that serves the new specification.\<close>

lemma put_active_inv:
  assumes c: "ok \<sigma> c" and p: "inv p" "op_get_type (policy_iface e) p = activePolicy c"
    and served: "content p \<subseteq>\<^sub>m \<sigma>'"
    and kept: "\<And>k v. k \<in> migrationRealKeys c \<Longrightarrow> \<sigma> k = Some v \<Longrightarrow> \<sigma>' k = Some v"
  shows "ok \<sigma>' (put_policy (activePolicy c) p c)"
proof -
  have "content q |` migrationRealKeys c \<subseteq>\<^sub>m \<sigma>'" if "content q |` migrationRealKeys c \<subseteq>\<^sub>m \<sigma>" for q
    using that kept by (auto simp: map_le_def restrict_map_def dom_def)
  with assms show ?thesis
    by (auto simp: inv_defs put_policy_def split: if_splits)
qed

lemma active_add_inv:
  assumes c: "ok \<sigma> c" and fresh: "key \<notin> migrationRealKeys c \<or> \<sigma> key = Some v"
  shows "\<exists>c' evicted. active_add e key v c = Some (c', evicted) \<and> ok (\<sigma>(key \<mapsto> v)) c' \<and>
    (\<exists>p. c' = put_policy (activePolicy c) p c)"
proof -
  obtain p where p: "policies c (activePolicy c) = Some p" "inv p"
      "op_get_type (policy_iface e) p = activePolicy c" "content p \<subseteq>\<^sub>m \<sigma>"
    using cache_invD(1) [OF c] by blast
  let ?p = "fst (op_add (policy_iface e) p key v)"
  have "content ?p \<subseteq>\<^sub>m \<sigma>(key \<mapsto> v)"
    using add_content [OF p(2)] map_le_insert [OF p(4)] map_le_trans by blast
  moreover have "inv ?p" "op_get_type (policy_iface e) ?p = activePolicy c"
    using p by (simp_all add: add_inv add_type)
  ultimately have "ok (\<sigma>(key \<mapsto> v)) (put_policy (activePolicy c) ?p c)"
    using fresh by (intro put_active_inv [OF c]) auto
  then show ?thesis
    by (auto simp: active_add_def p(1) split_beta)
qed

text \<open>Adding what the specification already says changes nothing about it.\<close>

lemma active_add_same:
  assumes "ok \<sigma> c" and "\<sigma> key = Some v"
  shows "\<exists>c' evicted. active_add e key v c = Some (c', evicted) \<and> ok \<sigma> c' \<and>
    (\<exists>p. c' = put_policy (activePolicy c) p c)"
  using active_add_inv [of \<sigma> c key v] assms by (simp add: fun_upd_idem)

lemma active_get_inv:
  assumes c: "ok \<sigma> c"
  shows "\<exists>c' r. active_get e key c = Some (c', r) \<and> ok \<sigma> c' \<and> (\<forall>v. r = Some v \<longrightarrow> \<sigma> key = Some v) \<and>
    (\<exists>p. c' = put_policy (activePolicy c) p c)"
proof -
  obtain p where p: "policies c (activePolicy c) = Some p" "inv p"
      "op_get_type (policy_iface e) p = activePolicy c" "content p \<subseteq>\<^sub>m \<sigma>"
    using cache_invD(1) [OF c] by blast
  let ?p = "fst (op_get (policy_iface e) p key)"
  have "content ?p \<subseteq>\<^sub>m \<sigma>" using get_content [OF p(2)] p(4) map_le_trans by blast
  then have "ok \<sigma> (put_policy (activePolicy c) ?p c)"
    using p by (intro put_active_inv [OF c]) (auto simp: get_inv get_type)
  moreover have "\<sigma> key = Some v" if "snd (op_get (policy_iface e) p key) = Some v" for v
    using get_result [OF p(2) that] p(4) by (rule map_le_SomeD [rotated])
  ultimately show ?thesis
    by (auto simp: active_get_def p(1) split_beta)
qed

text \<open>
  The shadow loops. The body may shrink a policy, or add the zero value under a sampled key that no
  window still has to promote.
\<close>

lemma for_shadows_inv:
  assumes c: "ok \<sigma> c"
    and f: "\<And>p. inv p \<Longrightarrow> inv (f p) \<and> op_get_type (policy_iface e) (f p) = op_get_type (policy_iface e) p"
    and shrinks: "\<And>p j v. inv p \<Longrightarrow> content (f p) j = Some v \<Longrightarrow>
      content p j = Some v \<or> (j \<notin> migrationRealKeys c \<and> sampled (sampler c) j \<and> v = zero_value e)"
  shows "ok \<sigma> (for_shadows e f c)"
proof -
  let ?d = "for_shadows e f c"
  have same: "policies ?d pt = map_option (\<lambda>p. if pt = activePolicy c then p else f p) (policies c pt)" for pt
    using c by (cases "policies c pt") (auto simp: for_shadows_def inv_defs)
  have fields: "activePolicy ?d = activePolicy c" "migrating ?d = migrating c"
    "migrateFrom ?d = migrateFrom c" "migrationKeys ?d = migrationKeys c"
    "migrationRealKeys ?d = migrationRealKeys c" "sampler ?d = sampler c" "bandit ?d = bandit c"
    "policyOrder ?d = policyOrder c" "epochBandit ?d = epochBandit c"
    by (simp_all add: for_shadows_def)
  have dom: "dom (policies ?d) = dom (policies c)" by (auto simp: same dom_def)
  have wf: "well_formed e inv ?d"
    using c f by (auto simp: cache_inv_def well_formed_def same fields dom)
  have win: "window ?d" using c by (auto simp: cache_inv_def window_def same fields)
  have src: "content (f q) |` migrationRealKeys c \<subseteq>\<^sub>m \<sigma>"
    if "inv q" "content q |` migrationRealKeys c \<subseteq>\<^sub>m \<sigma>" for q
  proof (rule map_leI)
    fix k v assume "(content (f q) |` migrationRealKeys c) k = Some v"
    then have "k \<in> migrationRealKeys c" "content (f q) k = Some v"
      by (auto simp: restrict_map_def split: if_splits)
    with shrinks [OF that(1)] have "(content q |` migrationRealKeys c) k = Some v" by auto
    with that(2) show "\<sigma> k = Some v" by (rule map_le_SomeD)
  qed
  have srv: "serves content \<sigma> ?d"
  proof -
    have "content_at content ?d (activePolicy c) = content_at content c (activePolicy c)"
      by (simp add: content_at_def same split: option.split)
    moreover have "content_at content ?d (migrateFrom c) |` migrationRealKeys c \<subseteq>\<^sub>m \<sigma>" if "migrating c"
      using cache_invD(3) [OF c that] src by (auto simp: content_at_def same)
    ultimately show ?thesis using c by (simp add: cache_inv_def serves_def fields)
  qed
  have "shadows_blank e content ?d"
    unfolding shadows_blank_def fields
  proof (intro allI impI)
    fix pt p k v
    assume a: "policies ?d pt = Some p" "pt \<noteq> activePolicy c" "pt \<noteq> Undefined"
      "\<not> (migrating c \<and> pt = migrateFrom c)" "content p k = Some v"
    then obtain q where q: "policies c pt = Some q" "p = f q" by (auto simp: same)
    have "content q k = Some v \<Longrightarrow> v = zero_value e \<and> sampled (sampler c) k"
      using c a q by (auto simp: cache_inv_def shadows_blank_def)
    with shrinks [of q k v] cache_invD(2) [OF c q(1)] a(5) q(2)
    show "v = zero_value e \<and> sampled (sampler c) k" by auto
  qed
  with wf win srv show ?thesis by (simp add: cache_inv_def)
qed

end

end
