(* ===== verification/CacheSteps.thy ===== *)
theory CacheSteps
  imports CacheInv
begin

text \<open>
  Every handler of the cache, built from the pieces of theory \<^verbatim>\<open>CacheInv\<close>: none of them panics, and
  each takes a cache that serves \<open>\<sigma>\<close> to one that serves the specification's next state.

  First shadow duty and the gradual window, then the data plane, then the epoch.
\<close>

lemma bind_SomeI: "x = Some y \<Longrightarrow> Option.bind x f = f y"
  by simp

lemma visit_entry_apply: "visit_entry f k m j = (if j = k then map_option (f k) (m k) else m j)"
  by (auto simp: visit_entry_def split: option.splits)

lemma dom_visit_entry [simp]: "dom (visit_entry f k m) = dom m"
  by (auto simp: visit_entry_apply dom_def split: if_splits)

lemma demoteLocked_eq:
  "demoteLocked e pt c =
    c\<lparr>policies := visit_entry (\<lambda>pt. demote_policy e (sampler c) (map_int (shadowCap c) pt)) pt (policies c)\<rparr>"
  by (simp add: demoteLocked_def visit_entry_def put_policy_def split: option.split)

lemma promoteLockedCapacity_cases:
  "promoteLockedCapacity e pt c = c \<or>
   (\<exists>p. policies c pt = Some p \<and> promoteLockedCapacity e pt c =
      put_policy pt (fst (op_resize (policy_iface e) p (map_int (nominalCap c) pt))) c)"
  by (auto simp: promoteLockedCapacity_def Let_def split: option.split)

text \<open>The fields shadow duty and the window leave alone.\<close>

lemma demoteLocked_fields [frames]:
  "activePolicy (demoteLocked e pt c) = activePolicy c"
  "migrating (demoteLocked e pt c) = migrating c"
  "migrateFrom (demoteLocked e pt c) = migrateFrom c"
  "migrationKeys (demoteLocked e pt c) = migrationKeys c"
  "migrationRealKeys (demoteLocked e pt c) = migrationRealKeys c"
  "sampler (demoteLocked e pt c) = sampler c"
  "settings (demoteLocked e pt c) = settings c"
  "bandit (demoteLocked e pt c) = bandit c"
  "epochBandit (demoteLocked e pt c) = epochBandit c"
  "policyOrder (demoteLocked e pt c) = policyOrder c"
  "nominalCap (demoteLocked e pt c) = nominalCap c"
  "shadowCap (demoteLocked e pt c) = shadowCap c"
  "dom (policies (demoteLocked e pt c)) = dom (policies c)"
  by (simp_all add: demoteLocked_eq)

lemma clear_fields [frames]:
  "activePolicy (clearMigrationState c) = activePolicy c"
  "policies (clearMigrationState c) = policies c"
  "sampler (clearMigrationState c) = sampler c"
  "settings (clearMigrationState c) = settings c"
  "bandit (clearMigrationState c) = bandit c"
  "epochBandit (clearMigrationState c) = epochBandit c"
  "policyOrder (clearMigrationState c) = policyOrder c"
  "nominalCap (clearMigrationState c) = nominalCap c"
  "shadowCap (clearMigrationState c) = shadowCap c"
  "\<not> migrating (clearMigrationState c)"
  "migrationKeys (clearMigrationState c) = []"
  "migrationRealKeys (clearMigrationState c) = {}"
  by (simp_all add: clearMigrationState_def)

lemma close_fields [frames]:
  "activePolicy (closeMigrationLocked e c) = activePolicy c"
  "sampler (closeMigrationLocked e c) = sampler c"
  "settings (closeMigrationLocked e c) = settings c"
  "bandit (closeMigrationLocked e c) = bandit c"
  "epochBandit (closeMigrationLocked e c) = epochBandit c"
  "policyOrder (closeMigrationLocked e c) = policyOrder c"
  "nominalCap (closeMigrationLocked e c) = nominalCap c"
  "shadowCap (closeMigrationLocked e c) = shadowCap c"
  "dom (policies (closeMigrationLocked e c)) = dom (policies c)"
  "\<not> migrating (closeMigrationLocked e c)"
  "migrationKeys (closeMigrationLocked e c) = []"
  "migrationRealKeys (closeMigrationLocked e c) = {}"
  by (simp_all add: closeMigrationLocked_def frames Let_def)

lemma put_policy_fields [simp]:
  "policies (put_policy pt p c) = (policies c)(pt \<mapsto> p)"
  "activePolicy (put_policy pt p c) = activePolicy c"
  "migrating (put_policy pt p c) = migrating c"
  "migrateFrom (put_policy pt p c) = migrateFrom c"
  "migrationKeys (put_policy pt p c) = migrationKeys c"
  "migrationRealKeys (put_policy pt p c) = migrationRealKeys c"
  "sampler (put_policy pt p c) = sampler c"
  "settings (put_policy pt p c) = settings c"
  "bandit (put_policy pt p c) = bandit c"
  "epochBandit (put_policy pt p c) = epochBandit c"
  "policyOrder (put_policy pt p c) = policyOrder c"
  "nominalCap (put_policy pt p c) = nominalCap c"
  "shadowCap (put_policy pt p c) = shadowCap c"
  "globalStats (put_policy pt p c) = globalStats c"
  "activeSampledHits (put_policy pt p c) = activeSampledHits c"
  "activeSampledMisses (put_policy pt p c) = activeSampledMisses c"
  "epochStats (put_policy pt p c) = epochStats c"
  "tenureStats (put_policy pt p c) = tenureStats c"
  "reportingEpochs (put_policy pt p c) = reportingEpochs c"
  "lastSwitchEpoch (put_policy pt p c) = lastSwitchEpoch c"
  "epochID (put_policy pt p c) = epochID c"
  "epochRequests (put_policy pt p c) = epochRequests c"
  by (simp_all add: put_policy_def)

lemma for_shadows_fields [simp]:
  "activePolicy (for_shadows e f c) = activePolicy c"
  "migrating (for_shadows e f c) = migrating c"
  "migrateFrom (for_shadows e f c) = migrateFrom c"
  "migrationKeys (for_shadows e f c) = migrationKeys c"
  "migrationRealKeys (for_shadows e f c) = migrationRealKeys c"
  "sampler (for_shadows e f c) = sampler c"
  "settings (for_shadows e f c) = settings c"
  "bandit (for_shadows e f c) = bandit c"
  "policyOrder (for_shadows e f c) = policyOrder c"
  by (simp_all add: for_shadows_def)

subsection \<open>Blank policies\<close>

definition blank_at ::
  "('p, 'k, 'v, 'b) env \<Rightarrow> ('p \<Rightarrow> 'k \<rightharpoonup> 'v) \<Rightarrow> ('p, 'k, 'b) cache \<Rightarrow> policy_type \<Rightarrow> bool" where
  "blank_at e content c pt \<longleftrightarrow>
     (\<forall>k v. content_at content c pt k = Some v \<longrightarrow> v = zero_value e \<and> sampled (sampler c) k)"

lemma shadows_blank_iff:
  "shadows_blank e content c \<longleftrightarrow>
    (\<forall>pt. pt \<noteq> activePolicy c \<longrightarrow> pt \<noteq> Undefined \<longrightarrow> \<not> (migrating c \<and> pt = migrateFrom c) \<longrightarrow>
      blank_at e content c pt)"
  by (auto simp: shadows_blank_def blank_at_def content_at_def split: option.splits)

lemma blank_at_cong:
  "policies c pt = policies c' pt \<Longrightarrow> sampler c = sampler c' \<Longrightarrow>
    blank_at e content c pt = blank_at e content c' pt"
  by (simp add: blank_at_def content_at_def)

context adaptive_cache begin

lemma demote_key_step:
  assumes "inv p"
  shows "inv (demote_key e s key p)"
    and "op_get_type (policy_iface e) (demote_key e s key p) = op_get_type (policy_iface e) p"
    and "content (demote_key e s key p) j = Some v \<Longrightarrow>
      (v = zero_value e \<and> sampled s j) \<or> (j \<noteq> key \<and> content p j = Some v)"
  using assms
  by (auto simp: demote_key_def add_inv remove_inv add_type remove_type
      split: if_splits dest: add_at remove_at)

lemma demote_loop:
  assumes "inv p"
  shows "inv (fold (demote_key e s) ks p) \<and>
    op_get_type (policy_iface e) (fold (demote_key e s) ks p) = op_get_type (policy_iface e) p \<and>
    (\<forall>j v. content (fold (demote_key e s) ks p) j = Some v \<longrightarrow>
      (v = zero_value e \<and> sampled s j) \<or> (j \<notin> set ks \<and> content p j = Some v))"
  using assms
proof (induction ks arbitrary: p)
  case (Cons key ks)
  note step = demote_key_step [OF Cons.prems, of s key]
  from Cons.IH [OF step(1)] show ?case
    using step(2) step(3) by fastforce
qed simp

text \<open>A demoted policy holds zero values only, under sampled keys only, and its counters are reset.\<close>

lemma demote_policy_blank:
  assumes p: "inv p"
  shows "inv (demote_policy e s cap p)"
    and "op_get_type (policy_iface e) (demote_policy e s cap p) = op_get_type (policy_iface e) p"
    and "content (demote_policy e s cap p) j = Some v \<Longrightarrow> v = zero_value e \<and> sampled s j"
    and "op_get_stats (policy_iface e) (demote_policy e s cap p) = zero_stats"
proof -
  let ?q = "fold (demote_key e s) (op_keys (policy_iface e) p) p"
  let ?r = "if cap > 0 then fst (op_resize (policy_iface e) ?q cap) else ?q"
  note loop = demote_loop [OF p, of s "op_keys (policy_iface e) p"]
  have r: "inv ?r" "op_get_type (policy_iface e) ?r = op_get_type (policy_iface e) p"
    "content ?r \<subseteq>\<^sub>m content ?q"
    using loop by (auto simp: resize_inv resize_type resize_content)
  have eq: "demote_policy e s cap p = op_reset_stats (policy_iface e) ?r"
    by (simp add: demote_policy_def Let_def)
  show "inv (demote_policy e s cap p)"
    "op_get_type (policy_iface e) (demote_policy e s cap p) = op_get_type (policy_iface e) p"
    "op_get_stats (policy_iface e) (demote_policy e s cap p) = zero_stats"
    using r(1,2) by (simp_all only: eq reset_inv reset_type reset_stats)
  show "v = zero_value e \<and> sampled s j" if "content (demote_policy e s cap p) j = Some v"
  proof -
    have "content ?r j = Some v" using that r(1) by (simp only: eq reset_content)
    then have "content ?q j = Some v" by (rule map_le_SomeD [OF r(3)])
    with loop keys_content [OF p] show ?thesis by (auto dest: domI)
  qed
qed

lemma demoteLocked_blank:
  assumes "\<And>pt p. policies c pt = Some p \<Longrightarrow> inv p"
  shows "blank_at e content (demoteLocked e pt c) pt' \<longleftrightarrow> pt' = pt \<or> blank_at e content c pt'"
proof (cases "pt' = pt")
  case True
  have "v = zero_value e \<and> sampled (sampler c) k"
    if a: "content_at content (demoteLocked e pt c) pt k = Some v" for k v
  proof -
    obtain p where "policies c pt = Some p"
      "content (demote_policy e (sampler c) (map_int (shadowCap c) pt) p) k = Some v"
      using a by (auto simp: content_at_def demoteLocked_eq visit_entry_apply split: option.splits)
    then show ?thesis using demote_policy_blank(3) [OF assms] by blast
  qed
  with True show ?thesis by (auto simp: blank_at_def frames)
next
  case False
  then have "policies (demoteLocked e pt c) pt' = policies c pt'"
    by (simp add: demoteLocked_eq visit_entry_apply)
  with False show ?thesis by (simp add: blank_at_cong [of "demoteLocked e pt c" pt' c] frames)
qed

lemma demoteLocked_wf:
  "well_formed e inv c \<Longrightarrow> well_formed e inv (demoteLocked e pt c)"
  using demote_policy_blank(1,2)
  by (auto simp: well_formed_def frames demoteLocked_eq visit_entry_apply split: if_splits)

lemma demoteLocked_serves:
  assumes "pt \<noteq> activePolicy c" and "\<not> migrating c"
  shows "serves content \<sigma> (demoteLocked e pt c) = serves content \<sigma> c"
  using assms by (simp add: serves_def frames content_at_def demoteLocked_eq visit_entry_apply)

text \<open>Demoting one policy restores the invariant when it was the only one not blank.\<close>

lemma demoteLocked_inv:
  assumes "well_formed e inv c" "window c" "serves content \<sigma> c" "\<not> migrating c"
    and "pt \<noteq> activePolicy c"
    and "\<And>pt'. pt' \<noteq> pt \<Longrightarrow> pt' \<noteq> activePolicy c \<Longrightarrow> pt' \<noteq> Undefined \<Longrightarrow> blank_at e content c pt'"
  shows "ok \<sigma> (demoteLocked e pt c)"
proof -
  have "window (demoteLocked e pt c)" using assms(2,4) by (simp add: window_def frames)
  moreover have "shadows_blank e content (demoteLocked e pt c)"
    using assms(1,6) by (auto simp: shadows_blank_iff frames demoteLocked_blank well_formed_def)
  ultimately show ?thesis
    using assms by (simp add: cache_inv_def demoteLocked_wf demoteLocked_serves)
qed

subsection \<open>Closing a window\<close>

lemma closeMigration_inv:
  assumes c: "ok \<sigma> c"
  shows "ok \<sigma> (closeMigrationLocked e c)"
proof -
  let ?d = "clearMigrationState c"
  have d: "well_formed e inv ?d" "window ?d" "serves content \<sigma> ?d" "\<not> migrating ?d"
    using c by (simp_all add: cache_inv_def well_formed_def window_def serves_def frames content_at_def)
  have blank: "blank_at e content ?d pt"
    if "pt \<noteq> activePolicy c" "pt \<noteq> Undefined" "\<not> (migrating c \<and> pt = migrateFrom c)" for pt
    using c that by (simp add: cache_inv_def shadows_blank_iff blank_at_cong [of ?d pt c] frames)
  show ?thesis
  proof (cases "migrating c \<and> migrateFrom c \<noteq> Undefined \<and> migrateFrom c \<noteq> activePolicy c")
    case True
    then show ?thesis
      using d blank by (auto simp: closeMigrationLocked_def Let_def frames intro!: demoteLocked_inv)
  next
    case False
    have "migrating c \<Longrightarrow> migrateFrom c = Undefined"
      using False cache_invD(3) [OF c] by blast
    with d blank have "ok \<sigma> ?d" by (auto simp: cache_inv_def shadows_blank_iff frames)
    moreover have "closeMigrationLocked e c = ?d"
      using False by (auto simp: closeMigrationLocked_def Let_def frames)
    ultimately show ?thesis by (simp only:)
  qed
qed


subsection \<open>Promoting pending keys\<close>

text \<open>Popping a key off the queue once it is not pending any more.\<close>

lemma pop_key_inv:
  assumes "ok \<sigma> c" and "migrationKeys c = ks @ [key]"
  shows "ok \<sigma> (c\<lparr>migrationKeys := ks, migrationRealKeys := migrationRealKeys c - {key}\<rparr>)"
proof -
  have win: "migrating c"
    using assms by (cases "migrating c") (auto simp: cache_inv_def window_def)
  with assms have "migrationRealKeys c - {key} \<subseteq> set ks"
    by (auto simp: cache_inv_def window_def)
  with forget_key_inv [OF assms(1), of key] win show ?thesis
    by (simp add: inv_defs)
qed

lemma pending_value:
  assumes "ok \<sigma> c" "migrating c" "policies c (migrateFrom c) = Some source"
    and "key \<in> migrationRealKeys c" "op_peek (policy_iface e) source key = Some v"
  shows "\<sigma> key = Some v"
proof -
  have "inv source" "content source |` migrationRealKeys c \<subseteq>\<^sub>m \<sigma>"
    using cache_invD(3) [OF assms(1,2)] assms(3) by auto
  moreover from this have "(content source |` migrationRealKeys c) key = Some v"
    using peek_result assms(4,5) by simp
  ultimately show ?thesis by (blast dest: map_le_SomeD)
qed

text \<open>
  A handler of the window: it does not panic, keeps the invariant, leaves no empty window open, makes
  no key pending and keeps what is not the window's.
\<close>

definition window_step :: "('k \<rightharpoonup> 'v) \<Rightarrow> ('p, 'k, 'b) cache \<Rightarrow> ('p, 'k, 'b) cache \<Rightarrow> bool" where
  "window_step \<sigma> c c' \<longleftrightarrow> ok \<sigma> c' \<and> window_open c' \<and> activePolicy c' = activePolicy c \<and>
     migrationRealKeys c' \<subseteq> migrationRealKeys c \<and> sampler c' = sampler c \<and>
     settings c' = settings c \<and> policyOrder c' = policyOrder c"

lemma window_step_close:
  "ok \<sigma> d \<Longrightarrow> activePolicy d = activePolicy c \<Longrightarrow> sampler d = sampler c \<Longrightarrow> settings d = settings c \<Longrightarrow>
    policyOrder d = policyOrder c \<Longrightarrow> window_step \<sigma> c (closeMigrationLocked e d)"
  by (simp add: window_step_def closeMigration_inv window_open_def frames)

lemma drain_loop_step:
  assumes "ok \<sigma> c" "migrating c" "migrationKeys c = rev ks"
  shows "\<exists>c'. drain_loop e ks c = Some c' \<and> window_step \<sigma> c c'"
  using assms
proof (induction ks arbitrary: c)
  case Nil
  then show ?case by (simp add: window_step_close)
next
  case (Cons key rest)
  let ?pop = "\<lambda>c. c\<lparr>migrationKeys := rev rest, migrationRealKeys := migrationRealKeys c - {key}\<rparr>"
  have pop: "ok \<sigma> (?pop c)"
    using Cons.prems by (intro pop_key_inv) simp_all
  obtain source where source: "policies c (migrateFrom c) = Some source"
    using cache_invD(3) [OF Cons.prems(1,2)] by blast
  have rec: "\<exists>c'. drain_loop e rest (?pop c) = Some c' \<and> window_step \<sigma> c c'"
    using Cons.IH [OF pop] Cons.prems(2) by (auto simp: window_step_def)
  show ?case
  proof (cases "key \<in> migrationRealKeys c")
    case False
    then have "?pop c = c\<lparr>migrationKeys := rev rest\<rparr>" by simp
    with rec False show ?thesis by simp
  next
    case pending: True
    show ?thesis
    proof (cases "op_peek (policy_iface e) source key")
      case None
      with rec pending source show ?thesis by simp
    next
      case (Some v)
      obtain d evicted p where d: "active_add e key v c = Some (d, evicted)" "ok \<sigma> d"
          "d = put_policy (activePolicy c) p c"
        using active_add_same [OF Cons.prems(1) pending_value [OF Cons.prems(1,2) source pending Some]]
        by blast
      have add: "active_add e key v (c\<lparr>migrationKeys := rev rest\<rparr>) =
          Some (d\<lparr>migrationKeys := rev rest\<rparr>, evicted)"
        using d(1) by (auto simp: active_add_def split_beta put_policy_def elim!: bind_eq_SomeE)
      let ?c = "if migrationRealKeys (?pop d) = {} then closeMigrationLocked e (?pop d) else ?pop d"
      have "ok \<sigma> (?pop d)" using Cons.prems d by (intro pop_key_inv) simp_all
      with d(3) have "window_step \<sigma> c ?c"
        using window_step_close [of \<sigma> "?pop d" c] by (auto simp: window_step_def window_open_def)
      moreover have "drain_loop e (key # rest) c = Some ?c"
        using pending source Some add d(3) by (simp add: Let_def)
      ultimately show ?thesis by blast
    qed
  qed
qed

lemma drainOneKey_step:
  assumes "ok \<sigma> c" "migrating c"
  shows "\<exists>c'. drainOneKey e c = Some c' \<and> window_step \<sigma> c c'"
  using drain_loop_step [OF assms, of "rev (migrationKeys c)"] by (simp add: drainOneKey_def)

lemma promoteLocked_step:
  assumes c: "ok \<sigma> c" and mig: "migrating c"
  shows "\<exists>c'. promoteLocked e key c = Some c' \<and> window_step \<sigma> c c'"
proof -
  obtain source where source: "policies c (migrateFrom c) = Some source"
    using cache_invD(3) [OF c mig] by blast
  let ?forget = "\<lambda>c. c\<lparr>migrationRealKeys := migrationRealKeys c - {key}\<rparr>"
  let ?finish = "\<lambda>c. if migrationRealKeys c = {} then closeMigrationLocked e c else c"
  have finish: "window_step \<sigma> c (?finish (?forget d))"
    if "ok \<sigma> d" "activePolicy d = activePolicy c" "sampler d = sampler c" "settings d = settings c"
      "policyOrder d = policyOrder c" "migrationRealKeys d = migrationRealKeys c" for d
    using forget_key_inv [OF that(1), of key] that window_step_close [of \<sigma> "?forget d" c]
    by (auto simp: window_step_def window_open_def)
  show ?thesis
  proof (cases "key \<in> migrationRealKeys c")
    case False
    then have "?forget c = c" by simp
    with finish [OF c] have "window_step \<sigma> c (?finish c)" by (simp only: refl simp_thms)
    with False show ?thesis by (simp add: promoteLocked_def)
  next
    case pending: True
    show ?thesis
    proof (cases "op_peek (policy_iface e) source key")
      case None
      with finish [OF c] pending source show ?thesis by (simp add: promoteLocked_def)
    next
      case (Some v)
      obtain d evicted p where d: "active_add e key v c = Some (d, evicted)" "ok \<sigma> d"
          "d = put_policy (activePolicy c) p c"
        using active_add_same [OF c pending_value [OF c mig source pending Some]] by blast
      have "window_step \<sigma> c (?finish (?forget d))" by (rule finish [OF d(2)]) (simp_all add: d(3))
      moreover have "promoteLocked e key c = Some (?finish (?forget d))"
        using pending source Some d(1) by (simp add: promoteLocked_def)
      ultimately show ?thesis by blast
    qed
  qed
qed


subsection \<open>The data plane\<close>

text \<open>Counting the active sample changes nothing the invariant sees.\<close>

lemma record_window_step:
  "window_open (recordActiveSample smp hit c) = window_open c"
  by (simp add: window_open_def frames)

lemma shadow_get_inv: "ok \<sigma> c \<Longrightarrow> ok \<sigma> (for_shadows e (\<lambda>p. fst (op_get (policy_iface e) p key)) c)"
  by (rule for_shadows_inv) (auto simp: get_inv get_type dest: get_at)

lemma shadow_remove_inv: "ok \<sigma> c \<Longrightarrow> ok \<sigma> (for_shadows e (\<lambda>p. fst (op_remove (policy_iface e) p key)) c)"
  by (rule for_shadows_inv) (auto simp: remove_inv remove_type dest: remove_at)

lemma shadow_add_inv:
  "ok \<sigma> c \<Longrightarrow> key \<notin> migrationRealKeys c \<Longrightarrow> sampled (sampler c) key \<Longrightarrow>
    ok \<sigma> (for_shadows e (\<lambda>p. fst (op_add (policy_iface e) p key (zero_value e))) c)"
  by (rule for_shadows_inv) (auto simp: add_inv add_type dest: add_at split: if_splits)

text \<open>
  A lookup in the active policy, counted: the result agrees with the specification and nothing but
  the active policy and the sample counters change.
\<close>

definition lookup_step ::
  "('k \<rightharpoonup> 'v) \<Rightarrow> 'k \<Rightarrow> ('p, 'k, 'b) cache \<Rightarrow> ('p, 'k, 'b) cache \<times> 'v option \<Rightarrow> bool" where
  "lookup_step \<sigma> key c = (\<lambda>(c', r). ok \<sigma> c' \<and> window_open c' \<and> (\<forall>v. r = Some v \<longrightarrow> \<sigma> key = Some v) \<and>
     activePolicy c' = activePolicy c \<and> sampler c' = sampler c \<and> settings c' = settings c \<and>
     policyOrder c' = policyOrder c)"

lemma counted_lookup:
  assumes "ok \<sigma> d" "window_open d" "activePolicy d = activePolicy c" "sampler d = sampler c"
    "settings d = settings c" "policyOrder d = policyOrder c"
  shows "\<exists>c' r. active_get e key d = Some (c', r) \<and>
    lookup_step \<sigma> key c (recordActiveSample smp (r \<noteq> None) c', r)"
proof -
  obtain c' r p where g: "active_get e key d = Some (c', r)" "ok \<sigma> c'" "\<forall>v. r = Some v \<longrightarrow> \<sigma> key = Some v"
      "c' = put_policy (activePolicy d) p d"
    using active_get_inv [OF assms(1), of key] by blast
  then have "window_open c'" using assms(2) by (simp add: window_open_def)
  with g assms(3-) show ?thesis
    by (simp add: lookup_step_def frames record_window_step)
      (simp add: recordActiveSample_def)
qed

lemma get_key_ok:
  assumes "ok \<sigma> c" "window_open c"
  shows "\<exists>res. get_key e key c = Some res \<and> lookup_step \<sigma> key c res"
proof -
  let ?smp = "sampled (sampler c) key"
  let ?d = "if ?smp then for_shadows e (\<lambda>p. fst (op_get (policy_iface e) p key)) c else c"
  have d: "ok \<sigma> ?d" "window_open ?d" "activePolicy ?d = activePolicy c" "sampler ?d = sampler c"
    "settings ?d = settings c" "policyOrder ?d = policyOrder c" "migrating ?d = migrating c"
    using assms shadow_get_inv by (simp_all add: window_open_def)
  show ?thesis
  proof (cases "migrating c")
    case False
    obtain c' r where "active_get e key ?d = Some (c', r)"
        "lookup_step \<sigma> key c (recordActiveSample ?smp (r \<noteq> None) c', r)"
      using counted_lookup [OF d(1-6)] by blast
    moreover have "sampler c' = sampler c"
      using calculation(2) by (simp add: lookup_step_def recordActiveSample_def split: if_splits)
    ultimately show ?thesis using False by (simp add: get_key_def get_read_locked_def Let_def)
  next
    case True
    obtain d' where p: "promoteLocked e key ?d = Some d'" "window_step \<sigma> ?d d'"
      using promoteLocked_step [OF d(1)] True d(7) by blast
    then obtain c' r where "active_get e key d' = Some (c', r)"
        "lookup_step \<sigma> key c (recordActiveSample ?smp (r \<noteq> None) c', r)"
      using counted_lookup [of \<sigma> d' c key ?smp] d by (auto simp: window_step_def)
    with True p(1) d(7) show ?thesis by (simp add: get_key_def get_write_locked_def Let_def)
  qed
qed

lemma Add_ok:
  assumes "ok \<sigma> c" "window_open c"
  shows "\<exists>c' evicted. Add e key val c = Some (c', evicted) \<and> ok (\<sigma>(key \<mapsto> val)) c' \<and> window_open c' \<and>
    activePolicy c' = activePolicy c \<and> sampler c' = sampler c \<and> settings c' = settings c \<and>
    policyOrder c' = policyOrder c"
proof -
  let ?forget = "\<lambda>c. c\<lparr>migrationRealKeys := migrationRealKeys c - {key}\<rparr>"
  let ?shadow = "\<lambda>c. if sampled (sampler c) key
    then for_shadows e (\<lambda>p. fst (op_add (policy_iface e) p key (zero_value e))) c else c"
  have d: "ok \<sigma> (?shadow (?forget c))"
    using shadow_add_inv [OF forget_key_inv [OF assms(1)], of key] forget_key_inv [OF assms(1)] by simp
  have commute: "?shadow (?forget c) = ?forget (?shadow c)" by (simp add: for_shadows_def)
  have "\<exists>d. (if migrating (?shadow c)
      then (let c = ?forget (?shadow c) in
            if migrationRealKeys c = {} then Some (closeMigrationLocked e c) else drainOneKey e c)
      else Some (?shadow c)) = Some d \<and> window_step \<sigma> (?forget c) d"
  proof (cases "migrating c")
    case False
    then have "?forget c = c" "window_open (?shadow c)"
      using assms(1) by (auto simp: cache_inv_def window_def window_open_def)
    then show ?thesis using d False by (auto simp: window_step_def)
  next
    case True
    then show ?thesis
      using d drainOneKey_step [OF d] window_step_close [OF d, of "?forget c"] commute
      by (auto simp: Let_def window_step_def)
  qed
  then obtain d where d: "(if migrating (?shadow c)
      then (let c = ?forget (?shadow c) in
            if migrationRealKeys c = {} then Some (closeMigrationLocked e c) else drainOneKey e c)
      else Some (?shadow c)) = Some d" "window_step \<sigma> (?forget c) d" by blast
  then have "key \<notin> migrationRealKeys d" "ok \<sigma> d" by (auto simp: window_step_def)
  then obtain c' evicted p where "active_add e key val d = Some (c', evicted)"
      "ok (\<sigma>(key \<mapsto> val)) c'" "c' = put_policy (activePolicy d) p d"
    using active_add_inv [of \<sigma> d key val] by blast
  with d show ?thesis
    by (simp add: Add_def window_step_def window_open_def Let_def)
qed

lemma Remove_ok:
  assumes "ok \<sigma> c" "window_open c"
  shows "\<exists>c' present. Remove e key c = Some (c', present) \<and> ok (\<sigma>(key := None)) c' \<and> window_open c' \<and>
    activePolicy c' = activePolicy c \<and> sampler c' = sampler c \<and> settings c' = settings c \<and>
    policyOrder c' = policyOrder c"
proof -
  let ?d = "for_shadows e (\<lambda>p. fst (op_remove (policy_iface e) p key)) c"
  let ?f = "?d\<lparr>migrationRealKeys := migrationRealKeys ?d - {key}\<rparr>"
  let ?g = "if migrating ?d then if migrationRealKeys ?f = {} then closeMigrationLocked e ?f else ?f else ?d"
  have f: "ok \<sigma> ?f" by (rule forget_key_inv [OF shadow_remove_inv [OF assms(1)]])
  have fd: "?f = ?d" if "\<not> migrating c"
    using that assms(1) by (auto simp: cache_inv_def window_def for_shadows_def)
  have mig: "migrating ?d = migrating c" by simp
  have g: "ok \<sigma> ?g \<and> window_open ?g \<and> key \<notin> migrationRealKeys ?g \<and> activePolicy ?g = activePolicy c \<and>
    sampler ?g = sampler c \<and> settings ?g = settings c \<and> policyOrder ?g = policyOrder c"
  proof (cases "migrating c")
    case False
    from f have "ok \<sigma> ?d" by (simp only: fd [OF False])
    moreover have "migrationRealKeys c = {}" using False assms(1) by (simp add: cache_inv_def window_def)
    ultimately show ?thesis using False by (simp add: window_open_def)
  next
    case True
    then show ?thesis
      using f closeMigration_inv [OF f] by (simp add: window_open_def frames)
  qed
  define d where "d = ?g"
  have "ok \<sigma> d \<and> window_open d \<and> key \<notin> migrationRealKeys d \<and> activePolicy d = activePolicy c \<and>
      sampler d = sampler c \<and> settings d = settings c \<and> policyOrder d = policyOrder c"
    unfolding d_def by (rule g)
  then have d: "ok \<sigma> d" "window_open d" "key \<notin> migrationRealKeys d" "activePolicy d = activePolicy c"
    "sampler d = sampler c" "settings d = settings c" "policyOrder d = policyOrder c"
    by blast+
  obtain p where p: "policies d (activePolicy d) = Some p" "inv p"
      "op_get_type (policy_iface e) p = activePolicy d" "content p \<subseteq>\<^sub>m \<sigma>"
    using cache_invD(1) [OF d(1)] by blast
  let ?p = "fst (op_remove (policy_iface e) p key)"
  have "content ?p \<subseteq>\<^sub>m \<sigma>(key := None)"
    using remove_content [OF p(2)] map_le_delete [OF p(4)] map_le_trans by blast
  with d(3) p have "ok (\<sigma>(key := None)) (put_policy (activePolicy d) ?p d)"
    by (intro put_active_inv [OF d(1)]) (auto simp: remove_inv remove_type)
  moreover have "Remove e key c =
      Some (put_policy (activePolicy d) ?p d, snd (op_remove (policy_iface e) p key))"
    unfolding Remove_def Let_def d_def [symmetric] using p(1) by (simp add: split_beta)
  ultimately show ?thesis using d by (simp add: window_open_def)
qed

lemma Purge_ok:
  assumes "ok \<sigma> c"
  shows "ok Map.empty (Purge e c) \<and> window_open (Purge e c) \<and> activePolicy (Purge e c) = activePolicy c \<and>
    sampler (Purge e c) = sampler c \<and> settings (Purge e c) = settings c \<and>
    policyOrder (Purge e c) = policyOrder c"
proof -
  let ?d = "c\<lparr>policies := map_entries (\<lambda>_ policy. op_purge (policy_iface e) policy) (policies c)\<rparr>"
  have wf: "well_formed e inv ?d"
    using assms by (auto simp: cache_inv_def well_formed_def purge_inv purge_type)
  have empty: "content_at content ?d pt = Map.empty" for pt
    using cache_invD(2) [OF assms, of pt] by (auto simp: content_at_def purge_content split: option.split)
  have "ok Map.empty ?d"
    using wf assms empty
    by (auto simp: cache_inv_def serves_def shadows_blank_iff blank_at_def window_def restrict_map_def)
  then show ?thesis
    using closeMigration_inv by (simp add: Purge_def window_open_def frames)
qed

lemma Resize_ok:
  assumes "ok \<sigma> c" "window_open c"
  shows "ok \<sigma> (fst (Resize e sz c)) \<and> window_open (fst (Resize e sz c)) \<and>
    activePolicy (fst (Resize e sz c)) = activePolicy c \<and> sampler (fst (Resize e sz c)) = sampler c \<and>
    settings (fst (Resize e sz c)) = settings c \<and> policyOrder (fst (Resize e sz c)) = policyOrder c"
proof -
  let ?r = "\<lambda>pt p. fst (op_resize (policy_iface e) p (resize_target sz c pt))"
  let ?d = "c\<lparr>policies := map_entries ?r (policies c)\<rparr>"
  have fst: "fst (Resize e sz c) = ?d\<lparr>nominalCap := nominalCap (fst (Resize e sz c)),
      shadowCap := shadowCap (fst (Resize e sz c))\<rparr>"
    by (simp add: Resize_def Let_def map_entries_def option.map_comp comp_def)
  have shrink: "content_at content ?d pt k = Some v \<Longrightarrow> content_at content c pt k = Some v" for pt k v
    using cache_invD(2) [OF assms(1), of pt] by (auto simp: content_at_def resize_at split: option.splits)
  have wf: "well_formed e inv ?d"
    using assms by (auto simp: cache_inv_def well_formed_def resize_inv resize_type)
  have "window ?d" using assms by (simp add: cache_inv_def window_def)
  moreover have "serves content \<sigma> ?d"
    using assms(1) shrink by (auto simp: cache_inv_def serves_def map_le_def restrict_map_def dom_def)
  moreover have "shadows_blank e content ?d"
    unfolding shadows_blank_iff
  proof (intro allI impI)
    fix pt assume "pt \<noteq> activePolicy ?d" "pt \<noteq> Undefined" "\<not> (migrating ?d \<and> pt = migrateFrom ?d)"
    with assms(1) have "blank_at e content c pt" by (simp add: cache_inv_def shadows_blank_iff)
    then show "blank_at e content ?d pt"
      unfolding blank_at_def by (auto dest!: shrink)
  qed
  ultimately have "ok \<sigma> ?d" using wf by (simp add: cache_inv_def)
  with assms(2) show ?thesis
    by (subst (1 2 3 4 5 6) fst) (simp add: frames window_open_def)
qed

end

end
