(* ===== verification/EpochSteps.thy ===== *)
theory EpochSteps
  imports CacheSteps
begin

text \<open>
  The epoch handler keeps the invariant and never panics, whatever the bandit answers: reporting,
  the switch with every migration strategy, and the request-driven clock.
\<close>

subsection \<open>Bandits keep their dynamic type\<close>

lemma held_epoch_stable:
  "held_record_epoch bo (held_record_stats bo b s) = None \<longleftrightarrow> held_record_epoch bo b = None"
  "held_record_epoch bo (fst (held_select_policy bo b)) = None \<longleftrightarrow> held_record_epoch bo b = None"
  "held_record_epoch bo b = Some f \<Longrightarrow> held_record_epoch bo (f r) \<noteq> None"
  by (cases b; auto simp: split_beta split: option.splits)+

lemma bandit_inv:
  assumes "held_record_epoch (bandit_iface e) b = None \<longleftrightarrow> held_record_epoch (bandit_iface e) (bandit c) = None"
  shows "cache_inv e good content \<sigma> (c\<lparr>bandit := b\<rparr>) = cache_inv e good content \<sigma> c"
  using assms by (simp add: cache_inv_def well_formed_def window_def serves_def shadows_blank_def content_at_def)

text \<open>What reporting leaves alone: roles, window, keys and settings.\<close>

definition same_roles :: "('p, 'k, 'b) cache \<Rightarrow> ('p, 'k, 'b) cache \<Rightarrow> bool" where
  "same_roles c c' \<longleftrightarrow>
     activePolicy c' = activePolicy c \<and> migrating c' = migrating c \<and> migrateFrom c' = migrateFrom c \<and>
     migrationKeys c' = migrationKeys c \<and> migrationRealKeys c' = migrationRealKeys c \<and>
     sampler c' = sampler c \<and> settings c' = settings c \<and> policyOrder c' = policyOrder c \<and>
     nominalCap c' = nominalCap c \<and> shadowCap c' = shadowCap c \<and> epochBandit c' = epochBandit c \<and>
     epochID c' = epochID c \<and> lastSwitchEpoch c' = lastSwitchEpoch c \<and>
     epochRequests c' = epochRequests c \<and> dom (policies c') = dom (policies c)"

lemma same_roles_refl [simp]: "same_roles c c"
  by (simp add: same_roles_def)

lemma same_roles_trans: "same_roles c d \<Longrightarrow> same_roles d f \<Longrightarrow> same_roles c f"
  by (simp add: same_roles_def)

context adaptive_cache begin

lemma reset_policy_inv:
  assumes c: "ok \<sigma> c" and p: "policies c pt = Some p"
  shows "ok \<sigma> (put_policy pt (op_reset_stats (policy_iface e) p) c)" (is "ok \<sigma> ?d")
proof -
  have good: "inv p" "op_get_type (policy_iface e) p = pt" using cache_invD(2) [OF c p] by auto
  have same: "content_at content ?d = content_at content c"
    using p good by (auto simp: content_at_def fun_eq_iff reset_content)
  have "well_formed e inv ?d"
    using c p good by (auto simp: cache_inv_def well_formed_def reset_inv reset_type)
  then show ?thesis
    using c p
    by (auto simp: cache_inv_def window_def serves_def shadows_blank_iff blank_at_def same split: if_splits)
qed

lemma report_arm_ok:
  assumes "ok \<sigma> c" and "policies c pt \<noteq> None"
  shows "\<exists>report' c'. report_arm e cur pt (report, c) = Some (report', c') \<and> ok \<sigma> c' \<and> same_roles c c'"
proof -
  obtain p where p: "policies c pt = Some p" using assms(2) by blast
  let ?d = "put_policy pt (op_reset_stats (policy_iface e) p) c"
  have d: "ok \<sigma> ?d" "same_roles c ?d"
    using reset_policy_inv [OF assms(1) p] p by (auto simp: same_roles_def put_policy_def)
  let ?s = "op_get_stats (policy_iface e) p"
  let ?g = "if pt = cur
    then ?d\<lparr>globalStats := add_stats (globalStats c) ?s, activeSampledHits := 0, activeSampledMisses := 0\<rparr>
    else ?d"
  have g: "ok \<sigma> ?g" "same_roles c ?g" using d by (auto simp: frames same_roles_def)
  have "op_get_type (policy_iface e) (op_reset_stats (policy_iface e) p) = pt"
    using cache_invD(2) [OF assms(1) p] by (simp add: reset_type)
  then have arm: "report_arm e cur pt (report, c) =
      (let reported = (if pt = cur then \<lparr>Hits = activeSampledHits c, Misses = activeSampledMisses c\<rparr> else ?s);
           h = ?g\<lparr>epochStats := (epochStats c)(pt \<mapsto> reported),
             tenureStats := (tenureStats c)(pt \<mapsto> add_stats (map_stats (tenureStats c) pt) reported)\<rparr>;
           armStats = \<lparr>ss_policy = pt, ss_hits = Hits reported, ss_misses = Misses reported\<rparr>
       in if epochBandit c then Some (report @ [armStats], h)
          else Some (report, h\<lparr>bandit := held_record_stats (bandit_iface e) (bandit c) armStats\<rparr>))"
    using p by (simp add: report_arm_def Let_def)
  define g where "g = ?g"
  have "bandit g = bandit c" by (simp add: g_def)
  moreover have "ok \<sigma> g" "same_roles c g" using \<open>ok \<sigma> ?g\<close> \<open>same_roles c ?g\<close> by (simp_all only: g_def)
  ultimately show ?thesis
    unfolding arm g_def [symmetric]
    by (simp add: Let_def frames bandit_inv held_epoch_stable same_roles_def)
qed

lemma report_loop_ok:
  assumes "ok \<sigma> c" and "set pts \<subseteq> dom (policies c)"
  shows "\<exists>report' c'. report_loop e cur pts (report, c) = Some (report', c') \<and> ok \<sigma> c' \<and> same_roles c c'"
  using assms
proof (induction pts arbitrary: report c)
  case (Cons pt pts)
  then obtain r d where d: "report_arm e cur pt (report, c) = Some (r, d)" "ok \<sigma> d" "same_roles c d"
    using report_arm_ok [of \<sigma> c pt cur report] by auto
  then have "set pts \<subseteq> dom (policies d)" using Cons.prems(2) by (auto simp: same_roles_def)
  from Cons.IH [OF d(2) this, of r] d(1,3) show ?case by (auto intro: same_roles_trans)
qed simp

lemma select_ok:
  assumes c: "ok \<sigma> c"
  shows "\<exists>c' selected. selectPolicyLocked e c = Some (c', selected) \<and> ok \<sigma> c' \<and> same_roles c c'"
proof -
  obtain p where p: "policies c (activePolicy c) = Some p" using cache_invD(1) [OF c] by blast
  let ?partial = "\<not> ObserveOnly (settings c) \<and> \<not> EvictPartialCapacityFilling (settings c) \<and>
    op_len (policy_iface e) p \<noteq> op_cap (policy_iface e) p"
  let ?d = "c\<lparr>reportingEpochs := reportingEpochs c + 1\<rparr>"
  have order: "set (policyOrder c) \<subseteq> dom (policies ?d)"
    using c by (simp add: cache_inv_def well_formed_def)
  have d: "ok \<sigma> ?d" "same_roles c ?d" using c by (simp_all add: frames same_roles_def)
  obtain r f where f: "report_loop e (activePolicy c) (policyOrder c) ([], ?d) = Some (r, f)" "ok \<sigma> f"
      "same_roles ?d f"
    using report_loop_ok [OF d(1) order, of "activePolicy c" "[]"] by blast
  have eb: "epochBandit f \<longleftrightarrow> held_record_epoch (bandit_iface e) (bandit f) \<noteq> None"
    using f(2) by (simp add: cache_inv_def well_formed_def)
  have roles: "same_roles c (f\<lparr>bandit := b\<rparr>)" for b using d(2) f(3) by (simp add: same_roles_def)
  have "\<exists>c' selected. (do {
       f \<leftarrow> (if epochBandit f
             then do {
               recordEpoch \<leftarrow> held_record_epoch (bandit_iface e) (bandit f);
               Some (f\<lparr>bandit := recordEpoch
                 \<lparr>er_EpochID = epochID f, er_Active = activePolicy c, er_Stats = r,
                  er_Capacity = map_int (nominalCap f) (activePolicy c), er_SampleRate = rate (sampler f)\<rparr>\<rparr>)
             }
             else Some f);
       let (b, selected) = held_select_policy (bandit_iface e) (bandit f);
       Some (f\<lparr>bandit := b\<rparr>, selected)
     }) = Some (c', selected) \<and> ok \<sigma> c' \<and> same_roles c c'"
    using eb f(2) roles
    by (auto simp: split_beta bandit_inv held_epoch_stable)
  moreover have "ok \<sigma> (c\<lparr>epochStats := Map.empty\<rparr>)" "same_roles c (c\<lparr>epochStats := Map.empty\<rparr>)"
    using c by (simp_all add: frames same_roles_def)
  ultimately show ?thesis
    using p f(1) by (cases ?partial) (auto simp: selectPolicyLocked_def Let_def)
qed


subsection \<open>The switch\<close>

text \<open>The copy loop of a warm migration moves values of the source only.\<close>

lemma copy_loop:
  assumes "inv from" and "inv q" and "content q \<subseteq>\<^sub>m content from"
  shows "inv (fold (copy_key (policy_iface e) from) ks q) \<and>
    op_get_type (policy_iface e) (fold (copy_key (policy_iface e) from) ks q) = op_get_type (policy_iface e) q \<and>
    content (fold (copy_key (policy_iface e) from) ks q) \<subseteq>\<^sub>m content from"
  using assms
proof (induction ks arbitrary: q)
  case (Cons key ks)
  show ?case
  proof (cases "op_peek (policy_iface e) from key")
    case None
    with Cons show ?thesis by (simp add: copy_key_def)
  next
    case (Some v)
    let ?q = "fst (op_add (policy_iface e) q key v)"
    have "content from key = Some v" using peek_result [OF Cons.prems(1) Some] .
    have "content ?q \<subseteq>\<^sub>m content from"
    proof (rule map_leI)
      fix j w assume "content ?q j = Some w"
      from add_at [OF Cons.prems(2) this] show "content from j = Some w"
        using \<open>content from key = Some v\<close> map_le_SomeD [OF Cons.prems(3)] by (auto split: if_splits)
    qed
    with Cons.IH [of ?q] Cons.prems(1,2) Some show ?thesis
      by (simp add: copy_key_def add_inv add_type)
  qed
qed simp

text \<open>
  What every strategy leaves behind: the target holds nothing but values of the source, and a window
  is open exactly when the strategy is gradual and there is something to drain.
\<close>

lemma migrateData_result:
  assumes "inv p" "inv q" and p: "policies c from = Some p" and q: "policies c to = Some q" and "from \<noteq> to"
  shows "\<exists>q' c'. migrateData e from to c = Some c' \<and> inv q' \<and>
    op_get_type (policy_iface e) q' = op_get_type (policy_iface e) q \<and> content q' \<subseteq>\<^sub>m content p \<and>
    (c' = put_policy to q' (clearMigrationState c) \<or>
     op_keys (policy_iface e) p \<noteq> [] \<and>
     c' = (put_policy to q' (clearMigrationState c))\<lparr>migrating := True, migrateFrom := from,
       migrationKeys := op_keys (policy_iface e) p, migrationRealKeys := set (op_keys (policy_iface e) p)\<rparr>)"
proof -
  let ?purged = "op_purge (policy_iface e) q"
  have purged: "inv ?purged" "op_get_type (policy_iface e) ?purged = op_get_type (policy_iface e) q"
    "content ?purged \<subseteq>\<^sub>m content p"
    using assms(2) by (simp_all add: purge_inv purge_type purge_content)
  show ?thesis
  proof (cases "MigrationStrategy (settings c)")
    case MigrationCold
    with purged q show ?thesis by (auto simp: migrateData_def frames)
  next
    case MigrationOther
    with purged q show ?thesis by (auto simp: migrateData_def frames)
  next
    case MigrationGradual
    with purged p q assms(5) show ?thesis by (auto simp: migrateData_def frames Let_def)
  next
    case MigrationWarm
    have "migrateData e from to c = Some (put_policy to
        (fold (copy_key (policy_iface e) p) (op_keys (policy_iface e) p) ?purged) (clearMigrationState c))"
      using MigrationWarm p q assms(5) by (simp add: migrateData_def frames Let_def put_policy_def)
    with copy_loop [OF assms(1) purged(1,3)] purged(2) show ?thesis by auto
  qed
qed

lemma promoteCapacity_ok:
  assumes c: "ok \<sigma> c" and pt: "pt \<noteq> activePolicy c" "\<not> migrating c"
  shows "ok \<sigma> (promoteLockedCapacity e pt c)"
proof (cases "promoteLockedCapacity e pt c = c")
  case False
  then obtain p where p: "policies c pt = Some p" and d: "promoteLockedCapacity e pt c =
      put_policy pt (fst (op_resize (policy_iface e) p (map_int (nominalCap c) pt))) c" (is "_ = ?d")
    using promoteLockedCapacity_cases [of e pt c] by blast
  have good: "inv p" "op_get_type (policy_iface e) p = pt" using cache_invD(2) [OF c p] by auto
  have wf: "well_formed e inv ?d"
    using c p good by (auto simp: cache_inv_def well_formed_def resize_inv resize_type)
  have rest: "window ?d" "serves content \<sigma> ?d"
    using c pt by (simp_all add: cache_inv_def window_def serves_def content_at_def)
  have "blank_at e content ?d j" if "blank_at e content c j" for j
    using that p good(1) by (auto simp: blank_at_def content_at_def dest!: resize_at)
  then have "shadows_blank e content ?d"
    using c by (simp add: cache_inv_def shadows_blank_iff)
  with wf rest show ?thesis by (simp add: d cache_inv_def)
qed (use c in simp)

text \<open>The switch, end to end.\<close>

lemma switch_ok:
  assumes c: "ok \<sigma> c" and to: "policies c to \<noteq> None" "to \<noteq> activePolicy c"
  shows "\<exists>c'. switchLocked e (activePolicy c) to c = Some c' \<and> ok \<sigma> c' \<and> window_open c' \<and>
    activePolicy c' = to \<and> sampler c' = sampler c \<and> settings c' = settings c \<and> policyOrder c' = policyOrder c"
proof -
  let ?from = "activePolicy c"
  let ?d = "promoteLockedCapacity e to (closeMigrationLocked e c)"
  have d: "ok \<sigma> ?d"
    using promoteCapacity_ok [OF closeMigration_inv [OF c], of to] to(2) by (simp add: frames)
  have fields: "activePolicy ?d = ?from" "sampler ?d = sampler c" "settings ?d = settings c"
    "policyOrder ?d = policyOrder c"
    "migrationKeys ?d = []" "migrationRealKeys ?d = {}" "\<not> migrating ?d"
    using promoteLockedCapacity_cases [of e to "closeMigrationLocked e c"]
    by (auto simp: frames)
  have "dom (policies ?d) = dom (policies (closeMigrationLocked e c))"
    using promoteLockedCapacity_cases [of e to "closeMigrationLocked e c"] by (auto simp: dom_def split: if_splits)
  then have dom: "dom (policies ?d) = dom (policies c)" by (simp add: frames)
  obtain p where p: "policies ?d ?from = Some p" "inv p" "content p \<subseteq>\<^sub>m \<sigma>"
    using cache_invD(1) [OF d] fields by auto
  have "to \<in> dom (policies ?d)" unfolding dom using to(1) by (rule domIff [THEN iffD2])
  then obtain q where qd: "policies ?d to = Some q" by (rule domD [THEN exE])
  with cache_invD(2) [OF d qd] have q: "policies ?d to = Some q" "inv q" "op_get_type (policy_iface e) q = to"
    by simp_all
  obtain q' m where m: "migrateData e ?from to ?d = Some m" "inv q'" "op_get_type (policy_iface e) q' = to"
      "content q' \<subseteq>\<^sub>m content p"
      "m = put_policy to q' (clearMigrationState ?d) \<or>
       op_keys (policy_iface e) p \<noteq> [] \<and>
       m = (put_policy to q' (clearMigrationState ?d))\<lparr>migrating := True, migrateFrom := ?from,
         migrationKeys := op_keys (policy_iface e) p, migrationRealKeys := set (op_keys (policy_iface e) p)\<rparr>"
    using migrateData_result [OF p(2) q(2) p(1) q(1)] q(3) to(2) by auto
  let ?m = "m\<lparr>activePolicy := to, tenureStats := (tenureStats m)(?from := None, to := None)\<rparr>"
  have pol: "policies ?m = (policies ?d)(to \<mapsto> q')" using m(5) by (auto simp: frames)
  have mf: "sampler ?m = sampler c" "settings ?m = settings c" "policyOrder ?m = policyOrder c"
    "bandit ?m = bandit ?d" "epochBandit ?m = epochBandit ?d"
    using m(5) fields by (auto simp: frames)
  have wf: "well_formed e inv ?m"
    using d m(2,3) dom q(1)
    by (auto simp: cache_inv_def well_formed_def pol mf fields simp del: cache.update_convs)
  have win: "window ?m"
    using m(5) p(1) to(2) by (auto simp: window_def frames)
  have "content q' \<subseteq>\<^sub>m \<sigma>" using m(4) p(3) map_le_trans by blast
  then have srv: "serves content \<sigma> ?m"
    using m(5) p(1,3) to(2)
    by (auto simp: serves_def content_at_def frames intro: map_le_trans [OF map_le_restrict_self])
  have blank: "blank_at e content ?m pt" if "pt \<noteq> to" "pt \<noteq> ?from" "pt \<noteq> Undefined" for pt
    using d that pol mf fields
    by (simp add: cache_inv_def shadows_blank_iff blank_at_def content_at_def)
  have sw: "switchLocked e ?from to c = Some (if \<not> migrating ?m then demoteLocked e ?from ?m else ?m)"
    using m(1) by (simp add: switchLocked_def)
  show ?thesis
  proof (cases "migrating m")
    case False
    with demoteLocked_inv [OF wf win srv, of ?from] blank to(2) sw mf show ?thesis
      by (simp add: frames window_open_def)
  next
    case True
    with m(5) have "op_keys (policy_iface e) p \<noteq> []" "migrateFrom m = ?from"
      "migrationRealKeys m = set (op_keys (policy_iface e) p)" by (auto simp: frames)
    with True wf win srv blank sw mf show ?thesis
      by (simp add: cache_inv_def shadows_blank_iff window_open_def)
  qed
qed

subsection \<open>The epoch\<close>

lemma runEpoch_ok:
  assumes c: "ok \<sigma> c"
  shows "\<exists>c'. runEpoch e c = Some c' \<and> ok \<sigma> c' \<and> window_open c' \<and> sampler c' = sampler c \<and>
    settings c' = settings c \<and> policyOrder c' = policyOrder c"
proof -
  let ?d = "closeMigrationLocked e c"
  obtain f selected where f: "selectPolicyLocked e ?d = Some (f, selected)" "ok \<sigma> f" "same_roles ?d f"
    using select_ok [OF closeMigration_inv [OF c]] by blast
  have ff: "\<not> migrating f" "sampler f = sampler c" "settings f = settings c" "policyOrder f = policyOrder c"
    using f(3) by (simp_all add: same_roles_def frames)
  show ?thesis
  proof (cases "ObserveOnly (settings c) \<or>
      \<not> (activePolicy f \<noteq> selected \<and> hasPolicy selected f \<and> allowSwitchLocked selected f)")
    case True
    then have "runEpoch e c = Some (f\<lparr>epochID := epochID f + 1\<rparr>)"
      using f(1) ff(3) by (auto simp: runEpoch_def)
    with f(2) ff show ?thesis by (simp add: frames window_open_def)
  next
    case False
    then obtain g where "switchLocked e (activePolicy f) selected f = Some g" "ok \<sigma> g" "window_open g"
        "sampler g = sampler c" "settings g = settings c" "policyOrder g = policyOrder c"
      using switch_ok [OF f(2), of selected] ff by (auto simp: hasPolicy_def)
    with False f(1) ff show ?thesis by (simp add: runEpoch_def frames window_open_def)
  qed
qed

lemma countRequest_ok:
  assumes "ok \<sigma> c" "window_open c"
  shows "\<exists>c'. countRequest e c = Some c' \<and> ok \<sigma> c' \<and> window_open c' \<and> sampler c' = sampler c \<and>
    settings c' = settings c \<and> policyOrder c' = policyOrder c"
  using assms runEpoch_ok [of \<sigma> "c\<lparr>epochRequests := n\<rparr>" for n]
  by (simp add: countRequest_def Let_def frames window_open_def)

lemma Get_ok:
  assumes "ok \<sigma> c" "window_open c"
  shows "\<exists>c' r. Get e key c = Some (c', r) \<and> ok \<sigma> c' \<and> window_open c' \<and>
    (\<forall>v. r = Some v \<longrightarrow> \<sigma> key = Some v) \<and> sampler c' = sampler c \<and>
    settings c' = settings c \<and> policyOrder c' = policyOrder c"
proof -
  obtain d r where d: "get_key e key c = Some (d, r)" "lookup_step \<sigma> key c (d, r)"
    using get_key_ok [OF assms] by fast
  then obtain c' where "countRequest e d = Some c'" "ok \<sigma> c'" "window_open c'" "sampler c' = sampler d"
      "settings c' = settings d" "policyOrder c' = policyOrder d"
    using countRequest_ok [of \<sigma> d] by (auto simp: lookup_step_def)
  with d show ?thesis by (simp add: Get_def lookup_step_def)
qed

end

end
