(* ===== verification/Requests.thy ===== *)
theory Requests
  imports EpochSteps
begin

text \<open>
  The cache as its callers see it: what the constructor establishes, and runs of requests against it.
  The specification is a map that remembers the last value stored under each key; the cache may
  forget entries (it is a cache) but never answers anything else than that map does.
\<close>

subsection \<open>Construction\<close>

text \<open>What the registration loop has established after any number of iterations.\<close>

definition registered ::
  "('p, 'k, 'v) policy_ops \<Rightarrow> ('p \<Rightarrow> bool) \<Rightarrow> (policy_type \<rightharpoonup> 'p) \<Rightarrow> policy_type list \<Rightarrow> bool" where
  "registered ops good available order \<longleftrightarrow> distinct order \<and> set order = dom available \<and>
     (\<forall>pt p. available pt = Some p \<longrightarrow> op_get_type ops p = pt \<and> good p)"

lemma registered_step:
  assumes "registered ops good available order" "available (op_get_type ops p) = None" "good p"
  shows "registered ops good (available(op_get_type ops p \<mapsto> p)) (order @ [op_get_type ops p])"
  using assms by (auto simp: registered_def)

lemma register_policies_result:
  assumes "register_policies ops pols available order = Inr (available', order')"
    and "registered ops good available order" and "\<And>p. Some p \<in> set pols \<Longrightarrow> good p"
  shows "registered ops good available' order' \<and> available \<subseteq>\<^sub>m available' \<and> None \<notin> set pols \<and>
    (\<forall>p. Some p \<in> set pols \<longrightarrow> available' (op_get_type ops p) = Some p)"
  using assms
proof (induction pols arbitrary: available order)
  case (Cons x rest)
  then obtain policy where x: "x = Some policy" by (cases x) auto
  let ?pt = "op_get_type ops policy"
  have fresh: "available ?pt = None" using Cons.prems(1) by (cases "available ?pt") (simp_all add: x)
  have rec: "register_policies ops rest (available(?pt \<mapsto> policy)) (order @ [?pt]) = Inr (available', order')"
    using Cons.prems(1) fresh by (simp add: x)
  have "good policy" using Cons.prems(3) x by simp
  have "\<And>p. Some p \<in> set rest \<Longrightarrow> good p" using Cons.prems(3) by simp
  from Cons.IH [OF rec registered_step [OF Cons.prems(2) fresh \<open>good policy\<close>] this]
  have ih: "registered ops good available' order'" "available(?pt \<mapsto> policy) \<subseteq>\<^sub>m available'" "None \<notin> set rest"
    "\<forall>p. Some p \<in> set rest \<longrightarrow> available' (op_get_type ops p) = Some p"
    by blast+
  from map_le_SomeD [OF ih(2), of ?pt policy] have here: "available' ?pt = Some policy" by simp
  have "available \<subseteq>\<^sub>m available'"
  proof (rule map_leI)
    fix k v assume "available k = Some v"
    with fresh have "(available(?pt \<mapsto> policy)) k = Some v" by (cases "k = ?pt") simp_all
    then show "available' k = Some v" by (rule map_le_SomeD [OF ih(2)])
  qed
  with ih here x show ?case by auto
qed simp

context adaptive_cache begin

text \<open>Putting every policy but the active one on shadow duty.\<close>

lemma demote_order:
  assumes "well_formed e inv c" "window c" "serves content \<sigma> c" "\<not> migrating c"
  shows "let c' = fold (\<lambda>pt c. if pt \<noteq> activePolicy c then demoteLocked e pt c else c) pts c in
    well_formed e inv c' \<and> window c' \<and> serves content \<sigma> c' \<and> \<not> migrating c' \<and>
    activePolicy c' = activePolicy c \<and> sampler c' = sampler c \<and> settings c' = settings c \<and>
    policyOrder c' = policyOrder c \<and> dom (policies c') = dom (policies c) \<and>
    nominalCap c' = nominalCap c \<and> shadowCap c' = shadowCap c \<and>
    (\<forall>pt. pt \<noteq> activePolicy c \<longrightarrow> pt \<in> set pts \<or> blank_at e content c pt \<longrightarrow> blank_at e content c' pt)"
  using assms
proof (induction pts arbitrary: c)
  case (Cons pt pts)
  show ?case
  proof (cases "pt = activePolicy c")
    case True
    with Cons.IH [OF Cons.prems] show ?thesis by (auto simp: Let_def)
  next
    case False
    let ?d = "demoteLocked e pt c"
    have d: "well_formed e inv ?d" "window ?d" "serves content \<sigma> ?d" "\<not> migrating ?d"
      using Cons.prems False by (simp_all add: demoteLocked_wf demoteLocked_serves frames window_def)
    have blank: "blank_at e content ?d j \<longleftrightarrow> j = pt \<or> blank_at e content c j" for j
      using Cons.prems(1) by (intro demoteLocked_blank) (auto simp: well_formed_def)
    from Cons.IH [OF d] False show ?thesis by (auto simp: Let_def frames blank)
  qed
qed (simp add: Let_def)

text \<open>
  A constructed cache satisfies the invariant; what it serves first is what the caller's first policy
  already held.
\<close>

lemma construct_ok:
  assumes new: "NewAdaptiveCache e hash pols b s = Inr c"
    and good: "\<And>p. Some p \<in> set pols \<Longrightarrow> inv p"
  shows "\<exists>p. hd pols = Some p \<and> activePolicy c = op_get_type (policy_iface e) p \<and>
    ok (content p) c \<and> window_open c \<and> \<not> migrating c \<and> Some (settings c) = s"
proof -
  obtain st where s: "s = Some st" and ne: "pols \<noteq> []"
    using new by (auto simp: NewAdaptiveCache_def split: if_splits option.splits)
  obtain available order where reg:
      "register_policies (policy_iface e) pols Map.empty [] = Inr (available, order)"
    using new by (auto simp: NewAdaptiveCache_def Let_def split: if_splits option.splits sum.splits)
  have r: "distinct order" "set order = dom available"
      "\<And>pt p. available pt = Some p \<Longrightarrow> op_get_type (policy_iface e) p = pt \<and> inv p"
      "None \<notin> set pols" "\<And>p. Some p \<in> set pols \<Longrightarrow> available (op_get_type (policy_iface e) p) = Some p"
    using register_policies_result [OF reg, of inv] good by (simp_all add: registered_def)
  obtain p where p: "hd pols = Some p" "Some p \<in> set pols"
    using ne r(4) by (metis hd_in_set not_None_eq)
  obtain ac where c: "c = initShadowDutyLocked e hash (if ShadowSampleRate st \<le> 0 then 1 else ShadowSampleRate st)
        (if MinShadowCapacity st \<le> 0 then DefaultMinShadowCapacity else MinShadowCapacity st) ac"
      and ac: "activePolicy ac = op_get_type (policy_iface e) p" "policies ac = available"
        "policyOrder ac = sort order" "\<not> migrating ac" "migrationKeys ac = []" "migrationRealKeys ac = {}"
        "epochBandit ac \<longleftrightarrow> held_record_epoch (bandit_iface e) (bandit ac) \<noteq> None" "settings ac = st"
    using new s reg p(1)
    by (auto simp: NewAdaptiveCache_def Let_def split: if_splits option.splits)
  define d where "d = (let n = map_entries (\<lambda>_ policy. op_cap (policy_iface e) policy) (policies ac);
      er = snd (shadow_capacity (min_nominal (map (map_int n) (policyOrder ac)))
        (if ShadowSampleRate st \<le> 0 then 1 else ShadowSampleRate st)
        (if MinShadowCapacity st \<le> 0 then DefaultMinShadowCapacity else MinShadowCapacity st))
    in ac\<lparr>nominalCap := n, sampler := new_key_sampler hash er,
      shadowCap := map_entries (\<lambda>_ nominal. fst (shadow_capacity nominal er
        (if MinShadowCapacity st \<le> 0 then DefaultMinShadowCapacity else MinShadowCapacity st))) n\<rparr>)"
  have cd: "c = fold (\<lambda>pt c. if pt \<noteq> activePolicy c then demoteLocked e pt c else c) (policyOrder d) d"
    by (simp add: c initShadowDutyLocked_def d_def Let_def)
  have df: "activePolicy d = activePolicy ac" "policies d = available" "policyOrder d = sort order"
    "\<not> migrating d" "migrationKeys d = []" "migrationRealKeys d = {}" "settings d = st"
    "bandit d = bandit ac" "epochBandit d = epochBandit ac"
    using ac by (simp_all add: d_def Let_def)
  have wf: "well_formed e inv d"
    using r p ac(1,7) by (auto simp: well_formed_def df)
  have win: "window d" by (simp add: window_def df)
  have srv: "serves content (content p) d" using r(5) p(2) ac(1) by (simp add: serves_def content_at_def df)
  from demote_order [OF wf win srv df(4), of "policyOrder d"]
  have "well_formed e inv c \<and> window c \<and> serves content (content p) c \<and> \<not> migrating c \<and>
    activePolicy c = activePolicy d \<and> settings c = settings d \<and> dom (policies c) = dom (policies d) \<and>
    (\<forall>pt. pt \<noteq> activePolicy d \<longrightarrow> pt \<in> set (policyOrder d) \<longrightarrow> blank_at e content c pt)"
    by (simp add: cd [symmetric] Let_def)
  moreover from this have "blank_at e content c pt" if "pt \<noteq> activePolicy d" for pt
  proof (cases "policies c pt")
    case None
    then show ?thesis by (simp add: blank_at_def content_at_def)
  next
    case (Some q)
    with calculation that have "pt \<in> set (policyOrder d)" by (auto simp: df r(2))
    with calculation that show ?thesis by blast
  qed
  ultimately show ?thesis
    using p(1) ac(1) by (auto simp: cache_inv_def shadows_blank_iff window_open_def df s)
qed

end

text \<open>The arguments the constructor accepts.\<close>

lemma register_policies_ok:
  "(\<exists>r. register_policies ops pols available order = Inr r) \<longleftrightarrow>
    None \<notin> set pols \<and> distinct (map (\<lambda>p. op_get_type ops (the p)) pols) \<and>
    dom available \<inter> set (map (\<lambda>p. op_get_type ops (the p)) pols) = {}"
proof (induction pols arbitrary: available order)
  case (Cons x rest)
  show ?case
  proof (cases x)
    case (Some p)
    let ?types = "set (map (\<lambda>p. op_get_type ops (the p)) rest)" and ?t = "op_get_type ops p"
    have rec: "(\<exists>r. register_policies ops (x # rest) available order = Inr r) \<longleftrightarrow> available ?t = None \<and>
        (\<exists>r. register_policies ops rest (available(?t \<mapsto> p)) (order @ [?t]) = Inr r)"
      by (cases "available ?t") (simp_all add: Some)
    have "dom (available(?t \<mapsto> p)) \<inter> ?types = {} \<longleftrightarrow> ?t \<notin> ?types \<and> dom available \<inter> ?types = {}"
      by (simp add: dom_fun_upd)
    moreover have "None \<notin> set (x # rest) \<longleftrightarrow> None \<notin> set rest"
      "distinct (map (\<lambda>p. op_get_type ops (the p)) (x # rest)) \<longleftrightarrow>
        ?t \<notin> ?types \<and> distinct (map (\<lambda>p. op_get_type ops (the p)) rest)"
      "dom available \<inter> set (map (\<lambda>p. op_get_type ops (the p)) (x # rest)) = {} \<longleftrightarrow>
        available ?t = None \<and> dom available \<inter> ?types = {}"
      by (auto simp: Some)
    ultimately show ?thesis unfolding rec Cons.IH by blast
  qed simp
qed simp

lemma construct_accepts:
  "(\<exists>c. NewAdaptiveCache e hash pols b s = Inr c) \<longleftrightarrow>
    pols \<noteq> [] \<and> None \<notin> set pols \<and> distinct (map (\<lambda>p. op_get_type (policy_iface e) (the p)) pols) \<and>
    (case s of None \<Rightarrow> False
     | Some st \<Rightarrow> 0 \<le> EpochRequests st \<and> 0 < max (EpochDuration st) (EpochRequests st) \<and>
         (if b = None then ObserveOnly st else True))"
proof -
  have "(\<exists>r. register_policies (policy_iface e) pols Map.empty [] = Inr r) \<longleftrightarrow>
    None \<notin> set pols \<and> distinct (map (\<lambda>p. op_get_type (policy_iface e) (the p)) pols)"
    using register_policies_ok [of "policy_iface e" pols Map.empty "[]"] by simp
  then show ?thesis
    by (auto simp: NewAdaptiveCache_def Let_def split: option.splits sum.splits if_splits)
qed

subsection \<open>Runs\<close>

text \<open>
  The exported methods of \<^verbatim>\<open>AdaptiveCache\<close> as requests, with the tick of the background goroutine
  (\<^verbatim>\<open>runAdaptiveSelect\<close>) among them.
\<close>

datatype ('k, 'v) request =
    ReqGet 'k
  | ReqAdd 'k 'v
  | ReqRemove 'k
  | ReqPurge
  | ReqResize int
  | ReqPeek 'k
  | ReqContains 'k
  | ReqKeys
  | ReqValues
  | ReqLen
  | ReqStats
  | ReqActivePolicy
  | EpochTick

datatype ('k, 'v) response =
    RespValue "'v option"
  | RespBool bool
  | RespInt int
  | RespKeys "'k list"
  | RespValues "'v list"
  | RespStats policy_stats
  | RespPolicy policy_type
  | RespUnit

fun handle ::
  "('p, 'k, 'v, 'b) env \<Rightarrow> ('k, 'v) request \<Rightarrow> ('p, 'k, 'b) cache
    \<Rightarrow> (('p, 'k, 'b) cache \<times> ('k, 'v) response) option" where
  "handle e (ReqGet k) c = map_option (\<lambda>(c, r). (c, RespValue r)) (Get e k c)"
| "handle e (ReqAdd k v) c = map_option (\<lambda>(c, evicted). (c, RespBool evicted)) (Add e k v c)"
| "handle e (ReqRemove k) c = map_option (\<lambda>(c, present). (c, RespBool present)) (Remove e k c)"
| "handle e ReqPurge c = Some (Purge e c, RespUnit)"
| "handle e (ReqResize sz) c = Some (let (c, evicted) = Resize e sz c in (c, RespInt evicted))"
| "handle e (ReqPeek k) c = map_option (\<lambda>r. (c, RespValue r)) (Peek e k c)"
| "handle e (ReqContains k) c = map_option (\<lambda>b. (c, RespBool b)) (Contains e k c)"
| "handle e ReqKeys c = map_option (\<lambda>ks. (c, RespKeys ks)) (Keys e c)"
| "handle e ReqValues c = map_option (\<lambda>vs. (c, RespValues vs)) (Values e c)"
| "handle e ReqLen c = map_option (\<lambda>n. (c, RespInt n)) (Len e c)"
| "handle e ReqStats c = map_option (\<lambda>s. (c, RespStats s)) (Stats e c)"
| "handle e ReqActivePolicy c = Some (c, RespPolicy (ActivePolicy c))"
| "handle e EpochTick c = map_option (\<lambda>c. (c, RespUnit)) (runEpoch e c)"

fun run ::
  "('p, 'k, 'v, 'b) env \<Rightarrow> ('k, 'v) request list \<Rightarrow> ('p, 'k, 'b) cache
    \<Rightarrow> (('p, 'k, 'b) cache \<times> ('k, 'v) response list) option" where
  "run e [] c = Some (c, [])"
| "run e (req # reqs) c = do {
     (c, resp) \<leftarrow> handle e req c;
     (c, resps) \<leftarrow> run e reqs c;
     Some (c, resp # resps)
   }"

text \<open>The specification: a map of the last value stored, and what a response may say given it.\<close>

fun spec_step :: "('k, 'v) request \<Rightarrow> ('k \<rightharpoonup> 'v) \<Rightarrow> ('k \<rightharpoonup> 'v)" where
  "spec_step (ReqAdd k v) \<sigma> = \<sigma>(k \<mapsto> v)"
| "spec_step (ReqRemove k) \<sigma> = \<sigma>(k := None)"
| "spec_step ReqPurge \<sigma> = Map.empty"
| "spec_step _ \<sigma> = \<sigma>"

fun agrees :: "('k \<rightharpoonup> 'v) \<Rightarrow> ('k, 'v) request \<Rightarrow> ('k, 'v) response \<Rightarrow> bool" where
  "agrees \<sigma> (ReqGet k) (RespValue (Some v)) \<longleftrightarrow> \<sigma> k = Some v"
| "agrees \<sigma> (ReqPeek k) (RespValue (Some v)) \<longleftrightarrow> \<sigma> k = Some v"
| "agrees \<sigma> (ReqContains k) (RespBool b) \<longleftrightarrow> (b \<longrightarrow> \<sigma> k \<noteq> None)"
| "agrees \<sigma> ReqValues (RespValues vs) \<longleftrightarrow> (\<forall>v \<in> set vs. v \<in> ran \<sigma>)"
| "agrees \<sigma> _ _ \<longleftrightarrow> True"

fun all_agree :: "('k \<rightharpoonup> 'v) \<Rightarrow> ('k, 'v) request list \<Rightarrow> ('k, 'v) response list \<Rightarrow> bool" where
  "all_agree \<sigma> [] [] \<longleftrightarrow> True"
| "all_agree \<sigma> (req # reqs) (resp # resps) \<longleftrightarrow>
     agrees \<sigma> req resp \<and> all_agree (spec_step req \<sigma>) reqs resps"
| "all_agree \<sigma> _ _ \<longleftrightarrow> False"

context adaptive_cache begin

lemma read_only_ok:
  assumes "ok \<sigma> c"
  shows "\<exists>p. policies c (activePolicy c) = Some p \<and>
    (\<forall>k v. op_peek (policy_iface e) p k = Some v \<longrightarrow> \<sigma> k = Some v) \<and>
    (\<forall>k. op_contains (policy_iface e) p k \<longrightarrow> \<sigma> k \<noteq> None) \<and>
    (\<forall>v \<in> set (op_values (policy_iface e) p). v \<in> ran \<sigma>)"
proof -
  obtain p where p: "policies c (activePolicy c) = Some p" "inv p" "content p \<subseteq>\<^sub>m \<sigma>"
    using cache_invD(1) [OF assms] by blast
  have "\<sigma> k = Some v" if "op_peek (policy_iface e) p k = Some v" for k v
    using map_le_SomeD [OF p(3) peek_result [OF p(2) that]] .
  moreover have "\<sigma> k \<noteq> None" if "op_contains (policy_iface e) p k" for k
    using contains_result [OF p(2) that] map_le_SomeD [OF p(3)] by fastforce
  moreover have "v \<in> ran \<sigma>" if "v \<in> set (op_values (policy_iface e) p)" for v
    using that values_content [OF p(2)] ran_map_le [OF p(3)] by blast
  ultimately show ?thesis using p(1) by blast
qed

text \<open>One request: no panic, the invariant kept for the specification's next state, an honest answer.\<close>

lemma handle_ok:
  assumes "ok \<sigma> c" "window_open c"
  shows "\<exists>c' resp. handle e req c = Some (c', resp) \<and> ok (spec_step req \<sigma>) c' \<and> window_open c' \<and>
    agrees \<sigma> req resp \<and> sampler c' = sampler c \<and> settings c' = settings c \<and> policyOrder c' = policyOrder c"
proof -
  obtain p where p: "policies c (activePolicy c) = Some p"
    "\<And>k v. op_peek (policy_iface e) p k = Some v \<Longrightarrow> \<sigma> k = Some v"
    "\<And>k. op_contains (policy_iface e) p k \<Longrightarrow> \<sigma> k \<noteq> None"
    "\<And>v. v \<in> set (op_values (policy_iface e) p) \<Longrightarrow> v \<in> ran \<sigma>"
    using read_only_ok [OF assms(1)] by blast
  show ?thesis
proof (cases req)
  case (ReqGet k)
  with Get_ok [OF assms, of k] obtain c' r where g: "Get e k c = Some (c', r)" "ok \<sigma> c'" "window_open c'"
    "\<forall>v. r = Some v \<longrightarrow> \<sigma> k = Some v" "sampler c' = sampler c" "settings c' = settings c"
    "policyOrder c' = policyOrder c" by blast
  then show ?thesis by (cases r) (simp_all add: ReqGet)
next
  case (ReqAdd k v)
  with Add_ok [OF assms, of k v] show ?thesis by auto
next
  case (ReqRemove k)
  with Remove_ok [OF assms, of k] show ?thesis by auto
next
  case ReqPurge
  with Purge_ok [OF assms(1)] show ?thesis by auto
next
  case (ReqResize n)
  with Resize_ok [OF assms, of n] show ?thesis by (simp add: split_beta)
next
  case (ReqPeek k)
  with assms p(1,2) show ?thesis
    by (cases "op_peek (policy_iface e) p k") (simp_all add: ReqPeek Peek_def)
next
  case EpochTick
  with runEpoch_ok [OF assms(1)] show ?thesis by auto
next
  case (ReqContains k)
  with assms p(1,3) show ?thesis by (auto simp: Contains_def)
next
  case ReqValues
  with assms p(1,4) show ?thesis by (simp add: Values_def)
qed (use p(1) assms in \<open>simp_all add: Keys_def Len_def Stats_def Let_def\<close>)
qed

theorem run_ok:
  assumes "ok \<sigma> c" "window_open c"
  shows "\<exists>c' resps. run e reqs c = Some (c', resps) \<and> all_agree \<sigma> reqs resps \<and>
    ok (fold spec_step reqs \<sigma>) c' \<and> window_open c' \<and> sampler c' = sampler c \<and> settings c' = settings c \<and>
    policyOrder c' = policyOrder c"
  using assms
proof (induction reqs arbitrary: c \<sigma>)
  case (Cons req reqs)
  obtain d resp where d: "handle e req c = Some (d, resp)" "ok (spec_step req \<sigma>) d" "window_open d"
      "agrees \<sigma> req resp" "sampler d = sampler c" "settings d = settings c" "policyOrder d = policyOrder c"
    using handle_ok [OF Cons.prems] by blast
  with Cons.IH [OF d(2,3)] show ?case by auto
qed simp

end

end
