(* ===== verification/Arms.thy ===== *)
theory Arms
  imports LFUContract RandomCache Requests
begin

text \<open>
  Arms of different implementations in one cache. A Go interface value carries its dynamic type, and a
  method call dispatches on it: the model's counterpart is a sum of the implementations' states with
  operations that dispatch on the summand. The adaptive cache's interface locale is interpreted on the
  two arms this repository implements itself, LFU and Random, each in its \<^verbatim>\<open>CacheWrapper\<close>.
\<close>

definition on_sum :: "('a \<Rightarrow> 'a \<times> 'r) \<Rightarrow> ('b \<Rightarrow> 'b \<times> 'r) \<Rightarrow> 'a + 'b \<Rightarrow> ('a + 'b) \<times> 'r" where
  "on_sum f g s = (case s of Inl a \<Rightarrow> map_prod Inl id (f a) | Inr b \<Rightarrow> map_prod Inr id (g b))"

definition sum_ops ::
  "('a, 'k, 'v) policy_ops \<Rightarrow> ('b, 'k, 'v) policy_ops \<Rightarrow> ('a + 'b, 'k, 'v) policy_ops" where
  "sum_ops A B =
     \<lparr>op_add = (\<lambda>s k v. on_sum (\<lambda>a. op_add A a k v) (\<lambda>b. op_add B b k v) s),
      op_contains = case_sum (op_contains A) (op_contains B),
      op_get = (\<lambda>s k. on_sum (\<lambda>a. op_get A a k) (\<lambda>b. op_get B b k) s),
      op_keys = case_sum (op_keys A) (op_keys B),
      op_len = case_sum (op_len A) (op_len B),
      op_peek = case_sum (op_peek A) (op_peek B),
      op_purge = map_sum (op_purge A) (op_purge B),
      op_remove = (\<lambda>s k. on_sum (\<lambda>a. op_remove A a k) (\<lambda>b. op_remove B b k) s),
      op_resize = (\<lambda>s n. on_sum (\<lambda>a. op_resize A a n) (\<lambda>b. op_resize B b n) s),
      op_values = case_sum (op_values A) (op_values B),
      op_cap = case_sum (op_cap A) (op_cap B),
      op_get_stats = case_sum (op_get_stats A) (op_get_stats B),
      op_reset_stats = map_sum (op_reset_stats A) (op_reset_stats B),
      op_get_type = case_sum (op_get_type A) (op_get_type B)\<rparr>"

lemma sum_policy:
  assumes A: "policy_contract A inv_a con_a" and B: "policy_contract B inv_b con_b"
  shows "policy_contract (sum_ops A B) (case_sum inv_a inv_b) (case_sum con_a con_b)"
proof -
  note CA = policy_contract.axioms(1) [OF A] and CB = policy_contract.axioms(1) [OF B]
  note invs = cacher_contract.op_inv [OF CA] cacher_contract.op_inv [OF CB]
    policy_contract.reset_inv [OF A] policy_contract.reset_inv [OF B]
  note contents = cacher_contract.add_content [OF CA] cacher_contract.add_content [OF CB]
    cacher_contract.get_content [OF CA] cacher_contract.get_content [OF CB]
    cacher_contract.purge_content [OF CA] cacher_contract.purge_content [OF CB]
    cacher_contract.remove_content [OF CA] cacher_contract.remove_content [OF CB]
    cacher_contract.resize_content [OF CA] cacher_contract.resize_content [OF CB]
    cacher_contract.keys_content [OF CA] cacher_contract.keys_content [OF CB]
    cacher_contract.values_content [OF CA] cacher_contract.values_content [OF CB]
    policy_contract.reset_content [OF A] policy_contract.reset_content [OF B]
  note results = cacher_contract.get_result [OF CA] cacher_contract.get_result [OF CB]
    cacher_contract.peek_result [OF CA] cacher_contract.peek_result [OF CB]
    cacher_contract.contains_result [OF CA] cacher_contract.contains_result [OF CB]
  note counters = policy_contract.policy_type_stable [OF A] policy_contract.policy_type_stable [OF B]
    policy_contract.get_stats [OF A] policy_contract.get_stats [OF B]
    policy_contract.add_stats_same [OF A] policy_contract.add_stats_same [OF B]
    policy_contract.purge_stats [OF A] policy_contract.purge_stats [OF B]
    policy_contract.remove_stats [OF A] policy_contract.remove_stats [OF B]
    policy_contract.resize_stats [OF A] policy_contract.resize_stats [OF B]
    policy_contract.reset_stats [OF A] policy_contract.reset_stats [OF B]
  show ?thesis
    by unfold_locales
      (simp_all only: sum_ops_def on_sum_def cacher_ops.select_convs policy_ops.select_convs split: sum.splits,
       simp_all add: invs contents results counters del: domIff split: sum.splits)
qed

text \<open>The two arms, and the environment of a cache that holds them.\<close>

type_synonym ('k, 'v) arm = "('k, 'v) lfu cache_wrapper + ('k, 'v) random_cache cache_wrapper"

definition arm_ops :: "('k set \<Rightarrow> 'k list) \<Rightarrow> 'k \<Rightarrow> 'v \<Rightarrow> (('k, 'v) arm, 'k, 'v) policy_ops" where
  "arm_ops order zk zv = sum_ops (wrapper_ops (lfu_ops order zk zv)) (wrapper_ops (random_ops zv))"

definition arm_inv :: "('k, 'v) arm \<Rightarrow> bool" where
  "arm_inv = case_sum (wrapped_exact lfu_inv lfu_capacity) (wrapped_exact random_inv rsize)"

definition arm_content :: "('k, 'v) arm \<Rightarrow> 'k \<rightharpoonup> 'v" where
  "arm_content = case_sum (wrapped lfu_content) (wrapped random_content)"

definition arm_env ::
  "('k set \<Rightarrow> 'k list) \<Rightarrow> 'k \<Rightarrow> 'v \<Rightarrow> 'b bandit_ops \<Rightarrow> (('k, 'v) arm, 'k, 'v, 'b) env" where
  "arm_env order zk zv bo = \<lparr>policy_iface = arm_ops order zk zv, zero_value = zv, bandit_iface = bo\<rparr>"

interpretation arms: policy_contract "arm_ops order zk zv" arm_inv arm_content for order zk zv
  unfolding arm_ops_def arm_inv_def arm_content_def
  by (intro sum_policy lfu_arm.policy_contract_axioms random_arm.policy_contract_axioms)

interpretation arm_cache: adaptive_cache "arm_env order zk zv bo" arm_inv arm_content for order zk zv bo
  by (simp add: adaptive_cache_def arm_env_def arms.policy_contract_axioms)

subsection \<open>A concrete cache\<close>

text \<open>
  Two arms of two entries and a bandit that always selects the same policy: small enough to evaluate,
  used to show that the hypotheses of the theorems about caches can hold.
\<close>

definition stubborn_bandit :: "policy_type \<Rightarrow> unit bandit_ops" where
  "stubborn_bandit p =
     \<lparr>bo_record_stats = (\<lambda>b s. b), bo_select_policy = (\<lambda>b. (b, p)), bo_record_epoch = None\<rparr>"

definition demo_env :: "((int, int) arm, int, int, unit) env" where
  "demo_env = arm_env (\<lambda>_. []) 0 0 (stubborn_bandit Random)"

definition demo_lfu :: "(int, int) arm" where
  "demo_lfu = Inl (NewCache
     \<lparr>lsize = 2, minFreq = 0, items = Mapping.empty, evictList = Mapping.empty, onEvict = False, calls = []\<rparr> LFU 2)"

definition demo_random :: "(int, int) arm" where
  "demo_random = Inr (NewCache (NewRandom (\<lambda>i. i) 2) Random 2)"

definition demo_settings :: "migration_strategy \<Rightarrow> cache_settings" where
  "demo_settings strategy =
     \<lparr>EpochDuration = 1, EpochRequests = 0, EvictPartialCapacityFilling = True, MigrationStrategy = strategy,
      MinHitRateImprovement = 0, SwitchCooldownEpochs = 0, MinEpochRequests = 0, ShadowSampleRate = 1,
      ObserveOnly = False, MinShadowCapacity = 1\<rparr>"

definition demo_new :: "migration_strategy \<Rightarrow> construct_error + ((int, int) arm, int, unit) cache" where
  "demo_new strategy =
     NewAdaptiveCache demo_env (\<lambda>_. 0) [Some demo_lfu, Some demo_random] (Some ()) (Some (demo_settings strategy))"

definition demo_cache :: "migration_strategy \<Rightarrow> ((int, int) arm, int, unit) cache" where
  "demo_cache strategy = projr (demo_new strategy)"

lemma demo_lfu_new: "NewLFU 2 False = Inr (Cacher (projl demo_lfu))"
  by (simp add: NewLFU_def demo_lfu_def NewCache_def)

lemma demo_arms_good: "Some p \<in> set [Some demo_lfu, Some demo_random] \<Longrightarrow> arm_inv p"
  using NewLFU_inv [OF demo_lfu_new] NewRandom_inv(1,3) [of "\<lambda>i. i" 2]
  by (auto simp: demo_lfu_def demo_random_def arm_inv_def wrapped_exact_def NewCache_def lfu_capacity_def)

end
