(* ===== verification/CacheTheorems.thy ===== *)
theory CacheTheorems
  imports Arms
begin

text \<open>
  What the adaptive cache promises its callers, for any arms that satisfy the contract of
  \<^verbatim>\<open>policy_contract\<close> and any bandit: the theorems about whole runs, each with an instance on the
  concrete cache of theory \<^verbatim>\<open>Arms\<close>.
\<close>

lemma demo_new_ok:
  "demo_new MigrationCold = Inr (demo_cache MigrationCold)"
  "demo_new MigrationWarm = Inr (demo_cache MigrationWarm)"
  "demo_new MigrationGradual = Inr (demo_cache MigrationGradual)"
proof -
  have split: "demo_new s = Inr (demo_cache s)" if "\<not> isl (demo_new s)" for s
    using that by (cases "demo_new s") (simp_all add: demo_cache_def)
  show "demo_new MigrationCold = Inr (demo_cache MigrationCold)" by (rule split) code_simp
  show "demo_new MigrationWarm = Inr (demo_cache MigrationWarm)" by (rule split) code_simp
  show "demo_new MigrationGradual = Inr (demo_cache MigrationGradual)" by (rule split) code_simp
qed

lemma demo_contract: "policy_contract (policy_iface demo_env) arm_inv arm_content"
  by (simp add: demo_env_def arm_env_def arms.policy_contract_axioms)

definition demo_requests :: "(int, int) request list" where
  "demo_requests = [ReqAdd 1 10, EpochTick, ReqGet 1]"

text \<open>C1: A cache built by \<^verbatim>\<open>NewAdaptiveCache\<close> never panics and never answers anything but the value
  last stored under a key: in every run of requests and epochs, whatever the bandit selects and whatever
  arms the caller supplied, each \<^verbatim>\<open>Get\<close>, \<^verbatim>\<open>Peek\<close>, \<^verbatim>\<open>Contains\<close> and \<^verbatim>\<open>Values\<close> agrees with the map of
  the last values written. In particular no zero value of a shadow is ever served.\<close>

theorem serves_last_write:
  assumes "policy_contract (policy_iface e) good content"
    and "\<And>p. Some p \<in> set pols \<Longrightarrow> good p"
    and "NewAdaptiveCache e hash pols b s = Inr c" and "hd pols = Some first"
  shows "\<exists>c' resps. run e reqs c = Some (c', resps) \<and> all_agree (content first) reqs resps"
proof -
  have ac: "adaptive_cache e good content" using assms(1) by (simp add: adaptive_cache_def)
  from adaptive_cache.construct_ok [OF ac assms(3,2)] assms(4)
  have "cache_inv e good content (content first) c" "window_open c" by auto
  from adaptive_cache.run_ok [OF ac this, of reqs] show ?thesis by blast
qed

lemma serves_last_write_witness:
  "\<exists>c' resps. run demo_env demo_requests (demo_cache MigrationGradual) = Some (c', resps) \<and>
    all_agree (arm_content demo_lfu) demo_requests resps"
  by (rule serves_last_write [OF demo_contract demo_arms_good demo_new_ok(3) [unfolded demo_new_def]]) simp_all

text \<open>C2: A policy on shadow duty never holds a real value: after any run, whatever a policy other than
  the active one and the source of an open gradual window holds is the zero value, under sampled keys
  only. (A policy registered under the type \<^verbatim>\<open>Undefined\<close> is excepted: \<^verbatim>\<open>closeMigrationLocked\<close> skips it.)\<close>

theorem shadows_hold_no_values:
  assumes "policy_contract (policy_iface e) good content"
    and "\<And>p. Some p \<in> set pols \<Longrightarrow> good p"
    and "NewAdaptiveCache e hash pols b s = Inr c" and "run e reqs c = Some (c', resps)"
    and "policies c' pt = Some p" and "pt \<noteq> activePolicy c'" and "pt \<noteq> Undefined"
    and "\<not> (migrating c' \<and> pt = migrateFrom c')" and "content p k = Some v"
  shows "v = zero_value e \<and> sampled (sampler c') k"
proof -
  have ac: "adaptive_cache e good content" using assms(1) by (simp add: adaptive_cache_def)
  from adaptive_cache.construct_ok [OF ac assms(3,2)] obtain \<sigma> where
    "cache_inv e good content \<sigma> c" "window_open c" by blast
  from adaptive_cache.run_ok [OF ac this, of reqs] assms(4) have
    "cache_inv e good content (fold spec_step reqs \<sigma>) c'" by auto
  then have "shadows_blank e content c'" by (simp add: cache_inv_def)
  with assms(5-9) show ?thesis unfolding shadows_blank_def by blast
qed

text \<open>After the switch of the demonstration run the LFU cache is a shadow that still knows its keys.\<close>

definition demo_after :: "migration_strategy \<Rightarrow> ((int, int) arm, int, unit) cache" where
  "demo_after strategy = fst (the (run demo_env demo_requests (demo_cache strategy)))"

lemma demo_run:
  assumes "demo_new strategy = Inr (demo_cache strategy)"
  shows "\<exists>r. run demo_env demo_requests (demo_cache strategy) = Some (demo_after strategy, r)"
proof -
  have ac: "adaptive_cache demo_env arm_inv arm_content" using demo_contract by (simp add: adaptive_cache_def)
  from adaptive_cache.construct_ok [OF ac assms [unfolded demo_new_def] demo_arms_good]
  obtain \<sigma> where "cache_inv demo_env arm_inv arm_content \<sigma> (demo_cache strategy)"
    "window_open (demo_cache strategy)" by blast
  from adaptive_cache.run_ok [OF ac this, of demo_requests] show ?thesis
    by (auto simp: demo_after_def)
qed

lemma shadows_hold_no_values_witness:
  "\<exists>p v. policies (demo_after MigrationWarm) LFU = Some p \<and> arm_content p 1 = Some v \<and> v = (0 :: int)"
proof -
  let ?c = "demo_after MigrationWarm"
  have facts: "let c = ?c in \<not> Option.is_none (policies c LFU) \<and> LFU \<noteq> activePolicy c \<and> LFU \<noteq> Undefined \<and>
      \<not> migrating c \<and> \<not> Option.is_none (arm_content (the (policies c LFU)) 1)"
    by code_simp
  obtain r where r: "run demo_env demo_requests (demo_cache MigrationWarm) = Some (?c, r)"
    using demo_run [OF demo_new_ok(2)] by blast
  obtain p v where p: "policies ?c LFU = Some p" and v: "arm_content p 1 = Some v"
    using facts by (auto simp: Option.is_none_def Let_def)
  have "v = zero_value demo_env \<and> sampled (sampler ?c) 1"
    by (rule shadows_hold_no_values [OF demo_contract demo_arms_good demo_new_ok(2) [unfolded demo_new_def] r p _ _ _ v])
      (use facts in \<open>simp_all add: Let_def\<close>)
  with p v show ?thesis by (auto simp: demo_env_def arm_env_def)
qed

end
