(* ===== verification/BanditStore.thy ===== *)
theory BanditStore
  imports PolicyTypes "HOL-Library.Signed_Division" "HOL-Library.Multiset"
begin

text \<open>
  What a fleet of caches coordinates through (\<^verbatim>\<open>src/bandit/store.go\<close>): the data types of the
  exchange, the \<^verbatim>\<open>Store\<close> interface as a record of operations, and its contract as a locale.

  Instants are nanoseconds since the Unix epoch by the store's clock and durations are nanoseconds.
  What the environment contributes to one call (whether the caller's context is still live, what the
  store's clock reads) is a value of a type \<open>'w\<close> of the implementation's choosing.
\<close>

subsection \<open>Roles and arms\<close>

text \<open>\<^verbatim>\<open>Role\<close> is an open 8-bit integer that numbers its two values from one.\<close>

datatype role = Role (role_num: "8 word")

definition RoleShadow :: role where "RoleShadow = Role 1"
definition RoleActive :: role where "RoleActive = Role 2"

lemmas role_names [names] = RoleShadow_def RoleActive_def

lemma role_distinct [simp]: "RoleShadow \<noteq> RoleActive" "RoleActive \<noteq> RoleShadow"
  by (simp_all add: names)

definition role_string :: "role \<Rightarrow> string" where
  "role_string r = (if r = RoleActive then ''active'' else ''shadow'')"

record arm_counts =
  ac_Policy :: policy_type
  ac_Role :: role
  ac_Hits :: int
  ac_Misses :: int

datatype arm_key = ArmKey (ak_Policy: policy_type) (ak_Role: role)

text \<open>Arm keys are ordered by policy and then role, so that a canonical visiting order exists.\<close>

instantiation arm_key :: linorder
begin

definition less_eq_arm_key :: "arm_key \<Rightarrow> arm_key \<Rightarrow> bool" where
  "less_eq_arm_key a b \<longleftrightarrow>
     ak_Policy a < ak_Policy b \<or> ak_Policy a = ak_Policy b \<and> role_num (ak_Role a) \<le> role_num (ak_Role b)"

definition less_arm_key :: "arm_key \<Rightarrow> arm_key \<Rightarrow> bool" where
  "less_arm_key a b \<longleftrightarrow>
     ak_Policy a < ak_Policy b \<or> ak_Policy a = ak_Policy b \<and> role_num (ak_Role a) < role_num (ak_Role b)"

instance
  by standard (auto simp: less_eq_arm_key_def less_arm_key_def intro!: arm_key.expand role.expand)

end

subsection \<open>Requests and results\<close>

type_synonym bucket = int

record sync_request =
  sr_Namespace :: string
  sr_NodeID :: string
  sr_Counts :: "arm_counts list"
  sr_EpochMillis :: int
  sr_CounterTTL :: int
  sr_LeaderTTL :: int
  sr_Lead :: bool

record sync_result =
  sy_Bucket :: bucket
  sy_Leader :: bool
  sy_Decision :: policy_type
  sy_HasDecision :: bool

record window_counts =
  wc_Bucket :: bucket
  wc_Arms :: "(arm_key, policy_stats) mapping"

record ('s, 'w, 'e) store_ops =
  so_sync :: "'w \<Rightarrow> sync_request \<Rightarrow> 's \<Rightarrow> 's \<times> ('e + sync_result)"
  so_window :: "'w \<Rightarrow> string \<Rightarrow> bucket \<Rightarrow> bucket \<Rightarrow> 's \<Rightarrow> 's \<times> ('e + window_counts list)"
  so_decide :: "'w \<Rightarrow> string \<Rightarrow> bucket \<Rightarrow> policy_type \<Rightarrow> int \<Rightarrow> 's \<Rightarrow> 's \<times> ('e + policy_type)"

subsection \<open>Buckets\<close>

text \<open>
  \<^verbatim>\<open>bucketAt\<close>: the store's clock divided into coordination epochs. \<^verbatim>\<open>UnixMilli\<close> rounds down, Go's
  \<^verbatim>\<open>/\<close> rounds towards zero.
\<close>

definition unix_milli :: "int \<Rightarrow> int" where
  "unix_milli t = t div 1000000"

definition bucketAt :: "int \<Rightarrow> int \<Rightarrow> bucket" where
  "bucketAt now epochMillis =
     (let epochMillis = (if epochMillis \<le> 0 then 1 else epochMillis)
      in unix_milli now sdiv epochMillis)"

lemma sdiv_nonneg: "0 \<le> x \<Longrightarrow> 0 < k \<Longrightarrow> x sdiv k = x div (k :: int)"
  by (cases "x = 0") (simp_all add: signed_divide_int_def)

lemma bucketAt_eq: "0 \<le> now \<Longrightarrow> bucketAt now m = now div (1000000 * max 1 m)"
  by (simp add: bucketAt_def unix_milli_def sdiv_nonneg pos_imp_zdiv_nonneg_iff zdiv_zmult2_eq max_def)

lemma bucketAt_mono: "0 \<le> s \<Longrightarrow> s \<le> t \<Longrightarrow> bucketAt s m \<le> bucketAt t m"
  by (simp add: bucketAt_eq zdiv_mono1)

text \<open>A bucket lasts exactly one epoch: an instant that much later is in a later bucket.\<close>

lemma bucketAt_later:
  assumes "0 \<le> s" and "s + 1000000 * max 1 m \<le> t"
  shows "bucketAt s m < bucketAt t m"
proof -
  have "s div (1000000 * max 1 m) + 1 = (s + 1000000 * max 1 m) div (1000000 * max 1 m)" by simp
  also have "\<dots> \<le> t div (1000000 * max 1 m)" using assms(2) by (intro zdiv_mono1) auto
  moreover have "0 \<le> t" using assms by (smt (verit) max.cobounded1)
  ultimately show ?thesis using assms(1) by (simp add: bucketAt_eq)
qed

subsection \<open>Adding counts\<close>

text \<open>What one published count adds to a bucket's arms, and a whole request's.\<close>

definition add_count :: "arm_counts \<Rightarrow> (arm_key, policy_stats) mapping \<Rightarrow> (arm_key, policy_stats) mapping" where
  "add_count cnt arms =
     (let armKey = ArmKey (ac_Policy cnt) (ac_Role cnt);
          stats = map_stats (Mapping.lookup arms) armKey;
          stats = stats\<lparr>Hits := Hits stats + ac_Hits cnt\<rparr>;
          stats = stats\<lparr>Misses := Misses stats + ac_Misses cnt\<rparr>
      in Mapping.update armKey stats arms)"

definition add_counts :: "arm_counts list \<Rightarrow> (arm_key, policy_stats) mapping \<Rightarrow> (arm_key, policy_stats) mapping" where
  "add_counts counts arms = fold add_count counts arms"

definition count_key :: "arm_counts \<Rightarrow> arm_key" where
  "count_key c = ArmKey (ac_Policy c) (ac_Role c)"

definition count_stats :: "arm_counts \<Rightarrow> policy_stats" where
  "count_stats c = \<lparr>Hits = ac_Hits c, Misses = ac_Misses c\<rparr>"

lemma stats_set [simp]: "s\<lparr>Hits := a, Misses := b\<rparr> = \<lparr>Hits = a, Misses = b\<rparr>" for s :: policy_stats
  by (cases s) simp

lemma add_count_alt:
  "add_count c arms =
    Mapping.update (count_key c) (add_stats (map_stats (Mapping.lookup arms) (count_key c)) (count_stats c)) arms"
  by (simp add: add_count_def Let_def count_key_def count_stats_def add_stats_def)

lemma add_stats_commute: "add_stats a b = add_stats b a"
  by (simp add: add_stats_def)

lemma add_stats_left_commute: "add_stats a (add_stats b c) = add_stats b (add_stats a c)"
  by (simp add: add_stats_def)

lemmas add_stats_ac = add_stats_assoc add_stats_commute add_stats_left_commute

lemma map_stats_update [simp]:
  "map_stats (Mapping.lookup (Mapping.update k s m)) j = (if j = k then s else map_stats (Mapping.lookup m) j)"
  by (simp add: map_stats_def)

lemma add_count_commute: "add_count c \<circ> add_count d = add_count d \<circ> add_count c"
  by (rule ext, rule mapping_eqI) (auto simp: add_count_alt add_stats_ac)

text \<open>The order in which contributions arrive does not matter.\<close>

lemma add_counts_any_order:
  assumes "mset cs = mset ds"
  shows "add_counts cs = add_counts ds"
proof -
  have "fold add_count cs = fold add_count ds"
    using assms by (intro fold_multiset_equiv) (simp_all add: add_count_commute)
  then show ?thesis by (simp add: fun_eq_iff add_counts_def)
qed

lemma add_counts_append: "add_counts (cs @ ds) arms = add_counts ds (add_counts cs arms)"
  by (simp add: add_counts_def)

text \<open>A bucket holds, per arm and role, the sum of what was contributed.\<close>

lemma add_counts_sum:
  "map_stats (Mapping.lookup (add_counts cs arms)) k =
    add_stats (map_stats (Mapping.lookup arms) k) (sum_stats (map count_stats (filter (\<lambda>c. count_key c = k) cs)))"
  by (induction cs arbitrary: arms) (auto simp: add_counts_def add_count_alt add_stats_ac)

lemma add_counts_dom:
  "dom (Mapping.lookup (add_counts cs arms)) = dom (Mapping.lookup arms) \<union> count_key ` set cs"
  by (induction cs arbitrary: arms) (auto simp: add_counts_def add_count_alt)

subsection \<open>What a store promises\<close>

text \<open>
  The abstract state of a store, seen at an instant: what each bucket has been given, who leads it
  and what was decided for it. Everything expires, so the view is taken at a time; a key is a
  namespace and a bucket.
\<close>

type_synonym bucket_key = "string \<times> bucket"

record store_view =
  v_counts :: "bucket_key \<rightharpoonup> (arm_key, policy_stats) mapping"
  v_leaders :: "bucket_key \<rightharpoonup> string"
  v_decisions :: "bucket_key \<rightharpoonup> policy_type"

definition sync_key :: "int \<Rightarrow> sync_request \<Rightarrow> bucket_key" where
  "sync_key now r = (sr_Namespace r, bucketAt now (sr_EpochMillis r))"

text \<open>A value kept until \<open>expires\<close>, as it is seen at \<open>t\<close>.\<close>

definition kept :: "int \<Rightarrow> int \<Rightarrow> 'a \<Rightarrow> 'a option" where
  "kept t expires x = (if t \<le> expires then Some x else None)"

text \<open>
  The promises of the interface's documentation: a sync adds its counts to the bucket of the store's
  clock and refreshes their lifetime, grants leadership exactly when it is asked for and free, and
  reports the decision in force; a decision already in force is never overwritten and the one in
  force is returned; a window lists, in order, the buckets that hold counts; a failed call changes
  nothing. All of it is stated on the view at any later instant.
\<close>

locale store_contract =
  fixes ops :: "('s, 'w, 'e) store_ops"
    and inv :: "'s \<Rightarrow> bool"
    and time :: "'w \<Rightarrow> int"
    and view :: "int \<Rightarrow> 's \<Rightarrow> store_view"
  assumes sync_inv: "inv s \<Longrightarrow> inv (fst (so_sync ops w r s))"
    and window_inv: "inv s \<Longrightarrow> inv (fst (so_window ops w ns lo hi s))"
    and decide_inv: "inv s \<Longrightarrow> inv (fst (so_decide ops w ns b p ttl s))"
    and forgets: "inv s \<Longrightarrow> t \<le> t' \<Longrightarrow>
      v_counts (view t' s) \<subseteq>\<^sub>m v_counts (view t s) \<and> v_leaders (view t' s) \<subseteq>\<^sub>m v_leaders (view t s) \<and>
      v_decisions (view t' s) \<subseteq>\<^sub>m v_decisions (view t s)"
    and sync_fails: "inv s \<Longrightarrow> so_sync ops w r s = (s', Inl x) \<Longrightarrow> time w \<le> t \<Longrightarrow> view t s' = view t s"
    and window_view: "inv s \<Longrightarrow> so_window ops w ns lo hi s = (s', wres) \<Longrightarrow> time w \<le> t \<Longrightarrow>
      view t s' = view t s"
    and decide_fails: "inv s \<Longrightarrow> so_decide ops w ns b p ttl s = (s', Inl x) \<Longrightarrow> time w \<le> t \<Longrightarrow>
      view t s' = view t s"
    and sync_result: "inv s \<Longrightarrow> so_sync ops w r s = (s', Inr res) \<Longrightarrow>
      sy_Bucket res = bucketAt (time w) (sr_EpochMillis r) \<and>
      (sy_Leader res \<longleftrightarrow> sr_Lead r \<and> v_leaders (view (time w) s) (sync_key (time w) r) = None) \<and>
      (if sy_HasDecision res then Some (sy_Decision res) else None) =
        v_decisions (view (time w) s) (sync_key (time w) r)"
    and sync_view: "inv s \<Longrightarrow> so_sync ops w r s = (s', Inr res) \<Longrightarrow> time w \<le> t \<Longrightarrow>
      view t s' =
        \<lparr>v_counts = (if sr_Counts r = [] then v_counts (view t s)
           else (v_counts (view t s))(sync_key (time w) r := kept t (time w + sr_CounterTTL r)
             (add_counts (sr_Counts r)
               (case v_counts (view (time w) s) (sync_key (time w) r) of None \<Rightarrow> Mapping.empty | Some a \<Rightarrow> a)))),
         v_leaders = (if sy_Leader res
           then (v_leaders (view t s))(sync_key (time w) r := kept t (time w + sr_LeaderTTL r) (sr_NodeID r))
           else v_leaders (view t s)),
         v_decisions = v_decisions (view t s)\<rparr>"
    and window_result: "inv s \<Longrightarrow> so_window ops w ns lo hi s = (s', Inr ws) \<Longrightarrow>
      map wc_Bucket ws = filter (\<lambda>b. v_counts (view (time w) s) (ns, b) \<noteq> None) [lo..hi] \<and>
      (\<forall>wc \<in> set ws. v_counts (view (time w) s) (ns, wc_Bucket wc) = Some (wc_Arms wc))"
    and decide_result: "inv s \<Longrightarrow> so_decide ops w ns b p ttl s = (s', Inr q) \<Longrightarrow>
      q = (case v_decisions (view (time w) s) (ns, b) of None \<Rightarrow> p | Some d \<Rightarrow> d)"
    and decide_view: "inv s \<Longrightarrow> so_decide ops w ns b p ttl s = (s', Inr q) \<Longrightarrow> time w \<le> t \<Longrightarrow>
      view t s' = (view t s)\<lparr>v_decisions := (case v_decisions (view (time w) s) (ns, b) of
         None \<Rightarrow> (v_decisions (view t s))((ns, b) := kept t (time w + ttl) p)
       | Some d \<Rightarrow> v_decisions (view t s))\<rparr>"
begin

lemmas ops_inv = sync_inv window_inv decide_inv

text \<open>A decision in force when it is published again is the one that is returned.\<close>

lemma decide_keeps:
  assumes "inv s" "v_decisions (view (time w) s) (ns, b) = Some d"
    and "so_decide ops w ns b p ttl s = (s', Inr q)"
  shows "q = d \<and> (\<forall>t \<ge> time w. view t s' = view t s)"
  using decide_result [OF assms(1,3)] decide_view [OF assms(1,3)] assms(2) by simp

text \<open>Leadership of a bucket is granted to one sync only while the claim lasts.\<close>

lemma leader_once:
  assumes "inv s" "v_leaders (view (time w) s) (sync_key (time w) r) = Some n"
    and "so_sync ops w r s = (s', Inr res)"
  shows "\<not> sy_Leader res"
  using sync_result [OF assms(1,3)] assms(2) by simp

end

text \<open>
  What the agreement of a fleet rests on is less: a decision or a claim of leadership that is held is
  neither replaced nor lost while it lasts, a grant means the bucket was free, and what is reported as
  in force is. A call that reports an error may still have taken effect, as it may when the store is
  reached over a network and only the answer is lost.
\<close>

locale coordination_store =
  fixes ops :: "('s, 'w, 'e) store_ops"
    and inv :: "'s \<Rightarrow> bool"
    and time :: "'w \<Rightarrow> int"
    and view :: "int \<Rightarrow> 's \<Rightarrow> store_view"
  assumes sync_keeps: "inv s \<Longrightarrow> inv (fst (so_sync ops w r s))"
    and window_keeps: "inv s \<Longrightarrow> inv (fst (so_window ops w ns lo hi s))"
    and decide_keeps_inv: "inv s \<Longrightarrow> inv (fst (so_decide ops w ns b p ttl s))"
    and free_stays: "inv s \<Longrightarrow> t \<le> t' \<Longrightarrow> v_leaders (view t s) k = None \<Longrightarrow> v_leaders (view t' s) k = None"
    and sync_claims: "inv s \<Longrightarrow> so_sync ops w r s = (s', sres) \<Longrightarrow> time w \<le> t \<Longrightarrow>
      v_leaders (view t s) k \<noteq> None \<Longrightarrow> v_leaders (view t s') k \<noteq> None"
    and window_claims: "inv s \<Longrightarrow> so_window ops w ns lo hi s = (s', wres) \<Longrightarrow> time w \<le> t \<Longrightarrow>
      v_leaders (view t s) k \<noteq> None \<Longrightarrow> v_leaders (view t s') k \<noteq> None"
    and decide_claims: "inv s \<Longrightarrow> so_decide ops w ns b p ttl s = (s', dres) \<Longrightarrow> time w \<le> t \<Longrightarrow>
      v_leaders (view t s) k \<noteq> None \<Longrightarrow> v_leaders (view t s') k \<noteq> None"
    and sync_decisions: "inv s \<Longrightarrow> so_sync ops w r s = (s', sres) \<Longrightarrow> time w \<le> t \<Longrightarrow>
      v_decisions (view t s') \<subseteq>\<^sub>m v_decisions (view t s)"
    and window_decisions: "inv s \<Longrightarrow> so_window ops w ns lo hi s = (s', wres) \<Longrightarrow> time w \<le> t \<Longrightarrow>
      v_decisions (view t s') \<subseteq>\<^sub>m v_decisions (view t s)"
    and decide_decisions: "inv s \<Longrightarrow> so_decide ops w ns b p ttl s = (s', dres) \<Longrightarrow> time w \<le> t \<Longrightarrow>
      v_decisions (view t s') \<subseteq>\<^sub>m
        (case v_decisions (view (time w) s) (ns, b) of None \<Rightarrow> (v_decisions (view t s))((ns, b) \<mapsto> p)
         | Some d \<Rightarrow> v_decisions (view t s))"
    and sync_answer: "inv s \<Longrightarrow> so_sync ops w r s = (s', Inr res) \<Longrightarrow>
      sy_Bucket res = bucketAt (time w) (sr_EpochMillis r) \<and>
      (sy_Leader res \<longrightarrow> v_leaders (view (time w) s) (sync_key (time w) r) = None) \<and>
      (sy_HasDecision res \<longrightarrow> v_decisions (view (time w) s) (sync_key (time w) r) = Some (sy_Decision res))"
    and claim_lasts: "inv s \<Longrightarrow> so_sync ops w r s = (s', Inr res) \<Longrightarrow> sy_Leader res \<Longrightarrow> time w \<le> t \<Longrightarrow>
      unix_milli t < unix_milli (time w) + sr_LeaderTTL r div 1000000 \<Longrightarrow>
      v_leaders (view t s') (sync_key (time w) r) \<noteq> None"
    and decide_answer: "inv s \<Longrightarrow> so_decide ops w ns b p ttl s = (s', Inr q) \<Longrightarrow>
      q = (case v_decisions (view (time w) s) (ns, b) of None \<Rightarrow> p | Some d \<Rightarrow> d)"

text \<open>The documented contract gives it.\<close>

lemma kept_milli:
  assumes "unix_milli t < unix_milli n + ttl div 1000000"
  shows "kept t (n + ttl) x = Some x"
proof -
  have "t div 1000000 + 1 \<le> n div 1000000 + ttl div 1000000" using assms by (simp add: unix_milli_def)
  then have "t \<le> n + ttl" by linarith
  then show ?thesis by (simp add: kept_def)
qed

sublocale store_contract \<subseteq> coordination_store
proof
  fix s s' w r t k sres
  assume s: "inv s" "so_sync ops w r s = (s', sres)" and t: "time w \<le> t"
  show "v_decisions (view t s') \<subseteq>\<^sub>m v_decisions (view t s)"
    using s t by (cases sres) (simp_all add: sync_fails sync_view)
  assume k: "v_leaders (view t s) k \<noteq> None"
  show "v_leaders (view t s') k \<noteq> None"
  proof (cases sres)
    case (Inr res)
    have "v_leaders (view (time w) s) k \<noteq> None" using forgets [OF s(1) t] k by (auto dest: map_le_NoneD)
    then show ?thesis using Inr s t k sync_view [OF s(1) _ t, of r s' res] sync_result [OF s(1), of w r s' res]
      by auto
  qed (use s t k sync_fails in simp)
next
  fix s s' w ns b p ttl dres t
  assume s: "inv s" "so_decide ops w ns b p ttl s = (s', dres)" and t: "time w \<le> t"
  show "v_decisions (view t s') \<subseteq>\<^sub>m
      (case v_decisions (view (time w) s) (ns, b) of None \<Rightarrow> (v_decisions (view t s))((ns, b) \<mapsto> p)
       | Some d \<Rightarrow> v_decisions (view t s))"
  proof (cases dres)
    case (Inl x)
    have "v_decisions (view t s) (ns, b) = None" if "v_decisions (view (time w) s) (ns, b) = None"
      using forgets [OF s(1) t] that by (blast dest: map_le_NoneD)
    then show ?thesis using Inl s t by (auto simp: decide_fails map_le_def split: option.splits)
  next
    case (Inr q)
    then show ?thesis using s t by (auto simp: decide_view map_le_def kept_def split: option.splits)
  qed
  fix k
  assume "v_leaders (view t s) k \<noteq> None"
  then show "v_leaders (view t s') k \<noteq> None" using s t by (cases dres) (simp_all add: decide_fails decide_view)
next
  fix s s' w r res t
  assume s: "inv s" "so_sync ops w r s = (s', Inr res)" "sy_Leader res" "time w \<le> t"
    and "unix_milli t < unix_milli (time w) + sr_LeaderTTL r div 1000000"
  then show "v_leaders (view t s') (sync_key (time w) r) \<noteq> None" by (simp add: sync_view kept_milli)
next
  fix s t t' k
  assume "inv s" "t \<le> t'" "v_leaders (view t s) k = None"
  then show "v_leaders (view t' s) k = None" using forgets by (blast dest: map_le_NoneD)
next
  fix s s' w r res
  assume s: "inv s" "so_sync ops w r s = (s', Inr res)"
  show "sy_Bucket res = bucketAt (time w) (sr_EpochMillis r) \<and>
      (sy_Leader res \<longrightarrow> v_leaders (view (time w) s) (sync_key (time w) r) = None) \<and>
      (sy_HasDecision res \<longrightarrow> v_decisions (view (time w) s) (sync_key (time w) r) = Some (sy_Decision res))"
    using sync_result [OF s] by (auto split: if_splits)
qed (use ops_inv window_view decide_result in auto)

end
