(* ===== verification/BetaSample.thy ===== *)
theory BetaSample
  imports Float64
begin

text \<open>
  \<^verbatim>\<open>src/bandit/sample.go\<close>: Beta draws as ratios of Gamma draws, by the method of Marsaglia and Tsang.

  What the Go library computes is a parameter, a \<^verbatim>\<open>sampler_env\<close>: the generator's two methods on its
  state \<open>'r\<close>, and \<^verbatim>\<open>math.Pow\<close>, \<^verbatim>\<open>math.Sqrt\<close> and \<^verbatim>\<open>math.Log\<close>. The rejection loop ends only with
  probability one, so the model gives it fuel and \<^term>\<open>None\<close> when the fuel is spent.
\<close>

record 'r sampler_env =
  rng_Float64 :: "'r \<Rightarrow> 'r \<times> float64"
  rng_NormFloat64 :: "'r \<Rightarrow> 'r \<times> float64"
  math_Pow :: "float64 \<Rightarrow> float64 \<Rightarrow> float64"
  math_Sqrt :: "float64 \<Rightarrow> float64"
  math_Log :: "float64 \<Rightarrow> float64"

fun gamma_loop ::
  "('r, 'z) sampler_env_scheme \<Rightarrow> float64 \<Rightarrow> float64 \<Rightarrow> nat \<Rightarrow> 'r \<Rightarrow> ('r \<times> float64) option" where
  "gamma_loop E d c 0 rng = None"
| "gamma_loop E d c (Suc fuel) rng =
     (let (rng, x) = rng_NormFloat64 E rng;
          v = f64_add 1 (f64_mul c x)
      in if v \<le> 0 then gamma_loop E d c fuel rng
         else let v = f64_mul (f64_mul v v) v;
                  (rng, u) = rng_Float64 E rng
              in if u < f64_sub 1 (f64_mul (f64_mul (f64_mul (f64_mul (rnd (331 / 10000)) x) x) x) x)
                 then Some (rng, f64_mul d v)
                 else if math_Log E u < f64_add (f64_mul (f64_mul (1 / 2) x) x)
                           (f64_mul d (f64_add (f64_sub 1 v) (math_Log E v)))
                 then Some (rng, f64_mul d v)
                 else gamma_loop E d c fuel rng)"

fun gammaSample ::
  "('r, 'z) sampler_env_scheme \<Rightarrow> nat \<Rightarrow> 'r \<Rightarrow> float64 \<Rightarrow> ('r \<times> float64) option" where
  "gammaSample E 0 rng shape = None"
| "gammaSample E (Suc fuel) rng shape =
     (if shape < 1
      then do {
        (rng, g) \<leftarrow> gammaSample E fuel rng (f64_add shape 1);
        let (rng, u) = rng_Float64 E rng;
        Some (rng, f64_mul g (math_Pow E u (f64_div 1 shape)))
      }
      else let d = f64_sub shape (rnd (1 / 3));
               c = f64_div 1 (math_Sqrt E (f64_mul 9 d))
           in gamma_loop E d c (Suc fuel) rng)"

definition betaSample ::
  "('r, 'z) sampler_env_scheme \<Rightarrow> nat \<Rightarrow> 'r \<Rightarrow> float64 \<Rightarrow> float64 \<Rightarrow> ('r \<times> float64) option" where
  "betaSample E fuel rng a b = do {
     (rng, x) \<leftarrow> gammaSample E fuel rng a;
     (rng, y) \<leftarrow> gammaSample E fuel rng b;
     if f64_add x y = 0 then Some (rng, 0) else Some (rng, f64_div x (f64_add x y))
   }"

subsection \<open>Draws lie between zero and one\<close>

text \<open>\<^verbatim>\<open>math.Pow\<close> of a number in \<open>[0, 1)\<close> is not negative, and \<^verbatim>\<open>Float64\<close> draws such a number.\<close>

definition sampler_ok :: "('r, 'z) sampler_env_scheme \<Rightarrow> bool" where
  "sampler_ok E \<longleftrightarrow> (\<forall>r. 0 \<le> snd (rng_Float64 E r)) \<and> (\<forall>u x. 0 \<le> u \<longrightarrow> 0 \<le> math_Pow E u x)"

lemma f64_mul_nonneg: "0 \<le> a \<Longrightarrow> 0 \<le> b \<Longrightarrow> 0 \<le> f64_mul a b"
  by (simp add: f64_mul_def rnd_nonneg)

lemma gamma_loop_nonneg:
  "gamma_loop E d c fuel rng = Some (rng', g) \<Longrightarrow> 0 \<le> d \<Longrightarrow> 0 \<le> g \<and> rnd g = g"
proof (induction fuel arbitrary: rng)
  case (Suc fuel)
  obtain r x where x: "rng_NormFloat64 E rng = (r, x)" by (cases "rng_NormFloat64 E rng")
  obtain r2 u where u: "rng_Float64 E r = (r2, u)" by (cases "rng_Float64 E r")
  show ?case
  proof (cases "f64_add 1 (f64_mul c x) \<le> 0")
    case True
    with Suc x show ?thesis by simp
  next
    case False
    let ?v = "f64_mul (f64_mul (f64_add 1 (f64_mul c x)) (f64_add 1 (f64_mul c x))) (f64_add 1 (f64_mul c x))"
    have "0 \<le> ?v" using False by (simp add: f64_mul_nonneg)
    then have "0 \<le> f64_mul d ?v \<and> rnd (f64_mul d ?v) = f64_mul d ?v"
      using Suc.prems(2) by (simp add: f64_mul_nonneg) (simp add: f64_mul_def)
    with Suc.prems x u False Suc.IH [of r2] show ?thesis by (auto simp: Let_def split: if_splits)
  qed
qed simp

lemma third_below_1: "rnd (1 / 3) \<le> 1"
  by (rule rnd_le_1) simp

lemma gammaSample_nonneg:
  assumes "sampler_ok E"
  shows "gammaSample E fuel rng shape = Some (rng', g) \<Longrightarrow> 0 \<le> g \<and> rnd g = g"
proof (induction fuel arbitrary: rng shape rng' g)
  case (Suc fuel)
  show ?case
  proof (cases "shape < 1")
    case True
    with Suc.prems obtain r h where h: "gammaSample E fuel rng (f64_add shape 1) = Some (r, h)"
      and g: "g = f64_mul h (math_Pow E (snd (rng_Float64 E r)) (f64_div 1 shape))"
      by (auto simp: bind_eq_Some_conv split_beta)
    have "0 \<le> h" using Suc.IH [OF h] by simp
    with assms g show ?thesis by (simp add: sampler_ok_def f64_mul_nonneg) (simp add: f64_mul_def)
  next
    case False
    then have "0 \<le> f64_sub shape (rnd (1 / 3))"
      using third_below_1 by (simp add: f64_sub_def rnd_nonneg)
    with False Suc.prems show ?thesis
      by (auto simp: Let_def simp del: gamma_loop.simps dest: gamma_loop_nonneg)
  qed
qed simp

lemma betaSample_range:
  assumes ok: "sampler_ok E" and "betaSample E fuel rng a b = Some (rng', s)"
  shows "0 \<le> s \<and> s \<le> 1"
proof -
  from assms(2) obtain r x y where x: "gammaSample E fuel rng a = Some (r, x)"
    and y: "gammaSample E fuel r b = Some (rng', y)"
    and s: "s = (if f64_add x y = 0 then 0 else f64_div x (f64_add x y))"
    by (auto simp: betaSample_def bind_eq_Some_conv split: if_splits)
  have nn: "0 \<le> x" "0 \<le> y" "rnd x = x"
    using gammaSample_nonneg [OF ok x] gammaSample_nonneg [OF ok y] by auto
  then have "x \<le> f64_add x y" using rnd_mono [of x "x + y"] by (simp add: f64_add_def)
  moreover from this nn have "x / f64_add x y \<le> 1" by (simp add: divide_le_eq)
  ultimately show ?thesis using nn s by (simp add: f64_div_def rnd_nonneg rnd_le_1)
qed

text \<open>More fuel never changes a draw, so the value of a draw does not depend on the fuel.\<close>

lemma gamma_loop_fuel:
  "gamma_loop E d c fuel rng = Some r \<Longrightarrow> fuel \<le> fuel' \<Longrightarrow> gamma_loop E d c fuel' rng = Some r"
proof (induction fuel arbitrary: fuel' rng)
  case (Suc fuel)
  then obtain f where f: "fuel' = Suc f" "fuel \<le> f" by (cases fuel') auto
  with Suc show ?case by (auto simp: Let_def split: prod.splits if_splits)
qed simp

lemma gammaSample_fuel:
  "gammaSample E fuel rng shape = Some r \<Longrightarrow> fuel \<le> fuel' \<Longrightarrow> gammaSample E fuel' rng shape = Some r"
proof (induction fuel arbitrary: fuel' rng shape r)
  case (Suc fuel)
  then obtain f where f: "fuel' = Suc f" "fuel \<le> f" by (cases fuel') auto
  show ?case
  proof (cases "shape < 1")
    case True
    with Suc.prems obtain p where "gammaSample E fuel rng (f64_add shape 1) = Some p"
      by (auto simp: bind_eq_Some_conv)
    with Suc.IH [OF this f(2)] True Suc.prems f show ?thesis by (simp del: gamma_loop.simps)
  next
    case False
    with Suc.prems f gamma_loop_fuel [of E _ _ "Suc fuel" _ _ fuel'] show ?thesis
      by (simp add: Let_def del: gamma_loop.simps)
  qed
qed simp

lemma betaSample_fuel:
  assumes "betaSample E fuel rng a b = Some r" and "fuel \<le> fuel'"
  shows "betaSample E fuel' rng a b = Some r"
proof -
  from assms(1) obtain r1 x r2 y where "gammaSample E fuel rng a = Some (r1, x)"
    and "gammaSample E fuel r1 b = Some (r2, y)"
    by (auto simp: betaSample_def bind_eq_Some_conv)
  with gammaSample_fuel assms show ?thesis
    by (smt (verit) betaSample_def bind.bind_lunit case_prod_conv)
qed

text \<open>
  A draw as the bandits use it: the Beta sampler with its generator threaded through. The theorems
  about them hold for every sampler whose draws are not negative, which the one above satisfies.
\<close>

type_synonym 'r beta_fn = "'r \<Rightarrow> float64 \<Rightarrow> float64 \<Rightarrow> 'r \<times> float64"

definition beta_draw :: "('r, 'z) sampler_env_scheme \<Rightarrow> nat \<Rightarrow> 'r beta_fn" where
  "beta_draw E fuel rng a b = (case betaSample E fuel rng a b of None \<Rightarrow> (rng, 0) | Some r \<Rightarrow> r)"

definition draws_ok :: "'r beta_fn \<Rightarrow> bool" where
  "draws_ok beta \<longleftrightarrow> (\<forall>r a b. 0 \<le> snd (beta r a b) \<and> snd (beta r a b) \<le> 1)"

lemma beta_draw_ok: "sampler_ok E \<Longrightarrow> draws_ok (beta_draw E fuel)"
  by (auto simp: draws_ok_def beta_draw_def split: option.splits dest: betaSample_range)

end
