(* ===== verification/Evidence.thy ===== *)
theory Evidence
  imports BanditStore BetaSample
begin

text \<open>
  \<^verbatim>\<open>src/bandit/window.go\<close>: a window of per-bucket counts pooled into one discounted posterior per arm,
  the cap on the evidence behind a posterior, and the Thompson draw over the pooled arms.

  \<^verbatim>\<open>math.Pow\<close> is the parameter \<open>pow\<close>. A range over a map of arms visits its keys in the order \<open>visit\<close>
  gives for that map; the order is arbitrary, and theorem \<open>aggregate_any_order\<close> shows when it cannot
  matter.
\<close>

subsection \<open>Evidence modes\<close>

datatype evidence_mode = EvidenceMode "8 word"

definition EvidenceAll :: evidence_mode where "EvidenceAll = EvidenceMode 1"
definition EvidenceShadowOnly :: evidence_mode where "EvidenceShadowOnly = EvidenceMode 2"

lemmas evidence_names [names] = EvidenceAll_def EvidenceShadowOnly_def

subsection \<open>Weighted counts\<close>

record weighted =
  w_Hits :: float64
  w_Misses :: float64

definition weighted_total :: "weighted \<Rightarrow> float64" where
  "weighted_total w = f64_add (w_Hits w) (w_Misses w)"

definition weighted_hitRate :: "weighted \<Rightarrow> float64" where
  "weighted_hitRate w = (if weighted_total w = 0 then 0 else f64_div (w_Hits w) (weighted_total w))"

abbreviation zero_weighted :: weighted where
  "zero_weighted \<equiv> \<lparr>w_Hits = 0, w_Misses = 0\<rparr>"

type_synonym pooled = "(policy_type, weighted) mapping"

definition pooled_at :: "pooled \<Rightarrow> policy_type \<Rightarrow> weighted" where
  "pooled_at m p = (case Mapping.lookup m p of None \<Rightarrow> zero_weighted | Some w \<Rightarrow> w)"

lemma pooled_at_update [simp]: "pooled_at (Mapping.update k w m) j = (if j = k then w else pooled_at m j)"
  by (simp add: pooled_at_def)

subsection \<open>Aggregation\<close>

definition pool_arm ::
  "evidence_mode \<Rightarrow> float64 \<Rightarrow> (arm_key, policy_stats) mapping \<Rightarrow> arm_key \<Rightarrow> pooled \<Rightarrow> pooled" where
  "pool_arm mode weight arms key pooled =
     (if mode = EvidenceShadowOnly \<and> ak_Role key = RoleActive then pooled
      else let stats = map_stats (Mapping.lookup arms) key;
               arm = pooled_at pooled (ak_Policy key);
               arm = arm\<lparr>w_Hits := f64_add (w_Hits arm) (f64_mul weight (f64_of_int (Hits stats)))\<rparr>;
               arm = arm\<lparr>w_Misses := f64_add (w_Misses arm) (f64_mul weight (f64_of_int (Misses stats)))\<rparr>
           in Mapping.update (ak_Policy key) arm pooled)"

type_synonym visit = "(arm_key, policy_stats) mapping \<Rightarrow> arm_key list"

definition pool_bucket ::
  "(float64 \<Rightarrow> float64 \<Rightarrow> float64) \<Rightarrow> visit \<Rightarrow> bucket \<Rightarrow> float64 \<Rightarrow> evidence_mode \<Rightarrow> window_counts
    \<Rightarrow> pooled \<Rightarrow> pooled" where
  "pool_bucket pow visit newest decay mode bucket pooled =
     (let age = newest - wc_Bucket bucket in
      if age < 0 then pooled
      else let weight = pow decay (f64_of_int age) in
           if weight = 0 then pooled
           else fold (pool_arm mode weight (wc_Arms bucket)) (visit (wc_Arms bucket)) pooled)"

definition aggregate ::
  "(float64 \<Rightarrow> float64 \<Rightarrow> float64) \<Rightarrow> visit \<Rightarrow> window_counts list \<Rightarrow> bucket \<Rightarrow> float64 \<Rightarrow> evidence_mode
    \<Rightarrow> pooled" where
  "aggregate pow visit window newest decay mode =
     fold (pool_bucket pow visit newest decay mode) window Mapping.empty"

subsection \<open>The cap\<close>

definition cap_arm :: "float64 \<Rightarrow> weighted \<Rightarrow> weighted" where
  "cap_arm maxEvidence arm =
     (let total = weighted_total arm in
      if total \<le> maxEvidence then arm
      else let scale = f64_div maxEvidence total
           in \<lparr>w_Hits = f64_mul (w_Hits arm) scale, w_Misses = f64_mul (w_Misses arm) scale\<rparr>)"

definition capEvidence :: "pooled \<Rightarrow> float64 \<Rightarrow> pooled" where
  "capEvidence pooled maxEvidence =
     (if maxEvidence \<le> 0 then pooled else Mapping.map_values (\<lambda>_. cap_arm maxEvidence) pooled)"

subsection \<open>The draw\<close>

definition draw_arm ::
  "'r beta_fn \<Rightarrow> pooled \<Rightarrow> policy_type \<Rightarrow> 'r \<times> policy_type \<times> float64 \<Rightarrow> 'r \<times> policy_type \<times> float64" where
  "draw_arm beta pooled policy = (\<lambda>(rng, best, bestSample).
     let arm = pooled_at pooled policy;
         (rng, sample) = beta rng (f64_add 1 (w_Hits arm)) (f64_add 1 (w_Misses arm))
     in if sample > bestSample then (rng, policy, sample) else (rng, best, bestSample))"

definition draw :: "'r beta_fn \<Rightarrow> 'r \<Rightarrow> pooled \<Rightarrow> 'r \<times> policy_type" where
  "draw beta rng pooled =
     (let arms = Mapping.ordered_keys pooled;
          (rng, best, bestSample) = fold (draw_arm beta pooled) arms (rng, Undefined, - 1)
      in (rng, best))"

subsection \<open>The order in which arms are visited\<close>

text \<open>A visiting order lists every arm once.\<close>

definition visits :: "visit \<Rightarrow> (arm_key, policy_stats) mapping \<Rightarrow> bool" where
  "visits visit m \<longleftrightarrow> distinct (visit m) \<and> set (visit m) = Mapping.keys m"

lemma ordered_keys_visits: "finite (Mapping.keys m) \<Longrightarrow> visits Mapping.ordered_keys m"
  by (simp add: visits_def Mapping.ordered_keys_def)

definition counted :: "evidence_mode \<Rightarrow> arm_key \<Rightarrow> bool" where
  "counted mode key \<longleftrightarrow> \<not> (mode = EvidenceShadowOnly \<and> ak_Role key = RoleActive)"

text \<open>
  Rounded addition is not associative, so pooling two roles of one arm may depend on which is visited
  first. With at most one counted role per arm in each bucket the order cannot matter.
\<close>

lemma pool_arm_commute:
  assumes "counted mode a \<Longrightarrow> counted mode b \<Longrightarrow> ak_Policy a = ak_Policy b \<Longrightarrow> a = b"
  shows "pool_arm mode w arms a \<circ> pool_arm mode w arms b = pool_arm mode w arms b \<circ> pool_arm mode w arms a"
  using assms by (intro ext mapping_eqI) (auto simp: pool_arm_def counted_def Let_def)

lemma pool_bucket_any_order:
  assumes v: "visits v (wc_Arms b)" "visits v' (wc_Arms b)"
    and single: "inj_on ak_Policy {k \<in> Mapping.keys (wc_Arms b). counted mode k}"
  shows "pool_bucket pow v newest decay mode b = pool_bucket pow v' newest decay mode b"
proof -
  have "fold (pool_arm mode w (wc_Arms b)) (v (wc_Arms b)) = fold (pool_arm mode w (wc_Arms b)) (v' (wc_Arms b))"
    for w
  proof (rule fold_multiset_equiv)
    show "mset (v (wc_Arms b)) = mset (v' (wc_Arms b))"
      using v by (simp add: visits_def flip: set_eq_iff_mset_eq_distinct)
    show "pool_arm mode w (wc_Arms b) x \<circ> pool_arm mode w (wc_Arms b) y =
        pool_arm mode w (wc_Arms b) y \<circ> pool_arm mode w (wc_Arms b) x"
      if "x \<in> set (v (wc_Arms b))" "y \<in> set (v (wc_Arms b))" for x y
      using that v single by (intro pool_arm_commute) (auto simp: visits_def inj_on_def)
  qed
  then show ?thesis by (auto simp: pool_bucket_def Let_def fun_eq_iff)
qed

lemma aggregate_any_order:
  assumes "\<And>b. b \<in> set window \<Longrightarrow> visits v (wc_Arms b) \<and> visits v' (wc_Arms b) \<and>
      inj_on ak_Policy {k \<in> Mapping.keys (wc_Arms b). counted mode k}"
  shows "aggregate pow v window newest decay mode = aggregate pow v' window newest decay mode"
  unfolding aggregate_def using assms by (intro fold_cong) (simp_all add: pool_bucket_any_order)

text \<open>Shadow-only evidence with the two roles of the code satisfies that for every bucket.\<close>

lemma shadow_only_single:
  assumes "\<And>k. k \<in> K \<Longrightarrow> ak_Role k \<in> {RoleShadow, RoleActive}"
  shows "inj_on ak_Policy {k \<in> K. counted EvidenceShadowOnly k}"
  using assms by (auto simp: inj_on_def counted_def) (metis arm_key.expand insertE singletonD)

text \<open>Which arms a posterior exists for.\<close>

lemma pool_arm_keys:
  "Mapping.keys (pool_arm mode w arms key pooled) =
    (if counted mode key then insert (ak_Policy key) (Mapping.keys pooled) else Mapping.keys pooled)"
  by (auto simp: pool_arm_def counted_def Let_def)

lemma pool_arms_keys:
  "Mapping.keys (fold (pool_arm mode w arms) ks pooled) =
    Mapping.keys pooled \<union> ak_Policy ` {k \<in> set ks. counted mode k}"
  by (induction ks arbitrary: pooled) (auto simp: pool_arm_keys)

lemma pool_buckets_keys:
  "Mapping.keys (fold (pool_bucket pow v newest decay mode) window pooled) \<subseteq>
    Mapping.keys pooled \<union> ak_Policy ` (\<Union>b \<in> set window. set (v (wc_Arms b)))"
proof (induction window arbitrary: pooled)
  case (Cons b window)
  have "Mapping.keys (pool_bucket pow v newest decay mode b pooled) \<subseteq>
      Mapping.keys pooled \<union> ak_Policy ` set (v (wc_Arms b))"
    by (auto simp: pool_bucket_def Let_def pool_arms_keys)
  with Cons.IH [of "pool_bucket pow v newest decay mode b pooled"] show ?case by auto
qed simp

lemma aggregate_keys:
  assumes "\<And>b. b \<in> set window \<Longrightarrow> visits v (wc_Arms b)"
  shows "Mapping.keys (aggregate pow v window newest decay mode) \<subseteq>
    ak_Policy ` (\<Union>b \<in> set window. Mapping.keys (wc_Arms b))"
  using pool_buckets_keys [of pow v newest decay mode window Mapping.empty] assms
  by (simp add: aggregate_def visits_def)

lemma capEvidence_keys [simp]: "Mapping.keys (capEvidence pooled m) = Mapping.keys pooled"
  by (simp add: capEvidence_def)

subsection \<open>The arm that is drawn\<close>

text \<open>The loop keeps a maximal sample, and the first of equal ones.\<close>

lemma draw_loop_best:
  assumes "draws_ok beta" and "fold (draw_arm beta pooled) arms (rng, best, bs) = (rng', best', bs')"
  shows "bs \<le> bs' \<and> (best', bs') = (best, bs) \<or> best' \<in> set arms \<and> bs < bs'"
  using assms(2)
proof (induction arms arbitrary: rng best bs)
  case (Cons p arms)
  obtain r1 b1 s1 where 1: "draw_arm beta pooled p (rng, best, bs) = (r1, b1, s1)"
    by (cases "draw_arm beta pooled p (rng, best, bs)")
  then have "(b1, s1) = (best, bs) \<or> b1 = p \<and> bs < s1"
    by (auto simp: draw_arm_def Let_def split: prod.splits if_splits)
  with Cons.IH [of r1 b1 s1] Cons.prems 1 show ?case by auto
qed simp

lemma draw_first:
  assumes "draws_ok beta" and "arms \<noteq> []"
    and "fold (draw_arm beta pooled) arms (rng, best, - 1) = (rng', best', bs')"
  shows "best' \<in> set arms"
proof -
  obtain p ps where arms: "arms = p # ps" using assms(2) by (cases arms) auto
  obtain r s where s: "beta rng (f64_add 1 (w_Hits (pooled_at pooled p))) (f64_add 1 (w_Misses (pooled_at pooled p))) = (r, s)"
    by fastforce
  have "0 \<le> s" using assms(1) s unfolding draws_ok_def by (metis snd_conv)
  then have "draw_arm beta pooled p (rng, best, - 1) = (r, p, s)"
    using s by (simp add: draw_arm_def Let_def)
  with assms(3) arms draw_loop_best [OF assms(1), of pooled ps r p s] show ?thesis by auto
qed

lemma draw_arms:
  assumes "draws_ok beta" and "finite (Mapping.keys pooled)"
  shows "snd (draw beta rng pooled) \<in>
    (if Mapping.keys pooled = {} then {Undefined} else Mapping.keys pooled)"
proof -
  let ?ks = "Mapping.ordered_keys pooled"
  have ks: "set ?ks = Mapping.keys pooled" using assms(2) by (simp add: Mapping.ordered_keys_def)
  obtain r b s where f: "fold (draw_arm beta pooled) ?ks (rng, Undefined, - 1) = (r, b, s)"
    by (cases "fold (draw_arm beta pooled) ?ks (rng, Undefined, - 1)")
  show ?thesis
  proof (cases "?ks = []")
    case True
    with f ks show ?thesis by (simp add: draw_def)
  next
    case False
    from draw_first [OF assms(1) this f] ks f show ?thesis by (auto simp: draw_def)
  qed
qed

subsection \<open>Bounds\<close>

lemma weighted_rate_bounds:
  assumes "0 \<le> w_Hits w" "0 \<le> w_Misses w" "rnd (w_Hits w) = w_Hits w"
  shows "0 \<le> weighted_hitRate w \<and> weighted_hitRate w \<le> 1"
proof -
  have le: "w_Hits w \<le> weighted_total w"
    using assms rnd_mono [of "w_Hits w" "w_Hits w + w_Misses w"] by (simp add: weighted_total_def f64_add_def)
  with assms(1) have "w_Hits w / weighted_total w \<le> 1" by (simp add: divide_le_eq)
  with le assms(1) show ?thesis
    by (simp add: weighted_hitRate_def f64_div_def rnd_nonneg rnd_le_1)
qed

end
