(* ===== verification/GoFormat.thy ===== *)
theory GoFormat
  imports Float64 "HOL-Library.Char_ord"
begin

text \<open>
  The number formatting the code uses for names and keys: \<^verbatim>\<open>strconv.FormatInt\<close> in base ten, \<^verbatim>\<open>%x\<close>,
  \<^verbatim>\<open>%012x\<close> and \<^verbatim>\<open>%.4f\<close>. Each has a reader and a round trip, from which follows that different
  numbers are written differently; that is what the key layouts rest on.
\<close>

subsection \<open>Digits\<close>

definition digit_char :: "nat \<Rightarrow> char" where
  "digit_char d = (if d < 10 then char_of (48 + d) else char_of (87 + d))"

definition char_digit :: "char \<Rightarrow> nat" where
  "char_digit c = (let n = of_char c in if n < 97 then n - 48 else n - 87)"

lemma of_char_digit: "d < 16 \<Longrightarrow> (of_char (digit_char d) :: nat) = (if d < 10 then 48 + d else 87 + d)"
  by (auto simp: digit_char_def of_char_of)

lemma char_digit_char [simp]: "d < 16 \<Longrightarrow> char_digit (digit_char d) = d"
  by (auto simp: char_digit_def of_char_digit Let_def)

fun digits :: "nat \<Rightarrow> nat \<Rightarrow> string" where
  "digits b n = (if n < b \<or> b < 2 then [digit_char n] else digits b (n div b) @ [digit_char (n mod b)])"

declare digits.simps [simp del]

definition undigits :: "nat \<Rightarrow> string \<Rightarrow> nat" where
  "undigits b s = foldl (\<lambda>n c. n * b + char_digit c) 0 s"

lemma undigits_append: "undigits b (s @ [c]) = undigits b s * b + char_digit c"
  by (simp add: undigits_def)

text \<open>Reading back what was written.\<close>

lemma undigits_digits: "2 \<le> b \<Longrightarrow> b \<le> 16 \<Longrightarrow> undigits b (digits b n) = n"
proof (induction b n rule: digits.induct)
  case (1 b n)
  have "n mod b < 16" using 1(2,3) mod_less_divisor [of b n] by linarith
  with 1 show ?case
    by (cases "n < b") (simp_all add: digits.simps [of b n] undigits_append,
        simp add: undigits_def)
qed

lemma digits_nonempty: "digits b n \<noteq> []"
  by (simp add: digits.simps [of b n])

lemma digits_chars:
  assumes "2 \<le> b"
  shows "set (digits b n) \<subseteq> digit_char ` {..< b}"
  using assms
proof (induction b n rule: digits.induct)
  case (1 b n)
  then show ?case
    using mod_less_divisor [of b n] by (cases "n < b") (auto simp: digits.simps [of b n])
qed

lemma digits_length: "0 < k \<Longrightarrow> 2 \<le> b \<Longrightarrow> n < b ^ k \<Longrightarrow> length (digits b n) \<le> k"
proof (induction k arbitrary: n)
  case (Suc k)
  show ?case
  proof (cases "n < b")
    case False
    then have "0 < k" using Suc.prems by (cases k) simp_all
    moreover have "n div b < b ^ k"
      using Suc.prems by (simp add: less_mult_imp_div_less mult.commute)
    ultimately have "length (digits b (n div b)) \<le> k" using Suc.IH Suc.prems by simp
    with False Suc.prems show ?thesis by (simp add: digits.simps [of b n])
  qed (simp add: digits.simps [of b n])
qed simp

text \<open>Zero padding on the left does not change what is read.\<close>

definition pad_left :: "nat \<Rightarrow> string \<Rightarrow> string" where
  "pad_left w s = replicate (w - length s) (digit_char 0) @ s"

lemma undigits_zeros: "undigits b (replicate k (digit_char 0) @ s) = undigits b s"
  by (induction k) (simp_all add: undigits_def)

lemma undigits_pad [simp]: "undigits b (pad_left w s) = undigits b s"
  by (simp add: pad_left_def undigits_zeros)

lemma pad_left_length: "length s \<le> w \<Longrightarrow> length (pad_left w s) = w"
  by (simp add: pad_left_def)

subsection \<open>The formats\<close>

definition minus_sign :: char where "minus_sign = CHR ''-''"

text \<open>\<^verbatim>\<open>strconv.FormatInt(n, 10)\<close> and \<^verbatim>\<open>%d\<close>\<close>

definition format_int :: "int \<Rightarrow> string" where
  "format_int n = (if n < 0 then minus_sign # digits 10 (nat (- n)) else digits 10 (nat n))"

definition parse_int :: "string \<Rightarrow> int" where
  "parse_int s = (if s \<noteq> [] \<and> hd s = minus_sign then - int (undigits 10 (tl s)) else int (undigits 10 s))"

lemma minus_no_digit: "d < 16 \<Longrightarrow> digit_char d \<noteq> minus_sign"
proof
  assume "d < 16" "digit_char d = minus_sign"
  then have "(of_char (digit_char d) :: nat) = of_char minus_sign" by simp
  with \<open>d < 16\<close> show False by (simp add: of_char_digit minus_sign_def split: if_splits)
qed

lemma hd_digits_no_minus: "hd (digits 10 n) \<noteq> minus_sign"
proof -
  have "hd (digits 10 n) \<in> set (digits 10 n)" by (rule hd_in_set [OF digits_nonempty])
  then obtain d where "d < 10" "hd (digits 10 n) = digit_char d" using digits_chars [of 10 n] by auto
  then show ?thesis using minus_no_digit [of d] by simp
qed

lemma parse_format_int: "parse_int (format_int n) = n"
  by (simp add: parse_int_def format_int_def undigits_digits hd_digits_no_minus digits_nonempty)

lemma format_int_inject [simp]: "format_int m = format_int n \<longleftrightarrow> m = n"
  by (metis parse_format_int)

text \<open>\<^verbatim>\<open>%x\<close> and \<^verbatim>\<open>%012x\<close> of a 64-bit number\<close>

definition format_hex :: "64 word \<Rightarrow> string" where
  "format_hex w = digits 16 (unat w)"

definition format_hex12 :: "64 word \<Rightarrow> string" where
  "format_hex12 w = pad_left 12 (digits 16 (unat w))"

lemma format_hex_inject [simp]: "format_hex v = format_hex w \<longleftrightarrow> v = w"
  by (metis format_hex_def undigits_digits unsigned_word_eqI le_refl one_le_numeral numeral_le_iff
      semiring_norm(68,69,71,72,73))

lemma format_hex12_inject [simp]: "format_hex12 v = format_hex12 w \<longleftrightarrow> v = w"
proof
  assume "format_hex12 v = format_hex12 w"
  then have "undigits 16 (format_hex12 v) = undigits 16 (format_hex12 w)" by simp
  then show "v = w" by (simp add: format_hex12_def undigits_digits word_unat_eq_iff)
qed simp

lemma format_hex12_length:
  assumes "unat w < 2 ^ 48"
  shows "length (format_hex12 w) = 12"
proof -
  have "unat w < 16 ^ 12" using assms by simp
  then have "length (digits 16 (unat w)) \<le> 12" by (intro digits_length) simp_all
  then show ?thesis by (simp add: format_hex12_def pad_left_length)
qed

text \<open>
  \<^verbatim>\<open>%.4f\<close>: the exact decimal value rounded half to even in the fourth place. Written with its sign,
  the integer part and four digits.
\<close>

definition quantise4 :: "float64 \<Rightarrow> int" where
  "quantise4 x = round_even (x * 10000)"

definition format_fixed4 :: "float64 \<Rightarrow> string" where
  "format_fixed4 x =
     (let n = nat \<bar>quantise4 x\<bar>
      in (if x < 0 then [minus_sign] else []) @ digits 10 (n div 10000) @ ''.'' @ pad_left 4 (digits 10 (n mod 10000)))"

text \<open>\<^verbatim>\<open>%.df\<close> for any number of decimals, and the padding of \<^verbatim>\<open>%9s\<close> and \<^verbatim>\<open>%-9s\<close>\<close>

definition format_fixed :: "nat \<Rightarrow> float64 \<Rightarrow> string" where
  "format_fixed d x =
     (let n = nat \<bar>round_even (x * 10 ^ d)\<bar>
      in (if x < 0 then [minus_sign] else []) @ digits 10 (n div 10 ^ d) @ ''.'' @ pad_left d (digits 10 (n mod 10 ^ d)))"

definition right_in :: "nat \<Rightarrow> string \<Rightarrow> string" where
  "right_in w s = replicate (w - length s) (CHR '' '') @ s"

definition left_in :: "nat \<Rightarrow> string \<Rightarrow> string" where
  "left_in w s = s @ replicate (w - length s) (CHR '' '')"

definition new_line :: string where
  "new_line = [CHR 0x0A]"

end
