(* ===== verification/BanditConfig.thy ===== *)
theory BanditConfig
  imports Evidence GoFormat
begin

text \<open>
  \<^verbatim>\<open>src/bandit/config.go\<close> and \<^verbatim>\<open>src/bandit/errors.go\<close>: the configuration of a distributed bandit, the
  defaults and checks of \<^verbatim>\<open>validate\<close>, and the lifetimes derived from it. Durations are nanoseconds held
  in an \<^verbatim>\<open>int64\<close>; the products of the lifetimes wrap around, which \<^verbatim>\<open>go_int64\<close> writes out.

  The store itself is not part of the record (the model passes its state); the field
  \<open>cfg_HasStore\<close> says whether the interface value is non-nil. \<^verbatim>\<open>Now\<close> is likewise the environment's.
\<close>

datatype mode = Mode "8 word"

definition ModeLeader :: mode where "ModeLeader = Mode 1"
definition ModeSharedPosterior :: mode where "ModeSharedPosterior = Mode 2"

lemmas mode_names [names] = ModeLeader_def ModeSharedPosterior_def

lemma mode_distinct [simp]: "ModeLeader \<noteq> ModeSharedPosterior" "ModeSharedPosterior \<noteq> ModeLeader"
  by (simp_all add: names)

record config =
  cfg_HasStore :: bool
  cfg_Namespace :: string
  cfg_NodeID :: string
  cfg_CoordinationEpoch :: int
  cfg_Window :: int
  cfg_Decay :: float64
  cfg_MaxEvidence :: float64
  cfg_Mode :: mode
  cfg_Evidence :: evidence_mode
  cfg_FallbackAfter :: int
  cfg_SyncTimeout :: int
  cfg_LocalDiscount :: float64
  cfg_Jitter :: float64
  cfg_Seed :: "64 word"

datatype config_error =
  ErrNilStore
| ErrEmptyNamespace
| ErrInvalidCoordinationEpoch int
| ErrInvalidWindow int
| ErrInvalidDecay float64
| ErrInvalidJitter float64
| ErrShadowOnlyUnderLeader

definition DefaultWindow :: int where "DefaultWindow = 10"
definition DefaultDecay :: float64 where "DefaultDecay = rnd (4 / 5)"
definition DefaultLocalDiscount :: float64 where "DefaultLocalDiscount = rnd (7 / 10)"
definition DefaultJitter :: float64 where "DefaultJitter = rnd (1 / 10)"
definition DefaultMaxEvidence :: float64 where "DefaultMaxEvidence = 100000"

lemmas config_defaults =
  DefaultWindow_def DefaultDecay_def DefaultLocalDiscount_def DefaultJitter_def DefaultMaxEvidence_def

text \<open>What the process supplies: its host name if the system knows one, its id, and one random number.\<close>

record process =
  os_hostname :: "string option"
  os_pid :: int
  fresh_seed :: "64 word"

definition defaultNodeID :: "process \<Rightarrow> 64 word \<Rightarrow> string" where
  "defaultNodeID sys seed =
     (let host = (case os_hostname sys of None \<Rightarrow> ''unknown'' | Some h \<Rightarrow> if h = '''' then ''unknown'' else h)
      in host @ ''-'' @ format_int (os_pid sys) @ ''-'' @ format_hex (take_bit 24 seed))"

text \<open>The checks, in the order of the code, and then the defaults.\<close>

definition fill_defaults :: "process \<Rightarrow> config \<Rightarrow> config" where
  "fill_defaults sys c =
     (let c = c\<lparr>cfg_Window := if cfg_Window c = 0 then DefaultWindow else cfg_Window c\<rparr>;
          c = c\<lparr>cfg_Decay := if cfg_Decay c = 0 then DefaultDecay else cfg_Decay c\<rparr>;
          c = c\<lparr>cfg_Jitter := if cfg_Jitter c = 0 then DefaultJitter else cfg_Jitter c\<rparr>;
          c = c\<lparr>cfg_LocalDiscount := if cfg_LocalDiscount c \<le> 0 \<or> cfg_LocalDiscount c > 1
                then DefaultLocalDiscount else cfg_LocalDiscount c\<rparr>;
          c = c\<lparr>cfg_MaxEvidence := if cfg_MaxEvidence c = 0 then DefaultMaxEvidence else cfg_MaxEvidence c\<rparr>;
          c = c\<lparr>cfg_FallbackAfter := if cfg_FallbackAfter c \<le> 0
                then go_int64 (3 * cfg_CoordinationEpoch c) else cfg_FallbackAfter c\<rparr>;
          c = c\<lparr>cfg_SyncTimeout := if cfg_SyncTimeout c \<le> 0 then cfg_CoordinationEpoch c else cfg_SyncTimeout c\<rparr>;
          c = c\<lparr>cfg_Seed := if cfg_Seed c = 0 then fresh_seed sys else cfg_Seed c\<rparr>
      in c\<lparr>cfg_NodeID := if cfg_NodeID c = '''' then defaultNodeID sys (cfg_Seed c) else cfg_NodeID c\<rparr>)"

definition validate :: "process \<Rightarrow> config \<Rightarrow> config_error + config" where
  "validate sys c =
     (if \<not> cfg_HasStore c then Inl ErrNilStore
      else if cfg_Namespace c = '''' then Inl ErrEmptyNamespace
      else if cfg_CoordinationEpoch c \<le> 0 then Inl (ErrInvalidCoordinationEpoch (cfg_CoordinationEpoch c))
      else if cfg_Window c < 0 then Inl (ErrInvalidWindow (cfg_Window c))
      else if cfg_Decay c < 0 \<or> cfg_Decay c > 1 then Inl (ErrInvalidDecay (cfg_Decay c))
      else if cfg_Jitter c < 0 \<or> cfg_Jitter c \<ge> 1 / 2 then Inl (ErrInvalidJitter (cfg_Jitter c))
      else let c = (if cfg_Mode c = Mode 0 then c\<lparr>cfg_Mode := ModeLeader\<rparr> else c);
               c = (if cfg_Evidence c = EvidenceMode 0 then c\<lparr>cfg_Evidence := EvidenceAll\<rparr> else c)
           in if cfg_Mode c = ModeLeader \<and> cfg_Evidence c = EvidenceShadowOnly
              then Inl ErrShadowOnlyUnderLeader
              else Inr (fill_defaults sys c))"

definition counterTTL :: "config \<Rightarrow> int" where
  "counterTTL c = go_int64 (go_int64 (cfg_Window c + 2) * cfg_CoordinationEpoch c)"

definition leaderTTL :: "config \<Rightarrow> int" where
  "leaderTTL c = go_int64 (2 * cfg_CoordinationEpoch c)"

definition decisionTTL :: "config \<Rightarrow> int" where
  "decisionTTL c = go_int64 (3 * cfg_CoordinationEpoch c)"

subsection \<open>What a validated configuration satisfies\<close>

definition config_ok :: "config \<Rightarrow> bool" where
  "config_ok c \<longleftrightarrow>
     cfg_HasStore c \<and> cfg_Namespace c \<noteq> '''' \<and> 0 < cfg_CoordinationEpoch c \<and> 0 < cfg_Window c \<and>
     0 < cfg_Decay c \<and> cfg_Decay c \<le> 1 \<and> 0 < cfg_Jitter c \<and> cfg_Jitter c < 1 / 2 \<and>
     cfg_Mode c \<noteq> Mode 0 \<and> cfg_Evidence c \<noteq> EvidenceMode 0 \<and>
     \<not> (cfg_Mode c = ModeLeader \<and> cfg_Evidence c = EvidenceShadowOnly) \<and>
     0 < cfg_LocalDiscount c \<and> cfg_LocalDiscount c \<le> 1 \<and> cfg_MaxEvidence c \<noteq> 0 \<and>
     0 < cfg_SyncTimeout c \<and> cfg_NodeID c \<noteq> ''''"

lemma default_ranges:
  "0 < DefaultWindow" "0 < DefaultDecay" "DefaultDecay \<le> 1" "0 < DefaultJitter" "DefaultJitter < 1 / 2"
  "0 < DefaultLocalDiscount" "DefaultLocalDiscount \<le> 1" "DefaultMaxEvidence \<noteq> 0"
  by code_simp+

lemma defaultNodeID_nonempty: "defaultNodeID sys seed \<noteq> ''''"
  by (simp add: defaultNodeID_def Let_def)

lemma fill_defaults_frame [simp]:
  "cfg_HasStore (fill_defaults sys c) = cfg_HasStore c"
  "cfg_Namespace (fill_defaults sys c) = cfg_Namespace c"
  "cfg_CoordinationEpoch (fill_defaults sys c) = cfg_CoordinationEpoch c"
  "cfg_Mode (fill_defaults sys c) = cfg_Mode c"
  "cfg_Evidence (fill_defaults sys c) = cfg_Evidence c"
  by (simp_all add: fill_defaults_def Let_def)

lemma fill_defaults_fields:
  "cfg_Window (fill_defaults sys c) = (if cfg_Window c = 0 then DefaultWindow else cfg_Window c)"
  "cfg_Decay (fill_defaults sys c) = (if cfg_Decay c = 0 then DefaultDecay else cfg_Decay c)"
  "cfg_Jitter (fill_defaults sys c) = (if cfg_Jitter c = 0 then DefaultJitter else cfg_Jitter c)"
  "cfg_LocalDiscount (fill_defaults sys c) =
    (if cfg_LocalDiscount c \<le> 0 \<or> cfg_LocalDiscount c > 1 then DefaultLocalDiscount else cfg_LocalDiscount c)"
  "cfg_MaxEvidence (fill_defaults sys c) = (if cfg_MaxEvidence c = 0 then DefaultMaxEvidence else cfg_MaxEvidence c)"
  "cfg_FallbackAfter (fill_defaults sys c) =
    (if cfg_FallbackAfter c \<le> 0 then go_int64 (3 * cfg_CoordinationEpoch c) else cfg_FallbackAfter c)"
  "cfg_SyncTimeout (fill_defaults sys c) =
    (if cfg_SyncTimeout c \<le> 0 then cfg_CoordinationEpoch c else cfg_SyncTimeout c)"
  "cfg_Seed (fill_defaults sys c) = (if cfg_Seed c = 0 then fresh_seed sys else cfg_Seed c)"
  "cfg_NodeID (fill_defaults sys c) = '''' \<longleftrightarrow> False"
  by (simp_all add: fill_defaults_def Let_def defaultNodeID_nonempty)

text \<open>How long a coordination epoch is does not matter to the checks, as long as it is positive.\<close>

lemma validate_any_epoch:
  assumes "0 < cfg_CoordinationEpoch c" and "0 < ep"
  shows "isl (validate sys (c\<lparr>cfg_CoordinationEpoch := ep\<rparr>)) \<longleftrightarrow> isl (validate sys c)"
  using assms by (simp add: validate_def Let_def names)

lemma validate_ok: "validate sys c = Inr c' \<Longrightarrow> config_ok c'"
  using default_ranges
  by (auto simp: validate_def config_ok_def Let_def fill_defaults_fields names split: if_splits)

text \<open>
  The lifetimes are exact as long as the longest of them fits an \<^verbatim>\<open>int64\<close>: with a one-second epoch that
  is a window of nine billion buckets.
\<close>

definition moderate :: "config \<Rightarrow> bool" where
  "moderate c \<longleftrightarrow> (cfg_Window c + 2) * cfg_CoordinationEpoch c < 2 ^ 63"

lemma lifetimes_exact:
  assumes "config_ok c" and "moderate c"
  shows "counterTTL c = (cfg_Window c + 2) * cfg_CoordinationEpoch c"
    and "leaderTTL c = 2 * cfg_CoordinationEpoch c" and "decisionTTL c = 3 * cfg_CoordinationEpoch c"
proof -
  have pos: "0 < cfg_CoordinationEpoch c" "0 < cfg_Window c" using assms(1) by (simp_all add: config_ok_def)
  have b: "(cfg_Window c + 2) * cfg_CoordinationEpoch c < 2 ^ 63" using assms(2) by (simp add: moderate_def)
  have three: "3 * cfg_CoordinationEpoch c \<le> (cfg_Window c + 2) * cfg_CoordinationEpoch c"
    using pos by (intro mult_right_mono) simp_all
  have "cfg_Window c + 2 \<le> (cfg_Window c + 2) * cfg_CoordinationEpoch c"
    using pos by (simp add: mult_le_cancel_left1)
  with b have "cfg_Window c + 2 < 2 ^ 63" by linarith
  with pos have w: "go_int64 (cfg_Window c + 2) = cfg_Window c + 2" by (intro go_int64_exact) simp_all
  show "counterTTL c = (cfg_Window c + 2) * cfg_CoordinationEpoch c"
    unfolding counterTTL_def w using b pos by (intro go_int64_exact) (simp_all add: order_trans [of _ 0])
  from b three have "3 * cfg_CoordinationEpoch c < 2 ^ 63" by linarith
  with pos show "leaderTTL c = 2 * cfg_CoordinationEpoch c" "decisionTTL c = 3 * cfg_CoordinationEpoch c"
    unfolding leaderTTL_def decisionTTL_def by (auto intro!: go_int64_exact)
qed

end
