(* ===== verification/Thompson.thy ===== *)
theory Thompson
  imports Evidence CacheState
begin

text \<open>
  \<^verbatim>\<open>src/bandit/thompson.go\<close>: the local bandits. The Beta draw is a parameter \<open>beta\<close> that threads the
  generator's state (theory \<open>BetaSample\<close> models the one the code uses).
\<close>

subsection \<open>Thompson sampling\<close>

record 'r thompson =
  t_hits :: "(policy_type, float64) mapping"
  t_misses :: "(policy_type, float64) mapping"
  t_order :: "policy_type list"
  t_discount :: float64
  t_rng :: 'r

definition NewThompson :: "float64 \<Rightarrow> 'r \<Rightarrow> 'r thompson" where
  "NewThompson discount rng =
     \<lparr>t_hits = Mapping.empty, t_misses = Mapping.empty, t_order = [],
      t_discount = (if discount \<le> 0 \<or> discount > 1 then 1 else discount), t_rng = rng\<rparr>"

definition rate_at :: "(policy_type, float64) mapping \<Rightarrow> policy_type \<Rightarrow> float64" where
  "rate_at m p = (case Mapping.lookup m p of None \<Rightarrow> 0 | Some x \<Rightarrow> x)"

definition recordLocked :: "shadow_stats \<Rightarrow> 'r thompson \<Rightarrow> 'r thompson" where
  "recordLocked stats b =
     (let b = (if Mapping.lookup (t_hits b) (ss_policy stats) = None
               then b\<lparr>t_order := sort (t_order b @ [ss_policy stats])\<rparr> else b);
          b = b\<lparr>t_hits := Mapping.update (ss_policy stats)
                (f64_add (f64_mul (rate_at (t_hits b) (ss_policy stats)) (t_discount b)) (f64_of_int (ss_hits stats)))
                (t_hits b)\<rparr>
      in b\<lparr>t_misses := Mapping.update (ss_policy stats)
             (f64_add (f64_mul (rate_at (t_misses b) (ss_policy stats)) (t_discount b)) (f64_of_int (ss_misses stats)))
             (t_misses b)\<rparr>)"

definition thompson_record :: "'r thompson \<Rightarrow> shadow_stats \<Rightarrow> 'r thompson" where
  "thompson_record b stats = recordLocked stats b"

definition sample_arm ::
  "'r beta_fn \<Rightarrow> 'r thompson \<Rightarrow> policy_type \<Rightarrow> 'r \<times> policy_type \<times> float64 \<Rightarrow> 'r \<times> policy_type \<times> float64" where
  "sample_arm beta b policy = (\<lambda>(rng, best, bestSample).
     let (rng, sample) = beta rng (f64_add 1 (rate_at (t_hits b) policy)) (f64_add 1 (rate_at (t_misses b) policy))
     in if sample > bestSample \<or> sample = bestSample \<and> policy < best
        then (rng, policy, sample) else (rng, best, bestSample))"

definition thompson_select :: "'r beta_fn \<Rightarrow> 'r thompson \<Rightarrow> 'r thompson \<times> policy_type" where
  "thompson_select beta b =
     (let (rng, best, bestSample) = fold (sample_arm beta b) (t_order b) (t_rng b, Undefined, - 1)
      in (b\<lparr>t_rng := rng\<rparr>, best))"

text \<open>\<^verbatim>\<open>Arms\<close> promises no order, so its result is a set.\<close>

definition thompson_arms :: "'r thompson \<Rightarrow> policy_type set" where
  "thompson_arms b = Mapping.keys (t_hits b)"

definition thompson_ops :: "'r beta_fn \<Rightarrow> 'r thompson bandit_ops" where
  "thompson_ops beta =
     \<lparr>bo_record_stats = thompson_record, bo_select_policy = thompson_select beta, bo_record_epoch = None\<rparr>"

subsection \<open>The greedy bandit\<close>

type_synonym greedy = "(policy_type, float64) mapping"

definition NewGreedy :: greedy where
  "NewGreedy = Mapping.empty"

definition greedy_record :: "greedy \<Rightarrow> shadow_stats \<Rightarrow> greedy" where
  "greedy_record b stats =
     (let total = ss_hits stats + ss_misses stats in
      if total = 0 then b
      else Mapping.update (ss_policy stats) (f64_div (f64_of_int (ss_hits stats)) (f64_of_int total)) b)"

definition greedy_arm :: "greedy \<Rightarrow> policy_type \<Rightarrow> policy_type \<times> float64 \<Rightarrow> policy_type \<times> float64" where
  "greedy_arm b policy = (\<lambda>(best, bestRate).
     let rate = rate_at b policy in
     if rate > bestRate \<or> rate = bestRate \<and> policy < best then (policy, rate) else (best, bestRate))"

text \<open>The range over the map visits its keys in an arbitrary order \<open>arms\<close>.\<close>

definition greedy_select_in :: "policy_type list \<Rightarrow> greedy \<Rightarrow> policy_type" where
  "greedy_select_in arms b = fst (fold (greedy_arm b) arms (Undefined, - 1))"

definition greedy_select :: "greedy \<Rightarrow> greedy \<times> policy_type" where
  "greedy_select b = (b, greedy_select_in (Mapping.ordered_keys b) b)"

definition greedy_ops :: "greedy bandit_ops" where
  "greedy_ops = \<lparr>bo_record_stats = greedy_record, bo_select_policy = greedy_select, bo_record_epoch = None\<rparr>"

subsection \<open>The order of the arms\<close>

definition thompson_inv :: "'r thompson \<Rightarrow> bool" where
  "thompson_inv b \<longleftrightarrow>
     sorted (t_order b) \<and> distinct (t_order b) \<and> set (t_order b) = Mapping.keys (t_hits b) \<and>
     Mapping.keys (t_misses b) = Mapping.keys (t_hits b)"

lemma NewThompson_inv: "thompson_inv (NewThompson discount rng)"
  by (simp add: thompson_inv_def NewThompson_def)

lemma thompson_record_inv:
  assumes "thompson_inv b"
  shows "thompson_inv (thompson_record b stats)"
proof (cases "ss_policy stats \<in> Mapping.keys (t_hits b)")
  case True
  with assms show ?thesis
    by (auto simp: thompson_inv_def thompson_record_def recordLocked_def Let_def in_mapping_keys insert_absorb)
next
  case False
  with assms show ?thesis
    by (simp add: thompson_inv_def thompson_record_def recordLocked_def Let_def in_mapping_keys)
qed

lemma thompson_select_inv [simp]: "thompson_inv (fst (thompson_select beta b)) \<longleftrightarrow> thompson_inv b"
  by (simp add: thompson_select_def thompson_inv_def split_beta Let_def)

text \<open>The arms are visited in the order of their numbers, whatever order they first reported in.\<close>

lemma thompson_order:
  "thompson_inv b \<Longrightarrow> t_order b = sorted_list_of_set (thompson_arms b)"
  by (metis List.finite_set sorted_distinct_set_unique sorted_list_of_set(1-3) thompson_arms_def thompson_inv_def)

text \<open>Reports of different arms commute: the posterior does not depend on the order they arrive in.\<close>

lemma mapping_update_twist:
  "k \<noteq> j \<Longrightarrow> Mapping.update k x (Mapping.update j y m) = Mapping.update j y (Mapping.update k x m)"
  by (rule mapping_eqI) auto

lemma rate_at_update [simp]: "rate_at (Mapping.update k x m) j = (if j = k then x else rate_at m j)"
  by (simp add: rate_at_def)

lemma thompson_records_commute:
  assumes "ss_policy s \<noteq> ss_policy t"
  shows "thompson_record (thompson_record b s) t = thompson_record (thompson_record b t) s"
proof -
  have "sort (sort (xs @ [p]) @ [q]) = sort (sort (xs @ [q]) @ [p])" for xs and p q :: policy_type
    by (rule properties_for_sort) simp_all
  with assms show ?thesis
    by (cases "Mapping.lookup (t_hits b) (ss_policy s)"; cases "Mapping.lookup (t_hits b) (ss_policy t)")
      (simp_all add: thompson_record_def recordLocked_def Let_def mapping_update_twist)
qed

subsection \<open>Selections\<close>

lemma sample_loop_best:
  assumes "fold (sample_arm beta b) arms (rng, best, bs) = (rng', best', bs')"
  shows "bs \<le> bs' \<and> (best' = best \<or> best' \<in> set arms)"
  using assms
proof (induction arms arbitrary: rng best bs)
  case (Cons p arms)
  obtain r1 b1 s1 where 1: "sample_arm beta b p (rng, best, bs) = (r1, b1, s1)"
    by (cases "sample_arm beta b p (rng, best, bs)")
  then have "bs \<le> s1 \<and> (b1 = best \<or> b1 = p)"
    by (auto simp: sample_arm_def Let_def split: prod.splits if_splits)
  with Cons.IH [of r1 b1 s1] Cons.prems 1 show ?case by fastforce
qed simp

lemma thompson_selects_arm:
  assumes inv: "thompson_inv b" and "draws_ok beta"
  shows "snd (thompson_select beta b) \<in> (if thompson_arms b = {} then {Undefined} else thompson_arms b)"
proof -
  have arms: "thompson_arms b = set (t_order b)" using inv by (simp add: thompson_inv_def thompson_arms_def)
  obtain r p s where f: "fold (sample_arm beta b) (t_order b) (t_rng b, Undefined, - 1) = (r, p, s)"
    by (cases "fold (sample_arm beta b) (t_order b) (t_rng b, Undefined, - 1)")
  show ?thesis
  proof (cases "t_order b")
    case Nil
    with f arms show ?thesis by (simp add: thompson_select_def)
  next
    case (Cons q qs)
    obtain r1 x where d: "beta (t_rng b) (f64_add 1 (rate_at (t_hits b) q)) (f64_add 1 (rate_at (t_misses b) q)) = (r1, x)"
      by fastforce
    then have x: "0 \<le> x" using assms(2) unfolding draws_ok_def by (metis snd_conv)
    then have "sample_arm beta b q (t_rng b, Undefined, - 1) = (r1, q, x)"
      using d by (simp add: sample_arm_def)
    with f Cons have "fold (sample_arm beta b) qs (r1, q, x) = (r, p, s)" by simp
    from sample_loop_best [OF this] x f Cons arms show ?thesis by (auto simp: thompson_select_def)
  qed
qed

text \<open>The greedy bandit's answer does not depend on the map's iteration order.\<close>

definition keep_better :: "'a::linorder \<Rightarrow> 'b::linorder \<Rightarrow> 'a \<times> 'b \<Rightarrow> 'a \<times> 'b" where
  "keep_better p r = (\<lambda>(q, s). if r > s \<or> r = s \<and> p < q then (p, r) else (q, s))"

lemma keep_better_commute: "keep_better p r (keep_better q s x) = keep_better q s (keep_better p r x)"
proof (cases x)
  case (Pair y t)
  show ?thesis unfolding Pair keep_better_def
    by (cases r s rule: linorder_cases; cases r t rule: linorder_cases; cases s t rule: linorder_cases)
      (auto dest: less_trans)
qed

lemma greedy_arm_commute: "greedy_arm b p \<circ> greedy_arm b q = greedy_arm b q \<circ> greedy_arm b p"
proof -
  have "greedy_arm b r = keep_better r (rate_at b r)" for r
    by (rule ext) (simp add: greedy_arm_def keep_better_def Let_def)
  then show ?thesis unfolding comp_def by (simp only: keep_better_commute)
qed

lemma greedy_any_order:
  assumes "distinct arms" and "set arms = Mapping.keys b"
  shows "greedy_select_in arms b = snd (greedy_select b)"
proof -
  have fin: "finite (Mapping.keys b)" using assms(2) by (metis List.finite_set)
  then have "mset arms = mset (Mapping.ordered_keys b)"
    using assms by (simp add: Mapping.ordered_keys_def flip: set_eq_iff_mset_eq_distinct)
  then have "fold (greedy_arm b) arms = fold (greedy_arm b) (Mapping.ordered_keys b)"
    by (intro fold_multiset_equiv) (simp_all add: greedy_arm_commute)
  then show ?thesis by (simp add: greedy_select_def greedy_select_in_def)
qed

text \<open>It is the lowest numbered of the arms with the highest rate.\<close>

lemma greedy_loop_max:
  assumes "fold (greedy_arm b) arms (best, br) = (p, r)"
  shows "br \<le> r \<and> (\<forall>q \<in> set arms. rate_at b q \<le> r \<and> (rate_at b q = r \<longrightarrow> p \<le> q)) \<and> (br = r \<longrightarrow> p \<le> best) \<and>
    ((p, r) = (best, br) \<or> p \<in> set arms \<and> r = rate_at b p)"
  using assms
proof (induction arms arbitrary: best br)
  case (Cons q arms)
  obtain b1 r1 where 1: "greedy_arm b q (best, br) = (b1, r1)" by (cases "greedy_arm b q (best, br)")
  with Cons.prems have "fold (greedy_arm b) arms (b1, r1) = (p, r)" by simp
  from Cons.IH [OF this] 1 show ?case
    by (auto simp: greedy_arm_def Let_def split: if_splits)
qed simp

end
