(* ===== verification/PolicyNames.thy ===== *)
theory PolicyNames
  imports PolicyTypes GoFormat
begin

text \<open>
  The generated \<^verbatim>\<open>PolicyType.String\<close> (\<^verbatim>\<open>src/policytype_string.go\<close>): a name is cut out of one long
  string by a table of offsets. The conversion \<^verbatim>\<open>int(i)\<close> of an unsigned number of at least \<open>2^63\<close> is
  negative, and indexing the table with it panics; the result is therefore an option.
\<close>

definition PolicyType_name :: string where
  "PolicyType_name = ''UndefinedLRULFUTwoQueueARCRandomTTLTinyLFU''"

definition PolicyType_index :: "int list" where
  "PolicyType_index = [0, 9, 12, 15, 23, 26, 32, 35, 42]"

text \<open>\<^verbatim>\<open>s[a:b]\<close>, which panics unless \<open>0 \<le> a \<le> b \<le> len(s)\<close>\<close>

definition slice_sub :: "'a list \<Rightarrow> int \<Rightarrow> int \<Rightarrow> 'a list option" where
  "slice_sub xs a b =
     (if 0 \<le> a \<and> a \<le> b \<and> b \<le> int (length xs) then Some (take (nat (b - a)) (drop (nat a) xs)) else None)"

definition policy_string :: "policy_type \<Rightarrow> string option" where
  "policy_string i =
     (let idx = sint (policy_num i) - 0 in
      if idx \<ge> int (length PolicyType_index) - 1
      then Some (''PolicyType('' @ format_int (sint (policy_num i)) @ '')'')
      else do {
        a \<leftarrow> slice_get PolicyType_index idx;
        b \<leftarrow> slice_get PolicyType_index (idx + 1);
        slice_sub PolicyType_name a b
      })"

lemma index_length [simp]: "length PolicyType_index = 9"
  by (simp add: PolicyType_index_def)

lemma sint_cases64: "sint (w :: 64 word) = (if uint w < 2 ^ 63 then uint w else uint w - 2 ^ 64)"
proof -
  have "uint w = sint w mod 2 ^ 64" by (simp add: uint_sint take_bit_eq_mod)
  moreover have "- (2 ^ 63) \<le> sint w" "sint w < 2 ^ 63" using sint_ge [of w] sint_lt [of w] by simp_all
  moreover have "sint w mod 2 ^ 64 = (if sint w < 0 then sint w + 2 ^ 64 else sint w)"
    using calculation(2,3) mod_add_self2 [of "sint w" "2 ^ 64"]
    by (auto simp: mod_pos_pos_trivial simp del: mod_add_self2)
  ultimately show ?thesis by (auto split: if_splits)
qed

text \<open>The seven names and the name of the zero value.\<close>

lemma policy_strings:
  "policy_string Undefined = Some ''Undefined''"
  "policy_string LRU = Some ''LRU''"
  "policy_string LFU = Some ''LFU''"
  "policy_string TwoQueue = Some ''TwoQueue''"
  "policy_string ARC = Some ''ARC''"
  "policy_string Random = Some ''Random''"
  "policy_string TTL = Some ''TTL''"
  "policy_string TinyLFU = Some ''TinyLFU''"
  by code_simp+

lemma small_policy_cases:
  assumes "uint (policy_num p) < 8"
  shows "p \<in> {Undefined, LRU, LFU, TwoQueue, ARC, Random, TTL, TinyLFU}"
proof -
  obtain w where p: "p = PolicyType w" by (cases p)
  have "n \<in> {0, 1, 2, 3, 4, 5, 6, 7}" if "0 \<le> n" "n < 8" for n :: int
    using that by auto
  from this [of "uint w"] assms p have "uint w \<in> {0, 1, 2, 3, 4, 5, 6, 7}" by simp
  then have "w \<in> word_of_int ` {0, 1, 2, 3, 4, 5, 6, 7}" by (metis image_eqI word_of_int_uint)
  then show ?thesis by (auto simp: p names)
qed

lemma policy_string_large:
  assumes "8 \<le> uint (policy_num p)"
  shows "policy_string p = (if uint (policy_num p) < 2 ^ 63
    then Some (''PolicyType('' @ format_int (uint (policy_num p)) @ '')'') else None)"
  using assms uint_lt2p [of "policy_num p"]
  by (auto simp: policy_string_def sint_cases64 slice_get_def)

text \<open>Two policies with the same name are the same policy.\<close>

lemma policy_string_inject:
  assumes "policy_string p = Some s" and "policy_string q = Some s"
  shows "p = q"
proof -
  have name: "hd s \<in> {CHR ''U'', CHR ''L'', CHR ''T'', CHR ''A'', CHR ''R''}"
    if "policy_string r = Some s" "uint (policy_num r) < 8" for r
    using small_policy_cases [OF that(2)] that(1) by (auto simp: policy_strings)
  have num: "hd s = CHR ''P'' \<and> s = ''PolicyType('' @ format_int (uint (policy_num r)) @ '')''"
    if "policy_string r = Some s" "\<not> uint (policy_num r) < 8" for r
    using that policy_string_large [of r] by (auto split: if_splits)
  consider "uint (policy_num p) < 8" "uint (policy_num q) < 8"
    | "\<not> uint (policy_num p) < 8" "\<not> uint (policy_num q) < 8"
    | "(uint (policy_num p) < 8) \<noteq> (uint (policy_num q) < 8)" by blast
  then show ?thesis
  proof cases
    case 1
    then show ?thesis
      using small_policy_cases [of p] small_policy_cases [of q] assms by (auto simp: policy_strings)
  next
    case 2
    then have "uint (policy_num p) = uint (policy_num q)"
      using num [OF assms(1)] num [OF assms(2)] by simp
    then show ?thesis by (simp add: policy_type.expand word_uint_eq_iff)
  next
    case 3
    then show ?thesis using name num assms by fastforce
  qed
qed

end
