(* ===== verification/Fingerprint.thy ===== *)
theory Fingerprint
  imports PolicyNames CacheState
begin

text \<open>
  \<^verbatim>\<open>src/bandit/fingerprint.go\<close>: the identity of what a cache measures, its rendering, the hash of the
  rendering, and the namespace replicas of that regime coordinate under. Rendering panics where
  \<^verbatim>\<open>PolicyType.String\<close> does.
\<close>

record regime =
  rg_arms :: "policy_type list"
  rg_capacity :: int
  rg_sampleRate :: float64

text \<open>\<^verbatim>\<open>strings.Join\<close>\<close>

fun go_join :: "string \<Rightarrow> string list \<Rightarrow> string" where
  "go_join sep [] = ''''"
| "go_join sep [x] = x"
| "go_join sep (x # y # xs) = x @ sep @ go_join sep (y # xs)"

definition regime_string :: "regime \<Rightarrow> string option" where
  "regime_string r = do {
     names \<leftarrow> those (map policy_string (rg_arms r));
     Some (''arms='' @ go_join '','' names @ '';cap='' @ format_int (rg_capacity r) @ '';rate='' @
       format_fixed4 (rg_sampleRate r))
   }"

text \<open>64-bit FNV-1a, as \<^verbatim>\<open>hash/fnv\<close> documents it.\<close>

definition fnv64a :: "string \<Rightarrow> 64 word" where
  "fnv64a s = foldl (\<lambda>h c. xor h (of_char c) * 1099511628211) 14695981039346656037 s"

definition fingerprint :: "regime \<Rightarrow> string option" where
  "fingerprint r = do {
     s \<leftarrow> regime_string r;
     Some (format_hex12 (take_bit 48 (fnv64a s)))
   }"

definition regimeOf :: "epoch_report \<Rightarrow> regime" where
  "regimeOf report =
     \<lparr>rg_arms = map ss_policy (er_Stats report), rg_capacity = er_Capacity report,
      rg_sampleRate = er_SampleRate report\<rparr>"

definition regime_equal :: "regime \<Rightarrow> regime \<Rightarrow> bool option" where
  "regime_equal r other = do {
     a \<leftarrow> regime_string r;
     b \<leftarrow> regime_string other;
     Some (a = b)
   }"

definition scopedNamespace :: "string \<Rightarrow> regime \<Rightarrow> string option" where
  "scopedNamespace namespace r = do {
     f \<leftarrow> fingerprint r;
     Some (namespace @ '':'' @ f)
   }"

subsection \<open>When rendering panics\<close>

lemma those_defined: "those xs \<noteq> None \<longleftrightarrow> (\<forall>x \<in> set xs. x \<noteq> None)"
  by (induction xs) (auto split: option.splits)

lemma those_SomeD: "those xs = Some ys \<Longrightarrow> xs = map Some ys"
  by (induction xs arbitrary: ys) (auto split: option.splits)

lemma policy_string_defined: "policy_string p \<noteq> None \<longleftrightarrow> uint (policy_num p) < 2 ^ 63"
proof (cases "uint (policy_num p) < 8")
  case True
  then show ?thesis using small_policy_cases [OF True] by (auto simp: policy_strings)
next
  case False
  then show ?thesis by (auto simp: policy_string_large)
qed

lemma regime_string_defined:
  "regime_string r \<noteq> None \<longleftrightarrow> (\<forall>p \<in> set (rg_arms r). uint (policy_num p) < 2 ^ 63)"
proof -
  have "regime_string r \<noteq> None \<longleftrightarrow> those (map policy_string (rg_arms r)) \<noteq> None"
    by (cases "those (map policy_string (rg_arms r))") (simp_all add: regime_string_def)
  then show ?thesis by (simp only: those_defined set_map ball_simps policy_string_defined)
qed

lemma fingerprint_length: "fingerprint r = Some f \<Longrightarrow> length f = 12"
  using take_bit_nat_less_exp [of 48 "unat (fnv64a s)" for s]
  by (auto simp: fingerprint_def bind_eq_Some_conv unsigned_take_bit_eq intro!: format_hex12_length)

subsection \<open>What a rendering determines\<close>

text \<open>No name contains a separator, so a rendering can be taken apart again.\<close>

definition plain :: "char \<Rightarrow> string \<Rightarrow> bool" where
  "plain c s \<longleftrightarrow> c \<notin> set s"

lemma cut: "plain c x \<Longrightarrow> plain c y \<Longrightarrow> x @ c # u = y @ c # v \<longleftrightarrow> x = y \<and> u = v"
  by (induction x arbitrary: y; case_tac y) (auto simp: plain_def)

lemma digits_plain:
  assumes "c \<in> {CHR '';'', CHR '','', CHR ''.''}"
  shows "plain c (digits 10 n)"
proof -
  have "c \<noteq> digit_char d" if "d < 10" for d
  proof
    assume "c = digit_char d"
    then have "(of_char c :: nat) = 48 + d" using that by (simp add: of_char_digit)
    with assms that show False by auto
  qed
  with digits_chars [of 10 n] show ?thesis by (auto simp: plain_def)
qed

lemma format_int_plain: "c \<in> {CHR '';'', CHR '','', CHR ''.''} \<Longrightarrow> plain c (format_int n)"
  using digits_plain [of c] by (auto simp: format_int_def plain_def minus_sign_def)

lemma policy_string_plain:
  assumes "policy_string p = Some s" and "c \<in> {CHR '';'', CHR '',''}"
  shows "plain c s \<and> s \<noteq> ''''"
proof (cases "uint (policy_num p) < 8")
  case True
  then show ?thesis
    using small_policy_cases [OF True] assms by (auto simp: policy_strings plain_def)
next
  case False
  then have "s = ''PolicyType('' @ format_int (uint (policy_num p)) @ '')''"
    using assms policy_string_large [of p] by (auto split: if_splits)
  with format_int_plain [of c "uint (policy_num p)"] assms(2) show ?thesis by (auto simp: plain_def)
qed

lemma go_join_plain: "plain c sep \<Longrightarrow> \<forall>x \<in> set xs. plain c x \<Longrightarrow> plain c (go_join sep xs)"
  by (induction sep xs rule: go_join.induct) (auto simp: plain_def)

lemma go_join_inject:
  assumes "\<forall>x \<in> set xs. plain c x \<and> x \<noteq> ''''" "\<forall>y \<in> set ys. plain c y \<and> y \<noteq> ''''"
    and "go_join [c] xs = go_join [c] ys"
  shows "xs = ys"
  using assms
proof (induction "[c]" xs arbitrary: ys rule: go_join.induct)
  case 1
  then show ?case by (cases ys rule: go_join.cases [of "([c], ys)" for ys, simplified]) auto
next
  case (2 x)
  then show ?case
    by (cases ys rule: go_join.cases [of "([c], ys)" for ys, simplified]) (auto simp: plain_def)
next
  case (3 x y xs)
  note IH = "3.hyps" and prems = "3.prems"
  show ?case using prems
  proof (cases ys rule: go_join.cases [of "([c], ys)" for ys, simplified])
    case (3 y1 y2 ys2)
    with prems have "x = y1" "go_join [c] (y # xs) = go_join [c] (y2 # ys2)" by (simp_all add: cut)
    with IH [of "y2 # ys2"] prems 3 show ?thesis by simp
  qed (auto simp: plain_def)
qed

lemma format_fixed4_quantised:
  assumes "format_fixed4 x = format_fixed4 y" and "0 \<le> x" "0 \<le> y"
  shows "quantise4 x = quantise4 y"
proof -
  let ?n = "\<lambda>x. nat \<bar>quantise4 x\<bar>"
  have nn: "0 \<le> quantise4 z" if "0 \<le> z" for z
    using round_even_mono [of 0 "z * 10000"] that round_even_of_int [of 0] by (simp add: quantise4_def)
  have f: "format_fixed4 z = digits 10 (?n z div 10000) @ CHR ''.'' # pad_left 4 (digits 10 (?n z mod 10000))"
    if "0 \<le> z" for z using that by (simp add: format_fixed4_def Let_def)
  from assms have "digits 10 (?n x div 10000) = digits 10 (?n y div 10000)"
    and "pad_left 4 (digits 10 (?n x mod 10000)) = pad_left 4 (digits 10 (?n y mod 10000))"
    by (simp_all add: f cut [OF digits_plain digits_plain])
  then have "undigits 10 (digits 10 (?n x div 10000)) = undigits 10 (digits 10 (?n y div 10000))"
    and "undigits 10 (pad_left 4 (digits 10 (?n x mod 10000))) = undigits 10 (pad_left 4 (digits 10 (?n y mod 10000)))"
    by simp_all
  then have "?n x div 10000 = ?n y div 10000" "?n x mod 10000 = ?n y mod 10000"
    by (simp_all add: undigits_digits)
  then have "?n x = ?n y" by (metis div_mult_mod_eq)
  with nn [OF assms(2)] nn [OF assms(3)] show ?thesis by simp
qed

lemma regime_string_inject:
  assumes "regime_string r = Some s" and "regime_string q = Some s"
    and rates: "0 \<le> rg_sampleRate r" "0 \<le> rg_sampleRate q"
  shows "rg_arms r = rg_arms q \<and> rg_capacity r = rg_capacity q \<and>
    quantise4 (rg_sampleRate r) = quantise4 (rg_sampleRate q)"
proof -
  obtain ns ms where ns: "those (map policy_string (rg_arms r)) = Some ns"
    and ms: "those (map policy_string (rg_arms q)) = Some ms"
    and eq: "go_join '','' ns @ '';cap='' @ format_int (rg_capacity r) @ '';rate='' @ format_fixed4 (rg_sampleRate r) =
      go_join '','' ms @ '';cap='' @ format_int (rg_capacity q) @ '';rate='' @ format_fixed4 (rg_sampleRate q)"
    using assms(1,2) by (auto simp: regime_string_def bind_eq_Some_conv)
  note names = those_SomeD [OF ns] those_SomeD [OF ms]
  have p: "plain c x \<and> x \<noteq> ''''" if "x \<in> set ns \<union> set ms" "c \<in> {CHR '';'', CHR '',''}" for x c
  proof -
    have "Some x \<in> policy_string ` set (rg_arms r) \<union> policy_string ` set (rg_arms q)"
      using that(1) names by (metis Un_iff image_eqI list.set_map)
    then obtain a where "policy_string a = Some x" by auto
    from policy_string_plain [OF this that(2)] show ?thesis .
  qed
  have "plain CHR '';'' '',''" by (simp add: plain_def)
  moreover have "\<forall>x \<in> set ns. plain CHR '';'' x" "\<forall>x \<in> set ms. plain CHR '';'' x"
    using p [of _ "CHR '';''"] by blast+
  ultimately have "plain CHR '';'' (go_join '','' ns)" "plain CHR '';'' (go_join '','' ms)"
    by (simp_all add: go_join_plain)
  with eq have join: "go_join '','' ns = go_join '','' ms"
    and rest: "format_int (rg_capacity r) @ '';rate='' @ format_fixed4 (rg_sampleRate r) =
      format_int (rg_capacity q) @ '';rate='' @ format_fixed4 (rg_sampleRate q)"
    by (simp_all add: cut)
  have "ns = ms" using p [of _ "CHR '',''"] join by (intro go_join_inject [of ns "CHR '',''" ms]) auto
  then have "map policy_string (rg_arms r) = map policy_string (rg_arms q)" using names by simp
  moreover have "inj_on policy_string (set (rg_arms r) \<union> set (rg_arms q))"
  proof (rule inj_onI)
    fix a b assume a: "a \<in> set (rg_arms r) \<union> set (rg_arms q)" and eq: "policy_string a = policy_string b"
    have "policy_string a \<in> Some ` (set ns \<union> set ms)"
      using a names by (metis Un_iff image_Un image_eqI list.set_map)
    then obtain n where "policy_string a = Some n" by auto
    with eq show "a = b" by (intro policy_string_inject [of a n b]) simp_all
  qed
  ultimately have "rg_arms r = rg_arms q" by (rule map_inj_on)
  moreover have "plain CHR '';'' (format_int n)" for n by (rule format_int_plain) simp
  then have "format_int (rg_capacity r) = format_int (rg_capacity q)"
    and "format_fixed4 (rg_sampleRate r) = format_fixed4 (rg_sampleRate q)"
    using rest by (simp_all add: cut del: format_int_inject)
  ultimately show ?thesis using format_fixed4_quantised [OF _ rates] by simp
qed

text \<open>Regimes that compare equal coordinate under the same namespace.\<close>

lemma equal_same_namespace:
  "regime_equal r q = Some True \<Longrightarrow> scopedNamespace ns r = scopedNamespace ns q"
  by (auto simp: regime_equal_def scopedNamespace_def fingerprint_def bind_eq_Some_conv)

end
