(* ===== verification/Distributed.thy ===== *)
theory Distributed
  imports BanditConfig Thompson Fingerprint
begin

text \<open>
  The distributed bandit: \<^verbatim>\<open>src/bandit/distributed.go\<close> (what the cache calls) and
  \<^verbatim>\<open>src/bandit/coordinate.go\<close> (the coordination round).

  One replica is a record; the store's state is passed through the functions that call it, each of
  which makes at most one call at a time. What Go supplies is a \<^verbatim>\<open>dist_env\<close>: the store's operations, the
  Beta draw, \<^verbatim>\<open>math.Pow\<close> and the order in which a range visits a map of arms. The goroutine, its timer
  and \<^verbatim>\<open>Close\<close> are the environment: a coordination round happens whenever it likes (theory \<open>Fleet\<close>).
\<close>

record ('r, 's, 'w, 'e) dist_env =
  de_store :: "('s, 'w, 'e) store_ops"
  de_beta :: "'r beta_fn"
  de_pow :: "float64 \<Rightarrow> float64 \<Rightarrow> float64"
  de_visit :: visit

subsection \<open>The state of a replica\<close>

text \<open>The zero \<^verbatim>\<open>time.Time\<close> of a replica that never synced is \<^term>\<open>None\<close>.\<close>

record 'e dist_state =
  st_lastSync :: "int option"
  st_lastBucket :: bucket
  st_lastErr :: "'e option"
  st_syncs :: int
  st_syncFailures :: int
  st_leaderships :: int
  st_decisions :: int
  st_rejected :: int
  st_fallback :: bool
  st_fleet :: pooled

text \<open>\<open>d_shape\<close> is \<^term>\<open>None\<close> until \<^verbatim>\<open>haveShape\<close> is set.\<close>

record ('r, 'e) distributed =
  d_cfg :: config
  d_local :: "'r thompson"
  d_selection :: "64 word"
  d_rng :: 'r
  d_pending :: "(arm_key, policy_stats) mapping"
  d_shape :: "regime option"
  d_namespace :: string
  d_arms :: "policy_type set"
  d_state :: "'e dist_state"

text \<open>
  \<^verbatim>\<open>newDistributed\<close>; the two generators seeded from \<^verbatim>\<open>cfg.Seed\<close> are given by the function \<open>seed_rng\<close> of
  the seeds of the PCG source.
\<close>

definition newDistributed ::
  "process \<Rightarrow> (64 word \<Rightarrow> 64 word \<Rightarrow> 'r) \<Rightarrow> config \<Rightarrow> config_error + ('r, 'e) distributed" where
  "newDistributed sys seed_rng cfg =
     (case validate sys cfg of Inl err \<Rightarrow> Inl err | Inr cfg \<Rightarrow> Inr
        \<lparr>d_cfg = cfg,
         d_local = NewThompson (cfg_LocalDiscount cfg)
           (seed_rng (cfg_Seed cfg) (xor (cfg_Seed cfg) 0x9e3779b97f4a7c15)),
         d_selection = policy_num Undefined,
         d_rng = seed_rng (cfg_Seed cfg) (xor (cfg_Seed cfg) 0x2545f4914f6cdd1d),
         d_pending = Mapping.empty, d_shape = None, d_namespace = '''', d_arms = {},
         d_state = \<lparr>st_lastSync = None, st_lastBucket = 0, st_lastErr = None, st_syncs = 0,
           st_syncFailures = 0, st_leaderships = 0, st_decisions = 0, st_rejected = 0,
           st_fallback = False, st_fleet = Mapping.empty\<rparr>\<rparr>)"

subsection \<open>What the cache calls\<close>

definition addLocked :: "arm_key \<Rightarrow> shadow_stats \<Rightarrow> ('r, 'e) distributed \<Rightarrow> ('r, 'e) distributed" where
  "addLocked key stats d =
     (let counts = map_stats (Mapping.lookup (d_pending d)) key;
          counts = counts\<lparr>Hits := Hits counts + ss_hits stats\<rparr>;
          counts = counts\<lparr>Misses := Misses counts + ss_misses stats\<rparr>
      in d\<lparr>d_pending := Mapping.update key counts (d_pending d)\<rparr>)"

definition dist_record_stats :: "('r, 'e) distributed \<Rightarrow> shadow_stats \<Rightarrow> ('r, 'e) distributed" where
  "dist_record_stats d stats =
     (let d = d\<lparr>d_local := thompson_record (d_local d) stats\<rparr>;
          d = d\<lparr>d_arms := insert (ss_policy stats) (d_arms d)\<rparr>
      in addLocked (ArmKey (ss_policy stats) RoleShadow) stats d)"

definition epoch_role :: "epoch_report \<Rightarrow> shadow_stats \<Rightarrow> role" where
  "epoch_role report stats = (if ss_policy stats = er_Active report then RoleActive else RoleShadow)"

definition adopt_shape :: "epoch_report \<Rightarrow> ('r, 'e) distributed \<Rightarrow> ('r, 'e) distributed option" where
  "adopt_shape report d = do {
     let shape = regimeOf report;
     changed \<leftarrow> (case d_shape d of None \<Rightarrow> Some True
                  | Some old \<Rightarrow> map_option Not (regime_equal old shape));
     if changed
     then do {
       namespace \<leftarrow> scopedNamespace (cfg_Namespace (d_cfg d)) shape;
       Some (d\<lparr>d_shape := Some shape, d_namespace := namespace, d_pending := Mapping.empty,
               d_arms := set (map ss_policy (er_Stats report))\<rparr>)
     }
     else Some d
   }"

definition dist_record_epoch :: "('r, 'e) distributed \<Rightarrow> epoch_report \<Rightarrow> ('r, 'e) distributed option" where
  "dist_record_epoch d report = do {
     let d = d\<lparr>d_local := fold recordLocked (er_Stats report) (d_local d)\<rparr>;
     d \<leftarrow> adopt_shape report d;
     Some (fold (\<lambda>stats. addLocked (ArmKey (ss_policy stats) (epoch_role report stats)) stats)
             (er_Stats report) d)
   }"

definition dist_select :: "('r, 'e) distributed \<Rightarrow> policy_type" where
  "dist_select d = PolicyType (d_selection d)"

subsection \<open>The coordination round\<close>

definition knownArmLocked :: "policy_type \<Rightarrow> ('r, 'e) distributed \<Rightarrow> bool" where
  "knownArmLocked policy d \<longleftrightarrow> policy \<in> d_arms d"

definition drain ::
  "visit \<Rightarrow> ('r, 'e) distributed \<Rightarrow> ('r, 'e) distributed \<times> sync_request option" where
  "drain visit d =
     (case d_shape d of None \<Rightarrow> (d, None) | Some _ \<Rightarrow>
      let counts = map (\<lambda>key. let stats = map_stats (Mapping.lookup (d_pending d)) key in
             \<lparr>ac_Policy = ak_Policy key, ac_Role = ak_Role key,
              ac_Hits = Hits stats, ac_Misses = Misses stats\<rparr>) (visit (d_pending d));
          d = d\<lparr>d_pending := Mapping.empty\<rparr>
      in (d, Some \<lparr>sr_Namespace = d_namespace d, sr_NodeID = cfg_NodeID (d_cfg d), sr_Counts = counts,
           sr_EpochMillis = cfg_CoordinationEpoch (d_cfg d) sdiv 1000000,
           sr_CounterTTL = counterTTL (d_cfg d), sr_LeaderTTL = leaderTTL (d_cfg d),
           sr_Lead = (cfg_Mode (d_cfg d) = ModeLeader)\<rparr>))"

text \<open>\<open>now\<close> is the replica's own clock (\<^verbatim>\<open>cfg.Now\<close>), used for staleness only.\<close>

definition recordFailure ::
  "'r beta_fn \<Rightarrow> int \<Rightarrow> 'e \<Rightarrow> ('r, 'e) distributed \<Rightarrow> ('r, 'e) distributed" where
  "recordFailure beta now err d =
     (let d = d\<lparr>d_state := (d_state d)\<lparr>st_lastErr := Some err, st_syncFailures := st_syncFailures (d_state d) + 1\<rparr>\<rparr>;
          stale = (case st_lastSync (d_state d) of None \<Rightarrow> True
                   | Some t \<Rightarrow> now - t > cfg_FallbackAfter (d_cfg d))
      in if \<not> stale then d
         else let d = d\<lparr>d_state := (d_state d)\<lparr>st_fallback := True\<rparr>\<rparr>;
                  (l, choice) = thompson_select beta (d_local d);
                  d = d\<lparr>d_local := l\<rparr>
              in if choice = Undefined \<or> \<not> knownArmLocked choice d then d
                 else d\<lparr>d_selection := policy_num choice\<rparr>)"

definition recordFleet :: "pooled \<Rightarrow> ('r, 'e) distributed \<Rightarrow> ('r, 'e) distributed" where
  "recordFleet pooled d = d\<lparr>d_state := (d_state d)\<lparr>st_fleet := pooled\<rparr>\<rparr>"

text \<open>What the replica makes of a window that was read successfully.\<close>

definition pool_window ::
  "('r, 's, 'w, 'e) dist_env \<Rightarrow> config \<Rightarrow> bucket \<Rightarrow> window_counts list \<Rightarrow> pooled" where
  "pool_window E cfg newest window =
     capEvidence (aggregate (de_pow E) (de_visit E) window newest (cfg_Decay cfg) (cfg_Evidence cfg))
       (cfg_MaxEvidence cfg)"

definition readPooled ::
  "('r, 's, 'w, 'e) dist_env \<Rightarrow> 'w \<Rightarrow> int \<Rightarrow> string \<Rightarrow> bucket \<Rightarrow> ('r, 'e) distributed \<Rightarrow> 's
    \<Rightarrow> ('r, 'e) distributed \<times> 's \<times> pooled option" where
  "readPooled E w now namespace bucket d s =
     (let newest = bucket - 1;
          lo = newest - cfg_Window (d_cfg d) + 1;
          (s, result) = so_window (de_store E) w namespace lo newest s
      in case result of
           Inl err \<Rightarrow> (recordFailure (de_beta E) now err d, s, None)
         | Inr window \<Rightarrow>
             let pooled = pool_window E (d_cfg d) newest window
             in (recordFleet pooled d, s, Some pooled))"

definition leadBucket ::
  "('r, 's, 'w, 'e) dist_env \<Rightarrow> 'w \<Rightarrow> 'w \<Rightarrow> int \<Rightarrow> string \<Rightarrow> bucket \<Rightarrow> ('r, 'e) distributed \<Rightarrow> 's
    \<Rightarrow> ('r, 'e) distributed \<times> 's \<times> policy_type option" where
  "leadBucket E w_window w_decide now namespace bucket d s =
     (let d = d\<lparr>d_state := (d_state d)\<lparr>st_leaderships := st_leaderships (d_state d) + 1\<rparr>\<rparr>;
          (d, s, read) = readPooled E w_window now namespace bucket d s
      in case read of None \<Rightarrow> (d, s, None) | Some pooled \<Rightarrow>
      let (rng, choice) = draw (de_beta E) (d_rng d) pooled; d = d\<lparr>d_rng := rng\<rparr>
      in if choice = Undefined then (d, s, None)
         else let (s, result) = so_decide (de_store E) w_decide namespace bucket choice (decisionTTL (d_cfg d)) s
              in case result of
                   Inl err \<Rightarrow> (recordFailure (de_beta E) now err d, s, None)
                 | Inr inForce \<Rightarrow> (d, s, if inForce \<noteq> Undefined then Some inForce else None))"

definition drawShared ::
  "('r, 's, 'w, 'e) dist_env \<Rightarrow> 'w \<Rightarrow> int \<Rightarrow> string \<Rightarrow> bucket \<Rightarrow> ('r, 'e) distributed \<Rightarrow> 's
    \<Rightarrow> ('r, 'e) distributed \<times> 's \<times> policy_type option" where
  "drawShared E w now namespace bucket d s =
     (let (d, s, read) = readPooled E w now namespace bucket d s
      in case read of None \<Rightarrow> (d, s, None) | Some pooled \<Rightarrow>
      let (rng, choice) = draw (de_beta E) (d_rng d) pooled
      in (d\<lparr>d_rng := rng\<rparr>, s, if choice \<noteq> Undefined then Some choice else None))"

definition applyResult ::
  "int \<Rightarrow> bucket \<Rightarrow> policy_type option \<Rightarrow> ('r, 'e) distributed \<Rightarrow> ('r, 'e) distributed" where
  "applyResult now bucket decided d =
     (let d = d\<lparr>d_state := (d_state d)\<lparr>st_lastSync := Some now, st_lastBucket := bucket, st_lastErr := None,
                st_syncs := st_syncs (d_state d) + 1, st_fallback := False\<rparr>\<rparr>
      in case decided of
           None \<Rightarrow> d
         | Some decision \<Rightarrow>
             if \<not> knownArmLocked decision d
             then d\<lparr>d_state := (d_state d)\<lparr>st_rejected := st_rejected (d_state d) + 1\<rparr>\<rparr>
             else d\<lparr>d_state := (d_state d)\<lparr>st_decisions := st_decisions (d_state d) + 1\<rparr>,
                    d_selection := policy_num decision\<rparr>)"

text \<open>What each of the store calls of a round sees of the environment, and the replica's clock.\<close>

record 'w round =
  rd_sync :: 'w
  rd_window :: 'w
  rd_decide :: 'w
  rd_failed :: int
  rd_applied :: int

definition published :: "sync_result \<Rightarrow> policy_type option" where
  "published result = (if sy_HasDecision result then Some (sy_Decision result) else None)"

definition coordination_round ::
  "('r, 's, 'w, 'e) dist_env \<Rightarrow> 'w round \<Rightarrow> ('r, 'e) distributed \<Rightarrow> 's \<Rightarrow> ('r, 'e) distributed \<times> 's" where
  "coordination_round E rd d s =
     (let (d, drained) = drain (de_visit E) d
      in case drained of None \<Rightarrow> (d, s) | Some req \<Rightarrow>
      let (s, result) = so_sync (de_store E) (rd_sync rd) req s
      in case result of
           Inl err \<Rightarrow> (recordFailure (de_beta E) (rd_failed rd) err d, s)
         | Inr result \<Rightarrow>
             let (d, s, decided) =
               (if cfg_Mode (d_cfg d) = ModeSharedPosterior
                then drawShared E (rd_window rd) (rd_failed rd) (sr_Namespace req) (sy_Bucket result) d s
                else if sy_Leader result
                then let (d, s, choice) = leadBucket E (rd_window rd) (rd_decide rd) (rd_failed rd)
                           (sr_Namespace req) (sy_Bucket result) d s
                     in (d, s, if choice \<noteq> None then choice else published result)
                else (d, s, published result))
             in (applyResult (rd_applied rd) (sy_Bucket result) decided d, s))"

text \<open>\<^verbatim>\<open>nextInterval\<close>: the epoch with jitter; \<open>u\<close> is the draw of \<^verbatim>\<open>rng.Float64\<close>.\<close>

definition nextInterval :: "config \<Rightarrow> float64 \<Rightarrow> int" where
  "nextInterval cfg u =
     (if cfg_Jitter cfg \<le> 0 then cfg_CoordinationEpoch cfg
      else let spread = f64_mul (f64_of_int (cfg_CoordinationEpoch cfg)) (cfg_Jitter cfg);
               offset = f64_mul (f64_sub (f64_mul u 2) 1) spread;
               x = f64_add (f64_of_int (cfg_CoordinationEpoch cfg)) offset
           in if 0 \<le> x then \<lfloor>x\<rfloor> else \<lceil>x\<rceil>)"

end
