(* ===== verification/DistributedFacts.thy ===== *)
theory DistributedFacts
  imports Distributed
begin

text \<open>
  Facts about one replica of the distributed bandit: what each function leaves alone, the invariant of
  the replica's state, that every measured count reaches the request of the next round exactly once, and
  which selections a round can make.
\<close>

subsection \<open>Frames\<close>

lemma addLocked_frame [frames]:
  "d_cfg (addLocked k x d) = d_cfg d" "d_local (addLocked k x d) = d_local d"
  "d_selection (addLocked k x d) = d_selection d" "d_rng (addLocked k x d) = d_rng d"
  "d_shape (addLocked k x d) = d_shape d" "d_namespace (addLocked k x d) = d_namespace d"
  "d_arms (addLocked k x d) = d_arms d" "d_state (addLocked k x d) = d_state d"
  by (simp_all add: addLocked_def Let_def)

lemma recordFailure_frame [frames]:
  "d_cfg (recordFailure beta now err d) = d_cfg d" "d_rng (recordFailure beta now err d) = d_rng d"
  "d_pending (recordFailure beta now err d) = d_pending d" "d_shape (recordFailure beta now err d) = d_shape d"
  "d_namespace (recordFailure beta now err d) = d_namespace d" "d_arms (recordFailure beta now err d) = d_arms d"
  by (simp_all add: recordFailure_def Let_def split_beta split: option.splits)

lemma readPooled_frame [frames]:
  "d_cfg (fst (readPooled E w now ns b d s)) = d_cfg d" "d_rng (fst (readPooled E w now ns b d s)) = d_rng d"
  "d_pending (fst (readPooled E w now ns b d s)) = d_pending d"
  "d_shape (fst (readPooled E w now ns b d s)) = d_shape d"
  "d_namespace (fst (readPooled E w now ns b d s)) = d_namespace d"
  "d_arms (fst (readPooled E w now ns b d s)) = d_arms d"
  by (simp_all add: readPooled_def Let_def split_beta recordFleet_def frames split: sum.splits)

lemma drawShared_frame [frames]:
  "d_cfg (fst (drawShared E w now ns b d s)) = d_cfg d"
  "d_pending (fst (drawShared E w now ns b d s)) = d_pending d"
  "d_shape (fst (drawShared E w now ns b d s)) = d_shape d"
  "d_namespace (fst (drawShared E w now ns b d s)) = d_namespace d"
  "d_arms (fst (drawShared E w now ns b d s)) = d_arms d"
  by (simp_all add: drawShared_def Let_def split_beta frames split: option.splits)

lemma leadBucket_frame [frames]:
  "d_cfg (fst (leadBucket E w w' now ns b d s)) = d_cfg d"
  "d_pending (fst (leadBucket E w w' now ns b d s)) = d_pending d"
  "d_shape (fst (leadBucket E w w' now ns b d s)) = d_shape d"
  "d_namespace (fst (leadBucket E w w' now ns b d s)) = d_namespace d"
  "d_arms (fst (leadBucket E w w' now ns b d s)) = d_arms d"
  by (simp_all add: leadBucket_def Let_def split_beta frames split: option.splits sum.splits)

lemma applyResult_frame [frames]:
  "d_cfg (applyResult now b r d) = d_cfg d" "d_local (applyResult now b r d) = d_local d"
  "d_rng (applyResult now b r d) = d_rng d" "d_pending (applyResult now b r d) = d_pending d"
  "d_shape (applyResult now b r d) = d_shape d" "d_namespace (applyResult now b r d) = d_namespace d"
  "d_arms (applyResult now b r d) = d_arms d"
  by (simp_all add: applyResult_def Let_def split: option.splits)

lemma drain_frame [frames]:
  "d_cfg (fst (drain v d)) = d_cfg d" "d_local (fst (drain v d)) = d_local d"
  "d_selection (fst (drain v d)) = d_selection d" "d_rng (fst (drain v d)) = d_rng d"
  "d_shape (fst (drain v d)) = d_shape d" "d_namespace (fst (drain v d)) = d_namespace d"
  "d_arms (fst (drain v d)) = d_arms d" "d_state (fst (drain v d)) = d_state d"
  by (simp_all add: drain_def Let_def split: option.splits)

text \<open>The shape of a round: what was drained, what the store answered, what was decided.\<close>

lemma round_cases:
  assumes "coordination_round E rd d s = (d', s')"
  obtains (idle) "d_shape d = None" "d' = d" "s' = s"
  | (unreachable) d1 req err where "drain (de_visit E) d = (d1, Some req)"
      "so_sync (de_store E) (rd_sync rd) req s = (s', Inl err)"
      "d' = recordFailure (de_beta E) (rd_failed rd) err d1"
  | (shared) d1 req s1 result d2 decided where "drain (de_visit E) d = (d1, Some req)"
      "so_sync (de_store E) (rd_sync rd) req s = (s1, Inr result)"
      "cfg_Mode (d_cfg d) = ModeSharedPosterior"
      "drawShared E (rd_window rd) (rd_failed rd) (sr_Namespace req) (sy_Bucket result) d1 s1 = (d2, s', decided)"
      "d' = applyResult (rd_applied rd) (sy_Bucket result) decided d2"
  | (lead) d1 req s1 result d2 choice where "drain (de_visit E) d = (d1, Some req)"
      "so_sync (de_store E) (rd_sync rd) req s = (s1, Inr result)"
      "cfg_Mode (d_cfg d) \<noteq> ModeSharedPosterior" "sy_Leader result"
      "leadBucket E (rd_window rd) (rd_decide rd) (rd_failed rd) (sr_Namespace req) (sy_Bucket result) d1 s1 =
        (d2, s', choice)"
      "d' = applyResult (rd_applied rd) (sy_Bucket result)
        (if choice \<noteq> None then choice else published result) d2"
  | (follow) d1 req result where "drain (de_visit E) d = (d1, Some req)"
      "so_sync (de_store E) (rd_sync rd) req s = (s', Inr result)"
      "cfg_Mode (d_cfg d) \<noteq> ModeSharedPosterior" "\<not> sy_Leader result"
      "d' = applyResult (rd_applied rd) (sy_Bucket result) (published result) d1"
proof (cases "d_shape d")
  case None
  with assms show ?thesis by (intro idle) (simp_all add: coordination_round_def drain_def)
next
  case (Some shape)
  then obtain d1 req where dr: "drain (de_visit E) d = (d1, Some req)"
    by (auto simp: drain_def Let_def)
  then have cfg: "d_cfg d1 = d_cfg d" using drain_frame(1) [of "de_visit E" d] by simp
  obtain s1 res where sy: "so_sync (de_store E) (rd_sync rd) req s = (s1, res)"
    by (cases "so_sync (de_store E) (rd_sync rd) req s")
  show ?thesis
  proof (cases res)
    case (Inl err)
    with assms dr sy show ?thesis by (intro unreachable) (auto simp: coordination_round_def)
  next
    case (Inr result)
    obtain d2 s2 dec where sh: "drawShared E (rd_window rd) (rd_failed rd) (sr_Namespace req)
        (sy_Bucket result) d1 s1 = (d2, s2, dec)" by (metis prod_cases3)
    obtain d3 s3 ch where ld: "leadBucket E (rd_window rd) (rd_decide rd) (rd_failed rd) (sr_Namespace req)
        (sy_Bucket result) d1 s1 = (d3, s3, ch)" by (metis prod_cases3)
    show ?thesis
    proof (cases "cfg_Mode (d_cfg d) = ModeSharedPosterior")
      case True
      with assms dr sy Inr sh cfg show ?thesis
        by (intro shared) (auto simp: coordination_round_def)
    next
      case False
      with assms dr sy Inr ld cfg show ?thesis
        by (cases "sy_Leader result") (auto simp: coordination_round_def intro: lead follow)
    qed
  qed
qed

subsection \<open>The invariant of a replica\<close>

definition replica_ok :: "('r, 'e) distributed \<Rightarrow> bool" where
  "replica_ok d \<longleftrightarrow>
     thompson_inv (d_local d) \<and> finite (Mapping.keys (d_pending d)) \<and>
     (\<forall>shape. d_shape d = Some shape \<longrightarrow> scopedNamespace (cfg_Namespace (d_cfg d)) shape = Some (d_namespace d))"

lemma newDistributed_ok: "newDistributed sys seed_rng cfg = Inr d \<Longrightarrow> replica_ok d \<and> config_ok (d_cfg d)"
  by (auto simp: newDistributed_def replica_ok_def NewThompson_inv split: sum.splits dest: validate_ok)

lemma recordLocked_inv: "thompson_inv b \<Longrightarrow> thompson_inv (recordLocked s b)"
  using thompson_record_inv [of b s] by (simp add: thompson_record_def)

lemma recordLocked_fold_inv: "thompson_inv b \<Longrightarrow> thompson_inv (fold recordLocked ss b)"
  by (induction ss arbitrary: b) (simp_all add: recordLocked_inv)

lemma addLocked_pending:
  "d_pending (addLocked k x d) =
    Mapping.update k (add_stats (map_stats (Mapping.lookup (d_pending d)) k) \<lparr>Hits = ss_hits x, Misses = ss_misses x\<rparr>)
      (d_pending d)"
  by (simp add: addLocked_def Let_def add_stats_def)

lemma addLocked_ok: "replica_ok d \<Longrightarrow> replica_ok (addLocked k x d)"
  by (simp add: replica_ok_def frames addLocked_pending)

lemma addLocked_fold_frame:
  "d_shape (fold (\<lambda>s. addLocked (f s) s) ss d) = d_shape d"
  "d_namespace (fold (\<lambda>s. addLocked (f s) s) ss d) = d_namespace d"
  "d_arms (fold (\<lambda>s. addLocked (f s) s) ss d) = d_arms d"
  "d_cfg (fold (\<lambda>s. addLocked (f s) s) ss d) = d_cfg d"
  "d_selection (fold (\<lambda>s. addLocked (f s) s) ss d) = d_selection d"
  by (induction ss arbitrary: d) (simp_all add: frames)

lemma addLocked_fold_ok: "replica_ok d \<Longrightarrow> replica_ok (fold (\<lambda>s. addLocked (f s) s) ss d)"
  by (induction ss arbitrary: d) (simp_all add: addLocked_ok)

lemma record_stats_ok: "replica_ok d \<Longrightarrow> replica_ok (dist_record_stats d stats)"
  unfolding dist_record_stats_def Let_def
  by (intro addLocked_ok) (simp add: replica_ok_def thompson_record_inv)

lemma adopt_shape_ok: "replica_ok d \<Longrightarrow> adopt_shape report d = Some d' \<Longrightarrow> replica_ok d'"
  by (auto simp: adopt_shape_def Let_def replica_ok_def bind_eq_Some_conv split: if_splits)

lemma record_epoch_ok:
  assumes "replica_ok d" and "dist_record_epoch d report = Some d'"
  shows "replica_ok d'"
proof -
  let ?d = "d\<lparr>d_local := fold recordLocked (er_Stats report) (d_local d)\<rparr>"
  have "replica_ok ?d" using assms(1) by (simp add: replica_ok_def recordLocked_fold_inv)
  moreover obtain d1 where "adopt_shape report ?d = Some d1"
    and "d' = fold (\<lambda>s. addLocked (ArmKey (ss_policy s) (epoch_role report s)) s) (er_Stats report) d1"
    using assms(2) by (auto simp: dist_record_epoch_def Let_def bind_eq_Some_conv)
  ultimately show ?thesis by (simp add: adopt_shape_ok addLocked_fold_ok)
qed

lemma recordFailure_inv: "thompson_inv (d_local d) \<Longrightarrow> thompson_inv (d_local (recordFailure beta now err d))"
  by (simp add: recordFailure_def Let_def split_beta split: option.splits)

lemma readPooled_inv: "thompson_inv (d_local d) \<Longrightarrow> thompson_inv (d_local (fst (readPooled E w now ns b d s)))"
  by (simp add: readPooled_def Let_def split_beta recordFleet_def recordFailure_inv split: sum.splits)

lemma drawShared_inv: "thompson_inv (d_local d) \<Longrightarrow> thompson_inv (d_local (fst (drawShared E w now ns b d s)))"
  using readPooled_inv [of d E w now ns b s]
  by (simp add: drawShared_def Let_def split_beta split: option.splits)

lemma leadBucket_inv: "thompson_inv (d_local d) \<Longrightarrow> thompson_inv (d_local (fst (leadBucket E w w' now ns b d s)))"
  using readPooled_inv [of "d\<lparr>d_state := (d_state d)\<lparr>st_leaderships := st_leaderships (d_state d) + 1\<rparr>\<rparr>" E w now ns b s]
  by (simp add: leadBucket_def Let_def split_beta recordFailure_inv split: option.splits sum.splits)

lemmas local_inv = recordFailure_inv readPooled_inv drawShared_inv leadBucket_inv

lemma drain_pending: "drain v d = (d1, Some req) \<Longrightarrow> d_pending d1 = Mapping.empty"
  by (auto simp: drain_def Let_def split: option.splits)

lemma drained_shape: "drain v d = (d1, Some req) \<Longrightarrow> d_shape d \<noteq> None"
  by (cases "d_shape d") (simp_all add: drain_def)

lemma drained_frame:
  assumes "drain v d = (d1, Some req)"
  shows "d_cfg d1 = d_cfg d" "d_local d1 = d_local d" "d_selection d1 = d_selection d" "d_rng d1 = d_rng d"
    "d_shape d1 = d_shape d" "d_namespace d1 = d_namespace d" "d_arms d1 = d_arms d" "d_state d1 = d_state d"
  using drain_frame [of v d] assms by simp_all

lemma round_frame:
  assumes "coordination_round E rd d s = (d', s')"
  shows "d_cfg d' = d_cfg d" "d_shape d' = d_shape d" "d_namespace d' = d_namespace d" "d_arms d' = d_arms d"
    "d_pending d' = (if d_shape d = None then d_pending d else Mapping.empty)"
proof -
  have "d_cfg d' = d_cfg d \<and> d_shape d' = d_shape d \<and> d_namespace d' = d_namespace d \<and> d_arms d' = d_arms d \<and>
    d_pending d' = (if d_shape d = None then d_pending d else Mapping.empty)"
    using assms
  proof (cases rule: round_cases)
    case (unreachable d1 req err)
    then show ?thesis by (simp add: frames drained_frame drain_pending drained_shape)
  next
    case (shared d1 req s1 result d2 decided)
    with drawShared_frame [of E "rd_window rd" "rd_failed rd" "sr_Namespace req" "sy_Bucket result" d1 s1]
    show ?thesis by (simp add: frames drained_frame drain_pending drained_shape)
  next
    case (lead d1 req s1 result d2 choice)
    with leadBucket_frame [of E "rd_window rd" "rd_decide rd" "rd_failed rd" "sr_Namespace req" "sy_Bucket result" d1 s1]
    show ?thesis by (simp add: frames drained_frame drain_pending drained_shape)
  next
    case (follow d1 req result)
    then show ?thesis by (simp add: frames drained_frame drain_pending drained_shape)
  qed simp
  then show "d_cfg d' = d_cfg d" "d_shape d' = d_shape d" "d_namespace d' = d_namespace d" "d_arms d' = d_arms d"
    "d_pending d' = (if d_shape d = None then d_pending d else Mapping.empty)" by auto
qed

lemma round_ok:
  assumes "replica_ok d" and r: "coordination_round E rd d s = (d', s')"
  shows "replica_ok d'"
proof -
  have inv: "thompson_inv (d_local d)" using assms(1) by (simp add: replica_ok_def)
  have "thompson_inv (d_local d')"
    using r
  proof (cases rule: round_cases)
    case (shared d1 req s1 result d2 decided)
    with drawShared_inv [of d1 "E" "rd_window rd" "rd_failed rd" "sr_Namespace req" "sy_Bucket result" s1] inv
    show ?thesis by (simp add: frames drained_frame)
  next
    case (lead d1 req s1 result d2 choice)
    with leadBucket_inv [of d1 E "rd_window rd" "rd_decide rd" "rd_failed rd" "sr_Namespace req" "sy_Bucket result" s1] inv
    show ?thesis by (simp add: frames drained_frame)
  qed (use inv in \<open>simp_all add: frames drained_frame recordFailure_inv\<close>)
  with assms round_frame [OF r] show ?thesis by (auto simp: replica_ok_def)
qed

subsection \<open>Every measurement is published once\<close>

text \<open>What an arm's pending counts are, in one role.\<close>

abbreviation pending_at :: "('r, 'e) distributed \<Rightarrow> arm_key \<Rightarrow> policy_stats" where
  "pending_at d k \<equiv> map_stats (Mapping.lookup (d_pending d)) k"

definition arm_stats :: "shadow_stats \<Rightarrow> policy_stats" where
  "arm_stats s = \<lparr>Hits = ss_hits s, Misses = ss_misses s\<rparr>"

lemma addLocked_sum:
  "pending_at (fold (\<lambda>s. addLocked (f s) s) ss d) k =
    add_stats (pending_at d k) (sum_stats (map arm_stats (filter (\<lambda>s. f s = k) ss)))"
  by (induction ss arbitrary: d) (simp_all add: addLocked_pending arm_stats_def add_stats_ac)

text \<open>The counts of a request are the pending ones, whatever order the range visits them in.\<close>

lemma filter_single: "distinct xs \<Longrightarrow> filter (\<lambda>x. x = k) xs = (if k \<in> set xs then [k] else [])"
  by (induction xs) auto

lemma drain_request:
  assumes "visits v (d_pending d)" and dr: "drain v d = (d1, Some req)"
  shows "sum_stats (map count_stats (filter (\<lambda>c. count_key c = k) (sr_Counts req))) = pending_at d k"
proof -
  let ?f = "\<lambda>key. \<lparr>ac_Policy = ak_Policy key, ac_Role = ak_Role key,
      ac_Hits = Hits (pending_at d key), ac_Misses = Misses (pending_at d key)\<rparr>"
  have c: "sr_Counts req = map ?f (v (d_pending d))"
    using dr by (auto simp: drain_def Let_def split: option.splits)
  have "filter (\<lambda>c. count_key c = k) (sr_Counts req) = map ?f (filter (\<lambda>x. x = k) (v (d_pending d)))"
    unfolding c by (simp add: filter_map comp_def count_key_def)
  also have "\<dots> = (if k \<in> Mapping.keys (d_pending d) then [?f k] else [])"
    using assms(1) by (simp add: visits_def filter_single)
  finally show ?thesis by (auto simp: count_stats_def in_mapping_keys map_stats_def split: option.splits)
qed

lemma drain_request_frame:
  assumes "drain v d = (d1, Some req)"
  shows "sr_Namespace req = d_namespace d" "sr_Lead req \<longleftrightarrow> cfg_Mode (d_cfg d) = ModeLeader"
    "sr_NodeID req = cfg_NodeID (d_cfg d)" "sr_EpochMillis req = cfg_CoordinationEpoch (d_cfg d) sdiv 1000000"
    "sr_LeaderTTL req = leaderTTL (d_cfg d)" "sr_CounterTTL req = counterTTL (d_cfg d)"
  using assms by (auto simp: drain_def Let_def split: option.splits)

subsection \<open>Selections\<close>

text \<open>A selection is the one the replica had before, or an arm the replica knows.\<close>

definition chooses :: "64 word \<Rightarrow> policy_type set \<Rightarrow> ('r, 'e) distributed \<Rightarrow> bool" where
  "chooses sel arms d \<longleftrightarrow> d_arms d = arms \<and> (d_selection d = sel \<or> PolicyType (d_selection d) \<in> arms)"

lemma chooses_start: "d_selection d = sel \<Longrightarrow> d_arms d = arms \<Longrightarrow> chooses sel arms d"
  by (simp add: chooses_def)

lemma chooses_applyResult: "chooses sel arms d \<Longrightarrow> chooses sel arms (applyResult now b r d)"
  by (auto simp: chooses_def applyResult_def Let_def knownArmLocked_def split: option.splits)

lemma chooses_recordFailure: "chooses sel arms d \<Longrightarrow> chooses sel arms (recordFailure beta now err d)"
  by (auto simp: chooses_def recordFailure_def Let_def knownArmLocked_def split_beta split: option.splits)

lemma chooses_state [simp]: "chooses sel arms (d\<lparr>d_state := x\<rparr>) = chooses sel arms d"
  "chooses sel arms (d\<lparr>d_rng := r\<rparr>) = chooses sel arms d"
  by (simp_all add: chooses_def)

lemma chooses_readPooled: "chooses sel arms d \<Longrightarrow> chooses sel arms (fst (readPooled E w now ns b d s))"
  by (simp add: readPooled_def Let_def split_beta recordFleet_def chooses_recordFailure split: sum.splits)

lemma chooses_drawShared: "chooses sel arms d \<Longrightarrow> chooses sel arms (fst (drawShared E w now ns b d s))"
  using chooses_readPooled [of sel arms d E w now ns b s]
  by (simp add: drawShared_def Let_def split_beta split: option.splits)

lemma chooses_leadBucket: "chooses sel arms d \<Longrightarrow> chooses sel arms (fst (leadBucket E w w' now ns b d s))"
  using chooses_readPooled [of sel arms "d\<lparr>d_state := (d_state d)\<lparr>st_leaderships := st_leaderships (d_state d) + 1\<rparr>\<rparr>" E w now ns b s]
  by (simp add: leadBucket_def Let_def split_beta chooses_recordFailure split: option.splits sum.splits)

lemma round_chooses:
  assumes "coordination_round E rd d s = (d', s')"
  shows "chooses (d_selection d) (d_arms d) d'"
  using assms
proof (cases rule: round_cases)
  case (unreachable d1 req err)
  then show ?thesis by (simp add: chooses_recordFailure chooses_start drained_frame)
next
  case (shared d1 req s1 result d2 decided)
  have "chooses (d_selection d) (d_arms d) d1" using shared by (simp add: chooses_start drained_frame)
  from chooses_drawShared [OF this, of E "rd_window rd" "rd_failed rd" "sr_Namespace req" "sy_Bucket result" s1]
  show ?thesis using shared by (simp add: chooses_applyResult)
next
  case (lead d1 req s1 result d2 choice)
  have "chooses (d_selection d) (d_arms d) d1" using lead by (simp add: chooses_start drained_frame)
  from chooses_leadBucket [OF this, of E "rd_window rd" "rd_decide rd" "rd_failed rd" "sr_Namespace req" "sy_Bucket result" s1]
  show ?thesis using lead by (simp add: chooses_applyResult)
qed (simp_all add: chooses_start chooses_applyResult drained_frame)

subsection \<open>Failures\<close>

text \<open>
  Once a sync has been answered the round reports success: whatever a later call of the same round
  returned, \<^verbatim>\<open>applyResult\<close> clears the error and the fallback flag that \<^verbatim>\<open>recordFailure\<close> just set.
\<close>

lemma answered_round_reports_success:
  assumes "coordination_round E rd d s = (d', s')" and "drain (de_visit E) d = (d1, Some req)"
    and "so_sync (de_store E) (rd_sync rd) req s = (s1, Inr result)"
  shows "st_lastErr (d_state d') = None \<and> \<not> st_fallback (d_state d') \<and>
    st_lastSync (d_state d') = Some (rd_applied rd)"
  using assms(1)
  by (cases rule: round_cases)
    (use assms(2,3) in \<open>auto simp: applyResult_def Let_def drain_def split: option.splits\<close>)

lemma unanswered_round:
  assumes "coordination_round E rd d s = (d', s')" and "drain (de_visit E) d = (d1, Some req)"
    and "so_sync (de_store E) (rd_sync rd) req s = (s1, Inl err)"
  shows "d' = recordFailure (de_beta E) (rd_failed rd) err d1 \<and> s' = s1"
  using assms(1) by (cases rule: round_cases) (use assms(2,3) in \<open>auto simp: drain_def split: option.splits\<close>)

subsection \<open>Jitter\<close>

text \<open>A round is never closer than half an epoch, nor further than one and a half: jitter cannot make a
  replica overtake another by a bucket.\<close>

lemma half_exact: "\<bar>n\<bar> < 2 ^ 53 \<Longrightarrow> rnd (of_int n / 2) = (of_int n / 2 :: rat)"
  by (rule rnd_exact [where m = n and e = "- 1"]) (simp_all add: power_int_minus)

lemma nextInterval_bounds:
  assumes "0 < cfg_CoordinationEpoch c" "3 * cfg_CoordinationEpoch c < 2 ^ 53" "cfg_Jitter c < 1 / 2"
    and "0 \<le> u" "u < 1"
  shows "cfg_CoordinationEpoch c div 2 \<le> nextInterval c u \<and> nextInterval c u \<le> 3 * cfg_CoordinationEpoch c div 2"
proof (cases "cfg_Jitter c \<le> 0")
  case True
  moreover have "n div 2 \<le> n \<and> n \<le> 3 * n div 2" if "0 < n" for n :: int using that by auto
  ultimately show ?thesis using assms(1) by (simp add: nextInterval_def)
next
  case False
  let ?n = "cfg_CoordinationEpoch c" and ?e = "of_int (cfg_CoordinationEpoch c) :: rat"
  let ?spread = "f64_mul ?e (cfg_Jitter c)" and ?t = "f64_sub (f64_mul u 2) 1"
  have e: "f64_of_int ?n = ?e" using assms(1,2) by (simp add: f64_of_int_def)
  have "?e * cfg_Jitter c \<le> ?e / 2"
    using assms(1,3) mult_left_mono [of "cfg_Jitter c" "1 / 2" ?e] by simp
  then have s: "?spread \<le> ?e / 2"
    using rnd_mono [of "?e * cfg_Jitter c" "?e / 2"] half_exact [of ?n] assms(1,2) by (simp add: f64_mul_def)
  have s0: "0 \<le> ?spread" using False assms(1) by (simp add: f64_mul_def rnd_nonneg)
  have "rnd (u * 2) \<le> 2" "0 \<le> rnd (u * 2)"
    using rnd_mono [of "u * 2" 2] rnd_of_int [of 2] assms(4,5) by (simp_all add: rnd_nonneg)
  then have t: "- 1 \<le> ?t" "?t \<le> 1"
    using rnd_mono [of "- 1" "rnd (u * 2) - 1"] rnd_le_1 [of "rnd (u * 2) - 1"]
    by (simp_all add: f64_sub_def f64_mul_def rnd_minus [of 1, simplified])
  have "?t * ?spread \<le> ?spread" "- ?spread \<le> ?t * ?spread"
    using mult_right_mono [OF t(2) s0] mult_right_mono [OF t(1) s0] by simp_all
  then have "rnd (?t * ?spread) \<le> rnd ?spread" "rnd (- ?spread) \<le> rnd (?t * ?spread)"
    by (simp_all add: rnd_mono)
  then have o: "f64_mul ?t ?spread \<le> ?e / 2" "- (?e / 2) \<le> f64_mul ?t ?spread"
    using s by (simp_all add: f64_mul_def rnd_minus)
  let ?x = "f64_add ?e (f64_mul ?t ?spread)"
  have "rnd (?e / 2) \<le> ?x" "?x \<le> rnd (of_int (3 * ?n) / 2)"
    using o by (auto simp: f64_add_def intro!: rnd_mono)
  then have x: "?e / 2 \<le> ?x" "?x \<le> of_int (3 * ?n) / 2"
    using half_exact [of ?n] half_exact [of "3 * ?n"] assms(1,2) by simp_all
  then have "\<lfloor>?e / 2\<rfloor> \<le> \<lfloor>?x\<rfloor>" "\<lfloor>?x\<rfloor> \<le> \<lfloor>of_int (3 * ?n) / (2 :: rat)\<rfloor>" by (simp_all only: floor_mono)
  moreover have "0 \<le> ?x" using x(1) assms(1) by (smt (verit) divide_nonneg_nonneg of_int_0_le_iff order_trans zero_le_numeral less_imp_le)
  moreover have half: "\<lfloor>of_int k / (2 :: rat)\<rfloor> = k div 2" for k
    using floor_divide_of_int_eq [of k 2] by simp
  ultimately have "?n div 2 \<le> \<lfloor>?x\<rfloor> \<and> \<lfloor>?x\<rfloor> \<le> 3 * ?n div 2 \<and> 0 \<le> ?x" unfolding half by blast
  then show ?thesis using False by (simp add: nextInterval_def Let_def e)
qed

end
