(* ===== verification/MemStore.thy ===== *)
theory MemStore
  imports BanditStore
begin

text \<open>
  \<^verbatim>\<open>src/bandit/memstore.go\<close>: the store held in memory, which gives the contract its executable
  definition. What a call sees of its environment is a \<^verbatim>\<open>mem_call\<close>: the error of the caller's context,
  if it is done, and what the store's clock reads. \<^verbatim>\<open>SetClock\<close>, which replaces the source of those
  readings, therefore has no counterpart.
\<close>

record 'e mem_call =
  call_ctx :: "'e option"
  call_now :: int

record bucket_entry =
  be_arms :: "(arm_key, policy_stats) mapping"
  be_expires :: int

record 'a ms_entry =
  en_value :: 'a
  en_expires :: int

record 'e mem_store =
  ms_counts :: "bucket_key \<rightharpoonup> bucket_entry"
  ms_leaders :: "bucket_key \<rightharpoonup> string ms_entry"
  ms_decisions :: "bucket_key \<rightharpoonup> policy_type ms_entry"
  ms_failure :: "'e option"

definition NewMemStore :: "'e mem_store" where
  "NewMemStore = \<lparr>ms_counts = Map.empty, ms_leaders = Map.empty, ms_decisions = Map.empty, ms_failure = None\<rparr>"

definition mem_fail :: "'e option \<Rightarrow> 'e mem_store \<Rightarrow> 'e mem_store" where
  "mem_fail err s = s\<lparr>ms_failure := err\<rparr>"

text \<open>One of the three loops of \<^verbatim>\<open>expireLocked\<close>: every entry whose lifetime the clock has passed goes.\<close>

definition drop_expired :: "('a \<Rightarrow> int) \<Rightarrow> int \<Rightarrow> ('k \<rightharpoonup> 'a) \<Rightarrow> ('k \<rightharpoonup> 'a)" where
  "drop_expired expires now m = (\<lambda>k. case m k of None \<Rightarrow> None
     | Some x \<Rightarrow> if now > expires x then None else Some x)"

definition expireLocked :: "int \<Rightarrow> 'e mem_store \<Rightarrow> 'e mem_store" where
  "expireLocked now s =
     s\<lparr>ms_counts := drop_expired be_expires now (ms_counts s),
       ms_leaders := drop_expired en_expires now (ms_leaders s),
       ms_decisions := drop_expired en_expires now (ms_decisions s)\<rparr>"

definition mem_sync :: "'e mem_call \<Rightarrow> sync_request \<Rightarrow> 'e mem_store \<Rightarrow> 'e mem_store \<times> ('e + sync_result)" where
  "mem_sync w req s =
     (case call_ctx w of Some err \<Rightarrow> (s, Inl err) | None \<Rightarrow>
      case ms_failure s of Some err \<Rightarrow> (s, Inl err) | None \<Rightarrow>
      let now = call_now w;
          s = expireLocked now s;
          bucket = bucketAt now (sr_EpochMillis req);
          key = (sr_Namespace req, bucket);
          s = (if length (sr_Counts req) > 0
               then let state = (case ms_counts s key of
                          None \<Rightarrow> \<lparr>be_arms = Mapping.empty, be_expires = 0\<rparr> | Some state \<Rightarrow> state);
                        state = state\<lparr>be_expires := now + sr_CounterTTL req\<rparr>;
                        state = state\<lparr>be_arms := add_counts (sr_Counts req) (be_arms state)\<rparr>
                    in s\<lparr>ms_counts := (ms_counts s)(key \<mapsto> state)\<rparr>
               else s);
          result = \<lparr>sy_Bucket = bucket, sy_Leader = False, sy_Decision = Undefined, sy_HasDecision = False\<rparr>;
          (s, result) =
            (if sr_Lead req \<and> ms_leaders s key = None
             then (s\<lparr>ms_leaders := (ms_leaders s)
                       (key \<mapsto> \<lparr>en_value = sr_NodeID req, en_expires = now + sr_LeaderTTL req\<rparr>)\<rparr>,
                   result\<lparr>sy_Leader := True\<rparr>)
             else (s, result));
          result =
            (case ms_decisions s key of
               None \<Rightarrow> result
             | Some decision \<Rightarrow> result\<lparr>sy_Decision := en_value decision, sy_HasDecision := True\<rparr>)
      in (s, Inr result))"

text \<open>The loop of \<^verbatim>\<open>Window\<close>: the buckets of the span that hold counts, each with a copy of its arms.\<close>

function window_loop :: "(bucket \<rightharpoonup> bucket_entry) \<Rightarrow> bucket \<Rightarrow> bucket \<Rightarrow> window_counts list" where
  "window_loop m bucket hi =
     (if bucket \<le> hi
      then (case m bucket of
              None \<Rightarrow> window_loop m (bucket + 1) hi
            | Some state \<Rightarrow> \<lparr>wc_Bucket = bucket, wc_Arms = be_arms state\<rparr> # window_loop m (bucket + 1) hi)
      else [])"
  by pat_completeness auto
termination
  by (relation "measure (\<lambda>(m, bucket, hi). nat (hi - bucket + 1))") auto

declare window_loop.simps [simp del]

definition mem_window ::
  "'e mem_call \<Rightarrow> string \<Rightarrow> bucket \<Rightarrow> bucket \<Rightarrow> 'e mem_store \<Rightarrow> 'e mem_store \<times> ('e + window_counts list)" where
  "mem_window w namespace lo hi s =
     (case call_ctx w of Some err \<Rightarrow> (s, Inl err) | None \<Rightarrow>
      case ms_failure s of Some err \<Rightarrow> (s, Inl err) | None \<Rightarrow>
      let s = expireLocked (call_now w) s
      in (s, Inr (window_loop (\<lambda>bucket. ms_counts s (namespace, bucket)) lo hi)))"

definition mem_decide ::
  "'e mem_call \<Rightarrow> string \<Rightarrow> bucket \<Rightarrow> policy_type \<Rightarrow> int \<Rightarrow> 'e mem_store \<Rightarrow> 'e mem_store \<times> ('e + policy_type)" where
  "mem_decide w namespace bucket policy ttl s =
     (case call_ctx w of Some err \<Rightarrow> (s, Inl err) | None \<Rightarrow>
      case ms_failure s of Some err \<Rightarrow> (s, Inl err) | None \<Rightarrow>
      let now = call_now w;
          s = expireLocked now s;
          key = (namespace, bucket)
      in case ms_decisions s key of
           Some existing \<Rightarrow> (s, Inr (en_value existing))
         | None \<Rightarrow> (s\<lparr>ms_decisions := (ms_decisions s)
                        (key \<mapsto> \<lparr>en_value = policy, en_expires = now + ttl\<rparr>)\<rparr>, Inr policy))"

definition mem_close :: "'e mem_store \<Rightarrow> 'e mem_store" where
  "mem_close s = s\<lparr>ms_counts := Map.empty, ms_leaders := Map.empty, ms_decisions := Map.empty\<rparr>"

definition mem_ops :: "('e mem_store, 'e mem_call, 'e) store_ops" where
  "mem_ops = \<lparr>so_sync = mem_sync, so_window = mem_window, so_decide = mem_decide\<rparr>"

lemma mem_ops_sel [simp]:
  "so_sync mem_ops = mem_sync" "so_window mem_ops = mem_window" "so_decide mem_ops = mem_decide"
  by (simp_all add: mem_ops_def)

subsection \<open>The view of a memory store\<close>

definition live :: "('a \<Rightarrow> int) \<Rightarrow> ('a \<Rightarrow> 'b) \<Rightarrow> int \<Rightarrow> ('k \<rightharpoonup> 'a) \<Rightarrow> ('k \<rightharpoonup> 'b)" where
  "live expires f t m = (\<lambda>k. case m k of None \<Rightarrow> None | Some x \<Rightarrow> kept t (expires x) (f x))"

definition mem_view :: "int \<Rightarrow> 'e mem_store \<Rightarrow> store_view" where
  "mem_view t s =
     \<lparr>v_counts = live be_expires be_arms t (ms_counts s),
      v_leaders = live en_expires en_value t (ms_leaders s),
      v_decisions = live en_expires en_value t (ms_decisions s)\<rparr>"

lemma live_drop [simp]: "n \<le> t \<Longrightarrow> live expires f t (drop_expired expires n m) = live expires f t m"
  by (rule ext) (auto simp: live_def drop_expired_def kept_def split: option.splits)

lemma live_upd [simp]: "live expires f t (m(k \<mapsto> x)) = (live expires f t m)(k := kept t (expires x) (f x))"
  by (rule ext) (simp add: live_def)

lemma live_empty [simp]: "live expires f t Map.empty = Map.empty"
  by (rule ext) (simp add: live_def)

lemma live_now: "live expires f n m k = map_option f (drop_expired expires n m k)"
  by (auto simp: live_def drop_expired_def kept_def split: option.splits)

lemma live_le: "t \<le> t' \<Longrightarrow> live expires f t' m \<subseteq>\<^sub>m live expires f t m"
  by (auto simp: map_le_def live_def kept_def dom_def split: option.splits if_splits)

lemma mem_view_expire [simp]: "n \<le> t \<Longrightarrow> mem_view t (expireLocked n s) = mem_view t s"
  by (simp add: mem_view_def expireLocked_def)

lemma window_loop_buckets:
  "map wc_Bucket (window_loop m lo hi) = filter (\<lambda>b. m b \<noteq> None) [lo..hi]"
proof (induction m lo hi rule: window_loop.induct)
  case (1 m b l)
  then show ?case
    by (cases "b \<le> l"; cases "m b") (simp_all add: window_loop.simps [of m b] upto_rec1 [of b])
qed

lemma window_loop_arms:
  "\<forall>wc \<in> set (window_loop m lo hi). \<exists>state. m (wc_Bucket wc) = Some state \<and> wc_Arms wc = be_arms state"
proof (induction m lo hi rule: window_loop.induct)
  case (1 m b l)
  then show ?case
    by (cases "b \<le> l"; cases "m b") (simp_all add: window_loop.simps [of m b])
qed

lemmas mem_defs = mem_sync_def mem_window_def mem_decide_def

interpretation mem: store_contract mem_ops "\<lambda>_. True" call_now mem_view
proof
  show "mem_view t s' = \<lparr>v_counts = (if sr_Counts r = [] then v_counts (mem_view t s)
           else (v_counts (mem_view t s))(sync_key (call_now w) r := kept t (call_now w + sr_CounterTTL r)
             (add_counts (sr_Counts r)
               (case v_counts (mem_view (call_now w) s) (sync_key (call_now w) r) of None \<Rightarrow> Mapping.empty | Some a \<Rightarrow> a)))),
         v_leaders = (if sy_Leader res
           then (v_leaders (mem_view t s))(sync_key (call_now w) r := kept t (call_now w + sr_LeaderTTL r) (sr_NodeID r))
           else v_leaders (mem_view t s)),
         v_decisions = v_decisions (mem_view t s)\<rparr>"
    if "so_sync mem_ops w r s = (s', Inr res)" "call_now w \<le> t" for w r t and s s' :: "'a mem_store" and res
    using that
    by (auto simp: mem_sync_def Let_def sync_key_def mem_view_def expireLocked_def live_now
        split: option.splits if_splits)
next
  fix s s' :: "'a mem_store" and w :: "'a mem_call" and ns lo hi res
  assume "so_window mem_ops w ns lo hi s = (s', Inr res)"
  then have "res = window_loop (\<lambda>b. drop_expired be_expires (call_now w) (ms_counts s) (ns, b)) lo hi"
    by (auto simp: mem_window_def Let_def expireLocked_def split: option.splits)
  then show "map wc_Bucket res = filter (\<lambda>b. v_counts (mem_view (call_now w) s) (ns, b) \<noteq> None) [lo..hi] \<and>
      (\<forall>wc \<in> set res. v_counts (mem_view (call_now w) s) (ns, wc_Bucket wc) = Some (wc_Arms wc))"
    using window_loop_arms [of "\<lambda>b. drop_expired be_expires (call_now w) (ms_counts s) (ns, b)" lo hi]
    by (simp add: window_loop_buckets mem_view_def live_now) fastforce
qed (auto simp: mem_defs Let_def sync_key_def mem_view_def live_now live_le expireLocked_def
    split: option.splits if_splits)

end
