(* ===== verification/Fleet.thy ===== *)
theory Fleet
  imports DistributedFacts MemStore
begin

text \<open>
  A fleet of distributed bandits around one store, with the calls of different replicas interleaved.

  \<^verbatim>\<open>sync\<close> makes up to three calls to the store, and other replicas run in between. A replica's round is
  therefore cut into the phases between its calls, which run in sequence are the round of theory \<open>Distributed\<close>. A run of the fleet is a list of
  events in any order: reports of the caches, phases of rounds, time passing between them.
\<close>

subsection \<open>A round in phases\<close>

datatype phase =
  Idle
| Reading string sync_result
| Deciding string sync_result policy_type
| Applying string bucket "policy_type option"

text \<open>\<^verbatim>\<open>drain\<close> and \<^verbatim>\<open>Store.Sync\<close>\<close>

definition publish_phase ::
  "('r, 's, 'w, 'e) dist_env \<Rightarrow> 'w \<Rightarrow> int \<Rightarrow> ('r, 'e) distributed \<Rightarrow> 's \<Rightarrow> ('r, 'e) distributed \<times> 's \<times> phase" where
  "publish_phase E w now d s =
     (let (d, drained) = drain (de_visit E) d
      in case drained of None \<Rightarrow> (d, s, Idle) | Some req \<Rightarrow>
      let (s, result) = so_sync (de_store E) w req s
      in case result of
           Inl err \<Rightarrow> (recordFailure (de_beta E) now err d, s, Idle)
         | Inr result \<Rightarrow>
             if cfg_Mode (d_cfg d) = ModeSharedPosterior then (d, s, Reading (sr_Namespace req) result)
             else if sy_Leader result
             then (d\<lparr>d_state := (d_state d)\<lparr>st_leaderships := st_leaderships (d_state d) + 1\<rparr>\<rparr>, s,
                   Reading (sr_Namespace req) result)
             else (d, s, Applying (sr_Namespace req) (sy_Bucket result) (published result)))"

text \<open>\<^verbatim>\<open>Store.Window\<close> and the draw\<close>

definition read_phase ::
  "('r, 's, 'w, 'e) dist_env \<Rightarrow> 'w \<Rightarrow> int \<Rightarrow> string \<Rightarrow> sync_result \<Rightarrow> ('r, 'e) distributed \<Rightarrow> 's
    \<Rightarrow> ('r, 'e) distributed \<times> 's \<times> phase" where
  "read_phase E w now namespace result d s =
     (let shared = (cfg_Mode (d_cfg d) = ModeSharedPosterior);
          give_up = Applying namespace (sy_Bucket result) (if shared then None else published result);
          (d, s, read) = readPooled E w now namespace (sy_Bucket result) d s
      in case read of None \<Rightarrow> (d, s, give_up) | Some pooled \<Rightarrow>
      let (rng, choice) = draw (de_beta E) (d_rng d) pooled; d = d\<lparr>d_rng := rng\<rparr>
      in if choice = Undefined then (d, s, give_up)
         else if shared then (d, s, Applying namespace (sy_Bucket result) (Some choice))
         else (d, s, Deciding namespace result choice))"

text \<open>\<^verbatim>\<open>Store.Decide\<close>\<close>

definition decide_phase ::
  "('r, 's, 'w, 'e) dist_env \<Rightarrow> 'w \<Rightarrow> int \<Rightarrow> string \<Rightarrow> sync_result \<Rightarrow> policy_type \<Rightarrow> ('r, 'e) distributed \<Rightarrow> 's
    \<Rightarrow> ('r, 'e) distributed \<times> 's \<times> phase" where
  "decide_phase E w now namespace result choice d s =
     (let (s, answer) = so_decide (de_store E) w namespace (sy_Bucket result) choice (decisionTTL (d_cfg d)) s
      in case answer of
           Inl err \<Rightarrow> (recordFailure (de_beta E) now err d, s,
             Applying namespace (sy_Bucket result) (published result))
         | Inr inForce \<Rightarrow> (d, s, Applying namespace (sy_Bucket result)
             (if inForce \<noteq> Undefined then Some inForce else published result)))"

text \<open>The phases of one replica run in sequence.\<close>

definition run_phases ::
  "('r, 's, 'w, 'e) dist_env \<Rightarrow> 'w round \<Rightarrow> ('r, 'e) distributed \<Rightarrow> 's \<Rightarrow> ('r, 'e) distributed \<times> 's" where
  "run_phases E rd d s =
     (let (d, s, ph) = publish_phase E (rd_sync rd) (rd_failed rd) d s;
          (d, s, ph) = (case ph of Reading ns result \<Rightarrow> read_phase E (rd_window rd) (rd_failed rd) ns result d s
                        | _ \<Rightarrow> (d, s, ph));
          (d, s, ph) = (case ph of Deciding ns result choice \<Rightarrow>
                          decide_phase E (rd_decide rd) (rd_failed rd) ns result choice d s
                        | _ \<Rightarrow> (d, s, ph))
      in case ph of Applying ns b decided \<Rightarrow> (applyResult (rd_applied rd) b decided d, s) | _ \<Rightarrow> (d, s))"

lemma leaderships_mode [simp]:
  "cfg_Mode (d_cfg (fst (readPooled E w now ns b d s))) = cfg_Mode (d_cfg d)"
  by (simp add: frames)

text \<open>Cutting a round at its store calls changes nothing: the phases of one replica, run in sequence
  against a store nobody else touches, compute exactly the coordination round of the code, in every mode
  and on every failure.\<close>

theorem phases_compose: "run_phases E rd d s = coordination_round E rd d s"
proof (cases "d_shape d")
  case None
  then show ?thesis by (simp add: run_phases_def publish_phase_def coordination_round_def drain_def)
next
  case (Some shape)
  then obtain d1 req where dr: "drain (de_visit E) d = (d1, Some req)"
    by (auto simp: drain_def Let_def)
  obtain s1 res where sy: "so_sync (de_store E) (rd_sync rd) req s = (s1, res)"
    by (cases "so_sync (de_store E) (rd_sync rd) req s")
  show ?thesis
  proof (cases res)
    case (Inl err)
    with dr sy show ?thesis by (simp add: run_phases_def publish_phase_def coordination_round_def)
  next
    case (Inr result)
    let ?ns = "sr_Namespace req" and ?b = "sy_Bucket result"
    consider (shared) "cfg_Mode (d_cfg d1) = ModeSharedPosterior"
      | (lead) "cfg_Mode (d_cfg d1) \<noteq> ModeSharedPosterior" "sy_Leader result"
      | (follow) "cfg_Mode (d_cfg d1) \<noteq> ModeSharedPosterior" "\<not> sy_Leader result" by blast
    then show ?thesis
    proof cases
      case shared
      obtain d2 s2 rp where rp: "readPooled E (rd_window rd) (rd_failed rd) ?ns ?b d1 s1 = (d2, s2, rp)"
        by (metis prod_cases3)
      with shared dr sy Inr show ?thesis
        by (cases rp) (auto simp: run_phases_def publish_phase_def coordination_round_def read_phase_def
            drawShared_def Let_def split_beta)
    next
      case lead
      let ?d1 = "d1\<lparr>d_state := (d_state d1)\<lparr>st_leaderships := st_leaderships (d_state d1) + 1\<rparr>\<rparr>"
      obtain d2 s2 rp where rp: "readPooled E (rd_window rd) (rd_failed rd) ?ns ?b ?d1 s1 = (d2, s2, rp)"
        by (metis prod_cases3)
      have "cfg_Mode (d_cfg d2) = cfg_Mode (d_cfg d1)"
        using leaderships_mode [of E "rd_window rd" "rd_failed rd" ?ns ?b ?d1 s1] rp by simp
      with rp lead dr sy Inr show ?thesis
        by (cases rp) (auto simp: run_phases_def publish_phase_def coordination_round_def read_phase_def
            decide_phase_def leadBucket_def Let_def split_beta published_def split: sum.splits)
    next
      case follow
      with dr sy Inr show ?thesis by (simp add: run_phases_def publish_phase_def coordination_round_def)
    qed
  qed
qed

subsection \<open>The fleet\<close>

record ('r, 'e) node =
  nd_bandit :: "('r, 'e) distributed"
  nd_phase :: phase

text \<open>
  \<open>fl_time\<close> is the store's clock at its last call; \<open>fl_led\<close> and \<open>fl_applied\<close> record every leadership
  a sync granted and every decision a replica switched to, with the bucket it was for.
\<close>

record ('r, 's, 'e) fleet =
  fl_time :: int
  fl_store :: 's
  fl_nodes :: "nat \<Rightarrow> ('r, 'e) node"
  fl_led :: "(bucket_key \<times> nat) list"
  fl_applied :: "(nat \<times> bucket_key \<times> policy_type) list"

datatype 'w fleet_event =
  Report nat epoch_report
| Publish nat 'w int
| ReadWindow nat 'w int
| Decide nat 'w int
| Apply nat int

definition put_node :: "nat \<Rightarrow> ('r, 'e) node \<Rightarrow> ('r, 's, 'e) fleet \<Rightarrow> ('r, 's, 'e) fleet" where
  "put_node i n st = st\<lparr>fl_nodes := (fl_nodes st)(i := n)\<rparr>"

definition led_by :: "nat \<Rightarrow> phase \<Rightarrow> (bucket_key \<times> nat) list" where
  "led_by i ph = (case ph of Reading ns result \<Rightarrow> if sy_Leader result then [((ns, sy_Bucket result), i)] else []
     | _ \<Rightarrow> [])"

text \<open>
  One event. A call whose store clock would run backwards does not happen, nor does a phase the replica
  is not in; a report that panics leaves the replica as it was.
\<close>

fun fleet_do ::
  "(nat \<Rightarrow> ('r, 's, 'w, 'e) dist_env) \<Rightarrow> ('w \<Rightarrow> int) \<Rightarrow> 'w fleet_event \<Rightarrow> ('r, 's, 'e) fleet \<Rightarrow> ('r, 's, 'e) fleet"
where
  "fleet_do E clock (Report i report) st =
     (case dist_record_epoch (nd_bandit (fl_nodes st i)) report of None \<Rightarrow> st
      | Some d \<Rightarrow> put_node i ((fl_nodes st i)\<lparr>nd_bandit := d\<rparr>) st)"
| "fleet_do E clock (Publish i w now) st =
     (if nd_phase (fl_nodes st i) \<noteq> Idle \<or> clock w < fl_time st then st
      else let (d, s, ph) = publish_phase (E i) w now (nd_bandit (fl_nodes st i)) (fl_store st)
           in put_node i \<lparr>nd_bandit = d, nd_phase = ph\<rparr>
                (st\<lparr>fl_time := clock w, fl_store := s, fl_led := fl_led st @ led_by i ph\<rparr>))"
| "fleet_do E clock (ReadWindow i w now) st =
     (case nd_phase (fl_nodes st i) of
        Reading ns result \<Rightarrow>
          if clock w < fl_time st then st
          else let (d, s, ph) = read_phase (E i) w now ns result (nd_bandit (fl_nodes st i)) (fl_store st)
               in put_node i \<lparr>nd_bandit = d, nd_phase = ph\<rparr> (st\<lparr>fl_time := clock w, fl_store := s\<rparr>)
      | _ \<Rightarrow> st)"
| "fleet_do E clock (Decide i w now) st =
     (case nd_phase (fl_nodes st i) of
        Deciding ns result choice \<Rightarrow>
          if clock w < fl_time st then st
          else let (d, s, ph) = decide_phase (E i) w now ns result choice (nd_bandit (fl_nodes st i)) (fl_store st)
               in put_node i \<lparr>nd_bandit = d, nd_phase = ph\<rparr> (st\<lparr>fl_time := clock w, fl_store := s\<rparr>)
      | _ \<Rightarrow> st)"
| "fleet_do E clock (Apply i now) st =
     (case nd_phase (fl_nodes st i) of
        Applying ns b decided \<Rightarrow>
          let d = nd_bandit (fl_nodes st i)
          in put_node i \<lparr>nd_bandit = applyResult now b decided d, nd_phase = Idle\<rparr>
               (case decided of
                  None \<Rightarrow> st
                | Some p \<Rightarrow> if knownArmLocked p d then st\<lparr>fl_applied := fl_applied st @ [(i, (ns, b), p)]\<rparr> else st)
      | _ \<Rightarrow> st)"

definition fleet_run ::
  "(nat \<Rightarrow> ('r, 's, 'w, 'e) dist_env) \<Rightarrow> ('w \<Rightarrow> int) \<Rightarrow> 'w fleet_event list \<Rightarrow> ('r, 's, 'e) fleet \<Rightarrow> ('r, 's, 'e) fleet"
where
  "fleet_run E clock evs st = fold (fleet_do E clock) evs st"

definition new_fleet :: "int \<Rightarrow> 's \<Rightarrow> (nat \<Rightarrow> ('r, 'e) distributed) \<Rightarrow> ('r, 's, 'e) fleet" where
  "new_fleet t s ds =
     \<lparr>fl_time = t, fl_store = s, fl_nodes = (\<lambda>i. \<lparr>nd_bandit = ds i, nd_phase = Idle\<rparr>),
      fl_led = [], fl_applied = []\<rparr>"

subsection \<open>One leader and one decision per bucket\<close>

text \<open>
  The configurations of a fleet: every replica follows leaders and has the same coordination epoch, of
  at least the millisecond buckets are counted in.
\<close>

definition fleet_cfg :: "int \<Rightarrow> config \<Rightarrow> bool" where
  "fleet_cfg ep cfg \<longleftrightarrow> cfg_CoordinationEpoch cfg = ep \<and> cfg_Mode cfg \<noteq> ModeSharedPosterior"

definition epoch_fits :: "int \<Rightarrow> bool" where
  "epoch_fits ep \<longleftrightarrow> 1000000 \<le> ep \<and> 2 * ep < 2 ^ 63"

abbreviation epoch_millis :: "int \<Rightarrow> int" where
  "epoch_millis ep \<equiv> ep sdiv 1000000"

lemma epoch_bucket:
  assumes "epoch_fits ep"
  shows "1 \<le> epoch_millis ep" "1000000 * max 1 (epoch_millis ep) \<le> ep"
    "cfg_CoordinationEpoch cfg = ep \<Longrightarrow> leaderTTL cfg = 2 * ep"
proof -
  have "epoch_millis ep = ep div 1000000" using assms by (intro sdiv_nonneg) (simp_all add: epoch_fits_def)
  moreover have "1 \<le> ep div 1000000"
    using zdiv_mono1 [of 1000000 ep 1000000] assms by (simp add: epoch_fits_def)
  ultimately show "1 \<le> epoch_millis ep" "1000000 * max 1 (epoch_millis ep) \<le> ep"
    by (simp_all add: max_def)
  show "cfg_CoordinationEpoch cfg = ep \<Longrightarrow> leaderTTL cfg = 2 * ep"
    using assms by (simp add: leaderTTL_def epoch_fits_def go_int64_exact)
qed

text \<open>Inside one bucket less than an epoch of milliseconds passes, half of what a claim lasts.\<close>

lemma same_bucket_milli:
  assumes fits: "epoch_fits ep" and "0 \<le> s" and "bucketAt t (epoch_millis ep) = bucketAt s (epoch_millis ep)"
  shows "unix_milli t < unix_milli s + 2 * ep div 1000000"
proof -
  have m: "epoch_millis ep = ep div 1000000" using fits by (intro sdiv_nonneg) (simp_all add: epoch_fits_def)
  have "unix_milli s + epoch_millis ep > unix_milli t"
  proof (rule ccontr)
    assume "\<not> ?thesis"
    then have "(s + 1000000 * epoch_millis ep) div 1000000 \<le> t div 1000000" by (simp add: unix_milli_def)
    then have "bucketAt s (epoch_millis ep) < bucketAt (1000000 * (t div 1000000)) (epoch_millis ep)"
      using bucketAt_later [of "1000000 * (s div 1000000)" "epoch_millis ep" "1000000 * (t div 1000000)"]
        assms(2) epoch_bucket(1) [OF fits] by (simp add: max_def bucketAt_def unix_milli_def)
    with assms(3) show False by (simp add: bucketAt_def unix_milli_def)
  qed
  moreover have "ep div 1000000 \<le> 2 * ep div 1000000" using fits by (intro zdiv_mono1) (simp_all add: epoch_fits_def)
  ultimately show ?thesis by (simp add: m)
qed

text \<open>
  What holds at every moment. \<open>D\<close> is the decision made for a bucket, from the moment its leader has drawn
  one. A leadership that was granted is still in the store while its bucket lasts; a replica that leads a
  bucket is the one it was granted to, and no decision exists before it draws; every decision in the
  store is the one that was made.
\<close>

definition led :: "('r, 's, 'e) fleet \<Rightarrow> bucket_key \<Rightarrow> nat \<Rightarrow> bool" where
  "led st k i \<longleftrightarrow> (k, i) \<in> set (fl_led st)"

definition phase_ok :: "(bucket_key \<Rightarrow> nat \<Rightarrow> bool) \<Rightarrow> (bucket_key \<rightharpoonup> policy_type) \<Rightarrow> nat \<Rightarrow> phase \<Rightarrow> bool" where
  "phase_ok L D i ph \<longleftrightarrow> (case ph of
       Idle \<Rightarrow> True
     | Reading ns result \<Rightarrow> L (ns, sy_Bucket result) i \<and> D (ns, sy_Bucket result) = None \<and> published result = None
     | Deciding ns result choice \<Rightarrow>
         L (ns, sy_Bucket result) i \<and> D (ns, sy_Bucket result) = Some choice \<and> published result = None
     | Applying ns b decided \<Rightarrow> (\<forall>p. decided = Some p \<longrightarrow> D (ns, b) = Some p))"

definition fleet_inv ::
  "int \<Rightarrow> ('s \<Rightarrow> bool) \<Rightarrow> (int \<Rightarrow> 's \<Rightarrow> store_view) \<Rightarrow> ('r, 's, 'e) fleet \<Rightarrow> (bucket_key \<rightharpoonup> policy_type) \<Rightarrow> bool"
where
  "fleet_inv ep good view st D \<longleftrightarrow>
     good (fl_store st) \<and> 0 \<le> fl_time st \<and>
     (\<forall>i. fleet_cfg ep (d_cfg (nd_bandit (fl_nodes st i)))) \<and>
     distinct (map fst (fl_led st)) \<and>
     (\<forall>k i. led st k i \<longrightarrow> snd k \<le> bucketAt (fl_time st) (epoch_millis ep) \<and>
       (\<forall>t \<ge> fl_time st. bucketAt t (epoch_millis ep) = snd k \<longrightarrow> v_leaders (view t (fl_store st)) k \<noteq> None)) \<and>
     (\<forall>t \<ge> fl_time st. v_decisions (view t (fl_store st)) \<subseteq>\<^sub>m D) \<and>
     dom D \<subseteq> fst ` set (fl_led st) \<and>
     (\<forall>i. phase_ok (led st) D i (nd_phase (fl_nodes st i))) \<and>
     (\<forall>(i, k, p) \<in> set (fl_applied st). D k = Some p)"

lemma fleet_agrees:
  assumes "fleet_inv ep good view st D" and "(i, k, p) \<in> set (fl_applied st)" "(j, k, q) \<in> set (fl_applied st)"
  shows "p = q"
proof -
  from assms(1) have D: "\<forall>(i, k, p) \<in> set (fl_applied st). D k = Some p" unfolding fleet_inv_def by blast
  from bspec [OF D assms(2)] bspec [OF D assms(3)] show ?thesis by simp
qed

text \<open>Facts about the phases that the invariant needs.\<close>

lemma publish_cases:
  assumes "publish_phase E w now d s = (d', s', ph)" and "cfg_Mode (d_cfg d) \<noteq> ModeSharedPosterior"
  obtains (quiet) "ph = Idle" "d_cfg d' = d_cfg d" "s' = s"
  | (failed) req err where "ph = Idle" "d_cfg d' = d_cfg d" "so_sync (de_store E) w req s = (s', Inl err)"
  | (synced) req result where "d_cfg d' = d_cfg d" "so_sync (de_store E) w req s = (s', Inr result)"
      "sr_EpochMillis req = epoch_millis (cfg_CoordinationEpoch (d_cfg d))" "sr_LeaderTTL req = leaderTTL (d_cfg d)"
      "ph = (if sy_Leader result then Reading (sr_Namespace req) result
             else Applying (sr_Namespace req) (sy_Bucket result) (published result))"
proof -
  obtain d1 dr where dr: "drain (de_visit E) d = (d1, dr)" by (cases "drain (de_visit E) d")
  then have cfg: "d_cfg d1 = d_cfg d" using drain_frame(1) [of "de_visit E" d] by simp
  show ?thesis
  proof (cases dr)
    case None
    with dr assms cfg show ?thesis by (intro quiet) (auto simp: publish_phase_def)
  next
    case (Some req)
    obtain s1 res where sy: "so_sync (de_store E) w req s = (s1, res)" by (cases "so_sync (de_store E) w req s")
    show ?thesis
    proof (cases res)
      case (Inl err)
      have "ph = Idle" "d_cfg d' = d_cfg d" "s' = s1"
        using assms(1) cfg by (auto simp: publish_phase_def dr Some sy Inl frames)
      with sy Inl show ?thesis by (intro failed [of req err]) simp_all
    next
      case (Inr result)
      have "sr_EpochMillis req = epoch_millis (cfg_CoordinationEpoch (d_cfg d))" "sr_LeaderTTL req = leaderTTL (d_cfg d)"
        using drain_request_frame [of "de_visit E" d d1 req] dr Some by simp_all
      moreover have "d_cfg d' = d_cfg d \<and> s' = s1 \<and>
        ph = (if sy_Leader result then Reading (sr_Namespace req) result
             else Applying (sr_Namespace req) (sy_Bucket result) (published result))"
        using assms cfg by (cases "sy_Leader result") (auto simp: publish_phase_def dr Some sy Inr)
      ultimately show ?thesis using sy Inr by (intro synced [of req result]) simp_all
    qed
  qed
qed

lemma read_cases:
  assumes "read_phase E w now ns result d s = (d', s', ph)" and "cfg_Mode (d_cfg d) \<noteq> ModeSharedPosterior"
  shows "d_cfg d' = d_cfg d \<and> s' = fst (so_window (de_store E) w ns (sy_Bucket result - cfg_Window (d_cfg d)) (sy_Bucket result - 1) s) \<and>
    (ph = Applying ns (sy_Bucket result) (published result) \<or> (\<exists>choice. ph = Deciding ns result choice))"
  using assms readPooled_frame(1) [of E w now ns "sy_Bucket result" d s]
  by (auto simp: read_phase_def readPooled_def Let_def split_beta frames split: option.splits if_splits sum.splits)

lemma decide_cases:
  assumes "decide_phase E w now ns result choice d s = (d', s', ph)"
  obtains (failed) err where "d_cfg d' = d_cfg d"
      "so_decide (de_store E) w ns (sy_Bucket result) choice (decisionTTL (d_cfg d)) s = (s', Inl err)"
      "ph = Applying ns (sy_Bucket result) (published result)"
  | (decided) q where "d_cfg d' = d_cfg d"
      "so_decide (de_store E) w ns (sy_Bucket result) choice (decisionTTL (d_cfg d)) s = (s', Inr q)"
      "ph = Applying ns (sy_Bucket result) (if q \<noteq> Undefined then Some q else published result)"
  using assms by (auto simp: decide_phase_def Let_def frames split: prod.splits sum.splits)

lemma record_epoch_cfg: "dist_record_epoch d report = Some d' \<Longrightarrow> d_cfg d' = d_cfg d"
  by (auto simp: dist_record_epoch_def adopt_shape_def Let_def bind_eq_Some_conv addLocked_fold_frame split: if_splits)

lemma led_by_applying [simp]: "led_by i (Applying ns b r) = []" "led_by i Idle = []"
  by (simp_all add: led_by_def)

context coordination_store begin

text \<open>A call of replica \<open>i\<close>: what it must satisfy for the invariant to survive.\<close>

lemma fleet_call:
  assumes fi: "fleet_inv ep inv view st D"
    and w: "fl_time st \<le> time w" and s': "inv s'" and cfg: "d_cfg d' = d_cfg (nd_bandit (fl_nodes st i))"
    and leaders: "\<And>t k. time w \<le> t \<Longrightarrow> v_leaders (view t (fl_store st)) k \<noteq> None \<Longrightarrow> v_leaders (view t s') k \<noteq> None"
    and D': "D \<subseteq>\<^sub>m D'" "dom D' \<subseteq> dom D \<union> fst ` set (fl_led st)"
      "\<And>t. time w \<le> t \<Longrightarrow> v_decisions (view t s') \<subseteq>\<^sub>m D'"
      "\<And>k j. led st k j \<Longrightarrow> j \<noteq> i \<Longrightarrow> D' k = D k"
    and new: "L = [] \<or> (\<exists>k. L = [(k, i)] \<and> k \<notin> fst ` set (fl_led st) \<and>
      snd k \<le> bucketAt (time w) (epoch_millis ep) \<and>
      (\<forall>t \<ge> time w. bucketAt t (epoch_millis ep) = snd k \<longrightarrow> v_leaders (view t s') k \<noteq> None))"
    and ph: "phase_ok (\<lambda>k j. (k, j) \<in> set (fl_led st @ L)) D' i ph"
  shows "fleet_inv ep inv view
    (put_node i \<lparr>nd_bandit = d', nd_phase = ph\<rparr> (st\<lparr>fl_time := time w, fl_store := s', fl_led := fl_led st @ L\<rparr>)) D'"
    (is "fleet_inv ep inv view ?st D'")
proof -
  have old: "0 \<le> fl_time st" "\<And>j. fleet_cfg ep (d_cfg (nd_bandit (fl_nodes st j)))" "distinct (map fst (fl_led st))"
    and led_old: "\<And>k j. led st k j \<Longrightarrow> snd k \<le> bucketAt (fl_time st) (epoch_millis ep)"
      "\<And>k j t. led st k j \<Longrightarrow> fl_time st \<le> t \<Longrightarrow> bucketAt t (epoch_millis ep) = snd k \<Longrightarrow>
        v_leaders (view t (fl_store st)) k \<noteq> None"
    and phases: "\<And>j. phase_ok (led st) D j (nd_phase (fl_nodes st j))"
    and applied: "\<And>j k p. (j, k, p) \<in> set (fl_applied st) \<Longrightarrow> D k = Some p"
    and domD: "dom D \<subseteq> fst ` set (fl_led st)"
    using fi unfolding fleet_inv_def by blast+
  have led_new: "led ?st k j \<longleftrightarrow> led st k j \<or> (k, j) \<in> set L" for k j
    by (auto simp: led_def put_node_def)
  have mono: "bucketAt (fl_time st) (epoch_millis ep) \<le> bucketAt (time w) (epoch_millis ep)"
    using old(1) w by (rule bucketAt_mono)
  have other: "phase_ok (led ?st) D' j (nd_phase (fl_nodes st j))" if "j \<noteq> i" for j
    using phases [of j] D'(4) [OF _ that] map_le_SomeD [OF D'(1)]
    by (auto simp: phase_ok_def led_new split: phase.splits)
  have "phase_ok (led ?st) D' j (nd_phase (fl_nodes ?st j))" for j
  proof (cases "j = i")
    case True
    have "led ?st = (\<lambda>k j. (k, j) \<in> set (fl_led st @ L))" by (simp add: fun_eq_iff led_def put_node_def)
    with ph True show ?thesis by (simp add: put_node_def)
  next
    case False
    with other [OF False] show ?thesis by (simp add: put_node_def)
  qed
  moreover have "distinct (map fst (fl_led ?st))"
    using old(3) new by (elim disjE exE conjE) (simp_all add: put_node_def)
  moreover have "snd k \<le> bucketAt (fl_time ?st) (epoch_millis ep) \<and>
      (\<forall>t \<ge> fl_time ?st. bucketAt t (epoch_millis ep) = snd k \<longrightarrow> v_leaders (view t (fl_store ?st)) k \<noteq> None)"
    if "led ?st k j" for k j
  proof (cases "led st k j")
    case True
    with led_old(1) [OF True] mono have "snd k \<le> bucketAt (time w) (epoch_millis ep)" by linarith
    moreover have "v_leaders (view t s') k \<noteq> None" if "time w \<le> t" "bucketAt t (epoch_millis ep) = snd k" for t
      using that leaders [OF that(1) led_old(2) [OF True]] w by simp
    ultimately show ?thesis by (simp add: put_node_def)
  next
    case False
    with that new have "(k, j) \<in> set L" by (simp add: led_new)
    with new show ?thesis by (auto simp: put_node_def)
  qed
  moreover have "fleet_cfg ep (d_cfg (nd_bandit (fl_nodes ?st j)))" for j
    using old(2) cfg by (simp add: put_node_def)
  moreover have "dom D' \<subseteq> fst ` set (fl_led ?st)"
    using order_trans [OF D'(2) Un_least [OF domD order_refl]] by (simp add: put_node_def image_Un le_supI1)
  moreover have "D' k = Some p" if "(j, k, p) \<in> set (fl_applied ?st)" for j k p
    using applied [of j k p] that map_le_SomeD [OF D'(1)] by (simp add: put_node_def)
  ultimately show ?thesis
    using s' D'(3) old(1) w by (auto simp: fleet_inv_def put_node_def)
qed

end

text \<open>A step of replica \<open>i\<close> that calls nothing.\<close>

lemma fleet_local:
  assumes fi: "fleet_inv ep good view st D"
    and cfg: "d_cfg d' = d_cfg (nd_bandit (fl_nodes st i))" and ph: "phase_ok (led st) D i ph"
    and A: "\<And>j k p. (j, k, p) \<in> set A \<Longrightarrow> D k = Some p"
  shows "fleet_inv ep good view
    (put_node i \<lparr>nd_bandit = d', nd_phase = ph\<rparr> (st\<lparr>fl_applied := fl_applied st @ A\<rparr>)) D"
proof -
  have "led (put_node i n (st\<lparr>fl_applied := B\<rparr>)) = led st" for n B
    by (simp add: led_def put_node_def fun_eq_iff)
  moreover have "\<forall>(j, k, p) \<in> set (fl_applied st) \<union> set A. D k = Some p"
    using A fi unfolding fleet_inv_def by blast
  ultimately show ?thesis
    using fi cfg ph unfolding fleet_inv_def by (simp add: put_node_def)
qed

lemma node_bandit_update: "n\<lparr>nd_bandit := d\<rparr> = \<lparr>nd_bandit = d, nd_phase = nd_phase n\<rparr>"
  by (cases n) simp

context coordination_store begin

text \<open>Publishing the decision that was made keeps the store within the decisions made.\<close>

lemma decided_within:
  assumes inv: "inv s" and so: "so_decide ops w ns b p ttl s = (s', x)" and t: "time w \<le> t"
    and dec: "\<And>t. time w \<le> t \<Longrightarrow> v_decisions (view t s) \<subseteq>\<^sub>m D" and D: "D (ns, b) = Some p"
  shows "v_decisions (view t s') \<subseteq>\<^sub>m D"
proof -
  have "(v_decisions (view t s))((ns, b) \<mapsto> p) \<subseteq>\<^sub>m D"
    using dec [OF t] D by (auto simp: map_le_def)
  with dec [OF t] have "(case v_decisions (view (time w) s) (ns, b) of None \<Rightarrow> (v_decisions (view t s))((ns, b) \<mapsto> p)
      | Some d \<Rightarrow> v_decisions (view t s)) \<subseteq>\<^sub>m D" by (simp split: option.splits)
  with decide_decisions [OF inv so t] show ?thesis by (rule map_le_trans)
qed

lemma publish_inv:
  assumes fits: "epoch_fits ep" and E: "de_store e = ops" and fi: "fleet_inv ep inv view st D"
    and idle: "nd_phase (fl_nodes st i) = Idle" and w: "fl_time st \<le> time w"
    and p: "publish_phase e w now (nd_bandit (fl_nodes st i)) (fl_store st) = (d', s', ph)"
  shows "fleet_inv ep inv view
    (put_node i \<lparr>nd_bandit = d', nd_phase = ph\<rparr> (st\<lparr>fl_time := time w, fl_store := s', fl_led := fl_led st @ led_by i ph\<rparr>)) D"
proof -
  let ?d = "nd_bandit (fl_nodes st i)" and ?s = "fl_store st"
  have cfg: "fleet_cfg ep (d_cfg ?d)" and inv: "inv ?s" and t0: "0 \<le> time w"
    and dec: "\<And>t. time w \<le> t \<Longrightarrow> v_decisions (view t ?s) \<subseteq>\<^sub>m D"
    and domD: "dom D \<subseteq> fst ` set (fl_led st)"
    using fi w unfolding fleet_inv_def by (auto dest: order_trans)
  have led_leader: "v_leaders (view (time w) ?s) k \<noteq> None"
    if "led st k j" "snd k = bucketAt (time w) (epoch_millis ep)" for k j
    using fi w that unfolding fleet_inv_def by metis
  have mode: "cfg_Mode (d_cfg ?d) \<noteq> ModeSharedPosterior" using cfg by (simp add: fleet_cfg_def)
  from p mode show ?thesis
  proof (cases rule: publish_cases)
    case quiet
    with inv dec w show ?thesis by (intro fleet_call [OF fi]) (simp_all add: phase_ok_def)
  next
    case (failed req err)
    then have sy: "so_sync ops w req ?s = (s', Inl err)" by (simp add: E)
    have "inv s'" using sync_keeps [OF inv, of w req] sy by simp
    moreover have "v_decisions (view t s') \<subseteq>\<^sub>m D" if "time w \<le> t" for t
      using map_le_trans [OF sync_decisions [OF inv sy that] dec [OF that]] .
    ultimately show ?thesis using failed(1,2) w sync_claims [OF inv sy]
      by (intro fleet_call [OF fi]) (simp_all add: phase_ok_def)
  next
    case (synced req result)
    then have sy: "so_sync ops w req ?s = (s', Inr result)" by (simp add: E)
    have s': "inv s'" using sync_keeps [OF inv, of w req] sy by simp
    note res = sync_answer [OF inv sy]
    let ?k = "(sr_Namespace req, sy_Bucket result)"
    have m: "sr_EpochMillis req = epoch_millis ep" and ttl: "sr_LeaderTTL req = 2 * ep"
      using synced(3,4) cfg epoch_bucket(3) [OF fits] by (simp_all add: fleet_cfg_def)
    have key: "sync_key (time w) req = ?k" and b: "sy_Bucket result = bucketAt (time w) (epoch_millis ep)"
      using res m by (simp_all add: sync_key_def)
    have D_pub: "D ?k = Some q" if "published result = Some q" for q
      using that res key map_le_SomeD [OF dec [OF order_refl]] by (simp add: published_def split: if_splits)
    have fresh: "?k \<notin> fst ` set (fl_led st)" if "sy_Leader result"
      using led_leader [of ?k] res that key b by (auto simp: led_def)
    have lasting: "v_leaders (view t s') ?k \<noteq> None"
      if "sy_Leader result" "time w \<le> t" "bucketAt t (epoch_millis ep) = sy_Bucket result" for t
    proof -
      have "unix_milli t < unix_milli (time w) + sr_LeaderTTL req div 1000000"
        using same_bucket_milli [OF fits t0, of t] that(3) b by (simp add: ttl)
      from claim_lasts [OF inv sy that(1,2) this] show ?thesis by (simp add: key)
    qed
    show ?thesis
    proof (rule fleet_call [OF fi w s' synced(1)])
      show "v_leaders (view t s') k \<noteq> None" if "time w \<le> t" "v_leaders (view t ?s) k \<noteq> None" for t k
        using sync_claims [OF inv sy that] .
      show "v_decisions (view t s') \<subseteq>\<^sub>m D" if "time w \<le> t" for t
        using map_le_trans [OF sync_decisions [OF inv sy that] dec [OF that]] .
      show "led_by i ph = [] \<or> (\<exists>k. led_by i ph = [(k, i)] \<and> k \<notin> fst ` set (fl_led st) \<and>
          snd k \<le> bucketAt (time w) (epoch_millis ep) \<and>
          (\<forall>t \<ge> time w. bucketAt t (epoch_millis ep) = snd k \<longrightarrow> v_leaders (view t s') k \<noteq> None))"
        using synced(5) fresh lasting b by (auto simp: led_by_def)
      have "D ?k = None" if "sy_Leader result" using fresh [OF that] domD by blast
      moreover from this have "published result = None" if "sy_Leader result"
        using D_pub that by (cases "published result") auto
      ultimately show "phase_ok (\<lambda>k j. (k, j) \<in> set (fl_led st @ led_by i ph)) D i ph"
        using synced(5) D_pub by (simp add: phase_ok_def led_by_def)
    qed (use domD in auto)
  qed
qed

lemma read_inv:
  assumes E: "de_store e = ops" and fi: "fleet_inv ep inv view st D"
    and ph: "nd_phase (fl_nodes st i) = Reading ns result" and w: "fl_time st \<le> time w"
    and r: "read_phase e w now ns result (nd_bandit (fl_nodes st i)) (fl_store st) = (d', s', ph')"
  shows "\<exists>D'. D \<subseteq>\<^sub>m D' \<and>
    fleet_inv ep inv view (put_node i \<lparr>nd_bandit = d', nd_phase = ph'\<rparr> (st\<lparr>fl_time := time w, fl_store := s'\<rparr>)) D'"
proof -
  let ?d = "nd_bandit (fl_nodes st i)" and ?s = "fl_store st" and ?k = "(ns, sy_Bucket result)"
  have cfg: "fleet_cfg ep (d_cfg ?d)" and inv: "inv ?s"
    and dec: "\<And>t. time w \<le> t \<Longrightarrow> v_decisions (view t ?s) \<subseteq>\<^sub>m D"
    and dist: "distinct (map fst (fl_led st))"
    using fi w unfolding fleet_inv_def by (auto dest: order_trans)
  have ok: "phase_ok (led st) D i (Reading ns result)" using fi ph unfolding fleet_inv_def by metis
  then have mine: "led st ?k i" "D ?k = None" "published result = None" by (simp_all add: phase_ok_def)
  have "cfg_Mode (d_cfg ?d) \<noteq> ModeSharedPosterior" using cfg by (simp add: fleet_cfg_def)
  note rc = read_cases [OF r this]
  obtain lo hi x where so: "so_window ops w ns lo hi ?s = (s', x)"
    using rc E by (metis prod.collapse)
  have s': "inv s'" using window_keeps [OF inv] so by (metis fst_conv)
  have dec': "v_decisions (view t s') \<subseteq>\<^sub>m D" if "time w \<le> t" for t
    using map_le_trans [OF window_decisions [OF inv so that] dec [OF that]] .
  define D' where "D' = (case ph' of Deciding _ _ choice \<Rightarrow> D(?k \<mapsto> choice) | _ \<Rightarrow> D)"
  have D': "D \<subseteq>\<^sub>m D'" using mine(2) by (auto simp: D'_def map_le_def split: phase.splits)
  have "fleet_inv ep inv view (put_node i \<lparr>nd_bandit = d', nd_phase = ph'\<rparr>
      (st\<lparr>fl_time := time w, fl_store := s', fl_led := fl_led st @ []\<rparr>)) D'"
  proof (rule fleet_call [OF fi w s' _ _ D'])
    show "d_cfg d' = d_cfg ?d" using rc by simp
    show "v_leaders (view t s') k \<noteq> None" if "time w \<le> t" "v_leaders (view t ?s) k \<noteq> None" for t k
      using window_claims [OF inv so that] .
    show "dom D' \<subseteq> dom D \<union> fst ` set (fl_led st)"
      using mine(1) by (force simp: D'_def led_def split: phase.splits)
    show "v_decisions (view t s') \<subseteq>\<^sub>m D'" if "time w \<le> t" for t
      using map_le_trans [OF dec' [OF that] D'] .
    show "D' k = D k" if "led st k j" "j \<noteq> i" for k j
      using that mine(1) eq_key_imp_eq_value [OF dist, of ?k] by (auto simp: D'_def led_def split: phase.splits)
    show "phase_ok (\<lambda>k j. (k, j) \<in> set (fl_led st @ [])) D' i ph'"
      using rc mine by (auto simp: phase_ok_def led_def D'_def)
  qed simp
  with D' show ?thesis by auto
qed

text \<open>Whether the call to publish was answered or not, the decision it may have left is the leader's own.\<close>

lemma decide_inv_step:
  assumes E: "de_store e = ops" and fi: "fleet_inv ep inv view st D"
    and ph: "nd_phase (fl_nodes st i) = Deciding ns result choice" and w: "fl_time st \<le> time w"
    and r: "decide_phase e w now ns result choice (nd_bandit (fl_nodes st i)) (fl_store st) = (d', s', ph')"
  shows "fleet_inv ep inv view (put_node i \<lparr>nd_bandit = d', nd_phase = ph'\<rparr> (st\<lparr>fl_time := time w, fl_store := s'\<rparr>)) D"
proof -
  let ?d = "nd_bandit (fl_nodes st i)" and ?s = "fl_store st" and ?k = "(ns, sy_Bucket result)"
  have inv: "inv ?s" and dec: "\<And>t. time w \<le> t \<Longrightarrow> v_decisions (view t ?s) \<subseteq>\<^sub>m D"
    using fi w unfolding fleet_inv_def by (auto dest: order_trans)
  have ok: "phase_ok (led st) D i (Deciding ns result choice)" using fi ph unfolding fleet_inv_def by metis
  then have mine: "D ?k = Some choice" "published result = None" by (simp_all add: phase_ok_def)
  have now: "v_decisions (view (time w) ?s) ?k \<in> {None, Some choice}"
    using map_le_SomeD [OF dec [OF order_refl], of ?k] mine(1) by (cases "v_decisions (view (time w) ?s) ?k") auto
  from r obtain x where cfg': "d_cfg d' = d_cfg ?d"
    and so: "so_decide ops w ns (sy_Bucket result) choice (decisionTTL (d_cfg ?d)) ?s = (s', x)"
    and ph': "ph' = Applying ns (sy_Bucket result) None \<or> ph' = Applying ns (sy_Bucket result) (Some choice)"
  proof (cases rule: decide_cases)
    case (failed err)
    with that [of "Inl err"] mine(2) show ?thesis by (simp add: E)
  next
    case (decided q)
    then have so: "so_decide ops w ns (sy_Bucket result) choice (decisionTTL (d_cfg ?d)) ?s = (s', Inr q)" by (simp add: E)
    have "q = choice" using decide_answer [OF inv so] now by auto
    with that [of "Inr q"] so decided mine(2) show ?thesis by simp
  qed
  have s': "inv s'" using decide_keeps_inv [OF inv] so by (metis fst_conv)
  have "fleet_inv ep inv view (put_node i \<lparr>nd_bandit = d', nd_phase = ph'\<rparr>
      (st\<lparr>fl_time := time w, fl_store := s', fl_led := fl_led st @ []\<rparr>)) D"
  proof (rule fleet_call [OF fi w s' cfg'])
    show "v_leaders (view t s') k \<noteq> None" if "time w \<le> t" "v_leaders (view t ?s) k \<noteq> None" for t k
      using decide_claims [OF inv so that] .
    show "v_decisions (view t s') \<subseteq>\<^sub>m D" if "time w \<le> t" for t
      by (rule decided_within [OF inv so that dec mine(1)])
    show "phase_ok (\<lambda>k j. (k, j) \<in> set (fl_led st @ [])) D i ph'"
      using ph' mine by (auto simp: phase_ok_def)
  qed simp_all
  then show ?thesis by simp
qed

lemma apply_inv:
  assumes fi: "fleet_inv ep inv view st D" and ph: "nd_phase (fl_nodes st i) = Applying ns b decided"
  shows "fleet_inv ep inv view (fleet_do E time (Apply i now) st) D"
proof -
  let ?d = "nd_bandit (fl_nodes st i)"
  have ok: "phase_ok (led st) D i (Applying ns b decided)" using fi ph unfolding fleet_inv_def by metis
  define A where "A = (case decided of None \<Rightarrow> [] | Some p \<Rightarrow> if knownArmLocked p ?d then [(i, (ns, b), p)] else [])"
  have "fleet_do E time (Apply i now) st =
      put_node i \<lparr>nd_bandit = applyResult now b decided ?d, nd_phase = Idle\<rparr> (st\<lparr>fl_applied := fl_applied st @ A\<rparr>)"
    using ph by (auto simp: A_def Let_def split: option.splits)
  moreover have "fleet_inv ep inv view \<dots> D"
    by (rule fleet_local [OF fi]) (use ok in \<open>auto simp: frames phase_ok_def A_def split: option.splits if_splits\<close>)
  ultimately show ?thesis by simp
qed

lemma fleet_do_inv:
  assumes "epoch_fits ep" and "\<And>i. de_store (E i) = ops" and fi: "fleet_inv ep inv view st D"
  shows "\<exists>D'. D \<subseteq>\<^sub>m D' \<and> fleet_inv ep inv view (fleet_do E time ev st) D'"
proof (cases ev)
  case (Report i report)
  show ?thesis
  proof (cases "dist_record_epoch (nd_bandit (fl_nodes st i)) report")
    case None
    with fi Report show ?thesis by (auto intro: exI [of _ D])
  next
    case (Some d)
    have "phase_ok (led st) D i (nd_phase (fl_nodes st i))" using fi unfolding fleet_inv_def by blast
    from fleet_local [OF fi record_epoch_cfg [OF Some] this, of "[]"] show ?thesis
      using Some Report by (auto simp: put_node_def node_bandit_update intro: exI [of _ D])
  qed
next
  case (Publish i w now)
  obtain d s ph where p: "publish_phase (E i) w now (nd_bandit (fl_nodes st i)) (fl_store st) = (d, s, ph)"
    by (metis prod_cases3)
  with publish_inv [OF assms(1) assms(2) [of i] fi _ _ p] fi Publish show ?thesis by (auto simp: not_less intro: exI [of _ D])
next
  case (ReadWindow i w now)
  show ?thesis
  proof (cases "nd_phase (fl_nodes st i)")
    case (Reading ns result)
    obtain d s ph where p: "read_phase (E i) w now ns result (nd_bandit (fl_nodes st i)) (fl_store st) = (d, s, ph)"
      by (metis prod_cases3)
    with read_inv [OF assms(2) [of i] fi Reading _ p] fi Reading ReadWindow show ?thesis by (auto simp: not_less intro: exI [of _ D])
  qed (use fi ReadWindow in \<open>auto intro: exI [of _ D]\<close>)
next
  case (Decide i w now)
  show ?thesis
  proof (cases "nd_phase (fl_nodes st i)")
    case (Deciding ns result choice)
    obtain d s ph where p: "decide_phase (E i) w now ns result choice (nd_bandit (fl_nodes st i)) (fl_store st) = (d, s, ph)"
      by (metis prod_cases3)
    with decide_inv_step [OF assms(2) [of i] fi Deciding _ p] fi Deciding Decide show ?thesis by (auto simp: not_less intro: exI [of _ D])
  qed (use fi Decide in \<open>auto intro: exI [of _ D]\<close>)
next
  case (Apply i now)
  show ?thesis
  proof (cases "nd_phase (fl_nodes st i)")
    case (Applying ns b decided)
    with apply_inv [OF fi] Apply show ?thesis by (blast intro: map_le_refl)
  qed (use fi Apply in \<open>auto intro: exI [of _ D]\<close>)
qed

lemma fleet_run_inv:
  assumes "epoch_fits ep" and "\<And>i. de_store (E i) = ops" and "fleet_inv ep inv view st D"
  shows "\<exists>D'. fleet_inv ep inv view (fleet_run E time evs st) D'"
  using assms(3)
proof (induction evs arbitrary: st D)
  case (Cons ev evs)
  from fleet_do_inv [where E = E and ev = ev, OF assms(1) assms(2) Cons.prems] Cons.IH show ?case
    by (auto simp: fleet_run_def)
qed (auto simp: fleet_run_def)

lemma new_fleet_inv:
  assumes "inv s" "0 \<le> t" "\<And>i. fleet_cfg ep (d_cfg (ds i))" "\<And>t'. t \<le> t' \<Longrightarrow> v_decisions (view t' s) = Map.empty"
  shows "fleet_inv ep inv view (new_fleet t s ds) Map.empty"
  using assms by (simp add: fleet_inv_def new_fleet_def led_def phase_ok_def)

end

end
