(* ===== verification/BanditTheorems.thy ===== *)
theory BanditTheorems
  imports Fleet
begin

text \<open>
  What the bandit package promises: theorems about single replicas, about the stores they share, and
  about whole fleets, each with an instance on a small concrete fleet of two replicas.
\<close>

subsection \<open>A concrete fleet\<close>

definition demo_cfg :: "string \<Rightarrow> config" where
  "demo_cfg node =
     \<lparr>cfg_HasStore = True, cfg_Namespace = ''f'', cfg_NodeID = node, cfg_CoordinationEpoch = 1000000000,
      cfg_Window = 2, cfg_Decay = 1, cfg_MaxEvidence = - 1, cfg_Mode = ModeLeader, cfg_Evidence = EvidenceAll,
      cfg_FallbackAfter = 3000000000, cfg_SyncTimeout = 1000000000, cfg_LocalDiscount = 1,
      cfg_Jitter = 1 / 4, cfg_Seed = 1\<rparr>"

definition demo_shape :: regime where
  "demo_shape = \<lparr>rg_arms = [LRU, LFU], rg_capacity = 8, rg_sampleRate = 1\<rparr>"

definition demo_replica :: "string \<Rightarrow> (unit, unit) distributed" where
  "demo_replica node =
     \<lparr>d_cfg = demo_cfg node, d_local = NewThompson 1 (), d_selection = 0, d_rng = (),
      d_pending = Mapping.update (ArmKey LFU RoleShadow) zero_stats Mapping.empty,
      d_shape = Some demo_shape, d_namespace = ''f:x'', d_arms = {LRU, LFU},
      d_state = \<lparr>st_lastSync = None, st_lastBucket = 0, st_lastErr = None, st_syncs = 0, st_syncFailures = 0,
        st_leaderships = 0, st_decisions = 0, st_rejected = 0, st_fallback = False, st_fleet = Mapping.empty\<rparr>\<rparr>"

definition demo_dist_env :: "(unit, unit mem_store, unit mem_call, unit) dist_env" where
  "demo_dist_env =
     \<lparr>de_store = mem_ops, de_beta = (\<lambda>r a b. (r, 1 / 2)), de_pow = (\<lambda>x y. 1), de_visit = Mapping.ordered_keys\<rparr>"

definition at_ms :: "int \<Rightarrow> unit mem_call" where
  "at_ms t = \<lparr>call_ctx = None, call_now = t * 1000000\<rparr>"

text \<open>Replica 0 leads bucket 1, which is empty, and bucket 2, which replica 1 then follows.\<close>

definition demo_events :: "unit mem_call fleet_event list" where
  "demo_events =
     [Publish 0 (at_ms 1000) 0, ReadWindow 0 (at_ms 1010) 0, Apply 0 0,
      Publish 0 (at_ms 2100) 0, ReadWindow 0 (at_ms 2110) 0, Decide 0 (at_ms 2120) 0,
      Publish 1 (at_ms 2500) 0, Apply 0 0, Apply 1 0]"

definition demo_fleet :: "(unit, unit mem_store, unit) fleet" where
  "demo_fleet = fleet_run (\<lambda>_. demo_dist_env) call_now demo_events
     (new_fleet 0 NewMemStore (\<lambda>i. demo_replica (if i = 0 then ''a'' else ''b'')))"

lemma demo_applied:
  "fl_applied demo_fleet = [(0, (''f:x'', 2), LFU), (1, (''f:x'', 2), LFU)] \<and>
   map snd (fl_led demo_fleet) = [0, 0]"
  by code_simp

lemma drain_defined: "d_shape d \<noteq> None \<Longrightarrow> \<exists>d1 req. drain v d = (d1, Some req)"
  by (cases "d_shape d") (simp_all add: drain_def Let_def)

subsection \<open>Fleets\<close>

text \<open>The demonstration's replicas and store meet what the theorems ask of a fleet.\<close>

lemma demo_fleet_cfg: "fleet_cfg 1000000000 (d_cfg (demo_replica node))"
  by (simp add: fleet_cfg_def demo_replica_def demo_cfg_def)

lemma demo_env_store: "de_store demo_dist_env = mem_ops"
  by (simp add: demo_dist_env_def)

lemma demo_epoch: "epoch_fits 1000000000"
  by (simp add: epoch_fits_def)

text \<open>C4: The replicas of a fleet agree. Whatever the interleaving of their calls, the failures of the
  store's calls, the reports of their caches and the draws of their bandits: two replicas that switch
  because of a decision for the same bucket of the same namespace switch to the same policy. The fleet
  follows leaders and has one coordination epoch of at least a millisecond and less than 146 years.\<close>

theorem fleet_agreement:
  assumes "epoch_fits ep" and "\<And>i. fleet_cfg ep (d_cfg (ds i))" and "\<And>i. de_store (E i) = mem_ops"
    and "0 \<le> t" and "st = fleet_run E call_now evs (new_fleet t NewMemStore ds)"
    and "(i, k, p) \<in> set (fl_applied st)" and "(j, k, q) \<in> set (fl_applied st)"
  shows "p = q"
proof -
  have "fleet_inv ep (\<lambda>_. True) mem_view (new_fleet t NewMemStore ds) Map.empty"
    by (rule mem.new_fleet_inv) (simp_all add: assms mem_view_def NewMemStore_def)
  from mem.fleet_run_inv [where E = E and evs = evs, OF assms(1,3) this] assms(5-7) show ?thesis by (auto dest: fleet_agrees)
qed

lemma fleet_agreement_witness:
  "\<exists>p. (0, (''f:x'', 2), p) \<in> set (fl_applied demo_fleet) \<and> (1, (''f:x'', 2), p) \<in> set (fl_applied demo_fleet)"
proof -
  have "p = LFU" if "(0, (''f:x'', 2), p) \<in> set (fl_applied demo_fleet)" for p
    by (rule fleet_agreement [OF demo_epoch demo_fleet_cfg demo_env_store order_refl demo_fleet_def that, where j = 1])
      (simp add: demo_applied)
  then show ?thesis using demo_applied by auto
qed

text \<open>C5: No bucket of a namespace ever has two leaders, in a fleet that follows leaders and whose replicas have
  one coordination epoch of at least a millisecond and less than 146 years: over any run of it, leadership of
  each bucket is granted at most once. (With a shorter epoch it may be granted twice, see
  \<open>leadership_lasts_two_epochs\<close>.)\<close>

theorem one_leader_per_bucket:
  assumes "epoch_fits ep" and "\<And>i. fleet_cfg ep (d_cfg (ds i))" and "\<And>i. de_store (E i) = mem_ops"
    and "0 \<le> t"
  shows "distinct (map fst (fl_led (fleet_run E call_now evs (new_fleet t NewMemStore ds))))"
proof -
  have "fleet_inv ep (\<lambda>_. True) mem_view (new_fleet t NewMemStore ds) Map.empty"
    by (rule mem.new_fleet_inv) (simp_all add: assms mem_view_def NewMemStore_def)
  from mem.fleet_run_inv [where E = E and evs = evs, OF assms(1,3) this] show ?thesis unfolding fleet_inv_def by blast
qed

lemma one_leader_per_bucket_witness:
  "distinct (map fst (fl_led demo_fleet)) \<and> length (fl_led demo_fleet) = 2"
proof
  show "distinct (map fst (fl_led demo_fleet))" unfolding demo_fleet_def
    by (rule one_leader_per_bucket [OF demo_epoch demo_fleet_cfg demo_env_store order_refl])
  show "length (fl_led demo_fleet) = 2" using demo_applied by (metis length_map length_Cons list.size(3) numeral_2_eq_2)
qed

text \<open>A sync of a replica in leader mode against a memory store that answers.\<close>

lemma leader_publishes:
  assumes E: "de_store E = mem_ops" and d: "d_shape d \<noteq> None" "d_namespace d = ns" "cfg_Mode (d_cfg d) = ModeLeader"
      "cfg_CoordinationEpoch (d_cfg d) = ep" and ep: "0 < ep" "2 * ep < 2 ^ 63"
    and live: "call_ctx w = None" "ms_failure s = None" and b: "bucketAt (call_now w) (epoch_millis ep) = b"
  obtains d' s' result where "publish_phase E w now d s = (d', s', if sy_Leader result then Reading ns result
        else Applying ns b (published result))" "sy_Bucket result = b" "ms_failure s' = None"
    "sy_Leader result \<longleftrightarrow> v_leaders (mem_view (call_now w) s) (ns, b) = None"
    "\<And>t. call_now w \<le> t \<Longrightarrow> sy_Leader result \<Longrightarrow> v_leaders (mem_view t s') (ns, b) = None \<longleftrightarrow> call_now w + 2 * ep < t"
proof -
  obtain d1 req where dr: "drain (de_visit E) d = (d1, Some req)" using drain_defined [OF d(1)] by blast
  note req = drain_request_frame [OF dr]
  obtain s' result where sy: "mem_sync w req s = (s', Inr result)" "ms_failure s' = None"
    using live by (simp add: mem_sync_def Let_def split_beta expireLocked_def)
  have ttl: "leaderTTL (d_cfg d) = 2 * ep" using d(4) ep by (simp add: leaderTTL_def go_int64_exact)
  have key: "sync_key (call_now w) req = (ns, b)" using req d b by (simp add: sync_key_def)
  have res: "sy_Bucket result = b" "sy_Leader result \<longleftrightarrow> v_leaders (mem_view (call_now w) s) (ns, b) = None"
    using mem.sync_result [of w req s s' result] sy(1) key req d b by simp_all
  have lasts: "v_leaders (mem_view t s') (ns, b) = None \<longleftrightarrow> call_now w + 2 * ep < t" if "call_now w \<le> t" "sy_Leader result" for t
    using mem.sync_view [of w req s s' result t] sy(1) key that req(5) ttl by (simp add: kept_def not_le)
  have "cfg_Mode (d_cfg d) \<noteq> ModeSharedPosterior" using d(3) by (simp add: names)
  then have "publish_phase E w now d s =
      ((if sy_Leader result then d1\<lparr>d_state := (d_state d1)\<lparr>st_leaderships := st_leaderships (d_state d1) + 1\<rparr>\<rparr> else d1), s',
       if sy_Leader result then Reading ns result else Applying ns b (published result))"
    using dr sy(1) E req(1) d(2) drained_frame(1) [OF dr] res(1) by (simp add: publish_phase_def)
  from that [OF this res(1) sy(2) res(2) lasts] show thesis .
qed

text \<open>C39: Leadership of a bucket lasts two coordination epochs, whatever the length of the bucket: when two
  replicas in leader mode, idle and with a report of their caches behind them, with one namespace and one epoch of less than
  146 years, sync one after the other in the same bucket, which was free, against a store that answers, the first
  leads it, and the second leads it too exactly when more than two epochs have passed in between. As buckets are counted in whole milliseconds, that happens only with an epoch below half a
  millisecond; \<^verbatim>\<open>validate\<close> accepts every positive one (\<open>validate_any_epoch\<close>).\<close>

theorem leadership_lasts_two_epochs:
  fixes st :: "('r, 'e mem_store, 'e) fleet"
  assumes "i \<noteq> j" and "\<And>n. n \<in> {i, j} \<Longrightarrow> nd_phase (fl_nodes st n) = Idle \<and> de_store (E n) = mem_ops"
    and bandits: "\<And>n. n \<in> {i, j} \<Longrightarrow> d_shape (nd_bandit (fl_nodes st n)) \<noteq> None \<and>
      d_namespace (nd_bandit (fl_nodes st n)) = ns \<and> cfg_Mode (d_cfg (nd_bandit (fl_nodes st n))) = ModeLeader \<and>
      cfg_CoordinationEpoch (d_cfg (nd_bandit (fl_nodes st n))) = ep"
    and ep: "0 < ep" "2 * ep < 2 ^ 63" and live: "call_ctx w1 = None" "call_ctx w2 = None" "ms_failure (fl_store st) = None"
    and times: "0 \<le> fl_time st" "fl_time st \<le> call_now w1" "call_now w1 \<le> call_now w2"
    and bucket: "bucketAt (call_now w1) (epoch_millis ep) = b" "bucketAt (call_now w2) (epoch_millis ep) = b"
    and free: "v_leaders (mem_view (call_now w1) (fl_store st)) (ns, b) = None"
  shows "fl_led (fleet_run E call_now [Publish i w1 n1, Publish j w2 n2] st) =
      fl_led st @ ((ns, b), i) # (if call_now w1 + 2 * ep < call_now w2 then [((ns, b), j)] else []) \<and>
    (call_now w1 + 2 * ep < call_now w2 \<longrightarrow> ep < 500000)"
proof
  let ?s = "fl_store st" and ?d = "\<lambda>n. nd_bandit (fl_nodes st n)"
  have i: "de_store (E i) = mem_ops" "d_shape (?d i) \<noteq> None" "d_namespace (?d i) = ns"
    "cfg_Mode (d_cfg (?d i)) = ModeLeader" "cfg_CoordinationEpoch (d_cfg (?d i)) = ep"
    using assms(2) [of i] bandits [of i] by simp_all
  have j: "de_store (E j) = mem_ops" "d_shape (?d j) \<noteq> None" "d_namespace (?d j) = ns"
    "cfg_Mode (d_cfg (?d j)) = ModeLeader" "cfg_CoordinationEpoch (d_cfg (?d j)) = ep"
    using assms(2) [of j] bandits [of j] by simp_all
  obtain d1 s1 r1 where "publish_phase (E i) w1 n1 (?d i) ?s = (d1, s1, if sy_Leader r1 then Reading ns r1
      else Applying ns b (published r1))" "sy_Bucket r1 = b" and s1: "ms_failure s1 = None"
    and r1: "sy_Leader r1 \<longleftrightarrow> v_leaders (mem_view (call_now w1) ?s) (ns, b) = None"
    and lasts: "\<And>t. call_now w1 \<le> t \<Longrightarrow> sy_Leader r1 \<Longrightarrow> v_leaders (mem_view t s1) (ns, b) = None \<longleftrightarrow> call_now w1 + 2 * ep < t"
    by (rule leader_publishes [OF i ep live(1,3) bucket(1), of n1]) (rule that)
  moreover have lead: "sy_Leader r1" using r1 free by simp
  ultimately have p1: "publish_phase (E i) w1 n1 (?d i) ?s = (d1, s1, Reading ns r1)" "sy_Leader r1" "sy_Bucket r1 = b"
    by simp_all
  obtain d2 s2 r2 where p2: "publish_phase (E j) w2 n2 (?d j) s1 = (d2, s2, if sy_Leader r2 then Reading ns r2
      else Applying ns b (published r2))" "sy_Bucket r2 = b"
    and "sy_Leader r2 \<longleftrightarrow> v_leaders (mem_view (call_now w2) s1) (ns, b) = None"
    by (rule leader_publishes [OF j ep live(2) s1 bucket(2), of n2]) (rule that)
  then have r2: "sy_Leader r2 \<longleftrightarrow> call_now w1 + 2 * ep < call_now w2" using lasts [OF times(3) lead] by simp
  show "fl_led (fleet_run E call_now [Publish i w1 n1, Publish j w2 n2] st) =
      fl_led st @ ((ns, b), i) # (if call_now w1 + 2 * ep < call_now w2 then [((ns, b), j)] else [])"
    using assms(1,2) times p1 p2 r2 by (simp add: fleet_run_def put_node_def led_by_def)
  show "call_now w1 + 2 * ep < call_now w2 \<longrightarrow> ep < 500000"
  proof (rule ccontr)
    assume "\<not> ?thesis"
    then have late: "call_now w1 + 2 * ep < call_now w2" and "500000 \<le> ep" by simp_all
    moreover have "epoch_millis ep = ep div 1000000" using ep(1) by (intro sdiv_nonneg) simp_all
    moreover have "1000000 * (ep div 1000000) \<le> ep" by presburger
    ultimately have "call_now w1 + 1000000 * max 1 (epoch_millis ep) \<le> call_now w2"
      unfolding max_def by (simp split: if_split)
    with bucketAt_later [of "call_now w1" "epoch_millis ep" "call_now w2"] times bucket show False by simp
  qed
qed

definition short_replica :: "string \<Rightarrow> (unit, unit) distributed" where
  "short_replica node = (demo_replica node)\<lparr>d_cfg := (demo_cfg node)\<lparr>cfg_CoordinationEpoch := 100000\<rparr>\<rparr>"

definition at_ns :: "int \<Rightarrow> unit mem_call" where
  "at_ns t = \<lparr>call_ctx = None, call_now = t\<rparr>"

lemma leadership_lasts_two_epochs_witness:
  "fl_led (fleet_run (\<lambda>_. demo_dist_env) call_now [Publish 0 (at_ns 1000000) 0, Publish 1 (at_ns 1300000) 0]
     (new_fleet 0 NewMemStore (\<lambda>i. short_replica (if i = 0 then ''a'' else ''b'')))) =
   [((''f:x'', 1), 0), ((''f:x'', 1), 1)]"
proof -
  let ?st = "new_fleet 0 NewMemStore (\<lambda>i. short_replica (if i = 0 then ''a'' else ''b'')) :: (unit, unit mem_store, unit) fleet"
  have b: "bucketAt 1000000 (epoch_millis 100000) = 1" "bucketAt 1300000 (epoch_millis 100000) = 1" by code_simp+
  show ?thesis
    using leadership_lasts_two_epochs [where st = ?st and i = 0 and j = 1 and ns = "''f:x''" and ep = 100000 and b = 1
        and ?w1.0 = "at_ns 1000000" and ?w2.0 = "at_ns 1300000" and E = "\<lambda>_. demo_dist_env" and ?n1.0 = 0 and ?n2.0 = 0] b
    by (simp add: new_fleet_def short_replica_def demo_replica_def demo_cfg_def demo_env_store at_ns_def
        NewMemStore_def mem_view_def)
qed

subsection \<open>The store\<close>

text \<open>A call of the memory store by anyone, for runs of calls.\<close>

datatype 'e store_call =
  SyncCall "'e mem_call" sync_request
| WindowCall "'e mem_call" string bucket bucket
| DecideCall "'e mem_call" string bucket policy_type int
| CloseCall

fun store_do :: "'e store_call \<Rightarrow> 'e mem_store \<Rightarrow> 'e mem_store" where
  "store_do (SyncCall w req) s = fst (mem_sync w req s)"
| "store_do (WindowCall w ns lo hi) s = fst (mem_window w ns lo hi s)"
| "store_do (DecideCall w ns b p ttl) s = fst (mem_decide w ns b p ttl s)"
| "store_do CloseCall s = mem_close s"

text \<open>The calls made up to a time; \<^verbatim>\<open>Close\<close> does not read the clock.\<close>

fun made_by :: "int \<Rightarrow> 'e store_call \<Rightarrow> bool" where
  "made_by t (SyncCall w req) \<longleftrightarrow> call_now w \<le> t"
| "made_by t (WindowCall w ns lo hi) \<longleftrightarrow> call_now w \<le> t"
| "made_by t (DecideCall w ns b p ttl) \<longleftrightarrow> call_now w \<le> t"
| "made_by t CloseCall \<longleftrightarrow> True"

lemma store_do_decision:
  assumes "v_decisions (mem_view t s) k = Some d" and "made_by t c" and "c \<noteq> CloseCall"
  shows "v_decisions (mem_view t (store_do c s)) k = Some d"
proof (cases c)
  case (SyncCall w req)
  with assms show ?thesis
    by (auto simp: mem_sync_def Let_def mem_view_def expireLocked_def split: option.splits)
next
  case (WindowCall w ns lo hi)
  with assms show ?thesis
    by (auto simp: mem_window_def Let_def mem_view_def expireLocked_def split: option.splits)
next
  case (DecideCall w ns b p ttl)
  have v: "v_decisions (mem_view (call_now w) s) k = Some d"
    using assms DecideCall mem.forgets [of "call_now w" t s] by (auto dest: map_le_SomeD)
  obtain s' r where r: "mem_decide w ns b p ttl s = (s', r)" by (cases "mem_decide w ns b p ttl s")
  have "v_decisions (mem_view t s') k = Some d"
  proof (cases r)
    case (Inl e)
    with r mem.decide_fails [of w ns b p ttl s s' e t] assms DecideCall show ?thesis by simp
  next
    case (Inr q)
    with r mem.decide_view [of w ns b p ttl s s' q t] assms DecideCall v show ?thesis
      by (auto split: option.splits)
  qed
  with r DecideCall show ?thesis by simp
qed (use assms(3) in simp)

text \<open>C18: A published decision is immutable while it lasts: if a decision for a bucket is still to be
  visible at some time, no sequence of syncs, windows and decisions made until then, by anyone, replaces or
  removes it, and publishing again returns it. Only closing the store, which discards everything, ends it early.\<close>

theorem decision_immutable:
  assumes "v_decisions (mem_view t s) (ns, b) = Some d"
    and "\<forall>c \<in> set calls. made_by t c" and "CloseCall \<notin> set calls"
    and "mem_decide w ns b p ttl (fold store_do calls s) = (s', Inr q)" and "call_now w = t"
  shows "v_decisions (mem_view t (fold store_do calls s)) (ns, b) = Some d \<and> q = d \<and>
    v_decisions (mem_view t (store_do CloseCall (fold store_do calls s))) = Map.empty"
proof -
  have v: "v_decisions (mem_view t (fold store_do calls s)) (ns, b) = Some d"
    using assms(1-3) by (induction calls arbitrary: s) (auto intro: store_do_decision)
  have "so_decide mem_ops w ns b p ttl (fold store_do calls s) = (s', Inr q)" using assms(4) by simp
  from mem.decide_result [OF _ this] v assms(5) show ?thesis by (simp add: mem_close_def mem_view_def)
qed

definition demo_decided :: "unit mem_store" where
  "demo_decided = fst (mem_decide (at_ms 0) ''f'' 1 LRU 3000000000 NewMemStore)"

lemma decision_immutable_witness:
  "v_decisions (mem_view 2000000000 (fold store_do [DecideCall (at_ms 1000) ''f'' 1 LFU 3000000000] demo_decided))
     (''f'', 1) = Some LRU"
proof -
  let ?calls = "[DecideCall (at_ms 1000) ''f'' 1 LFU 3000000000]"
  have d: "v_decisions (mem_view 2000000000 demo_decided) (''f'', 1) = Some LRU" by code_simp
  have "snd (mem_decide (at_ms 2000) ''f'' 1 LFU 0 (fold store_do ?calls demo_decided)) = Inr LRU" by code_simp
  then have q: "mem_decide (at_ms 2000) ''f'' 1 LFU 0 (fold store_do ?calls demo_decided) =
      (fst (mem_decide (at_ms 2000) ''f'' 1 LFU 0 (fold store_do ?calls demo_decided)), Inr LRU)"
    by (metis prod.collapse)
  show ?thesis using decision_immutable [OF d _ _ q] by (simp add: at_ms_def)
qed

subsection \<open>Replicas\<close>

text \<open>What a bucket's arm holds at a moment; an absent bucket holds nothing.\<close>

definition bucket_counts :: "int \<Rightarrow> bucket_key \<Rightarrow> 'e mem_store \<Rightarrow> arm_key \<Rightarrow> policy_stats" where
  "bucket_counts t k s a =
     (case v_counts (mem_view t s) k of None \<Rightarrow> zero_stats | Some arms \<Rightarrow> map_stats (Mapping.lookup arms) a)"

lemma map_stats_none [simp]: "map_stats (\<lambda>_. None) k = zero_stats"
  by (simp add: map_stats_def)

text \<open>C16: What a replica measured reaches the store exactly once: when a sync is answered, every arm and
  role of the bucket grows by exactly the counts that were pending, and nothing stays pending, whatever
  order the pending map is visited in.\<close>

theorem measurements_published_once:
  assumes "de_store E = mem_ops" and "visits (de_visit E) (d_pending d)" and "d_shape d \<noteq> None"
    and "call_ctx w = None" and "ms_failure s = None" and "0 \<le> counterTTL (d_cfg d)"
    and p: "publish_phase E w now d s = (d', s', ph)"
    and k: "k = (d_namespace d, bucketAt (call_now w) (cfg_CoordinationEpoch (d_cfg d) sdiv 1000000))"
  shows "bucket_counts (call_now w) k s' a = add_stats (bucket_counts (call_now w) k s a) (pending_at d a) \<and>
    Mapping.lookup (d_pending d') = Map.empty"
proof -
  obtain d1 req where dr: "drain (de_visit E) d = (d1, Some req)" using drain_defined [OF assms(3)] by blast
  note req = drain_request_frame [OF dr] and sum = drain_request [OF assms(2) dr]
  obtain s1 result where sy: "mem_sync w req s = (s1, Inr result)"
    using assms(4,5) by (simp add: mem_sync_def Let_def split_beta)
  have s': "s' = s1" and d': "d_pending d' = Mapping.empty"
    using p dr drain_pending [OF dr] by (auto simp: publish_phase_def assms(1) sy split: if_splits)
  have key: "sync_key (call_now w) req = k" using req k by (simp add: sync_key_def)
  have view: "v_counts (mem_view (call_now w) s1) k =
      (if sr_Counts req = [] then v_counts (mem_view (call_now w) s) k
       else Some (add_counts (sr_Counts req) (case v_counts (mem_view (call_now w) s) k of None \<Rightarrow> Mapping.empty | Some m \<Rightarrow> m)))"
    using mem.sync_view [of w req s s1 result "call_now w"] sy key req(6) assms(6) by (simp add: kept_def)
  have "bucket_counts (call_now w) k s1 a = add_stats (bucket_counts (call_now w) k s a)
      (sum_stats (map count_stats (filter (\<lambda>c. count_key c = a) (sr_Counts req))))"
    by (cases "sr_Counts req"; cases "v_counts (mem_view (call_now w) s) k")
      (simp_all add: bucket_counts_def view add_counts_sum del: add_stats_sel)
  with s' d' show ?thesis by (simp add: sum)
qed

definition demo_measured :: "(unit, unit) distributed" where
  "demo_measured = (demo_replica ''a'')
     \<lparr>d_pending := Mapping.update (ArmKey LFU RoleShadow) \<lparr>Hits = 3, Misses = 1\<rparr> Mapping.empty\<rparr>"

lemma measurements_published_once_witness:
  "bucket_counts 1000000000 (''f:x'', 1)
     (fst (snd (publish_phase demo_dist_env (at_ms 1000) 0 demo_measured NewMemStore))) (ArmKey LFU RoleShadow) =
   \<lparr>Hits = 3, Misses = 1\<rparr>"
proof -
  obtain d' s' ph where p: "publish_phase demo_dist_env (at_ms 1000) 0 demo_measured NewMemStore = (d', s', ph)"
    by (metis prod_cases3)
  have k: "(''f:x'', 1) = (d_namespace demo_measured,
      bucketAt (call_now (at_ms 1000)) (cfg_CoordinationEpoch (d_cfg demo_measured) sdiv 1000000))"
    by code_simp
  have "visits (de_visit demo_dist_env) (d_pending demo_measured)"
    unfolding demo_measured_def visits_def demo_dist_env_def by (simp add: Mapping.ordered_keys_def)
  from measurements_published_once [OF demo_env_store this _ _ _ _ p k, of "ArmKey LFU RoleShadow"] p
  show ?thesis
    by (simp add: demo_measured_def demo_replica_def demo_cfg_def at_ms_def NewMemStore_def counterTTL_def
        go_int64_exact bucket_counts_def mem_view_def)
qed

definition same_regime :: "('r, 'e) distributed \<Rightarrow> epoch_report \<Rightarrow> bool" where
  "same_regime d report \<longleftrightarrow> (\<exists>shape. d_shape d = Some shape \<and> regime_equal shape (regimeOf report) = Some True)"

lemma adopt_shape_cases:
  assumes "adopt_shape report d = Some d1"
  shows "d_selection d1 = d_selection d \<and>
    d_pending d1 = (if same_regime d report then d_pending d else Mapping.empty)"
proof (cases "d_shape d")
  case None
  with assms show ?thesis by (auto simp: adopt_shape_def same_regime_def Let_def bind_eq_Some_conv)
next
  case (Some shape)
  with assms show ?thesis
    by (cases "regime_equal shape (regimeOf report)"; cases "the (regime_equal shape (regimeOf report))")
      (auto simp: adopt_shape_def same_regime_def Let_def bind_eq_Some_conv)
qed

text \<open>A report of the cache is buffered completely and under the right roles: each arm's counts are
  added to what is pending for it (what was pending under another measurement regime is dropped first),
  the active arm in the active role and every other as a shadow, and the selection does not change.\<close>

theorem epoch_report_buffered:
  assumes "dist_record_epoch d report = Some d'"
  shows "pending_at d' k = add_stats (if same_regime d report then pending_at d k else zero_stats)
      (sum_stats (map arm_stats (filter (\<lambda>s. ArmKey (ss_policy s) (epoch_role report s) = k) (er_Stats report)))) \<and>
    dist_select d' = dist_select d"
proof -
  let ?d = "d\<lparr>d_local := fold recordLocked (er_Stats report) (d_local d)\<rparr>"
  obtain d1 where ad: "adopt_shape report ?d = Some d1"
    and d': "d' = fold (\<lambda>s. addLocked (ArmKey (ss_policy s) (epoch_role report s)) s) (er_Stats report) d1"
    using assms by (auto simp: dist_record_epoch_def Let_def bind_eq_Some_conv)
  have "same_regime ?d report = same_regime d report" by (simp add: same_regime_def)
  then have "pending_at d1 k = (if same_regime d report then pending_at d k else zero_stats)"
    and "d_selection d1 = d_selection d"
    using adopt_shape_cases [OF ad] by simp_all
  then show ?thesis by (simp add: d' addLocked_sum addLocked_fold_frame dist_select_def)
qed

definition demo_report :: epoch_report where
  "demo_report =
     \<lparr>er_EpochID = 1, er_Active = LRU,
      er_Stats = [\<lparr>ss_policy = LRU, ss_hits = 5, ss_misses = 2\<rparr>, \<lparr>ss_policy = LFU, ss_hits = 4, ss_misses = 3\<rparr>],
      er_Capacity = 8, er_SampleRate = 1\<rparr>"

lemma epoch_report_buffered_witness:
  "\<exists>d'. dist_record_epoch ((demo_replica ''a'')\<lparr>d_shape := Some (regimeOf demo_report)\<rparr>) demo_report = Some d' \<and>
    pending_at d' (ArmKey LRU RoleActive) = \<lparr>Hits = 5, Misses = 2\<rparr>"
proof -
  let ?d = "(demo_replica ''a'')\<lparr>d_shape := Some (regimeOf demo_report)\<rparr>"
  have eq: "regime_equal (regimeOf demo_report) (regimeOf demo_report) = Some True"
    using regime_string_defined [of "regimeOf demo_report"]
    by (auto simp: regime_equal_def regimeOf_def demo_report_def names)
  then obtain d' where d': "dist_record_epoch ?d demo_report = Some d'"
    by (auto simp: dist_record_epoch_def adopt_shape_def Let_def)
  from epoch_report_buffered [OF d', of "ArmKey LRU RoleActive"] eq have
    "pending_at d' (ArmKey LRU RoleActive) = \<lparr>Hits = 5, Misses = 2\<rparr>"
    by (simp add: same_regime_def demo_report_def demo_replica_def epoch_role_def arm_stats_def names
        map_stats_def add_stats_def)
  with d' show ?thesis by blast
qed

text \<open>C27: A coordination round never selects a policy the cache does not have: afterwards the replica
  returns what it returned before, or an arm its cache reported. In particular a decision published by a
  replica of another configuration is refused.\<close>

theorem round_selects_known_arm:
  assumes "coordination_round E rd d s = (d', s')"
  shows "dist_select d' = dist_select d \<or> dist_select d' \<in> d_arms d"
  using round_chooses [OF assms] by (auto simp: chooses_def dist_select_def)

definition demo_round :: "unit mem_call round" where
  "demo_round = \<lparr>rd_sync = at_ms 1500, rd_window = at_ms 1500, rd_decide = at_ms 1500, rd_failed = 0, rd_applied = 0\<rparr>"

definition demo_foreign :: "unit mem_store" where
  "demo_foreign = fst (mem_decide (at_ms 1000) ''f:x'' 1 TTL 3000000000 NewMemStore)"

lemma round_selects_known_arm_witness:
  "dist_select (fst (coordination_round demo_dist_env demo_round (demo_replica ''a'') demo_foreign)) \<noteq> TTL"
proof -
  obtain d' s' where r: "coordination_round demo_dist_env demo_round (demo_replica ''a'') demo_foreign = (d', s')"
    by fastforce
  from round_selects_known_arm [OF r] r show ?thesis
    by (auto simp: dist_select_def demo_replica_def names)
qed

text \<open>C28: A follower adopts the fleet's decision: if its sync is answered while another replica leads the
  bucket and a decision naming one of its arms is in force, its round ends with that policy selected and
  no fallback.\<close>

theorem follower_adopts_decision:
  assumes E: "de_store E = mem_ops" and mode: "cfg_Mode (d_cfg d) \<noteq> ModeSharedPosterior" and shape: "d_shape d \<noteq> None"
    and live: "call_ctx (rd_sync rd) = None" "ms_failure s = None" and now: "now = call_now (rd_sync rd)"
    and k: "k = (d_namespace d, bucketAt now (cfg_CoordinationEpoch (d_cfg d) sdiv 1000000))"
    and led: "v_leaders (mem_view now s) k \<noteq> None" and dec: "v_decisions (mem_view now s) k = Some p" "p \<in> d_arms d"
    and r: "coordination_round E rd d s = (d', s')"
  shows "dist_select d' = p \<and> \<not> st_fallback (d_state d')"
proof -
  obtain d1 req where dr: "drain (de_visit E) d = (d1, Some req)" using drain_defined [OF shape] by blast
  obtain s1 result where sy: "mem_sync (rd_sync rd) req s = (s1, Inr result)"
    using live by (simp add: mem_sync_def Let_def split_beta)
  have key: "sync_key now req = k" using drain_request_frame [OF dr] k by (simp add: sync_key_def)
  have "\<not> sy_Leader result" and "published result = Some p"
    using mem.sync_result [of "rd_sync rd" req s s1 result] sy key led dec now
    by (auto simp: published_def split: if_splits)
  then have "d' = applyResult (rd_applied rd) (sy_Bucket result) (Some p) d1"
    using r dr sy mode drained_frame(1) [OF dr] by (simp add: coordination_round_def E)
  then show ?thesis
    using dec(2) drained_frame(7) [OF dr] by (simp add: applyResult_def knownArmLocked_def dist_select_def)
qed

definition demo_led :: "unit mem_store" where
  "demo_led = fst (mem_decide (at_ms 1100) ''f:x'' 1 LFU 3000000000
     (fst (snd (publish_phase demo_dist_env (at_ms 1000) 0 (demo_replica ''b'') NewMemStore))))"

lemma follower_adopts_decision_witness:
  "dist_select (fst (coordination_round demo_dist_env demo_round (demo_replica ''a'') demo_led)) = LFU"
proof -
  let ?d = "demo_replica ''a''"
  obtain d' s' where r: "coordination_round demo_dist_env demo_round ?d demo_led = (d', s')" by fastforce
  have facts: "(''f:x'', 1) = (d_namespace ?d, bucketAt 1500000000 (cfg_CoordinationEpoch (d_cfg ?d) sdiv 1000000)) \<and>
      \<not> Option.is_none (v_leaders (mem_view 1500000000 demo_led) (''f:x'', 1)) \<and>
      v_decisions (mem_view 1500000000 demo_led) (''f:x'', 1) = Some LFU \<and> Option.is_none (ms_failure demo_led)"
    by code_simp
  have "dist_select d' = LFU \<and> \<not> st_fallback (d_state d')"
    by (rule follower_adopts_decision [OF demo_env_store _ _ _ _ _ _ _ _ _ r, of 1500000000 "(''f:x'', 1)" LFU])
      (use facts in \<open>simp_all add: demo_replica_def demo_cfg_def demo_round_def at_ms_def Option.is_none_def\<close>)
  with r show ?thesis by simp
qed

text \<open>C29: A replica whose store stopped answering decides for itself: if the sync fails and the last
  success is longer ago than \<^verbatim>\<open>FallbackAfter\<close> (or never happened), the replica reports the fallback and
  selects an arm its local bandit knows; the counts it tried to publish are dropped.\<close>

theorem unreachable_store_falls_back:
  assumes r: "coordination_round E rd d s = (d', s')" and dr: "drain (de_visit E) d = (d1, Some req)"
    and fails: "so_sync (de_store E) (rd_sync rd) req s = (s1, Inl err)"
    and ok: "thompson_inv (d_local d)" "draws_ok (de_beta E)"
    and stale: "case st_lastSync (d_state d) of None \<Rightarrow> True | Some t \<Rightarrow> rd_failed rd - t > cfg_FallbackAfter (d_cfg d)"
    and arms: "thompson_arms (d_local d) \<subseteq> d_arms d" "thompson_arms (d_local d) \<noteq> {}" "Undefined \<notin> d_arms d"
  shows "st_fallback (d_state d') \<and> dist_select d' \<in> thompson_arms (d_local d) \<and>
    st_lastErr (d_state d') = Some err \<and> d_pending d' = Mapping.empty"
proof -
  have d': "d' = recordFailure (de_beta E) (rd_failed rd) err d1"
    using unanswered_round [OF r dr fails] by blast
  have sel: "snd (thompson_select (de_beta E) (d_local d)) \<in> thompson_arms (d_local d)"
    using thompson_selects_arm [OF ok] arms(2) by simp
  then have "snd (thompson_select (de_beta E) (d_local d)) \<noteq> Undefined"
    and "snd (thompson_select (de_beta E) (d_local d)) \<in> d_arms d" using arms by auto
  with sel stale show ?thesis
    unfolding d' using drained_frame [OF dr] drain_pending [OF dr]
    by (auto simp: recordFailure_def Let_def knownArmLocked_def dist_select_def split_beta split: option.splits)
qed

definition demo_alone :: "(unit, unit) distributed" where
  "demo_alone = (demo_replica ''a'')
     \<lparr>d_local := thompson_record (NewThompson 1 ()) \<lparr>ss_policy = LFU, ss_hits = 0, ss_misses = 0\<rparr>\<rparr>"

definition demo_outage :: "unit mem_call round" where
  "demo_outage = demo_round\<lparr>rd_sync := \<lparr>call_ctx = Some (), call_now = 0\<rparr>\<rparr>"

lemma demo_draws: "draws_ok (de_beta demo_dist_env)"
  by (simp add: draws_ok_def demo_dist_env_def)

lemma unreachable_store_falls_back_witness:
  "st_fallback (d_state (fst (coordination_round demo_dist_env demo_outage demo_alone NewMemStore)))"
proof -
  obtain d' s' where r: "coordination_round demo_dist_env demo_outage demo_alone NewMemStore = (d', s')" by fastforce
  obtain d1 req where dr: "drain (de_visit demo_dist_env) demo_alone = (d1, Some req)"
    using drain_defined [of demo_alone "de_visit demo_dist_env"] by (auto simp: demo_alone_def demo_replica_def)
  have fails: "so_sync (de_store demo_dist_env) (rd_sync demo_outage) req NewMemStore = (NewMemStore, Inl ())"
    by (simp add: demo_env_store mem_sync_def demo_outage_def)
  have "thompson_arms (d_local demo_alone) = {LFU}"
    by (simp add: demo_alone_def thompson_arms_def thompson_record_def recordLocked_def NewThompson_def Let_def)
  then have "st_fallback (d_state d') \<and> dist_select d' \<in> thompson_arms (d_local demo_alone) \<and>
      st_lastErr (d_state d') = Some () \<and> d_pending d' = Mapping.empty"
    by (intro unreachable_store_falls_back [OF r dr fails])
      (simp_all add: demo_alone_def demo_replica_def demo_draws thompson_record_inv NewThompson_inv names)
  with r show ?thesis by simp
qed

text \<open>C40: A round whose sync was answered always ends as a success, whatever happened to its later calls:
  even when reading the window or publishing the decision failed, \<^verbatim>\<open>applyResult\<close> clears the error and the
  fallback that \<^verbatim>\<open>recordFailure\<close> just set, so neither is ever reported.\<close>

theorem window_failure_forgotten:
  assumes "coordination_round E rd d s = (d', s')" and "drain (de_visit E) d = (d1, Some req)"
    and "so_sync (de_store E) (rd_sync rd) req s = (s1, Inr result)"
  shows "st_lastErr (d_state d') = None \<and> \<not> st_fallback (d_state d') \<and>
    st_lastSync (d_state d') = Some (rd_applied rd)"
  by (rule answered_round_reports_success [OF assms])

text \<open>A leader whose window cannot be read.\<close>

definition demo_broken_window :: "unit mem_call round" where
  "demo_broken_window = demo_round\<lparr>rd_window := \<lparr>call_ctx = Some (), call_now = 0\<rparr>\<rparr>"

lemma window_failure_forgotten_witness:
  "let s1 = fst (mem_sync (at_ms 1500) (the (snd (drain Mapping.ordered_keys (demo_replica ''a'')))) NewMemStore)
   in snd (mem_window (rd_window demo_broken_window) ''f:x'' 0 0 s1) = Inl () \<and>
     st_lastErr (d_state (fst (coordination_round demo_dist_env demo_broken_window (demo_replica ''a'') NewMemStore))) = None"
proof -
  obtain d' s' where r: "coordination_round demo_dist_env demo_broken_window (demo_replica ''a'') NewMemStore = (d', s')"
    by fastforce
  obtain d1 req where dr: "drain (de_visit demo_dist_env) (demo_replica ''a'') = (d1, Some req)"
    using drain_defined [of "demo_replica ''a''" "de_visit demo_dist_env"] by (auto simp: demo_replica_def)
  obtain s1 result where "so_sync (de_store demo_dist_env) (rd_sync demo_broken_window) req NewMemStore = (s1, Inr result)"
    by (simp add: demo_env_store mem_sync_def demo_broken_window_def demo_round_def at_ms_def NewMemStore_def Let_def split_beta)
  from window_failure_forgotten [OF r dr this] r show ?thesis
    by (simp add: mem_window_def demo_broken_window_def Let_def)
qed

subsection \<open>Configuration and identity\<close>

text \<open>\<^verbatim>\<open>PolicyType.String\<close> returns for every number below \<open>2 ^ 63\<close>, named or not, and panics for exactly
  the others: converted to a signed integer they are negative, and the guard for negative numbers tests
  the unsigned one.\<close>

theorem string_panics_iff_large: "policy_string p = None \<longleftrightarrow> 2 ^ 63 \<le> uint (policy_num p)"
  using policy_string_defined [of p] by auto

text \<open>\<^verbatim>\<open>NewDistributed\<close> accepts a configuration exactly when it has a store, a namespace, a positive
  coordination epoch, a window that is not negative, a decay in [0, 1], a jitter in [0, 1/2), and does not
  combine leader mode (the default) with shadow-only evidence.\<close>

theorem configuration_checked:
  "(\<exists>d. newDistributed sys seed_rng cfg = (Inr d :: config_error + ('r, 'e) distributed)) \<longleftrightarrow>
    cfg_HasStore cfg \<and> cfg_Namespace cfg \<noteq> '''' \<and> 0 < cfg_CoordinationEpoch cfg \<and> 0 \<le> cfg_Window cfg \<and>
    0 \<le> cfg_Decay cfg \<and> cfg_Decay cfg \<le> 1 \<and> 0 \<le> cfg_Jitter cfg \<and> cfg_Jitter cfg < 1 / 2 \<and>
    \<not> (cfg_Mode cfg \<in> {Mode 0, ModeLeader} \<and> cfg_Evidence cfg = EvidenceShadowOnly)"
  by (auto simp: newDistributed_def validate_def Let_def names not_less not_le split: sum.splits if_splits)

text \<open>Two regimes pool exactly when they measure the same thing: they compare equal if and only if
  they have the same arms in the same order, the same capacity, and sample rates that agree in the fourth
  decimal place.\<close>

theorem regimes_pool_iff_same:
  assumes "regime_equal r q = Some e" and "0 \<le> rg_sampleRate r" and "0 \<le> rg_sampleRate q"
  shows "e \<longleftrightarrow> rg_arms r = rg_arms q \<and> rg_capacity r = rg_capacity q \<and>
    quantise4 (rg_sampleRate r) = quantise4 (rg_sampleRate q)"
proof -
  obtain a b where ab: "regime_string r = Some a" "regime_string q = Some b" and e: "e \<longleftrightarrow> a = b"
    using assms(1) by (auto simp: regime_equal_def bind_eq_Some_conv)
  have "regime_string r = regime_string q"
    if "rg_arms r = rg_arms q" "rg_capacity r = rg_capacity q" "quantise4 (rg_sampleRate r) = quantise4 (rg_sampleRate q)"
    using that assms(2,3) by (simp add: regime_string_def format_fixed4_def not_less)
  with ab e regime_string_inject [of r a q] assms(2,3) show ?thesis by fastforce
qed

definition demo_rescaled :: regime where
  "demo_rescaled = demo_shape\<lparr>rg_sampleRate := 99999 / 100000\<rparr>"

lemma regimes_pool_iff_same_witness:
  "regime_equal demo_shape demo_rescaled = Some True"
proof -
  have "\<exists>e. regime_equal demo_shape demo_rescaled = Some e"
    using regime_string_defined [of demo_shape] regime_string_defined [of demo_rescaled]
    by (auto simp: regime_equal_def demo_shape_def demo_rescaled_def names)
  then obtain e where e: "regime_equal demo_shape demo_rescaled = Some e" ..
  have "quantise4 1 = quantise4 (99999 / 100000)" by code_simp
  with regimes_pool_iff_same [OF e] have e by (simp add: demo_shape_def demo_rescaled_def)
  with e show ?thesis by simp
qed

subsection \<open>Pooled evidence\<close>

text \<open>Pooling shadow evidence does not depend on the iteration order of Go's maps: any two orders in
  which the arms of the window's buckets are visited give the same posterior for every arm, bit for bit.\<close>

theorem shadow_evidence_any_order:
  assumes "\<And>b. b \<in> set window \<Longrightarrow> visits v (wc_Arms b) \<and> visits v' (wc_Arms b)"
    and "\<And>b k. b \<in> set window \<Longrightarrow> k \<in> Mapping.keys (wc_Arms b) \<Longrightarrow> ak_Role k \<in> {RoleShadow, RoleActive}"
  shows "aggregate pow v window newest decay EvidenceShadowOnly =
    aggregate pow v' window newest decay EvidenceShadowOnly"
  using assms by (intro aggregate_any_order) (blast intro: shadow_only_single)

definition demo_window :: "window_counts list" where
  "demo_window =
     [\<lparr>wc_Bucket = 1, wc_Arms = Mapping.update (ArmKey LRU RoleActive) \<lparr>Hits = 9, Misses = 0\<rparr>
        (Mapping.update (ArmKey LRU RoleShadow) \<lparr>Hits = 3, Misses = 1\<rparr>
          (Mapping.update (ArmKey LFU RoleShadow) \<lparr>Hits = 2, Misses = 2\<rparr> Mapping.empty))\<rparr>]"

definition backwards :: visit where
  "backwards m = rev (Mapping.ordered_keys m)"

lemma shadow_evidence_any_order_witness:
  "aggregate (\<lambda>x y. 1) Mapping.ordered_keys demo_window 1 1 EvidenceShadowOnly =
    aggregate (\<lambda>x y. 1) backwards demo_window 1 1 EvidenceShadowOnly"
proof (rule shadow_evidence_any_order)
  fix b assume b: "b \<in> set demo_window"
  then have "finite (Mapping.keys (wc_Arms b))" by (auto simp: demo_window_def)
  from ordered_keys_visits [OF this] show "visits Mapping.ordered_keys (wc_Arms b) \<and> visits backwards (wc_Arms b)"
    by (simp add: visits_def backwards_def)
  show "ak_Role k \<in> {RoleShadow, RoleActive}" if "k \<in> Mapping.keys (wc_Arms b)" for k
    using b that by (auto simp: demo_window_def)
qed

lemma ties:
  "rnd 9007199254740993 = 9007199254740992" "rnd 9007199254740995 = 9007199254740996"
  "rnd 9007199254740994 = 9007199254740994"
proof -
  have "\<lfloor>9007199254740993 / 2 :: rat\<rfloor> = 4503599627370496" "\<lfloor>9007199254740995 / 2 :: rat\<rfloor> = 4503599627370497"
    by (simp_all add: floor_unique)
  then show "rnd 9007199254740993 = 9007199254740992" "rnd 9007199254740995 = 9007199254740996"
    "rnd 9007199254740994 = 9007199254740994"
    by (simp_all add: rnd_in_binade [of 53] power_int_def round_even_def Let_def)
qed

definition two_roles :: "(arm_key, policy_stats) mapping" where
  "two_roles = Mapping.update (ArmKey LRU RoleActive) \<lparr>Hits = 1, Misses = 0\<rparr>
     (Mapping.update (ArmKey LRU RoleShadow) \<lparr>Hits = 2, Misses = 0\<rparr> Mapping.empty)"

text \<open>With both roles pooled the iteration order of a map can show in the last bit of a posterior,
  because rounded addition is not associative: an arm with \<open>2 ^ 53\<close> weighted hits so far and, in the next
  bucket, one hit as active and two as a shadow.\<close>

lemma visiting_order_can_matter:
  "let pooled = Mapping.update LRU \<lparr>w_Hits = 2 ^ 53, w_Misses = 0\<rparr> Mapping.empty;
       pool = (\<lambda>order. fold (pool_arm EvidenceAll 1 two_roles) order pooled)
   in pool [ArmKey LRU RoleActive, ArmKey LRU RoleShadow] \<noteq> pool [ArmKey LRU RoleShadow, ArmKey LRU RoleActive]"
proof -
  have "rnd (2::rat) = 2" using rnd_of_int [of 2] by simp
  then have "pooled_at (fold (pool_arm EvidenceAll 1 two_roles) [ArmKey LRU RoleActive, ArmKey LRU RoleShadow] p) LRU \<noteq>
    pooled_at (fold (pool_arm EvidenceAll 1 two_roles) [ArmKey LRU RoleShadow, ArmKey LRU RoleActive] p) LRU"
    if "p = Mapping.update LRU \<lparr>w_Hits = 2 ^ 53, w_Misses = 0\<rparr> Mapping.empty" for p
    by (simp add: that pool_arm_def Let_def two_roles_def map_stats_def names f64_add_def f64_mul_def f64_of_int_def
        pooled_at_def ties)
  then show ?thesis by (metis (no_types, lifting))
qed

subsection \<open>Timing\<close>

text \<open>Jitter keeps the interval between two rounds between a half and three halves of the coordination
  epoch (for epochs under a month), so a replica can neither spin nor skip a whole bucket because of it.\<close>

theorem jitter_bounded:
  assumes "config_ok c" and "3 * cfg_CoordinationEpoch c < 2 ^ 53" and "0 \<le> u" and "u < 1"
  shows "cfg_CoordinationEpoch c div 2 \<le> nextInterval c u \<and> nextInterval c u \<le> 3 * cfg_CoordinationEpoch c div 2"
  using assms by (intro nextInterval_bounds) (simp_all add: config_ok_def)

lemma jitter_bounded_witness:
  "500000000 \<le> nextInterval (demo_cfg ''a'') (1 / 4) \<and> nextInterval (demo_cfg ''a'') (1 / 4) \<le> 1500000000"
  using jitter_bounded [of "demo_cfg ''a''" "1 / 4"] by (simp add: demo_cfg_def config_ok_def names)

end
