(* ===== verification/RedisKeys.thy ===== *)
theory RedisKeys
  imports BanditStore GoFormat
begin

text \<open>
  How the Redis store names things (\<^verbatim>\<open>src/bandit/redis/keys.go\<close>): the keys of a namespace, which share a
  hash tag, and the fields of a bucket's hash, with their parser. The parser reads back what the
  writer wrote; different buckets, kinds and namespaces have different keys.
\<close>

subsection \<open>What the code uses of strings and strconv\<close>

text \<open>\<^verbatim>\<open>strings.Split\<close> at a single character\<close>

fun split_at :: "char \<Rightarrow> string \<Rightarrow> string list" where
  "split_at sep [] = [[]]"
| "split_at sep (c # s) = (if c = sep then [] # split_at sep s
     else case split_at sep s of [] \<Rightarrow> [[c]] | p # ps \<Rightarrow> (c # p) # ps)"

definition is_digit :: "char \<Rightarrow> bool" where
  "is_digit c \<longleftrightarrow> 48 \<le> (of_char c :: nat) \<and> (of_char c :: nat) \<le> 57"

text \<open>\<^verbatim>\<open>strconv.ParseUint(s, 10, 64)\<close> and \<^verbatim>\<open>strconv.ParseInt(s, 10, 64)\<close>; an error is \<^term>\<open>None\<close>.\<close>

definition parse_uint :: "string \<Rightarrow> nat option" where
  "parse_uint s =
     (if s \<noteq> [] \<and> list_all is_digit s \<and> undigits 10 s < 2 ^ 64 then Some (undigits 10 s) else None)"

definition parse_int64 :: "string \<Rightarrow> int option" where
  "parse_int64 s =
     (let neg = s \<noteq> [] \<and> hd s = CHR ''-'';
          digs = (if s \<noteq> [] \<and> (hd s = CHR ''+'' \<or> hd s = CHR ''-'') then tl s else s)
      in case parse_uint digs of
           None \<Rightarrow> None
         | Some un \<Rightarrow>
             if \<not> neg \<and> un \<ge> 2 ^ 63 then None
             else if neg \<and> un > 2 ^ 63 then None
             else Some (if neg then - int un else int un))"

text \<open>Evaluated with the bounds compared as integers.\<close>

lemma parse_uint_code [code]:
  "parse_uint s =
    (if s \<noteq> [] \<and> list_all is_digit s
     then let n = undigits 10 s in if int n < 18446744073709551616 then Some n else None else None)"
  by (simp add: parse_uint_def Let_def)

lemma parse_int64_code [code]:
  "parse_int64 s =
     (let neg = s \<noteq> [] \<and> hd s = CHR ''-'';
          digs = (if s \<noteq> [] \<and> (hd s = CHR ''+'' \<or> hd s = CHR ''-'') then tl s else s)
      in case parse_uint digs of
           None \<Rightarrow> None
         | Some un \<Rightarrow>
             let n = int un
             in if \<not> neg \<and> n \<ge> 9223372036854775808 then None
                else if neg \<and> n > 9223372036854775808 then None
                else Some (if neg then - n else n))"
  by (simp add: parse_int64_def Let_def split: option.splits)

definition format_uint :: "64 word \<Rightarrow> string" where
  "format_uint w = digits 10 (unat w)"

lemma split_at_nonempty [simp]: "split_at c s \<noteq> []"
  by (cases s) (auto split: list.splits)

lemma split_at_append: "c \<notin> set s \<Longrightarrow> split_at c (s @ c # r) = s # split_at c r"
  by (induction s) (auto split: list.splits)

lemma split_at_last: "c \<notin> set s \<Longrightarrow> split_at c s = [s]"
  by (induction s) (auto split: list.splits)

text \<open>The parts put together again.\<close>

fun join_at :: "char \<Rightarrow> string list \<Rightarrow> string" where
  "join_at sep [] = []"
| "join_at sep [p] = p"
| "join_at sep (p # ps) = p @ sep # join_at sep ps"

lemma join_split: "join_at sep (split_at sep s) = s"
proof (induction s)
  case (Cons c s)
  obtain p ps where "split_at sep s = p # ps" by (metis split_at_nonempty neq_Nil_conv)
  with Cons show ?case by (cases ps) auto
qed simp

lemma split_three: "split_at (CHR '':'') s = [a, b, c] \<Longrightarrow> s = a @ '':'' @ b @ '':'' @ c"
  using join_split [of "CHR '':''" s] by simp

lemma digit_char_is_digit: "d < 10 \<Longrightarrow> is_digit (digit_char d)"
  by (simp add: is_digit_def of_char_digit)

lemma digits_are_digits: "list_all is_digit (digits 10 n)"
  using digits_chars [of 10 n] by (auto simp: list_all_iff digit_char_is_digit)

lemma is_digit_other [simp]:
  "\<not> is_digit (CHR '':'')" "\<not> is_digit (CHR ''-'')" "\<not> is_digit (CHR ''+'')" "\<not> is_digit (CHR ''}'')"
  by (simp_all add: is_digit_def)

lemma no_digit: "\<not> is_digit c \<Longrightarrow> c \<notin> set (digits 10 n)"
  using digits_are_digits [of n] by (auto simp: list_all_iff)

lemma parse_uint_digits: "n < 2 ^ 64 \<Longrightarrow> parse_uint (digits 10 n) = Some n"
  by (simp add: parse_uint_def digits_nonempty digits_are_digits undigits_digits)

lemma parse_format_uint [simp]: "parse_uint (format_uint w) = Some (unat w)"
proof -
  have "unat w < 2 ^ 64" using unsigned_less [where ?'a = nat, of w] by simp
  then show ?thesis by (simp add: format_uint_def parse_uint_digits)
qed

lemma hd_digits: "hd (digits 10 n) \<noteq> CHR ''+''" "hd (digits 10 n) \<noteq> CHR ''-''"
  using no_digit [of "CHR ''+''" n] no_digit [of "CHR ''-''" n] hd_in_set [OF digits_nonempty [of 10 n]] by auto

text \<open>\<^verbatim>\<open>ParseInt\<close> reads back what \<^verbatim>\<open>FormatInt\<close> wrote.\<close>

lemma parse_int64_format:
  assumes "- (2 ^ 63) \<le> n" and "n < 2 ^ 63"
  shows "parse_int64 (format_int n) = Some n"
proof (cases "n < 0")
  case True
  then have "nat (- n) \<le> 2 ^ 63" using assms by simp
  with True show ?thesis by (simp add: parse_int64_def format_int_def minus_sign_def parse_uint_digits)
next
  case False
  then have "nat n < 2 ^ 63" using assms by simp
  with False show ?thesis
    by (simp add: parse_int64_def format_int_def hd_digits parse_uint_digits)
qed

lemma format_int_no_colon: "CHR '':'' \<notin> set (format_int n)"
  by (simp add: format_int_def minus_sign_def no_digit)

subsection \<open>Keys\<close>

definition DefaultKeyPrefix :: string where
  "DefaultKeyPrefix = ''asc''"

text \<open>The receiver's only field these methods read is its prefix.\<close>

definition keyBase :: "string \<Rightarrow> string \<Rightarrow> string" where
  "keyBase prefix namespace = prefix @ '':{'' @ namespace @ ''}''"

definition anchorKey :: "string \<Rightarrow> string \<Rightarrow> string" where
  "anchorKey prefix namespace = keyBase prefix namespace @ '':anchor''"

definition countsKey :: "string \<Rightarrow> string \<Rightarrow> bucket \<Rightarrow> string" where
  "countsKey prefix namespace bucket = keyBase prefix namespace @ '':c:'' @ format_int bucket"

definition countField :: "policy_type \<Rightarrow> role \<Rightarrow> bool \<Rightarrow> string" where
  "countField policy r hits =
     (let kind = (if hits then ''h'' else ''m'');
          roleTag = (if r = RoleActive then ''a'' else ''s'')
      in format_uint (policy_num policy) @ '':'' @ roleTag @ '':'' @ kind)"

definition parseCountField :: "string \<Rightarrow> (policy_type \<times> role \<times> bool) option" where
  "parseCountField field =
     (case split_at (CHR '':'') field of
        [number, roleTag, kind] \<Rightarrow> do {
          number \<leftarrow> parse_uint number;
          r \<leftarrow> (if roleTag = ''a'' then Some RoleActive else if roleTag = ''s'' then Some RoleShadow else None);
          hits \<leftarrow> (if kind = ''h'' then Some True else if kind = ''m'' then Some False else None);
          Some (PolicyType (of_nat number), r, hits)
        }
      | _ \<Rightarrow> None)"

lemma count_field_read:
  "parseCountField (countField policy r hits) = Some (policy, if r = RoleActive then RoleActive else RoleShadow, hits)"
proof -
  have "CHR '':'' \<notin> set (format_uint (policy_num policy))" by (simp add: format_uint_def no_digit)
  then have "split_at (CHR '':'') (countField policy r hits) =
      [format_uint (policy_num policy), if r = RoleActive then ''a'' else ''s'', if hits then ''h'' else ''m'']"
    by (simp add: countField_def split_at_append)
  then show ?thesis by (simp add: parseCountField_def)
qed

text \<open>A key of some kind of a bucket; the kinds the scripts use are counts, leaders and decisions.\<close>

definition bucket_name :: "string \<Rightarrow> string \<Rightarrow> string \<Rightarrow> bucket \<Rightarrow> string" where
  "bucket_name prefix namespace kind bucket = keyBase prefix namespace @ kind @ format_int bucket"

lemma countsKey_name: "countsKey prefix namespace bucket = bucket_name prefix namespace '':c:'' bucket"
  by (simp add: countsKey_def bucket_name_def)

lemma suffix_after:
  assumes "c \<notin> set u" "c \<notin> set v" and "x @ c # u = y @ c # v"
  shows "x = y \<and> u = v"
proof -
  have "takeWhile (\<lambda>d. d \<noteq> c) (rev w @ c # r) = rev w" if "c \<notin> set w" for w r
    using that by (induction w rule: rev_induct) auto
  from this [OF assms(1), of "rev x"] this [OF assms(2), of "rev y"] arg_cong [OF assms(3), of rev]
  have "u = v" by simp
  with assms(3) show ?thesis by simp
qed

lemma bucket_name_inject:
  assumes "k \<in> {''c'', ''l'', ''d''}" and "k' \<in> {''c'', ''l'', ''d''}"
  shows "bucket_name p ns ('':'' @ k @ '':'') b = bucket_name p ns' ('':'' @ k' @ '':'') b' \<longleftrightarrow>
    ns = ns' \<and> k = k' \<and> b = b'"
proof
  assume "bucket_name p ns ('':'' @ k @ '':'') b = bucket_name p ns' ('':'' @ k' @ '':'') b'"
  then have "(keyBase p ns @ '':'' @ k) @ CHR '':'' # format_int b = (keyBase p ns' @ '':'' @ k') @ CHR '':'' # format_int b'"
    by (simp add: bucket_name_def)
  from suffix_after [OF format_int_no_colon format_int_no_colon this]
  show "ns = ns' \<and> k = k' \<and> b = b'" using assms by (auto simp: keyBase_def)
qed simp

end
