(* ===== verification/RedisStore.thy ===== *)
theory RedisStore
  imports RedisKeys
begin

text \<open>
  The store over Redis: the two Lua scripts (\<^verbatim>\<open>src/bandit/redis/scripts.go\<close>) and the Go code that calls
  them (\<^verbatim>\<open>src/bandit/redis/store.go\<close>).

  The server and the client library are a parameter, the record \<open>redis\<close> of the commands the scripts and
  the pipeline use; what the code relies on of them is in theory \<open>RedisLaws\<close>. A value of type \<open>'w\<close> is what
  one call meets: what the server's clock reads, which calls fail. Within one execution of a script the
  clock stands still, as Redis documents. \<open>rd_run\<close> is the execution whose answer the client returns, or the
  failure it reports; what a client that sends a script again does besides is in theory \<open>Resends\<close>. A script
  that answers nil surfaces as the error \<^verbatim>\<open>redis.Nil\<close>.
\<close>

subsection \<open>The server and the client\<close>

datatype 'e cmd_error = RedisNil | CmdError 'e

text \<open>What \<^verbatim>\<open>Result()\<close> returns as \<^verbatim>\<open>any\<close>: the replies of a script as the client converts them.\<close>

datatype reply = RInt int | RStr string | RNothing | RList "reply list"

record ('s, 'w, 'e) redis =
  rd_time :: "'w \<Rightarrow> int \<times> int"
  rd_get :: "'w \<Rightarrow> string \<Rightarrow> 's \<Rightarrow> 's \<times> ('e + string option)"
  rd_set_nx_px :: "'w \<Rightarrow> string \<Rightarrow> string \<Rightarrow> string \<Rightarrow> 's \<Rightarrow> 's \<times> ('e + bool)"
  rd_hincrby :: "'w \<Rightarrow> string \<Rightarrow> string \<Rightarrow> string \<Rightarrow> 's \<Rightarrow> 's \<times> ('e + int)"
  rd_pexpire :: "'w \<Rightarrow> string \<Rightarrow> string \<Rightarrow> 's \<Rightarrow> 's \<times> ('e + bool)"
  rd_bad_argument :: 'e
  rd_run :: "'w \<Rightarrow> ('s \<Rightarrow> 's \<times> ('e + reply)) \<Rightarrow> 's \<Rightarrow> 's \<times> ('e cmd_error + reply)"
  rd_pipe_hgetall :: "'w \<Rightarrow> string list \<Rightarrow> 's
    \<Rightarrow> 's \<times> 'e cmd_error option \<times> ('e cmd_error + (string \<times> string) list) list"

subsection \<open>The scripts\<close>

text \<open>A step of a script: an error raised by \<^verbatim>\<open>redis.call\<close> ends it, with its earlier writes kept.\<close>

definition lua_return :: "'a \<Rightarrow> 's \<Rightarrow> 's \<times> ('e + 'a)" where
  "lua_return x s = (s, Inr x)"

definition lua_bind :: "('s \<Rightarrow> 's \<times> ('e + 'a)) \<Rightarrow> ('a \<Rightarrow> 's \<Rightarrow> 's \<times> ('e + 'b)) \<Rightarrow> 's \<Rightarrow> 's \<times> ('e + 'b)" where
  "lua_bind m f s = (case m s of (s, Inl err) \<Rightarrow> (s, Inl err) | (s, Inr x) \<Rightarrow> f x s)"

text \<open>
  A Lua number is a double, and \<^verbatim>\<open>..\<close> writes it with \<^verbatim>\<open>%.14g\<close>: an integral one of up to fourteen digits
  in full, a longer one with an exponent.
\<close>

definition lua_number :: "int \<Rightarrow> string" where
  "lua_number n =
     (if \<bar>n\<bar> < 10 ^ 14 then format_int n
      else let e = length (digits 10 (nat \<bar>n\<bar>)) - 1;
               m = round_even (of_int \<bar>n\<bar> / 10 ^ (e - 13));
               (m, e) = (if m = 10 ^ 14 then (10 ^ 13, e + 1) else (m, e));
               ds = digits 10 (nat m);
               frac = rev (dropWhile (\<lambda>c. c = CHR ''0'') (rev (tl ds)))
           in (if n < 0 then ''-'' else []) @ hd ds # (if frac = [] then [] else CHR ''.'' # frac) @ ''e+'' @
              pad_left 2 (digits 10 e))"

definition script_now :: "int \<times> int \<Rightarrow> float64" where
  "script_now t = f64_add (f64_mul (f64_of_int (fst t)) 1000) (of_int \<lfloor>f64_div (f64_of_int (snd t)) 1000\<rfloor>)"

definition script_bucket :: "int \<times> int \<Rightarrow> int \<Rightarrow> bucket" where
  "script_bucket t epoch = (let nowMs = script_now t in \<lfloor>f64_div nowMs (f64_of_int epoch)\<rfloor>)"

text \<open>The loop over \<^verbatim>\<open>ARGV[7...]\<close>; a missing delta is an invalid argument of \<^verbatim>\<open>redis.call\<close>.\<close>

fun count_loop :: "('s, 'w, 'e) redis \<Rightarrow> 'w \<Rightarrow> string \<Rightarrow> string list \<Rightarrow> 's \<Rightarrow> 's \<times> ('e + unit)" where
  "count_loop R w key (field # delta # rest) s =
     lua_bind (rd_hincrby R w key field delta) (\<lambda>_. count_loop R w key rest) s"
| "count_loop R w key [field] s = (s, Inl (rd_bad_argument R))"
| "count_loop R w key [] s = (s, Inr ())"

fun sync_script :: "('s, 'w, 'e) redis \<Rightarrow> 'w \<Rightarrow> string list \<Rightarrow> 's \<Rightarrow> 's \<times> ('e + reply)" where
  "sync_script R w (base # epoch # counter_ttl # leader_ttl # node # lead # rest) s =
     (let bucket = script_bucket (rd_time R w) (parse_int epoch)
      in lua_bind
           (if rest \<noteq> []
            then (let countsKey = base @ '':c:'' @ lua_number bucket
                  in lua_bind (count_loop R w countsKey rest) (\<lambda>_. rd_pexpire R w countsKey counter_ttl))
            else lua_return False)
         (\<lambda>_. lua_bind
           (if lead = ''1''
            then lua_bind (rd_set_nx_px R w (base @ '':l:'' @ lua_number bucket) node leader_ttl)
                   (\<lambda>ok. lua_return (if ok then 1 else 0))
            else lua_return 0)
         (\<lambda>leader. lua_bind (rd_get R w (base @ '':d:'' @ lua_number bucket))
         (\<lambda>decision. lua_return (RList [RInt bucket, RInt leader,
             RStr (case decision of None \<Rightarrow> [] | Some text \<Rightarrow> text)])))) s)"
| "sync_script R w _ s = (s, Inl (rd_bad_argument R))"

fun decide_script :: "('s, 'w, 'e) redis \<Rightarrow> 'w \<Rightarrow> string list \<Rightarrow> 's \<Rightarrow> 's \<times> ('e + reply)" where
  "decide_script R w [base, bucket, policy, ttl] s =
     (let key = base @ '':d:'' @ bucket
      in lua_bind (rd_set_nx_px R w key policy ttl)
         (\<lambda>ok. if ok then lua_return (RStr policy)
               else lua_bind (rd_get R w key)
                      (\<lambda>text. lua_return (case text of None \<Rightarrow> RNothing | Some text \<Rightarrow> RStr text))) s)"
| "decide_script R w _ s = (s, Inl (rd_bad_argument R))"

subsection \<open>The Go side\<close>

datatype 'e redis_error =
  ErrNilClient
| SyncError "'e cmd_error"
| UnexpectedReply reply
| BadBucket reply
| BadLeader reply
| BadDecision reply
| NotAPolicy string
| WindowError "'e cmd_error"
| BucketError bucket "'e cmd_error"
| DecideError "'e cmd_error"
| BadReply reply

text \<open>\<^verbatim>\<open>New\<close>: the client is absent or the server it speaks to.\<close>

record ('s, 'w, 'e) redis_store =
  rs_client :: "('s, 'w, 'e) redis"
  rs_prefix :: string

definition NewStore :: "('s, 'w, 'e) redis option \<Rightarrow> string \<Rightarrow> 'e redis_error + ('s, 'w, 'e) redis_store" where
  "NewStore client keyPrefix =
     (case client of None \<Rightarrow> Inl ErrNilClient
      | Some client \<Rightarrow>
          let prefix = keyPrefix; prefix = (if prefix = [] then DefaultKeyPrefix else prefix)
          in Inr \<lparr>rs_client = client, rs_prefix = prefix\<rparr>)"

text \<open>\<^verbatim>\<open>d.Milliseconds()\<close> truncates towards zero.\<close>

definition millis :: "int \<Rightarrow> int" where
  "millis d = (let ms = d sdiv 1000000 in if ms > 0 then ms else 1)"

definition parsePolicy :: "string \<Rightarrow> 'e redis_error + policy_type" where
  "parsePolicy text =
     (case parse_uint text of None \<Rightarrow> Inl (NotAPolicy text) | Some number \<Rightarrow> Inr (PolicyType (of_nat number)))"

definition count_args :: "arm_counts \<Rightarrow> string list" where
  "count_args cnt =
     (if ac_Hits cnt \<noteq> 0
      then [countField (ac_Policy cnt) (ac_Role cnt) True, format_int (ac_Hits cnt)] else []) @
     (if ac_Misses cnt \<noteq> 0
      then [countField (ac_Policy cnt) (ac_Role cnt) False, format_int (ac_Misses cnt)] else [])"

definition parseSyncReply :: "reply \<Rightarrow> 'e redis_error + sync_result" where
  "parseSyncReply raw =
     (case raw of
        RList [b, l, d] \<Rightarrow>
          (case b of RInt bucket \<Rightarrow>
            (case l of RInt leader \<Rightarrow>
              (let result = \<lparr>sy_Bucket = bucket, sy_Leader = (leader = 1), sy_Decision = Undefined,
                             sy_HasDecision = False\<rparr>
               in case d of RStr decision \<Rightarrow>
                    if decision \<noteq> []
                    then (case parsePolicy decision of Inl err \<Rightarrow> Inl err
                          | Inr policy \<Rightarrow> Inr (result\<lparr>sy_Decision := policy, sy_HasDecision := True\<rparr>))
                    else Inr result
                  | _ \<Rightarrow> Inl (BadDecision d))
             | _ \<Rightarrow> Inl (BadLeader l))
           | _ \<Rightarrow> Inl (BadBucket b))
      | _ \<Rightarrow> Inl (UnexpectedReply raw))"

definition sync_args :: "string \<Rightarrow> sync_request \<Rightarrow> string list" where
  "sync_args prefix req =
     (let epochMillis = sr_EpochMillis req;
          epochMillis = (if epochMillis \<le> 0 then 1 else epochMillis);
          lead = (if sr_Lead req then ''1'' else ''0'')
      in [keyBase prefix (sr_Namespace req), format_int epochMillis, format_int (millis (sr_CounterTTL req)),
          format_int (millis (sr_LeaderTTL req)), sr_NodeID req, lead] @
         concat (map count_args (sr_Counts req)))"

definition redis_sync ::
  "('s, 'w, 'e) redis_store \<Rightarrow> 'w \<Rightarrow> sync_request \<Rightarrow> 's \<Rightarrow> 's \<times> ('e redis_error + sync_result)" where
  "redis_sync st w req s =
     (case rd_run (rs_client st) w (sync_script (rs_client st) w (sync_args (rs_prefix st) req)) s of
        (s, Inl err) \<Rightarrow> (s, Inl (SyncError err))
      | (s, Inr raw) \<Rightarrow> (s, parseSyncReply raw))"

text \<open>One field of a bucket's hash; \<open>fvs\<close> is the hash in the order the range visits it.\<close>

definition parse_field ::
  "string \<times> string \<Rightarrow> (arm_key, policy_stats) mapping \<Rightarrow> (arm_key, policy_stats) mapping" where
  "parse_field = (\<lambda>(field, value) arms.
     case parseCountField field of None \<Rightarrow> arms | Some (policy, r, hits) \<Rightarrow>
     case parse_int64 value of None \<Rightarrow> arms | Some n \<Rightarrow>
     let key = ArmKey policy r; stats = map_stats (Mapping.lookup arms) key;
         stats = (if hits then stats\<lparr>Hits := Hits stats + n\<rparr> else stats\<lparr>Misses := Misses stats + n\<rparr>)
     in Mapping.update key stats arms)"

definition parseArms :: "(string \<times> string) list \<Rightarrow> (arm_key, policy_stats) mapping" where
  "parseArms fvs = fold parse_field fvs Mapping.empty"

fun collect_window ::
  "(bucket \<times> ('e cmd_error + (string \<times> string) list)) list \<Rightarrow> window_counts list
    \<Rightarrow> 'e redis_error + window_counts list" where
  "collect_window [] window = Inr window"
| "collect_window ((bucket, Inl err) # rest) window =
     (if err = RedisNil then collect_window rest window else Inl (BucketError bucket err))"
| "collect_window ((bucket, Inr fvs) # rest) window =
     (if length fvs = 0 then collect_window rest window
      else let arms = parseArms fvs
           in if Mapping.size arms = 0 then collect_window rest window
              else collect_window rest (window @ [\<lparr>wc_Bucket = bucket, wc_Arms = arms\<rparr>]))"

definition redis_window ::
  "('s, 'w, 'e) redis_store \<Rightarrow> 'w \<Rightarrow> string \<Rightarrow> bucket \<Rightarrow> bucket \<Rightarrow> 's
    \<Rightarrow> 's \<times> ('e redis_error + window_counts list)" where
  "redis_window st w namespace lo hi s =
     (if lo > hi then (s, Inr [])
      else let buckets = [lo..hi];
               (s, err, commands) =
                 rd_pipe_hgetall (rs_client st) w (map (countsKey (rs_prefix st) namespace) buckets) s
           in case err of
                Some (CmdError e) \<Rightarrow> (s, Inl (WindowError (CmdError e)))
              | _ \<Rightarrow> (s, collect_window (zip buckets commands) []))"

definition redis_decide ::
  "('s, 'w, 'e) redis_store \<Rightarrow> 'w \<Rightarrow> string \<Rightarrow> bucket \<Rightarrow> policy_type \<Rightarrow> int \<Rightarrow> 's
    \<Rightarrow> 's \<times> ('e redis_error + policy_type)" where
  "redis_decide st w namespace bucket policy ttl s =
     (case rd_run (rs_client st) w (decide_script (rs_client st) w
             [keyBase (rs_prefix st) namespace, format_int bucket, format_uint (policy_num policy),
              format_int (millis ttl)]) s of
        (s, Inl err) \<Rightarrow> (s, Inl (DecideError err))
      | (s, Inr raw) \<Rightarrow>
          (s, case raw of RStr text \<Rightarrow> parsePolicy text | _ \<Rightarrow> Inl (BadReply raw)))"

definition redis_ops :: "('s, 'w, 'e) redis_store \<Rightarrow> ('s, 'w, 'e redis_error) store_ops" where
  "redis_ops st = \<lparr>so_sync = redis_sync st, so_window = redis_window st, so_decide = redis_decide st\<rparr>"

lemma redis_ops_sel [simp]:
  "so_sync (redis_ops st) = redis_sync st" "so_window (redis_ops st) = redis_window st"
  "so_decide (redis_ops st) = redis_decide st"
  by (simp_all add: redis_ops_def)

end
