(* ===== verification/RedisLaws.thy ===== *)
theory RedisLaws
  imports RedisStore
begin

text \<open>
  What the Redis store relies on of the server and of the client library, as their documentation
  states it, and what follows for the store: it is a coordination store.

  The hypotheses speak of \<open>holds t k s\<close>, what the key \<open>k\<close> holds at the time \<open>t\<close> if nothing is written
  after the state \<open>s\<close>. An answered script is one execution, at one reading of the server's clock, whose
  reply is the answer; a call that failed has left what one execution left, or nothing. A client that sends
  a script again after a lost answer causes further executions, at other times and with the calls of other
  clients in between: those are steps of their own (theory \<open>Resends\<close>).
\<close>

datatype redis_value = RString string | RHash "string \<rightharpoonup> string"

type_synonym 's redis_holds = "int \<Rightarrow> string \<Rightarrow> 's \<Rightarrow> redis_value option"

subsection \<open>The documented behaviour\<close>

text \<open>\<^verbatim>\<open>TIME\<close>: Unix seconds, before the year 5138, and microseconds; the store's clock in nanoseconds.\<close>

definition clock_law :: "('s, 'w, 'e) redis \<Rightarrow> bool" where
  "clock_law R \<longleftrightarrow> (\<forall>w. 0 \<le> fst (rd_time R w) \<and> fst (rd_time R w) < 10 ^ 11 \<and>
     0 \<le> snd (rd_time R w) \<and> snd (rd_time R w) < 1000000)"

definition server_ns :: "('s, 'w, 'e) redis \<Rightarrow> 'w \<Rightarrow> int" where
  "server_ns R w = fst (rd_time R w) * 1000000000 + snd (rd_time R w) * 1000"

text \<open>From the call on, only the keys of \<open>K\<close> may hold something else.\<close>

definition untouched ::
  "('s, 'w, 'e) redis \<Rightarrow> 's redis_holds \<Rightarrow> 'w \<Rightarrow> string set \<Rightarrow> 's \<Rightarrow> 's \<Rightarrow> bool" where
  "untouched R holds w K s s' \<longleftrightarrow> (\<forall>t k. server_ns R w \<le> t \<longrightarrow> k \<notin> K \<longrightarrow> holds t k s' = holds t k s)"

text \<open>Keys expire and do not come back.\<close>

definition expiry_law :: "'s redis_holds \<Rightarrow> bool" where
  "expiry_law holds \<longleftrightarrow> (\<forall>t t' k s. t \<le> t' \<longrightarrow> holds t' k s = None \<or> holds t' k s = holds t k s)"

definition get_law :: "('s, 'w, 'e) redis \<Rightarrow> 's redis_holds \<Rightarrow> bool" where
  "get_law R holds \<longleftrightarrow> (\<forall>w k s s' r. rd_get R w k s = (s', r) \<longrightarrow> untouched R holds w {} s s' \<and>
     (\<forall>v. r = Inr v \<longrightarrow> holds (server_ns R w) k s = map_option RString v))"

text \<open>
  \<^verbatim>\<open>SET k v NX PX px\<close> sets the key only if it holds nothing, and keeps it for \<open>px\<close> milliseconds of the
  server's clock; how soon after that it goes is not promised.
\<close>

definition set_law :: "('s, 'w, 'e) redis \<Rightarrow> 's redis_holds \<Rightarrow> bool" where
  "set_law R holds \<longleftrightarrow> (\<forall>w k v px s s' r. rd_set_nx_px R w k v px s = (s', r) \<longrightarrow>
     untouched R holds w (if r = Inr True then {k} else {}) s s' \<and>
     (r = Inr False \<longrightarrow> holds (server_ns R w) k s \<noteq> None) \<and>
     (r = Inr True \<longrightarrow> holds (server_ns R w) k s = None \<and> (\<forall>t. server_ns R w \<le> t \<longrightarrow>
        holds t k s' = Some (RString v) \<or>
        holds t k s' = None \<and> unix_milli (server_ns R w) + parse_int px \<le> unix_milli t)))"

definition hash_int :: "(string \<rightharpoonup> string) \<Rightarrow> string \<Rightarrow> int" where
  "hash_int h f = (case Option.bind (h f) parse_int64 of None \<Rightarrow> 0 | Some n \<Rightarrow> n)"

text \<open>
  \<^verbatim>\<open>HINCRBY k f d\<close> on a hash, or on nothing, whose field is absent or a 64-bit integer and stays one;
  the lifetime of the key does not change.
\<close>

definition hincrby_law :: "('s, 'w, 'e) redis \<Rightarrow> 's redis_holds \<Rightarrow> bool" where
  "hincrby_law R holds \<longleftrightarrow> (\<forall>w k f d s s' r. rd_hincrby R w k f d s = (s', r) \<longrightarrow>
     untouched R holds w (if isl r then {} else {k}) s s' \<and>
     (\<forall>n. r = Inr n \<longrightarrow> - (2 ^ 63) \<le> n \<and> n < 2 ^ 63 \<and> (\<exists>h. finite (dom h) \<and>
        holds (server_ns R w) k s = (if h = Map.empty then None else Some (RHash h)) \<and>
        n = hash_int h f + parse_int d \<and> (h f = None \<or> Option.bind (h f) parse_int64 \<noteq> None) \<and>
        (\<forall>t. server_ns R w \<le> t \<longrightarrow> holds t k s' =
           (if h \<noteq> Map.empty \<and> holds t k s = None then None else Some (RHash (h(f \<mapsto> format_int n))))))))"

definition pexpire_law :: "('s, 'w, 'e) redis \<Rightarrow> 's redis_holds \<Rightarrow> bool" where
  "pexpire_law R holds \<longleftrightarrow> (\<forall>w k px s s' r. rd_pexpire R w k px s = (s', r) \<longrightarrow>
     untouched R holds w (if isl r then {} else {k}) s s' \<and>
     (\<not> isl r \<longrightarrow> (\<forall>t. server_ns R w \<le> t \<longrightarrow> holds t k s' = holds (server_ns R w) k s \<or>
        holds t k s' = None \<and> unix_milli (server_ns R w) + parse_int px \<le> unix_milli t)))"

text \<open>
  \<^verbatim>\<open>HGETALL\<close> answers a missing key with an empty reply, never with nil. A pipeline is not a transaction: other
  clients' calls may come between its commands, so only a pipeline of one command is known to read one state.
\<close>

definition pipe_law :: "('s, 'w, 'e) redis \<Rightarrow> 's redis_holds \<Rightarrow> bool" where
  "pipe_law R holds \<longleftrightarrow> (\<forall>w ks s s' err rs. rd_pipe_hgetall R w ks s = (s', err, rs) \<longrightarrow>
     untouched R holds w {} s s' \<and> length rs = length ks \<and>
     (\<forall>i < length ks. rs ! i \<noteq> Inl RedisNil \<and> (\<forall>fvs. rs ! i = Inr fvs \<longrightarrow> distinct (map fst fvs) \<and>
        (length ks = 1 \<longrightarrow> holds (server_ns R w) (ks ! i) s = (if fvs = [] then None else Some (RHash (map_of fvs)))))))"

definition run_law :: "('s, 'w, 'e) redis \<Rightarrow> bool" where
  "run_law R \<longleftrightarrow> (\<forall>w f s s' r. rd_run R w f s = (s', r) \<longrightarrow>
     (case r of Inl err \<Rightarrow> s' = s \<or> s' = fst (f s)
      | Inr x \<Rightarrow> f s = (s', Inr x) \<and> x \<noteq> RNothing))"

definition redis_documented :: "('s, 'w, 'e) redis \<Rightarrow> 's redis_holds \<Rightarrow> bool" where
  "redis_documented R holds \<longleftrightarrow>
     clock_law R \<and> expiry_law holds \<and> get_law R holds \<and> set_law R holds \<and> hincrby_law R holds \<and>
     pexpire_law R holds \<and> pipe_law R holds \<and> run_law R"

lemma documentedD:
  assumes "redis_documented R holds"
  shows "clock_law R" "expiry_law holds" "get_law R holds" "set_law R holds" "hincrby_law R holds"
    "pexpire_law R holds" "pipe_law R holds" "run_law R"
  using assms by (simp_all add: redis_documented_def)

lemma get_cases:
  assumes "redis_documented R holds" and "rd_get R w k s = (s', r)"
  shows "untouched R holds w {} s s'" and "r = Inr v \<Longrightarrow> holds (server_ns R w) k s = map_option RString v"
  using documentedD(3) [OF assms(1)] assms(2) unfolding get_law_def by blast+

lemma set_cases:
  assumes "redis_documented R holds" and "rd_set_nx_px R w k v px s = (s', r)"
  shows "untouched R holds w {k} s s'" and "r \<noteq> Inr True \<Longrightarrow> untouched R holds w {} s s'"
    and "r = Inr False \<Longrightarrow> holds (server_ns R w) k s \<noteq> None"
    and "r = Inr True \<Longrightarrow> holds (server_ns R w) k s = None"
    and "r = Inr True \<Longrightarrow> server_ns R w \<le> t \<Longrightarrow> holds t k s' = Some (RString v) \<or>
      holds t k s' = None \<and> unix_milli (server_ns R w) + parse_int px \<le> unix_milli t"
proof -
  note law = documentedD(4) [OF assms(1), unfolded set_law_def, rule_format, OF assms(2)]
  show "untouched R holds w {k} s s'" using law by (auto simp: untouched_def split: if_splits)
  show "r \<noteq> Inr True \<Longrightarrow> untouched R holds w {} s s'" using law by simp
  show "r = Inr False \<Longrightarrow> holds (server_ns R w) k s \<noteq> None" using law by blast
  show "r = Inr True \<Longrightarrow> holds (server_ns R w) k s = None" using law by blast
  show "r = Inr True \<Longrightarrow> server_ns R w \<le> t \<Longrightarrow> holds t k s' = Some (RString v) \<or>
      holds t k s' = None \<and> unix_milli (server_ns R w) + parse_int px \<le> unix_milli t" using law by blast
qed

lemma hincrby_frame:
  assumes "redis_documented R holds" and "rd_hincrby R w k f d s = (s', r)"
  shows "untouched R holds w {k} s s'"
  using documentedD(5) [OF assms(1), unfolded hincrby_law_def, rule_format, OF assms(2)]
  by (auto simp: untouched_def split: if_splits)

lemma pexpire_frame:
  assumes "redis_documented R holds" and "rd_pexpire R w k px s = (s', r)"
  shows "untouched R holds w {k} s s'"
  using documentedD(6) [OF assms(1), unfolded pexpire_law_def, rule_format, OF assms(2)]
  by (auto simp: untouched_def split: if_splits)

lemma untouched_refl [simp]: "untouched R holds w K s s"
  by (simp add: untouched_def)

lemma untouched_trans: "untouched R holds w K s s' \<Longrightarrow> untouched R holds w K s' s'' \<Longrightarrow> untouched R holds w K s s''"
  by (simp add: untouched_def)

lemma untouched_mono: "untouched R holds w K s s' \<Longrightarrow> K \<subseteq> K' \<Longrightarrow> untouched R holds w K' s s'"
  by (auto simp: untouched_def)

lemma untouchedD: "untouched R holds w K s s' \<Longrightarrow> server_ns R w \<le> t \<Longrightarrow> k \<notin> K \<Longrightarrow> holds t k s' = holds t k s"
  by (simp add: untouched_def)

lemma expired: "redis_documented R holds \<Longrightarrow> t \<le> t' \<Longrightarrow> holds t' k s = None \<or> holds t' k s = holds t k s"
  using documentedD(2) [of R holds] unfolding expiry_law_def by blast

subsection \<open>The bucket a script computes\<close>

lemma int_div_le_self: "0 \<le> a \<Longrightarrow> 0 < b \<Longrightarrow> a div b \<le> (a :: int)"
  using zdiv_mono2 [of a 1 b] by simp

text \<open>The floor of a rounded quotient is the exact quotient for a dividend below \<open>2^50\<close>.\<close>

lemma rnd_below:
  assumes "x * 2 ^ k \<le> of_int m" and "\<bar>m\<bar> < 2 ^ 53" and "of_int m < z * 2 ^ k" and "k \<le> 1074"
  shows "rnd x < z"
proof -
  let ?y = "of_int m * 2 powi (- int k) :: rat"
  have y: "?y = of_int m / 2 ^ k" by (simp add: power_int_minus divide_inverse)
  have "rnd ?y = ?y" using assms(2,4) by (intro rnd_exact [where m = m and e = "- int k"]) simp_all
  moreover have "x \<le> ?y" "?y < z" using assms(1,3) unfolding y by (simp_all add: pos_le_divide_eq pos_divide_less_eq)
  ultimately show ?thesis using rnd_mono [of x ?y] by simp
qed

lemma rnd_quotient:
  assumes "0 \<le> a" and "a < 2 ^ 50" and "0 < b" and "b < 2 ^ 53"
  shows "\<lfloor>rnd (of_int a / of_int b)\<rfloor> = a div b"
proof -
  let ?q = "a div b" and ?x = "of_int a / of_int b :: rat"
  have q: "0 \<le> ?q" "?q \<le> a" using assms by (simp_all add: pos_imp_zdiv_nonneg_iff int_div_le_self)
  have "?q * b \<le> a" using div_mult_mod_eq [of a b] pos_mod_sign [of b a] assms(3) by linarith
  then have "(of_int (?q * b) :: rat) \<le> of_int a" by (simp only: of_int_le_iff)
  then have x: "of_int ?q \<le> ?x" using assms(3) by (simp add: pos_le_divide_eq)
  have lo: "of_int ?q \<le> rnd ?x"
    using rnd_mono [OF x] rnd_of_int [of ?q] q assms(2) by simp
  have lt: "a + 1 \<le> b * (?q + 1)"
    using assms(3) pos_mod_bound [of b a] mult_div_mod_eq [of b a] unfolding distrib_left by linarith
  have below: "?x * 2 ^ k \<le> of_int ((?q + 1) * 2 ^ k - 1)" if "b \<le> 2 ^ k" for k
  proof -
    have "a * 2 ^ k + b \<le> a * 2 ^ k + 2 ^ k" using that by simp
    also have "\<dots> = (a + 1) * 2 ^ k" by (simp add: distrib_right)
    also have "\<dots> \<le> b * (?q + 1) * 2 ^ k" using lt by (intro mult_right_mono) simp_all
    finally have "a * 2 ^ k \<le> b * ((?q + 1) * 2 ^ k - 1)" by (simp add: right_diff_distrib mult.assoc)
    then have "(of_int (a * 2 ^ k) :: rat) \<le> of_int (b * ((?q + 1) * 2 ^ k - 1))" by (simp only: of_int_le_iff)
    then show ?thesis using assms(3) by (simp add: pos_divide_le_eq mult.commute)
  qed
  have "rnd ?x < of_int (?q + 1)"
  proof (cases "?q = 0")
    case True
    then show ?thesis
      using below [of 53] assms(4) by (intro rnd_below [where k = 53 and m = "2 ^ 53 - 1"]) simp_all
  next
    case False
    obtain k where k: "b \<le> 2 ^ k" "2 ^ k < 2 * b"
    proof (cases "b = 1")
      case False
      then have "2 \<le> nat b" using assms(3) by simp
      then obtain n where n: "2 ^ n < nat b" "nat b \<le> 2 ^ (n + 1)" using ex_power_ivl2 [of 2 "nat b"] by blast
      then have "int (2 ^ n) < b" "b \<le> int (2 ^ (n + 1))" by linarith+
      then show ?thesis by (intro that [of "n + 1"]) simp_all
    qed (use that [of 0] in simp)
    have "b \<le> a" using False assms(1,3) q by (metis div_pos_pos_trivial not_le)
    have "k \<le> 1074"
    proof (rule ccontr)
      assume "\<not> ?thesis"
      then have "(2::int) ^ 54 \<le> 2 ^ k" by (intro power_increasing) simp_all
      with k(2) assms(4) show False by simp
    qed
    have "(?q + 1) * 2 ^ k \<le> (?q + 1) * (2 * b)" using k(2) q by (intro mult_left_mono) simp_all
    also have "\<dots> = 2 * (?q * b) + 2 * b" by (simp add: algebra_simps)
    also have "\<dots> \<le> 4 * a" using \<open>?q * b \<le> a\<close> \<open>b \<le> a\<close> by simp
    finally have "(?q + 1) * 2 ^ k < 2 ^ 53" using assms(2) by simp
    moreover have "0 \<le> (?q + 1) * 2 ^ k" using q by simp
    ultimately have "\<bar>(?q + 1) * 2 ^ k - 1\<bar> < 2 ^ 53" by (simp add: abs_less_iff)
    then show ?thesis using below [OF k(1)] \<open>k \<le> 1074\<close>
      by (intro rnd_below [where k = k and m = "(?q + 1) * 2 ^ k - 1"]) simp_all
  qed
  with lo show ?thesis by (simp add: floor_eq_iff)
qed

lemma f64_floor_div:
  assumes "0 \<le> a" and "a < 2 ^ 50" and "0 < b"
  shows "\<lfloor>f64_div (of_int a) (f64_of_int b)\<rfloor> = a div b"
proof (cases "b < 2 ^ 53")
  case True
  with assms show ?thesis by (simp add: f64_div_def f64_of_int_exact rnd_quotient)
next
  case False
  have "(2 :: int) ^ 52 \<le> 2 ^ 53" by simp
  then have "2 ^ 52 \<le> b" using False by linarith
  then have "rnd (of_int (2 ^ 52)) \<le> f64_of_int b"
    unfolding f64_of_int_def by (intro rnd_mono) (simp only: of_int_le_iff)
  then have b: "2 ^ 52 \<le> f64_of_int b" using rnd_of_int [of "2 ^ 52"] by simp
  have "of_int a < (of_int (2 ^ 50) :: rat)" using assms(2) by (simp only: of_int_less_iff)
  then have a: "of_int a < (2 :: rat) ^ 50" by simp
  have "of_int a / f64_of_int b \<le> (2 ^ 50) / (2 ^ 52)"
    using a b assms(1) by (intro frac_le) simp_all
  then have "rnd (of_int a / f64_of_int b) \<le> rnd (1 * 2 powi (- 2))"
    by (intro rnd_mono) (simp add: power_int_minus)
  also have "rnd (1 * 2 powi (- 2)) = 2 powi (- 2)" using rnd_powi [of "- 2"] by simp
  also have "\<dots> < 1" by (simp add: power_int_minus)
  finally have "\<lfloor>f64_div (of_int a) (f64_of_int b)\<rfloor> = 0"
    using b assms(1) by (simp add: f64_div_def floor_eq_iff rnd_nonneg)
  moreover have "a div b = 0" using False assms(1,2) by simp
  ultimately show ?thesis by simp
qed

text \<open>The script computes the bucket the other stores compute.\<close>

lemma server_milli:
  assumes "redis_documented R holds"
  shows "unix_milli (server_ns R w) = fst (rd_time R w) * 1000 + snd (rd_time R w) div 1000"
    and "0 \<le> unix_milli (server_ns R w)" and "unix_milli (server_ns R w) < 10 ^ 14"
proof -
  have t: "0 \<le> fst (rd_time R w)" "fst (rd_time R w) < 10 ^ 11" "0 \<le> snd (rd_time R w)" "snd (rd_time R w) < 1000000"
    using documentedD(1) [OF assms] by (simp_all add: clock_law_def)
  let ?micros = "fst (rd_time R w) * 1000000 + snd (rd_time R w)"
  have "unix_milli (server_ns R w) = (1000 * ?micros) div (1000 * 1000)"
    by (simp add: server_ns_def unix_milli_def)
  also have "\<dots> = ?micros div 1000" by (rule div_mult_mult1) simp
  also have "?micros = snd (rd_time R w) + (fst (rd_time R w) * 1000) * 1000" by simp
  also have "\<dots> div 1000 = fst (rd_time R w) * 1000 + snd (rd_time R w) div 1000" by (rule div_mult_self1) simp
  finally show e: "unix_milli (server_ns R w) = fst (rd_time R w) * 1000 + snd (rd_time R w) div 1000" .
  have "snd (rd_time R w) div 1000 < 1000" "0 \<le> snd (rd_time R w) div 1000" using t by simp_all
  with t e show "0 \<le> unix_milli (server_ns R w)" "unix_milli (server_ns R w) < 10 ^ 14" by simp_all
qed

definition clock_fits :: "int \<times> int \<Rightarrow> bool" where
  "clock_fits t \<longleftrightarrow> 0 \<le> fst t \<and> fst t < 10 ^ 11 \<and> 0 \<le> snd t \<and> snd t < 1000000"

lemma script_bucket_exact:
  assumes "clock_fits t" and "0 < m"
  shows "script_bucket t m = (fst t * 1000 + snd t div 1000) div m"
proof -
  have t: "0 \<le> fst t" "fst t < 10 ^ 11" "0 \<le> snd t" "snd t < 1000000" using assms(1) by (simp_all add: clock_fits_def)
  let ?ms = "fst t * 1000 + snd t div 1000"
  have "snd t div 1000 < 1000" "0 \<le> snd t div 1000" using t by simp_all
  then have ms: "0 \<le> ?ms" "?ms < 10 ^ 14" using t by simp_all
  have "\<lfloor>f64_div (f64_of_int (snd t)) 1000\<rfloor> = snd t div 1000"
    using f64_floor_div [of "snd t" 1000] t by (simp add: f64_of_int_exact)
  moreover have "f64_mul (f64_of_int (fst t)) 1000 = of_int (fst t * 1000)"
    using rnd_of_int [of "fst t * 1000"] t by (simp add: f64_mul_def f64_of_int_exact)
  ultimately have "script_now t = of_int ?ms"
    using rnd_of_int [of ?ms] ms by (simp add: script_now_def f64_add_def)
  then show ?thesis using f64_floor_div [of ?ms m] ms assms(2) by (simp add: script_bucket_def)
qed

text \<open>Within these bounds it is evaluated as the integer quotient.\<close>

lemma script_bucket_code [code]:
  "script_bucket t m =
    (if clock_fits t \<and> 0 < m then (fst t * 1000 + snd t div 1000) div m else \<lfloor>f64_div (script_now t) (f64_of_int m)\<rfloor>)"
  using script_bucket_exact [of t m] by (simp add: script_bucket_def [of t m])

lemma script_bucket:
  assumes "redis_documented R holds" and "0 < m"
  shows "script_bucket (rd_time R w) m = bucketAt (server_ns R w) m" and "lua_number (bucketAt (server_ns R w) m) =
    format_int (bucketAt (server_ns R w) m)"
proof -
  note ms = server_milli [OF assms(1), of w]
  have "clock_fits (rd_time R w)"
    using documentedD(1) [OF assms(1)] by (simp add: clock_law_def clock_fits_def)
  then have "script_bucket (rd_time R w) m = unix_milli (server_ns R w) div m"
    using script_bucket_exact ms(1) assms(2) by simp
  moreover have b: "bucketAt (server_ns R w) m = unix_milli (server_ns R w) div m"
    using ms assms(2) by (simp add: bucketAt_def sdiv_nonneg)
  ultimately show "script_bucket (rd_time R w) m = bucketAt (server_ns R w) m" by simp
  have "0 \<le> bucketAt (server_ns R w) m" "bucketAt (server_ns R w) m < 10 ^ 14"
    using b ms assms(2) int_div_le_self [of "unix_milli (server_ns R w)" m] by (simp_all add: pos_imp_zdiv_nonneg_iff)
  then show "lua_number (bucketAt (server_ns R w) m) = format_int (bucketAt (server_ns R w) m)"
    by (simp add: lua_number_def)
qed

subsection \<open>The view of a server\<close>

abbreviation leader_key :: "('s, 'w, 'e) redis_store \<Rightarrow> bucket_key \<Rightarrow> string" where
  "leader_key st k \<equiv> bucket_name (rs_prefix st) (fst k) '':l:'' (snd k)"

abbreviation decision_key :: "('s, 'w, 'e) redis_store \<Rightarrow> bucket_key \<Rightarrow> string" where
  "decision_key st k \<equiv> bucket_name (rs_prefix st) (fst k) '':d:'' (snd k)"

abbreviation counts_key :: "('s, 'w, 'e) redis_store \<Rightarrow> bucket_key \<Rightarrow> string" where
  "counts_key st k \<equiv> bucket_name (rs_prefix st) (fst k) '':c:'' (snd k)"

lemma key_distinct [simp]:
  "leader_key st k = leader_key st j \<longleftrightarrow> k = j" "decision_key st k = decision_key st j \<longleftrightarrow> k = j"
  "counts_key st k = counts_key st j \<longleftrightarrow> k = j"
  "leader_key st k \<noteq> decision_key st j" "decision_key st j \<noteq> leader_key st k"
  "leader_key st k \<noteq> counts_key st j" "counts_key st j \<noteq> leader_key st k"
  "decision_key st k \<noteq> counts_key st j" "counts_key st j \<noteq> decision_key st k"
  using bucket_name_inject [of "''l''" "''l''"] bucket_name_inject [of "''d''" "''d''"]
    bucket_name_inject [of "''c''" "''c''"] bucket_name_inject [of "''l''" "''d''"]
    bucket_name_inject [of "''d''" "''l''"] bucket_name_inject [of "''l''" "''c''"]
    bucket_name_inject [of "''c''" "''l''"] bucket_name_inject [of "''d''" "''c''"]
    bucket_name_inject [of "''c''" "''d''"]
  by (auto simp: prod_eq_iff)

definition redis_text :: "redis_value \<Rightarrow> string" where
  "redis_text v = (case v of RString text \<Rightarrow> text | RHash _ \<Rightarrow> [])"

definition redis_policy :: "redis_value \<Rightarrow> policy_type option" where
  "redis_policy v = (case v of RString text \<Rightarrow> map_option (\<lambda>n. PolicyType (of_nat n)) (parse_uint text) | RHash _ \<Rightarrow> None)"

text \<open>The counts have no part in what replicas agree on; they are read through windows.\<close>

definition redis_view :: "('s, 'w, 'e) redis_store \<Rightarrow> 's redis_holds \<Rightarrow> int \<Rightarrow> 's \<Rightarrow> store_view" where
  "redis_view st holds t s =
     \<lparr>v_counts = Map.empty,
      v_leaders = (\<lambda>k. map_option redis_text (holds t (leader_key st k) s)),
      v_decisions = (\<lambda>k. Option.bind (holds t (decision_key st k) s) redis_policy)\<rparr>"

lemma policy_text [simp]: "redis_policy (RString (format_uint (policy_num p))) = Some p"
  by (simp add: redis_policy_def)

subsection \<open>A run of the sync script\<close>

lemma lua_bindE:
  assumes "lua_bind m f s = (s', r)"
  obtains (raised) err where "m s = (s', Inl err)" "r = Inl err"
  | (returned) s1 x where "m s = (s1, Inr x)" "f x s1 = (s', r)"
  using assms by (auto simp: lua_bind_def split: prod.splits sum.splits)

text \<open>What running a script keeps: decisions as they are, and every claim of leadership.\<close>

definition coordination_kept ::
  "('s, 'w, 'e) redis_store \<Rightarrow> 's redis_holds \<Rightarrow> 'w \<Rightarrow> 's \<Rightarrow> 's \<Rightarrow> bool" where
  "coordination_kept st holds w s s' \<longleftrightarrow> (\<forall>t k. server_ns (rs_client st) w \<le> t \<longrightarrow>
     holds t (decision_key st k) s' = holds t (decision_key st k) s \<and>
     (holds t (leader_key st k) s \<noteq> None \<longrightarrow> holds t (leader_key st k) s' \<noteq> None))"

lemma kept_refl: "coordination_kept st holds w s s"
  by (simp add: coordination_kept_def)

lemma kept_trans:
  "coordination_kept st holds w s s' \<Longrightarrow> coordination_kept st holds w s' s'' \<Longrightarrow> coordination_kept st holds w s s''"
  unfolding coordination_kept_def by metis

lemma kept_untouched:
  assumes "untouched (rs_client st) holds w K s s'" and "K \<subseteq> {counts_key st k}"
  shows "coordination_kept st holds w s s'"
proof -
  have "decision_key st j \<notin> K" "leader_key st j \<notin> K" for j
    using subsetD [OF assms(2), of "decision_key st j"] subsetD [OF assms(2), of "leader_key st j"] by fastforce+
  with assms(1) show ?thesis by (simp add: untouched_def coordination_kept_def)
qed

lemma count_loop_frame:
  assumes "redis_documented R holds" and "count_loop R w key args s = (s', r)"
  shows "untouched R holds w {key} s s'"
  using assms(2)
proof (induction args arbitrary: s rule: induct_list012)
  case (3 f d rest)
  from 3(3) show ?case unfolding count_loop.simps
  proof (cases rule: lua_bindE)
    case (raised err)
    with hincrby_frame [OF assms(1)] show ?thesis by blast
  next
    case (returned s1 x)
    with 3(1) hincrby_frame [OF assms(1)] show ?thesis by (blast intro: untouched_trans)
  qed
qed auto

definition publish_counts :: "('s, 'w, 'e) redis \<Rightarrow> 'w \<Rightarrow> string \<Rightarrow> string list \<Rightarrow> string \<Rightarrow> 's \<Rightarrow> 's \<times> ('e + bool)" where
  "publish_counts R w key rest ttl =
     (if rest \<noteq> [] then lua_bind (count_loop R w key rest) (\<lambda>_. rd_pexpire R w key ttl) else lua_return False)"

definition claim_bucket :: "('s, 'w, 'e) redis \<Rightarrow> 'w \<Rightarrow> string \<Rightarrow> string \<Rightarrow> string \<Rightarrow> string \<Rightarrow> 's \<Rightarrow> 's \<times> ('e + int)" where
  "claim_bucket R w key lead node ttl =
     (if lead = ''1'' then lua_bind (rd_set_nx_px R w key node ttl) (\<lambda>ok. lua_return (if ok then 1 else 0))
      else lua_return 0)"

lemma bucketAt_default: "bucketAt t m = bucketAt t (if m \<le> 0 then 1 else m)"
  by (simp add: bucketAt_def)

lemma sync_script_parts:
  assumes doc: "redis_documented (rs_client st) holds" and "R = rs_client st"
    and k: "k = sync_key (server_ns R w) req"
  shows "sync_script R w (sync_args (rs_prefix st) req) s =
    lua_bind (publish_counts R w (counts_key st k) (concat (map count_args (sr_Counts req))) (format_int (millis (sr_CounterTTL req))))
    (\<lambda>_. lua_bind (claim_bucket R w (leader_key st k) (if sr_Lead req then ''1'' else ''0'') (sr_NodeID req)
        (format_int (millis (sr_LeaderTTL req))))
    (\<lambda>leader. lua_bind (rd_get R w (decision_key st k))
    (\<lambda>decision. lua_return (RList [RInt (snd k), RInt leader, RStr (case decision of None \<Rightarrow> [] | Some text \<Rightarrow> text)])))) s"
proof -
  let ?m = "if sr_EpochMillis req \<le> 0 then 1 else sr_EpochMillis req"
  have "k = (sr_Namespace req, bucketAt (server_ns R w) ?m)"
    using k bucketAt_default [of _ "sr_EpochMillis req"] by (simp add: sync_key_def)
  moreover have "0 < ?m" by simp
  note script_bucket [OF doc this, of w, folded assms(2)]
  ultimately show ?thesis
    by (simp add: sync_args_def Let_def parse_format_int publish_counts_def claim_bucket_def bucket_name_def)
qed

lemma sync_script_run:
  assumes doc: "redis_documented (rs_client st) holds" and R: "R = rs_client st"
    and k: "k = sync_key (server_ns R w) req"
    and run: "sync_script R w (sync_args (rs_prefix st) req) s = (s', r)"
  shows "coordination_kept st holds w s s'"
    and "r = Inr x \<Longrightarrow> \<exists>leader text. x = RList [RInt (snd k), RInt leader, RStr text] \<and>
      (text \<noteq> [] \<longrightarrow> holds (server_ns R w) (decision_key st k) s = Some (RString text)) \<and>
      (leader = 1 \<longrightarrow> sr_Lead req \<and> holds (server_ns R w) (leader_key st k) s = None \<and>
        (\<forall>t. server_ns R w \<le> t \<longrightarrow> unix_milli t < unix_milli (server_ns R w) + millis (sr_LeaderTTL req) \<longrightarrow>
          holds t (leader_key st k) s' \<noteq> None))"
proof -
  note doc' = doc [folded R]
  let ?now = "server_ns R w"
  have pub: "untouched R holds w {counts_key st k} s s1"
    if "publish_counts R w (counts_key st k) rest ttl s = (s1, r1)" for s s1 r1 rest ttl
  proof (cases "rest = []")
    case False
    with that have "lua_bind (count_loop R w (counts_key st k) rest) (\<lambda>_. rd_pexpire R w (counts_key st k) ttl) s = (s1, r1)"
      by (simp add: publish_counts_def)
    then show ?thesis
    proof (cases rule: lua_bindE)
      case (raised err)
      then show ?thesis using count_loop_frame [OF doc'] by blast
    next
      case (returned s2 x)
      then show ?thesis using count_loop_frame [OF doc'] pexpire_frame [OF doc'] by (blast intro: untouched_trans)
    qed
  qed (use that in \<open>simp add: publish_counts_def lua_return_def\<close>)
  have claim: "untouched R holds w {leader_key st k} s1 s2 \<and> coordination_kept st holds w s1 s2 \<and>
      (r2 = Inr 1 \<longrightarrow> lead = ''1'' \<and> holds ?now (leader_key st k) s1 = None \<and>
        (\<forall>t. ?now \<le> t \<longrightarrow> unix_milli t < unix_milli ?now + parse_int ttl \<longrightarrow> holds t (leader_key st k) s2 \<noteq> None))"
    if c: "claim_bucket R w (leader_key st k) lead node ttl s1 = (s2, r2)" for s1 s2 r2 lead node ttl
  proof -
    have set: ?thesis if "rd_set_nx_px R w (leader_key st k) node ttl s1 = (s2, r3)"
      and "r2 = (case r3 of Inl e \<Rightarrow> Inl e | Inr ok \<Rightarrow> Inr (if ok then 1 else 0))" and "lead = ''1''" for r3
    proof (cases "r3 = Inr True")
      case True
      note sc = set_cases [OF doc' that(1)]
      have "coordination_kept st holds w s1 s2" unfolding coordination_kept_def
      proof (intro allI impI conjI)
        fix t j assume t: "server_ns (rs_client st) w \<le> t"
        show "holds t (decision_key st j) s2 = holds t (decision_key st j) s1"
          using untouchedD [OF sc(1)] t R by simp
        assume "holds t (leader_key st j) s1 \<noteq> None"
        moreover have "holds t (leader_key st k) s1 = None" using expired [OF doc', of ?now t] sc(4) [OF True] t R by metis
        ultimately have "j \<noteq> k" by auto
        then show "holds t (leader_key st j) s2 \<noteq> None"
          using untouchedD [OF sc(1), of t "leader_key st j"] t R \<open>holds t (leader_key st j) s1 \<noteq> None\<close> by simp
      qed
      moreover have "\<forall>t. ?now \<le> t \<longrightarrow> unix_milli t < unix_milli ?now + parse_int ttl \<longrightarrow> holds t (leader_key st k) s2 \<noteq> None"
        using sc(5) [OF True] by force
      ultimately show ?thesis using sc(1) sc(4) [OF True] \<open>lead = ''1''\<close> by blast
    next
      case False
      have u: "untouched R holds w {} s1 s2" using set_cases(2) [OF doc' that(1) False] .
      moreover have "r2 \<noteq> Inr 1" using False that(2) by (auto split: sum.splits)
      ultimately show ?thesis
        using kept_untouched [of st holds w "{}" s1 s2 k] untouched_mono [OF u, of "{leader_key st k}"] R by blast
    qed
    show ?thesis
    proof (cases "lead = ''1''")
      case True
      from c have "lua_bind (rd_set_nx_px R w (leader_key st k) node ttl) (\<lambda>ok. lua_return (if ok then 1 else 0)) s1 = (s2, r2)"
        by (simp add: claim_bucket_def True)
      then show ?thesis
      proof (cases rule: lua_bindE)
        case (raised err)
        with set [of "Inl err"] True show ?thesis by simp
      next
        case (returned s3 ok)
        then have "r2 = Inr (if ok then 1 else 0)" "s3 = s2" by (simp_all add: lua_return_def)
        with set [of "Inr ok"] True returned(1) show ?thesis by simp
      qed
    next
      case False
      with c show ?thesis by (auto simp: claim_bucket_def lua_return_def kept_refl)
    qed
  qed
  from run [unfolded sync_script_parts [OF doc R k]]
  have "coordination_kept st holds w s s' \<and> (\<forall>x. r = Inr x \<longrightarrow> (\<exists>leader text. x = RList [RInt (snd k), RInt leader, RStr text] \<and>
      (text \<noteq> [] \<longrightarrow> holds ?now (decision_key st k) s = Some (RString text)) \<and>
      (leader = 1 \<longrightarrow> sr_Lead req \<and> holds ?now (leader_key st k) s = None \<and>
        (\<forall>t. ?now \<le> t \<longrightarrow> unix_milli t < unix_milli ?now + millis (sr_LeaderTTL req) \<longrightarrow>
          holds t (leader_key st k) s' \<noteq> None))))"
  proof (cases rule: lua_bindE)
    case (raised err)
    have "coordination_kept st holds w s s'" using pub [OF raised(1)] R by (auto intro: kept_untouched)
    with raised(2) show ?thesis by simp
  next
    case (returned s1 x1)
    note u1 = pub [OF returned(1)]
    have k1: "coordination_kept st holds w s s1" using u1 R by (auto intro: kept_untouched)
    from returned(2) show ?thesis
    proof (cases rule: lua_bindE)
      case (raised err)
      have "coordination_kept st holds w s s'" using kept_trans [OF k1 claim [OF raised(1), THEN conjunct2, THEN conjunct1]] .
      with raised(2) show ?thesis by simp
    next
      case (returned s2 leader)
      note c = claim [OF returned(1)]
      have k2: "coordination_kept st holds w s s2" using kept_trans [OF k1 c [THEN conjunct2, THEN conjunct1]] .
      from returned(2) show ?thesis
      proof (cases rule: lua_bindE)
        case (raised err)
        have "untouched R holds w {} s2 s'" using get_cases(1) [OF doc' raised(1)] .
        then have "coordination_kept st holds w s2 s'" using R by (auto intro: kept_untouched)
        then have "coordination_kept st holds w s s'" by (rule kept_trans [OF k2])
        with raised(2) show ?thesis by simp
      next
        case (returned s3 tx)
        have s3: "s' = s3" "r = Inr (RList [RInt (snd k), RInt leader, RStr (case tx of None \<Rightarrow> [] | Some text \<Rightarrow> text)])"
          using returned(2) by (simp_all add: lua_return_def)
        have u3: "untouched R holds w {} s2 s'" using get_cases(1) [OF doc' returned(1)] s3(1) by simp
        then have "coordination_kept st holds w s2 s'" using R by (auto intro: kept_untouched)
        then have ks: "coordination_kept st holds w s s'" by (rule kept_trans [OF k2])
        have "holds ?now (decision_key st k) s = holds ?now (decision_key st k) s2"
          using k2 R unfolding coordination_kept_def by (metis order_refl)
        also have "\<dots> = map_option RString tx" using get_cases(2) [OF doc' returned(1) refl] .
        finally have "(case tx of None \<Rightarrow> [] | Some text \<Rightarrow> text) \<noteq> [] \<longrightarrow>
            holds ?now (decision_key st k) s = Some (RString (case tx of None \<Rightarrow> [] | Some text \<Rightarrow> text))"
          by (cases tx) auto
        moreover have "holds t (leader_key st k) s' = holds t (leader_key st k) s2" if "?now \<le> t" for t
          using untouchedD [OF u3 that] by simp
        moreover have "holds ?now (leader_key st k) s1 = holds ?now (leader_key st k) s"
          using untouchedD [OF u1 order_refl] by simp
        ultimately show ?thesis using ks s3(2) c by (simp add: parse_format_int split: if_splits)
      qed
    qed
  qed
  then show "coordination_kept st holds w s s'"
    and "r = Inr x \<Longrightarrow> \<exists>leader text. x = RList [RInt (snd k), RInt leader, RStr text] \<and>
      (text \<noteq> [] \<longrightarrow> holds (server_ns R w) (decision_key st k) s = Some (RString text)) \<and>
      (leader = 1 \<longrightarrow> sr_Lead req \<and> holds (server_ns R w) (leader_key st k) s = None \<and>
        (\<forall>t. server_ns R w \<le> t \<longrightarrow> unix_milli t < unix_milli (server_ns R w) + millis (sr_LeaderTTL req) \<longrightarrow>
          holds t (leader_key st k) s' \<noteq> None))"
    by blast+
qed

end
