(* ===== verification/RedisCoordination.thy ===== *)
theory RedisCoordination
  imports RedisLaws
begin

text \<open>
  Over a server and a client that behave as documented, the Redis store is a coordination store
  (theory \<open>BanditStore\<close>), whatever calls fail, with or without effect.
\<close>

subsection \<open>One execution\<close>

lemma run_cases:
  assumes "redis_documented R holds" and "rd_run R w f s = (s', r)"
  obtains (nothing) err where "r = Inl err" "s' = s"
  | (unanswered) err x where "r = Inl err" "f s = (s', x)"
  | (answered) x where "r = Inr x" "f s = (s', Inr x)" "x \<noteq> RNothing"
  using documentedD(8) [OF assms(1), unfolded run_law_def, rule_format, OF assms(2)]
  by (cases r; cases "f s") auto

lemma millis_pos [simp]: "0 < millis d"
  by (simp add: millis_def Let_def)

lemma millis_ge: "d div 1000000 \<le> millis d"
proof (cases "0 \<le> d")
  case True
  then show ?thesis by (simp add: millis_def Let_def sdiv_nonneg)
next
  case False
  then have "d div 1000000 \<le> 0" by simp
  then show ?thesis using millis_pos [of d] by linarith
qed

lemma redis_sync_cases:
  assumes doc: "redis_documented (rs_client st) holds" and sync: "redis_sync st w req s = (s', r)"
    and k: "k = sync_key (server_ns (rs_client st) w) req"
  shows "coordination_kept st holds w s s'"
    and "r = Inr res \<Longrightarrow> sy_Bucket res = snd k \<and>
      (sy_HasDecision res \<longrightarrow> v_decisions (redis_view st holds (server_ns (rs_client st) w) s) k = Some (sy_Decision res)) \<and>
      (sy_Leader res \<longrightarrow> sr_Lead req \<and> holds (server_ns (rs_client st) w) (leader_key st k) s = None \<and>
        (\<forall>t. server_ns (rs_client st) w \<le> t \<longrightarrow>
          unix_milli t < unix_milli (server_ns (rs_client st) w) + millis (sr_LeaderTTL req) \<longrightarrow>
          holds t (leader_key st k) s' \<noteq> None))"
proof -
  let ?f = "sync_script (rs_client st) w (sync_args (rs_prefix st) req)" and ?now = "server_ns (rs_client st) w"
  obtain r0 where r0: "rd_run (rs_client st) w ?f s = (s', r0)" and r: "r = (case r0 of Inl err \<Rightarrow> Inl (SyncError err) | Inr raw \<Rightarrow> parseSyncReply raw)"
    using sync by (auto simp: redis_sync_def split: prod.splits sum.splits)
  note once = sync_script_run [OF doc refl k]
  show "coordination_kept st holds w s s'" using doc r0
    by (cases rule: run_cases) (auto intro: kept_refl once(1))
  assume res: "r = Inr res"
  from doc r0 obtain x where x: "r0 = Inr x" "?f s = (s', Inr x)"
    by (cases rule: run_cases) (use r res in auto)
  obtain leader tx where y: "x = RList [RInt (snd k), RInt leader, RStr tx]"
    "tx \<noteq> [] \<longrightarrow> holds ?now (decision_key st k) s = Some (RString tx)"
    "leader = 1 \<longrightarrow> sr_Lead req \<and> holds ?now (leader_key st k) s = None \<and>
        (\<forall>t. ?now \<le> t \<longrightarrow> unix_milli t < unix_milli ?now + millis (sr_LeaderTTL req) \<longrightarrow>
          holds t (leader_key st k) s' \<noteq> None)"
    using once(2) [OF x(2) refl] by blast
  have parsed: "parseSyncReply x = r" using r x(1) by simp
  have "sy_Bucket res = snd k \<and> sy_Leader res = (leader = 1) \<and>
      (sy_HasDecision res \<longrightarrow> tx \<noteq> [] \<and> parse_uint tx \<noteq> None \<and> sy_Decision res = PolicyType (of_nat (the (parse_uint tx))))"
    using parsed unfolding y(1) parseSyncReply_def res
    by (auto simp: Let_def parsePolicy_def split: option.splits if_splits)
  then show "sy_Bucket res = snd k \<and>
      (sy_HasDecision res \<longrightarrow> v_decisions (redis_view st holds ?now s) k = Some (sy_Decision res)) \<and>
      (sy_Leader res \<longrightarrow> sr_Lead req \<and> holds ?now (leader_key st k) s = None \<and>
        (\<forall>t. ?now \<le> t \<longrightarrow> unix_milli t < unix_milli ?now + millis (sr_LeaderTTL req) \<longrightarrow>
          holds t (leader_key st k) s' \<noteq> None))"
    using y(2,3) by (auto simp: redis_view_def redis_policy_def)
qed

subsection \<open>Publishing a decision\<close>

text \<open>What an execution of the decide script does: the key is set if it was free, and otherwise
  everything stays.\<close>

definition decision_set ::
  "('s, 'w, 'e) redis_store \<Rightarrow> 's redis_holds \<Rightarrow> 'w \<Rightarrow> bucket_key \<Rightarrow> string \<Rightarrow> 's \<Rightarrow> 's \<Rightarrow> bool" where
  "decision_set st holds w k policy s s' \<longleftrightarrow> (\<forall>t. server_ns (rs_client st) w \<le> t \<longrightarrow>
     (\<forall>j. j \<noteq> decision_key st k \<longrightarrow> holds t j s' = holds t j s) \<and>
     (if holds (server_ns (rs_client st) w) (decision_key st k) s \<noteq> None
      then holds t (decision_key st k) s' = holds t (decision_key st k) s
      else holds t (decision_key st k) s' \<in> {None, Some (RString policy)}))"

lemma decision_set_refl:
  assumes "redis_documented (rs_client st) holds"
  shows "decision_set st holds w k policy s s"
  using expired [OF assms, of "server_ns (rs_client st) w" _ "decision_key st k" s]
  unfolding decision_set_def by (metis insertI1)

lemma decision_set_untouched:
  assumes doc: "redis_documented (rs_client st) holds" and u: "untouched (rs_client st) holds w {} s s'"
  shows "decision_set st holds w k policy s s'"
proof -
  have same: "holds t j s' = holds t j s" if "server_ns (rs_client st) w \<le> t" for t j
    using untouchedD [OF u that] by simp
  show ?thesis using decision_set_refl [OF doc, of w k policy s] unfolding decision_set_def by (auto simp: same split: if_splits)
qed

lemma decide_script_run:
  assumes doc: "redis_documented (rs_client st) holds" and R: "R = rs_client st"
    and run: "decide_script R w [keyBase (rs_prefix st) (fst k), format_int (snd k), policy, ttl] s = (s', r)"
  shows "decision_set st holds w k policy s s'"
    and "r = Inr (RStr tx) \<Longrightarrow>
      (if holds (server_ns R w) (decision_key st k) s = None then tx = policy
       else holds (server_ns R w) (decision_key st k) s = Some (RString tx))"
proof -
  note doc' = doc [folded R]
  let ?now = "server_ns R w" and ?d = "decision_key st k"
  have "lua_bind (rd_set_nx_px R w ?d policy ttl)
         (\<lambda>ok. if ok then lua_return (RStr policy)
               else lua_bind (rd_get R w ?d)
                      (\<lambda>text. lua_return (case text of None \<Rightarrow> RNothing | Some text \<Rightarrow> RStr text))) s = (s', r)"
    using run by (simp add: Let_def bucket_name_def cong: if_cong)
  then have "decision_set st holds w k policy s s' \<and> (\<forall>tx. r = Inr (RStr tx) \<longrightarrow>
      (if holds ?now ?d s = None then tx = policy else holds ?now ?d s = Some (RString tx)))"
  proof (cases rule: lua_bindE)
    case (raised err)
    have "untouched R holds w {} s s'" using set_cases(2) [OF doc' raised(1)] by simp
    then show ?thesis using decision_set_untouched [OF doc] R raised(2) by simp
  next
    case (returned s1 ok)
    note sc = set_cases [OF doc' returned(1)]
    show ?thesis
    proof (cases ok)
      case True
      then have s1: "s' = s1" "r = Inr (RStr policy)" using returned(2) by (simp_all add: lua_return_def)
      have "decision_set st holds w k policy s s'" unfolding decision_set_def s1(1)
        using untouchedD [OF sc(1)] sc(4) sc(5) True R by auto
      with s1(2) sc(4) True show ?thesis by simp
    next
      case False
      have u1: "untouched R holds w {} s s1" using sc(2) False by simp
      have some: "holds ?now ?d s \<noteq> None" using sc(3) False by simp
      from returned(2) False have "lua_bind (rd_get R w ?d)
          (\<lambda>text. lua_return (case text of None \<Rightarrow> RNothing | Some text \<Rightarrow> RStr text)) s1 = (s', r)" by simp
      then show ?thesis
      proof (cases rule: lua_bindE)
        case (raised err)
        then have "untouched R holds w {} s s'" using untouched_trans [OF u1] get_cases(1) [OF doc'] by blast
        then show ?thesis using decision_set_untouched [OF doc] R raised(2) by simp
      next
        case (returned s2 v)
        then have s2: "s' = s2" "r = Inr (case v of None \<Rightarrow> RNothing | Some text \<Rightarrow> RStr text)"
          by (simp_all add: lua_return_def)
        have "untouched R holds w {} s s'" using untouched_trans [OF u1] get_cases(1) [OF doc' returned(1)] s2(1) by blast
        then have "decision_set st holds w k policy s s'" using decision_set_untouched [OF doc] R by simp
        moreover have "holds ?now ?d s = map_option RString v"
          using get_cases(2) [OF doc' returned(1) refl] untouchedD [OF u1 order_refl, of ?d] by simp
        ultimately show ?thesis using some s2(2) by (auto split: option.splits)
      qed
    qed
  qed
  then show "decision_set st holds w k policy s s'"
    and "r = Inr (RStr tx) \<Longrightarrow>
      (if holds (server_ns R w) (decision_key st k) s = None then tx = policy
       else holds (server_ns R w) (decision_key st k) s = Some (RString tx))" by blast+
qed

lemma redis_decide_cases:
  assumes doc: "redis_documented (rs_client st) holds" and run: "redis_decide st w ns b p ttl s = (s', r)"
    and k: "k = (ns, b)"
  shows "decision_set st holds w k (format_uint (policy_num p)) s s'"
    and "r = Inr q \<Longrightarrow>
      q = (case v_decisions (redis_view st holds (server_ns (rs_client st) w) s) k of None \<Rightarrow> p | Some d \<Rightarrow> d)"
proof -
  let ?p = "format_uint (policy_num p)" and ?now = "server_ns (rs_client st) w" and ?d = "decision_key st k"
  let ?f = "decide_script (rs_client st) w [keyBase (rs_prefix st) (fst k), format_int (snd k), ?p, format_int (millis ttl)]"
  obtain r0 where r0: "rd_run (rs_client st) w ?f s = (s', r0)"
    and r: "r = (case r0 of Inl err \<Rightarrow> Inl (DecideError err) | Inr (RStr text) \<Rightarrow> parsePolicy text | Inr raw \<Rightarrow> Inl (BadReply raw))"
    using run unfolding k by (auto simp: redis_decide_def split: prod.splits sum.splits reply.splits)
  note once = decide_script_run [OF doc refl]
  show "decision_set st holds w k ?p s s'" using doc r0
    by (cases rule: run_cases) (auto intro: decision_set_refl [OF doc] once(1))
  assume q: "r = Inr q"
  from doc r0 obtain x where x: "r0 = Inr x" "?f s = (s', Inr x)"
    by (cases rule: run_cases) (use r q in auto)
  obtain tx where tx: "x = RStr tx" "parsePolicy tx = r"
    using r q x(1) by (auto split: reply.splits)
  have qt: "redis_policy (RString tx) = Some q"
    using tx(2) q by (auto simp: parsePolicy_def redis_policy_def split: option.splits)
  have "if holds ?now ?d s = None then tx = ?p else holds ?now ?d s = Some (RString tx)"
    using once(2) [OF x(2) [unfolded tx(1)]] by simp
  with qt show "q = (case v_decisions (redis_view st holds ?now s) k of None \<Rightarrow> p | Some d \<Rightarrow> d)"
    by (cases "holds ?now ?d s") (auto simp: redis_view_def)
qed

subsection \<open>The coordination store\<close>

lemma redis_window_untouched:
  assumes "redis_documented (rs_client st) holds" and "redis_window st w ns lo hi s = (s', r)"
  shows "untouched (rs_client st) holds w {} s s'"
proof (cases "lo > hi")
  case False
  obtain s1 err rs where p: "rd_pipe_hgetall (rs_client st) w (map (countsKey (rs_prefix st) ns) [lo..hi]) s = (s1, err, rs)"
    by (metis prod_cases3)
  then have "s' = s1" using assms(2) False by (auto simp: redis_window_def Let_def split: option.splits cmd_error.splits)
  then show ?thesis using documentedD(7) [OF assms(1), unfolded pipe_law_def, rule_format, OF p] by blast
qed (use assms(2) in \<open>simp add: redis_window_def\<close>)

lemma redis_coordinates:
  assumes doc: "redis_documented (rs_client st) holds"
  shows "coordination_store (redis_ops st) (\<lambda>_. True) (server_ns (rs_client st)) (redis_view st holds)"
proof
  let ?now = "server_ns (rs_client st)" and ?view = "redis_view st holds"
  have leaders: "v_leaders (?view t s) k = None \<longleftrightarrow> holds t (leader_key st k) s = None" for t s k
    by (simp add: redis_view_def)
  have decs: "v_decisions (?view t s) k = Option.bind (holds t (decision_key st k) s) redis_policy" for t s k
    by (simp add: redis_view_def)
  {
    fix s s' w r sres t
    assume "so_sync (redis_ops st) w r s = (s', sres)" and t: "?now w \<le> t"
    then have kept: "coordination_kept st holds w s s'" using redis_sync_cases(1) [OF doc _ refl] by simp
    show "v_decisions (?view t s') \<subseteq>\<^sub>m v_decisions (?view t s)"
      using kept t by (simp add: coordination_kept_def redis_view_def)
    fix k assume "v_leaders (?view t s) k \<noteq> None"
    then show "v_leaders (?view t s') k \<noteq> None" using kept t by (simp add: coordination_kept_def leaders)
  next
    fix s s' w ns lo hi wres t
    assume "so_window (redis_ops st) w ns lo hi s = (s', wres)" and t: "?now w \<le> t"
    then have "untouched (rs_client st) holds w {} s s'" using redis_window_untouched [OF doc] by simp
    then have same: "holds t k s' = holds t k s" for k using untouchedD [OF _ t] by simp
    show "v_decisions (?view t s') \<subseteq>\<^sub>m v_decisions (?view t s)" by (simp add: redis_view_def same)
    fix k assume "v_leaders (?view t s) k \<noteq> None"
    then show "v_leaders (?view t s') k \<noteq> None" by (simp add: leaders same)
  next
    fix s s' w ns b p ttl dres t
    assume "so_decide (redis_ops st) w ns b p ttl s = (s', dres)" and t: "?now w \<le> t"
    then have ds: "decision_set st holds w (ns, b) (format_uint (policy_num p)) s s'"
      using redis_decide_cases(1) [OF doc _ refl] by simp
    note at = ds [unfolded decision_set_def, rule_format, OF t]
    have other: "v_decisions (?view t s') k = v_decisions (?view t s) k" if "k \<noteq> (ns, b)" for k
    proof -
      have "decision_key st k \<noteq> decision_key st (ns, b)" using that key_distinct(2) by blast
      with at show ?thesis by (simp add: decs)
    qed
    have mine: "v_decisions (?view t s') (ns, b) \<in>
        (case v_decisions (?view (?now w) s) (ns, b) of None \<Rightarrow> {None, Some p} | Some d \<Rightarrow> {v_decisions (?view t s) (ns, b)})"
    proof (cases "holds (?now w) (decision_key st (ns, b)) s")
      case None
      then have "holds t (decision_key st (ns, b)) s' \<in> {None, Some (RString (format_uint (policy_num p)))}" using at by simp
      with None show ?thesis by (auto simp: decs)
    next
      case (Some v)
      then have "holds t (decision_key st (ns, b)) s' = holds t (decision_key st (ns, b)) s" using at by simp
      then have e: "v_decisions (?view t s') (ns, b) = v_decisions (?view t s) (ns, b)" by (simp add: decs)
      have "v_decisions (?view t s) (ns, b) = None" if "redis_policy v = None"
        using expired [OF doc t, of "decision_key st (ns, b)" s] Some that by (auto simp: decs)
      with e Some show ?thesis by (auto simp: decs split: option.splits)
    qed
    show "v_decisions (?view t s') \<subseteq>\<^sub>m
        (case v_decisions (?view (?now w) s) (ns, b) of None \<Rightarrow> (v_decisions (?view t s))((ns, b) \<mapsto> p)
         | Some d \<Rightarrow> v_decisions (?view t s))"
    proof (rule map_leI)
      fix k v assume v: "v_decisions (?view t s') k = Some v"
      show "(case v_decisions (?view (?now w) s) (ns, b) of None \<Rightarrow> (v_decisions (?view t s))((ns, b) \<mapsto> p)
         | Some d \<Rightarrow> v_decisions (?view t s)) k = Some v"
        using v mine other [of k] by (cases "k = (ns, b)") (auto split: option.splits)
    qed
    fix k assume "v_leaders (?view t s) k \<noteq> None"
    moreover have "holds t (leader_key st k) s' = holds t (leader_key st k) s" using at key_distinct(4) by blast
    ultimately show "v_leaders (?view t s') k \<noteq> None" by (simp add: leaders)
  next
    fix s s' w r res
    assume "so_sync (redis_ops st) w r s = (s', Inr res)"
    then have sy: "redis_sync st w r s = (s', Inr res)" by simp
    note c = redis_sync_cases(2) [OF doc sy refl refl]
    show "sy_Bucket res = bucketAt (?now w) (sr_EpochMillis r) \<and>
      (sy_Leader res \<longrightarrow> v_leaders (?view (?now w) s) (sync_key (?now w) r) = None) \<and>
      (sy_HasDecision res \<longrightarrow> v_decisions (?view (?now w) s) (sync_key (?now w) r) = Some (sy_Decision res))"
      using c by (simp add: leaders sync_key_def)
    fix t assume l: "sy_Leader res" and t: "?now w \<le> t" "unix_milli t < unix_milli (?now w) + sr_LeaderTTL r div 1000000"
    have "unix_milli t < unix_milli (?now w) + millis (sr_LeaderTTL r)" using t(2) millis_ge [of "sr_LeaderTTL r"] by linarith
    then have "holds t (leader_key st (sync_key (?now w) r)) s' \<noteq> None" using c l t(1) by blast
    then show "v_leaders (?view t s') (sync_key (?now w) r) \<noteq> None" by (simp add: leaders)
  next
    fix s t t' k
    assume "t \<le> (t' :: int)" "v_leaders (?view t s) k = None"
    then show "v_leaders (?view t' s) k = None" using expired [OF doc, of t t'] by (metis leaders)
  next
    fix s s' w ns b p ttl q
    assume "so_decide (redis_ops st) w ns b p ttl s = (s', Inr q)"
    then show "q = (case v_decisions (?view (?now w) s) (ns, b) of None \<Rightarrow> p | Some d \<Rightarrow> d)"
      using redis_decide_cases(2) [OF doc _ refl refl] by simp
  }
qed simp_all

end
