(* ===== verification/RedisCounts.thy ===== *)
theory RedisCounts
  imports RedisCoordination
begin

text \<open>
  What a bucket's hash says of its arms, how a sync changes that, and that a window reads it back.
\<close>

subsection \<open>The counts in a hash\<close>

definition field_total :: "(string \<rightharpoonup> string) \<Rightarrow> arm_key \<Rightarrow> bool \<Rightarrow> int" where
  "field_total h a hits = (\<Sum>f | f \<in> dom h \<and> parseCountField f = Some (ak_Policy a, ak_Role a, hits). hash_int h f)"

definition hash_stats :: "(string \<rightharpoonup> string) \<Rightarrow> arm_key \<Rightarrow> policy_stats" where
  "hash_stats h a = \<lparr>Hits = field_total h a True, Misses = field_total h a False\<rparr>"

lemma hash_stats_empty [simp]: "hash_stats Map.empty a = zero_stats"
  by (simp add: hash_stats_def field_total_def)

lemma hash_int_upd: "hash_int (h(f \<mapsto> v)) g = (if g = f then (case parse_int64 v of None \<Rightarrow> 0 | Some n \<Rightarrow> n) else hash_int h g)"
  by (simp add: hash_int_def)

lemma field_total_upd:
  assumes "finite (dom h)"
  shows "field_total (h(f \<mapsto> v)) a hits = field_total h a hits +
    (if parseCountField f = Some (ak_Policy a, ak_Role a, hits)
     then (case parse_int64 v of None \<Rightarrow> 0 | Some n \<Rightarrow> n) - hash_int h f else 0)"
proof -
  let ?P = "\<lambda>f. parseCountField f = Some (ak_Policy a, ak_Role a, hits)"
  let ?A = "{g. g \<in> dom h \<and> ?P g}"
  have fin: "finite ?A" using assms by simp
  have rest: "(\<Sum>g\<in>?A - {f}. hash_int (h(f \<mapsto> v)) g) = (\<Sum>g\<in>?A - {f}. hash_int h g)"
    by (rule sum.cong) (simp_all add: hash_int_upd)
  have old: "field_total h a hits = (\<Sum>g\<in>?A - {f}. hash_int h g) + (if ?P f then hash_int h f else 0)"
    using sum.remove [OF fin, of f "hash_int h"]
    by (cases "f \<in> ?A") (auto simp: field_total_def hash_int_def bind_eq_Some_conv split: option.splits)
  show ?thesis
  proof (cases "?P f")
    case True
    have "{g. g \<in> dom (h(f \<mapsto> v)) \<and> ?P g} = insert f (?A - {f})" using True by auto
    then have "field_total (h(f \<mapsto> v)) a hits = hash_int (h(f \<mapsto> v)) f + (\<Sum>g\<in>?A - {f}. hash_int h g)"
      using fin rest by (simp add: field_total_def sum.insert_remove)
    with old True show ?thesis by (simp add: hash_int_upd)
  next
    case False
    have "{g. g \<in> dom (h(f \<mapsto> v)) \<and> ?P g} = ?A - {f}" using False by auto
    then have "field_total (h(f \<mapsto> v)) a hits = (\<Sum>g\<in>?A - {f}. hash_int h g)"
      using rest by (simp add: field_total_def)
    with old False show ?thesis by simp
  qed
qed

text \<open>The parser of a bucket's hash, in whatever order it visits the fields, computes these counts.\<close>

lemma parse_field_stats:
  "map_stats (Mapping.lookup (parse_field (f, v) arms)) a =
    add_stats (map_stats (Mapping.lookup arms) a)
      \<lparr>Hits = (if parseCountField f = Some (ak_Policy a, ak_Role a, True) then (case parse_int64 v of None \<Rightarrow> 0 | Some n \<Rightarrow> n) else 0),
       Misses = (if parseCountField f = Some (ak_Policy a, ak_Role a, False) then (case parse_int64 v of None \<Rightarrow> 0 | Some n \<Rightarrow> n) else 0)\<rparr>"
proof (cases "parseCountField f")
  case (Some x)
  obtain p r hits where x: "x = (p, r, hits)" by (cases x)
  show ?thesis
  proof (cases "a = ArmKey p r")
    case True
    then show ?thesis using Some x by (cases hits) (auto simp: parse_field_def Let_def add_stats_def split: option.splits)
  next
    case False
    then have "\<not> (ak_Policy a = p \<and> ak_Role a = r)" by (cases a) auto
    then show ?thesis using Some x False
      by (auto simp: parse_field_def Let_def add_stats_def split: option.splits)
  qed
qed (simp add: parse_field_def add_stats_def)

lemma parse_arms_stats:
  assumes "distinct (map fst fvs)"
  shows "map_stats (Mapping.lookup (parseArms fvs)) a = hash_stats (map_of fvs) a"
proof -
  have "map_stats (Mapping.lookup (fold parse_field fvs arms)) a =
      add_stats (map_stats (Mapping.lookup arms) a) (hash_stats (map_of fvs) a)" for arms
    using assms
  proof (induction fvs arbitrary: arms)
    case (Cons fv fvs)
    obtain f v where fv: "fv = (f, v)" by (cases fv)
    have "map_of fvs f = None" using Cons.prems fv by (simp add: map_of_eq_None_iff)
    then have "hash_int (map_of fvs) f = 0" by (simp add: hash_int_def)
    moreover have "map_of (fv # fvs) = (map_of fvs)(f \<mapsto> v)" using fv by simp
    ultimately have "hash_stats (map_of (fv # fvs)) a = add_stats (hash_stats (map_of fvs) a)
      \<lparr>Hits = (if parseCountField f = Some (ak_Policy a, ak_Role a, True) then (case parse_int64 v of None \<Rightarrow> 0 | Some n \<Rightarrow> n) else 0),
       Misses = (if parseCountField f = Some (ak_Policy a, ak_Role a, False) then (case parse_int64 v of None \<Rightarrow> 0 | Some n \<Rightarrow> n) else 0)\<rparr>"
      by (simp only: hash_stats_def field_total_upd [OF finite_dom_map_of] add_stats_def policy_stats.simps) simp
    moreover have "map_stats (Mapping.lookup (fold parse_field (fv # fvs) arms)) a =
        add_stats (map_stats (Mapping.lookup (parse_field (f, v) arms)) a) (hash_stats (map_of fvs) a)"
      using Cons.IH [of "parse_field (f, v) arms"] Cons.prems fv by simp
    ultimately show ?case by (simp only: parse_field_stats add_stats_ac)
  qed (simp add: add_stats_def hash_stats_def field_total_def)
  from this [of Mapping.empty] show ?thesis by (simp add: parseArms_def add_stats_def map_stats_def)
qed

subsection \<open>What a sync adds\<close>

definition hash_at :: "('s, 'w, 'e) redis \<Rightarrow> 's redis_holds \<Rightarrow> 'w \<Rightarrow> string \<Rightarrow> 's \<Rightarrow> (string \<rightharpoonup> string) \<Rightarrow> bool" where
  "hash_at R holds w key s h \<longleftrightarrow>
     finite (dom h) \<and> holds (server_ns R w) key s = (if h = Map.empty then None else Some (RHash h))"

lemma hincrby_adds:
  assumes doc: "redis_documented R holds" and run: "rd_hincrby R w key f d s = (s', Inr n)"
  obtains h where "hash_at R holds w key s h" "hash_at R holds w key s' (h(f \<mapsto> format_int n))"
    "n = hash_int h f + parse_int d" "- (2 ^ 63) \<le> n" "n < 2 ^ 63"
proof -
  from documentedD(5) [OF doc, unfolded hincrby_law_def, rule_format, OF run]
  obtain h where "finite (dom h)" "n = hash_int h f + parse_int d" "- (2 ^ 63) \<le> n" "n < 2 ^ 63"
    "holds (server_ns R w) key s = (if h = Map.empty then None else Some (RHash h))"
    "\<forall>t. server_ns R w \<le> t \<longrightarrow> holds t key s' =
        (if h \<noteq> Map.empty \<and> holds t key s = None then None else Some (RHash (h(f \<mapsto> format_int n))))"
    by auto
  then show ?thesis by (intro that [of h]) (auto simp: hash_at_def)
qed

lemma hash_at_unique: "hash_at R holds w key s h \<Longrightarrow> hash_at R holds w key s h' \<Longrightarrow> h = h'"
  by (auto simp: hash_at_def split: if_splits)

text \<open>One counter of a published count.\<close>

lemma counter_adds:
  assumes doc: "redis_documented R holds" and h: "hash_at R holds w key s h"
    and role: "r \<in> {RoleShadow, RoleActive}"
    and run: "rd_hincrby R w key (countField p r hits) (format_int d) s = (s', Inr n)"
  obtains h' where "hash_at R holds w key s' h'" "h' \<noteq> Map.empty"
    "\<And>a. hash_stats h' a = add_stats (hash_stats h a)
      (if a = ArmKey p r then (if hits then \<lparr>Hits = d, Misses = 0\<rparr> else \<lparr>Hits = 0, Misses = d\<rparr>) else zero_stats)"
proof -
  let ?f = "countField p r hits"
  obtain h0 where h0: "hash_at R holds w key s h0" "hash_at R holds w key s' (h0(?f \<mapsto> format_int n))"
    "n = hash_int h0 ?f + d" "- (2 ^ 63) \<le> n" "n < 2 ^ 63"
    using hincrby_adds [OF doc run] by (metis parse_format_int)
  have "h0 = h" using hash_at_unique [OF h0(1) h] .
  have fin: "finite (dom h)" using h by (simp add: hash_at_def)
  have parse: "parseCountField ?f = Some (p, r, hits)" using role by (auto simp: count_field_read)
  have "hash_stats (h(?f \<mapsto> format_int n)) a = add_stats (hash_stats h a)
      (if a = ArmKey p r then (if hits then \<lparr>Hits = d, Misses = 0\<rparr> else \<lparr>Hits = 0, Misses = d\<rparr>) else zero_stats)" for a
    using h0(3-5) \<open>h0 = h\<close> parse
    by (cases a; cases hits) (auto simp: hash_stats_def field_total_upd [OF fin] parse_int64_format add_stats_def)
  then show ?thesis using h0(2) \<open>h0 = h\<close> by (intro that) auto
qed

definition some_count :: "arm_counts list \<Rightarrow> bool" where
  "some_count cs \<longleftrightarrow> (\<exists>c \<in> set cs. ac_Hits c \<noteq> 0 \<or> ac_Misses c \<noteq> 0)"

lemma count_args_none: "count_args c = [] \<longleftrightarrow> ac_Hits c = 0 \<and> ac_Misses c = 0"
  by (simp add: count_args_def)

lemma args_none: "concat (map count_args cs) = [] \<longleftrightarrow> \<not> some_count cs"
  by (auto simp: some_count_def count_args_none)

lemma count_loop_adds:
  assumes doc: "redis_documented R holds" and h: "hash_at R holds w key s h"
    and "\<forall>c \<in> set cs. ac_Role c \<in> {RoleShadow, RoleActive}"
    and "count_loop R w key (concat (map count_args cs)) s = (s', Inr ())"
  obtains h' where "hash_at R holds w key s' h'" "some_count cs \<or> h \<noteq> Map.empty \<Longrightarrow> h' \<noteq> Map.empty"
    "\<And>a. hash_stats h' a = add_stats (hash_stats h a) (sum_stats (map count_stats (filter (\<lambda>c. count_key c = a) cs)))"
  using assms(2-4)
proof (induction cs arbitrary: s h thesis)
  case Nil
  then show ?case by (auto simp: some_count_def)
next
  case (Cons c cs)
  let ?k = "ArmKey (ac_Policy c) (ac_Role c)"
  have role: "ac_Role c \<in> {RoleShadow, RoleActive}" using Cons.prems(3) by simp
  define rest where "rest = concat (map count_args cs)"
  have step: "\<exists>s1 h1. count_loop R w key args s1 = (s', Inr ()) \<and> hash_at R holds w key s1 h1 \<and> (d \<noteq> 0 \<or> h0 \<noteq> Map.empty \<longrightarrow> h1 \<noteq> Map.empty) \<and>
      (\<forall>a. hash_stats h1 a = add_stats (hash_stats h0 a)
        (if a = ?k then (if hits then \<lparr>Hits = d, Misses = 0\<rparr> else \<lparr>Hits = 0, Misses = d\<rparr>) else zero_stats))"
    if "hash_at R holds w key s0 h0"
      and "count_loop R w key ((if d \<noteq> 0 then [countField (ac_Policy c) (ac_Role c) hits, format_int d] else []) @ args) s0 = (s', Inr ())"
    for s0 h0 hits d args
  proof (cases "d = 0")
    case True
    with that show ?thesis by (intro exI [of _ s0] exI [of _ h0]) (auto simp: add_stats_def)
  next
    case False
    with that(2) have "lua_bind (rd_hincrby R w key (countField (ac_Policy c) (ac_Role c) hits) (format_int d))
        (\<lambda>_. count_loop R w key args) s0 = (s', Inr ())" by simp
    then obtain s1 n where s1: "rd_hincrby R w key (countField (ac_Policy c) (ac_Role c) hits) (format_int d) s0 = (s1, Inr n)"
      "count_loop R w key args s1 = (s', Inr ())" by (cases rule: lua_bindE) auto
    from counter_adds [OF doc that(1) role s1(1)] s1(2) show ?thesis by metis
  qed
  have "count_loop R w key ((if ac_Hits c \<noteq> 0 then [countField (ac_Policy c) (ac_Role c) True, format_int (ac_Hits c)] else []) @
      ((if ac_Misses c \<noteq> 0 then [countField (ac_Policy c) (ac_Role c) False, format_int (ac_Misses c)] else []) @ rest)) s = (s', Inr ())"
    using Cons.prems(4) unfolding rest_def list.map concat.simps count_args_def [of c] append_assoc .
  from step [OF Cons.prems(2) this] obtain s1 h1 where s1: "hash_at R holds w key s1 h1"
    "count_loop R w key ((if ac_Misses c \<noteq> 0 then [countField (ac_Policy c) (ac_Role c) False, format_int (ac_Misses c)] else []) @ rest) s1 = (s', Inr ())"
    "ac_Hits c \<noteq> 0 \<or> h \<noteq> Map.empty \<longrightarrow> h1 \<noteq> Map.empty"
    "\<forall>a. hash_stats h1 a = add_stats (hash_stats h a) (if a = ?k then \<lparr>Hits = ac_Hits c, Misses = 0\<rparr> else zero_stats)"
    by (auto cong: if_cong)
  from step [OF s1(1,2)] obtain s2 h2 where s2: "hash_at R holds w key s2 h2" "count_loop R w key rest s2 = (s', Inr ())"
    "ac_Misses c \<noteq> 0 \<or> h1 \<noteq> Map.empty \<longrightarrow> h2 \<noteq> Map.empty"
    "\<forall>a. hash_stats h2 a = add_stats (hash_stats h1 a) (if a = ?k then \<lparr>Hits = 0, Misses = ac_Misses c\<rparr> else zero_stats)"
    by (auto cong: if_cong)
  have "\<forall>c \<in> set cs. ac_Role c \<in> {RoleShadow, RoleActive}" using Cons.prems(3) by simp
  from Cons.IH [OF _ s2(1) this s2(2) [unfolded rest_def]] obtain h' where h': "hash_at R holds w key s' h'"
    "some_count cs \<or> h2 \<noteq> Map.empty \<Longrightarrow> h' \<noteq> Map.empty"
    "\<And>a. hash_stats h' a = add_stats (hash_stats h2 a) (sum_stats (map count_stats (filter (\<lambda>c. count_key c = a) cs)))"
    by blast
  show ?case
  proof (rule Cons.prems(1) [OF h'(1)])
    show "h' \<noteq> Map.empty" if "some_count (c # cs) \<or> h \<noteq> Map.empty"
      using that h'(2) s1(3) s2(3) by (auto simp: some_count_def)
    show "hash_stats h' a = add_stats (hash_stats h a) (sum_stats (map count_stats (filter (\<lambda>c. count_key c = a) (c # cs))))" for a
      using h'(3) [of a] s1(4) s2(4) by (auto simp: count_key_def count_stats_def add_stats_def)
  qed
qed

text \<open>What a bucket's key holds for an arm at a time.\<close>

definition bucket_stats :: "'s redis_holds \<Rightarrow> int \<Rightarrow> string \<Rightarrow> 's \<Rightarrow> arm_key \<Rightarrow> policy_stats" where
  "bucket_stats holds t key s a = (case holds t key s of Some (RHash h) \<Rightarrow> hash_stats h a | _ \<Rightarrow> zero_stats)"

lemma hash_at_stats: "hash_at R holds w key s h \<Longrightarrow> bucket_stats holds (server_ns R w) key s a = hash_stats h a"
  by (simp add: hash_at_def bucket_stats_def)

lemma publish_adds:
  assumes doc: "redis_documented R holds" and some: "some_count cs"
    and roles: "\<forall>c \<in> set cs. ac_Role c \<in> {RoleShadow, RoleActive}"
    and run: "publish_counts R w key (concat (map count_args cs)) ttl s = (s', Inr x)"
    and t: "server_ns R w \<le> t" "unix_milli t < unix_milli (server_ns R w) + parse_int ttl"
  shows "bucket_stats holds t key s' a =
    add_stats (bucket_stats holds (server_ns R w) key s a) (sum_stats (map count_stats (filter (\<lambda>c. count_key c = a) cs)))"
proof -
  from run some have "lua_bind (count_loop R w key (concat (map count_args cs))) (\<lambda>_. rd_pexpire R w key ttl) s = (s', Inr x)"
    by (metis publish_counts_def args_none)
  then obtain s1 u where s1: "count_loop R w key (concat (map count_args cs)) s = (s1, Inr u)" "rd_pexpire R w key ttl s1 = (s', Inr x)"
    by (cases rule: lua_bindE) auto
  have "\<exists>h. hash_at R holds w key s h"
  proof -
    obtain f d rest where a: "concat (map count_args cs) = f # d # rest"
    proof -
      obtain c where "c \<in> set cs" "count_args c \<noteq> []" using some by (auto simp: some_count_def count_args_none)
      have even: "\<exists>ps. concat (map count_args cs) = concat (map (\<lambda>(f, d). [f, d]) ps)" for cs
      proof (induction cs)
        case (Cons c cs)
        then obtain ps where ps: "concat (map count_args cs) = concat (map (\<lambda>(f, d). [f, d]) ps)" by blast
        let ?new = "(if ac_Hits c \<noteq> 0 then [(countField (ac_Policy c) (ac_Role c) True, format_int (ac_Hits c))] else []) @
          (if ac_Misses c \<noteq> 0 then [(countField (ac_Policy c) (ac_Role c) False, format_int (ac_Misses c))] else [])"
        have "concat (map count_args (c # cs)) = concat (map (\<lambda>(f, d). [f, d]) (?new @ ps))"
          using ps by (simp add: count_args_def)
        then show ?case by blast
      qed (auto intro: exI [of _ "[]"])
      obtain ps where "concat (map count_args cs) = concat (map (\<lambda>(f, d). [f, d]) ps)" using even by blast
      moreover have "concat (map count_args cs) \<noteq> []" using some args_none by blast
      ultimately show ?thesis using that by (cases ps) auto
    qed
    with s1(1) have "lua_bind (rd_hincrby R w key f d) (\<lambda>_. count_loop R w key rest) s = (s1, Inr u)" by simp
    then show ?thesis
    proof (cases rule: lua_bindE)
      case (returned s2 n)
      then show ?thesis using hincrby_adds [OF doc returned(1)] by blast
    qed simp
  qed
  then obtain h where h: "hash_at R holds w key s h" by blast
  obtain h' where h': "hash_at R holds w key s1 h'" "some_count cs \<or> h \<noteq> Map.empty \<Longrightarrow> h' \<noteq> Map.empty"
    "\<And>a. hash_stats h' a = add_stats (hash_stats h a) (sum_stats (map count_stats (filter (\<lambda>c. count_key c = a) cs)))"
    using count_loop_adds [OF doc h roles, of s1] s1(1) by (metis old.unit.exhaust)
  have "holds t key s' = holds (server_ns R w) key s1"
    using documentedD(6) [OF doc, unfolded pexpire_law_def, rule_format, OF s1(2)] t by fastforce
  then have "bucket_stats holds t key s' a = bucket_stats holds (server_ns R w) key s1 a" by (simp add: bucket_stats_def)
  with h h' show ?thesis by (simp add: hash_at_stats)
qed

lemma sync_adds:
  assumes doc: "redis_documented (rs_client st) holds" and R: "R = rs_client st"
    and k: "k = sync_key (server_ns R w) req" and some: "some_count (sr_Counts req)"
    and roles: "\<forall>c \<in> set (sr_Counts req). ac_Role c \<in> {RoleShadow, RoleActive}"
    and run: "sync_script R w (sync_args (rs_prefix st) req) s = (s', Inr x)"
    and t: "server_ns R w \<le> t" "unix_milli t < unix_milli (server_ns R w) + millis (sr_CounterTTL req)"
  shows "bucket_stats holds t (counts_key st k) s' a =
    add_stats (bucket_stats holds (server_ns R w) (counts_key st k) s a)
      (sum_stats (map count_stats (filter (\<lambda>c. count_key c = a) (sr_Counts req))))"
proof -
  note doc' = doc [folded R]
  let ?key = "counts_key st k"
  from run [unfolded sync_script_parts [OF doc R k]] obtain s1 x1 s2 leader s3 v where
    s1: "publish_counts R w ?key (concat (map count_args (sr_Counts req))) (format_int (millis (sr_CounterTTL req))) s = (s1, Inr x1)"
    and s2: "claim_bucket R w (leader_key st k) (if sr_Lead req then ''1'' else ''0'') (sr_NodeID req)
      (format_int (millis (sr_LeaderTTL req))) s1 = (s2, Inr leader)"
    and s3: "rd_get R w (decision_key st k) s2 = (s3, Inr v)" and s': "s' = s3"
    by (auto elim!: lua_bindE simp: lua_return_def)
  have "untouched R holds w {leader_key st k} s1 s2"
    using s2 set_cases(1) [OF doc'] by (auto simp: claim_bucket_def lua_return_def elim!: lua_bindE split: if_splits)
  then have "holds t ?key s2 = holds t ?key s1" using untouchedD [OF _ t(1)] by fastforce
  moreover have "holds t ?key s' = holds t ?key s2" using untouchedD [OF get_cases(1) [OF doc' s3] t(1)] s' by simp
  ultimately have "bucket_stats holds t ?key s' a = bucket_stats holds t ?key s1 a" by (simp add: bucket_stats_def)
  also have "\<dots> = add_stats (bucket_stats holds (server_ns R w) ?key s a)
      (sum_stats (map count_stats (filter (\<lambda>c. count_key c = a) (sr_Counts req))))"
    using publish_adds [OF doc' some roles s1 t(1)] t(2) by (simp add: parse_format_int)
  finally show ?thesis .
qed

text \<open>What a window of one bucket reports of an arm.\<close>

definition window_stats :: "window_counts list \<Rightarrow> arm_key \<Rightarrow> policy_stats" where
  "window_stats ws a = (case ws of [] \<Rightarrow> zero_stats | wc # _ \<Rightarrow> map_stats (Mapping.lookup (wc_Arms wc)) a)"

lemma parse_arms_finite: "finite (Mapping.keys (parseArms fvs))"
proof -
  have "finite (Mapping.keys arms) \<Longrightarrow> finite (Mapping.keys (fold parse_field fvs arms))" for arms
    by (induction fvs arbitrary: arms) (auto simp: parse_field_def Let_def split: option.splits)
  then show ?thesis by (simp add: parseArms_def)
qed

lemma no_arms: "Mapping.size (parseArms fvs) = 0 \<Longrightarrow> Mapping.lookup (parseArms fvs) = Map.empty"
  using parse_arms_finite [of fvs] by (simp add: Mapping.size_def keys_dom_lookup)

lemma window_reads:
  assumes doc: "redis_documented (rs_client st) holds" and run: "redis_window st w ns b b s = (s', Inr ws)"
  shows "window_stats ws a = bucket_stats holds (server_ns (rs_client st) w) (counts_key st (ns, b)) s a"
proof -
  let ?key = "counts_key st (ns, b)"
  obtain s1 err rs where p: "rd_pipe_hgetall (rs_client st) w [?key] s = (s1, err, rs)" by (metis prod_cases3)
  have law: "length rs = 1" "rs ! 0 \<noteq> Inl RedisNil" "\<And>fvs. rs ! 0 = Inr fvs \<Longrightarrow> distinct (map fst fvs) \<and>
      holds (server_ns (rs_client st) w) ?key s = (if fvs = [] then None else Some (RHash (map_of fvs)))"
    using documentedD(7) [OF doc, unfolded pipe_law_def, rule_format, OF p] by auto
  then obtain r where r: "rs = [r]" by (metis One_nat_def length_0_conv length_Suc_conv)
  have c: "collect_window [(b, r)] [] = Inr ws" and noerr: "\<And>e. err \<noteq> Some (CmdError e)"
    using run p by (auto simp: redis_window_def Let_def countsKey_name r split: option.splits cmd_error.splits)
  show ?thesis
  proof (cases r)
    case (Inr fvs)
    note law(3) [of fvs]
    moreover have "map_stats (Mapping.lookup (parseArms fvs)) a = zero_stats" if "Mapping.size (parseArms fvs) = 0"
      using that by (simp add: no_arms map_stats_def)
    ultimately show ?thesis using c Inr r parse_arms_stats [of fvs a]
      by (auto simp: window_stats_def bucket_stats_def Let_def split: if_splits)
  next
    case (Inl e)
    have "e = RedisNil" using c Inl by (simp split: if_splits)
    with law(2) Inl r show ?thesis by simp
  qed
qed

end
