(* ===== verification/RedisDemo.thy ===== *)
theory RedisDemo
  imports RedisCounts
begin

text \<open>
  A small server that behaves as documented: a state maps keys to a value and an instant of expiry. The
  theorems about the Redis store are stated for any server; this one shows that their hypotheses can hold.
\<close>

datatype demo_value = DString string | DHash "(string \<times> string) list"

type_synonym demo_server = "(string, demo_value \<times> int option) mapping"

text \<open>A call happens at a second and a microsecond.\<close>

type_synonym demo_call = "int \<times> int"

definition demo_time :: "demo_call \<Rightarrow> int \<times> int" where
  "demo_time w = (fst w mod 10 ^ 11, snd w mod 1000000)"

definition demo_ns :: "demo_call \<Rightarrow> int" where
  "demo_ns w = fst (demo_time w) * 1000000000 + snd (demo_time w) * 1000"

definition demo_read :: "int \<Rightarrow> string \<Rightarrow> demo_server \<Rightarrow> demo_value option" where
  "demo_read t k s =
     (case Mapping.lookup s k of None \<Rightarrow> None
      | Some (v, e) \<Rightarrow>
          if v \<noteq> DHash [] \<and> (case e of None \<Rightarrow> True | Some x \<Rightarrow> unix_milli t < x) then Some v else None)"

definition demo_redis_value :: "demo_value \<Rightarrow> redis_value" where
  "demo_redis_value v = (case v of DString s \<Rightarrow> RString s | DHash al \<Rightarrow> RHash (map_of al))"

definition demo_holds :: "demo_server redis_holds" where
  "demo_holds t k s = map_option demo_redis_value (demo_read t k s)"

definition demo_get :: "demo_call \<Rightarrow> string \<Rightarrow> demo_server \<Rightarrow> demo_server \<times> (unit + string option)" where
  "demo_get w k s = (s, case demo_read (demo_ns w) k s of None \<Rightarrow> Inr None
     | Some (DString v) \<Rightarrow> Inr (Some v) | Some (DHash _) \<Rightarrow> Inl ())"

definition demo_set :: "demo_call \<Rightarrow> string \<Rightarrow> string \<Rightarrow> string \<Rightarrow> demo_server \<Rightarrow> demo_server \<times> (unit + bool)" where
  "demo_set w k v px s =
     (if demo_read (demo_ns w) k s \<noteq> None then (s, Inr False)
      else (Mapping.update k (DString v, Some (unix_milli (demo_ns w) + parse_int px)) s, Inr True))"

definition demo_hash :: "demo_value option \<Rightarrow> (string \<times> string) list option" where
  "demo_hash v = (case v of None \<Rightarrow> Some [] | Some (DHash al) \<Rightarrow> Some al | Some (DString _) \<Rightarrow> None)"

definition demo_hincrby :: "demo_call \<Rightarrow> string \<Rightarrow> string \<Rightarrow> string \<Rightarrow> demo_server \<Rightarrow> demo_server \<times> (unit + int)" where
  "demo_hincrby w k f d s =
     (let cur = demo_read (demo_ns w) k s;
          expires = (if cur = None then None else Option.bind (Mapping.lookup s k) snd)
      in case demo_hash cur of None \<Rightarrow> (s, Inl ()) | Some al \<Rightarrow>
         case (case map_of al f of None \<Rightarrow> Some 0 | Some v \<Rightarrow> parse_int64 v) of None \<Rightarrow> (s, Inl ()) | Some old \<Rightarrow>
         let n = old + parse_int d
         in if - (2 ^ 63) \<le> n \<and> n < 2 ^ 63
            then (Mapping.update k (DHash (AList.update f (format_int n) al), expires) s, Inr n)
            else (s, Inl ()))"

definition demo_pexpire :: "demo_call \<Rightarrow> string \<Rightarrow> string \<Rightarrow> demo_server \<Rightarrow> demo_server \<times> (unit + bool)" where
  "demo_pexpire w k px s =
     (case demo_read (demo_ns w) k s of None \<Rightarrow> (s, Inr False)
      | Some v \<Rightarrow> (Mapping.update k (v, Some (unix_milli (demo_ns w) + parse_int px)) s, Inr True))"

definition demo_hgetalls ::
  "demo_call \<Rightarrow> string list \<Rightarrow> demo_server
    \<Rightarrow> demo_server \<times> unit cmd_error option \<times> (unit cmd_error + (string \<times> string) list) list" where
  "demo_hgetalls w ks s =
     (s, None, map (\<lambda>k. case demo_hash (demo_read (demo_ns w) k s) of None \<Rightarrow> Inl (CmdError ())
        | Some al \<Rightarrow> Inr (AList.clearjunk al)) ks)"

definition demo_run ::
  "demo_call \<Rightarrow> (demo_server \<Rightarrow> demo_server \<times> (unit + reply)) \<Rightarrow> demo_server \<Rightarrow> demo_server \<times> (unit cmd_error + reply)" where
  "demo_run w f s = (case f s of
     (s', Inl e) \<Rightarrow> (s', Inl (CmdError e))
   | (s', Inr RNothing) \<Rightarrow> (s', Inl RedisNil)
   | (s', Inr x) \<Rightarrow> (s', Inr x))"

definition demo_redis :: "(demo_server, demo_call, unit) redis" where
  "demo_redis =
     \<lparr>rd_time = demo_time, rd_get = demo_get, rd_set_nx_px = demo_set, rd_hincrby = demo_hincrby,
      rd_pexpire = demo_pexpire, rd_bad_argument = (), rd_run = demo_run, rd_pipe_hgetall = demo_hgetalls\<rparr>"

lemma demo_redis_sel [simp]:
  "rd_time demo_redis = demo_time" "rd_get demo_redis = demo_get" "rd_set_nx_px demo_redis = demo_set"
  "rd_hincrby demo_redis = demo_hincrby" "rd_pexpire demo_redis = demo_pexpire"
  "rd_run demo_redis = demo_run" "rd_pipe_hgetall demo_redis = demo_hgetalls"
  by (simp_all add: demo_redis_def)

lemma demo_server_ns [simp]: "server_ns demo_redis w = demo_ns w"
  by (simp add: server_ns_def demo_ns_def)

lemma demo_read_upd:
  "demo_read t k (Mapping.update j (v, e) s) =
    (if k = j then (if v \<noteq> DHash [] \<and> (case e of None \<Rightarrow> True | Some x \<Rightarrow> unix_milli t < x) then Some v else None)
     else demo_read t k s)"
  by (simp add: demo_read_def)

lemma demo_read_later:
  assumes "t \<le> t'"
  shows "demo_read t' k s = None \<or> demo_read t' k s = demo_read t k s"
proof -
  have "unix_milli t \<le> unix_milli t'" using assms by (simp add: unix_milli_def zdiv_mono1)
  then show ?thesis by (auto simp: demo_read_def split: option.splits)
qed

lemma demo_clock: "clock_law demo_redis"
  by (simp add: clock_law_def demo_time_def)

lemma demo_expiry: "expiry_law demo_holds"
  using demo_read_later unfolding expiry_law_def demo_holds_def by (metis option.map(1))

lemma demo_get_ok: "get_law demo_redis demo_holds"
  unfolding get_law_def
  by (auto simp: demo_get_def demo_holds_def demo_redis_value_def split: option.splits demo_value.splits)

lemma demo_set_ok: "set_law demo_redis demo_holds"
  unfolding set_law_def
  by (auto simp: demo_set_def untouched_def demo_holds_def demo_read_upd demo_redis_value_def split: if_splits)

lemma demo_pexpire_ok: "pexpire_law demo_redis demo_holds"
  unfolding pexpire_law_def
proof (intro allI impI)
  fix w k px s s' r
  assume "rd_pexpire demo_redis w k px s = (s', r)"
  then have p: "demo_pexpire w k px s = (s', r)" by simp
  show "untouched demo_redis demo_holds w (if isl r then {} else {k}) s s' \<and>
     (\<not> isl r \<longrightarrow> (\<forall>t. server_ns demo_redis w \<le> t \<longrightarrow> demo_holds t k s' = demo_holds (server_ns demo_redis w) k s \<or>
        demo_holds t k s' = None \<and> unix_milli (server_ns demo_redis w) + parse_int px \<le> unix_milli t))"
  proof (cases "demo_read (demo_ns w) k s")
    case None
    have "demo_read t k s = None" if "demo_ns w \<le> t" for t using demo_read_later [OF that, of k s] None by auto
    with p None show ?thesis by (auto simp: demo_pexpire_def untouched_def demo_holds_def)
  next
    case (Some v)
    then have "v \<noteq> DHash []" by (auto simp: demo_read_def split: option.splits if_splits)
    with p Some show ?thesis
      by (auto simp: demo_pexpire_def untouched_def demo_holds_def demo_read_upd)
  qed
qed

lemma demo_run_ok: "run_law demo_redis"
  by (auto simp: run_law_def demo_run_def split: prod.splits sum.splits reply.splits)

lemma demo_hash_read:
  "demo_hash (demo_read t k s) = Some al \<Longrightarrow>
    demo_holds t k s = (if al = [] then None else Some (RHash (map_of al)))"
  by (auto simp: demo_hash_def demo_holds_def demo_redis_value_def demo_read_def split: option.splits demo_value.splits if_splits)

lemma demo_pipe_ok: "pipe_law demo_redis demo_holds"
  unfolding pipe_law_def
proof (intro allI impI)
  fix w ks s s' err rs
  assume "rd_pipe_hgetall demo_redis w ks s = (s', err, rs)"
  then have p: "s' = s" "rs = map (\<lambda>k. case demo_hash (demo_read (demo_ns w) k s) of None \<Rightarrow> Inl (CmdError ())
        | Some al \<Rightarrow> Inr (AList.clearjunk al)) ks" by (auto simp: demo_hgetalls_def)
  have empty: "AList.clearjunk al = [] \<longleftrightarrow> al = []" for al :: "(string \<times> string) list" by (cases al) auto
  have "rs ! i \<noteq> Inl RedisNil \<and> (\<forall>fvs. rs ! i = Inr fvs \<longrightarrow> distinct (map fst fvs) \<and>
      demo_holds (demo_ns w) (ks ! i) s = (if fvs = [] then None else Some (RHash (map_of fvs))))" if "i < length ks" for i
    using that demo_hash_read [of "demo_ns w" "ks ! i" s]
    by (cases "demo_hash (demo_read (demo_ns w) (ks ! i) s)")
      (auto simp: p(2) map_of_clearjunk distinct_clearjunk empty)
  then show "untouched demo_redis demo_holds w {} s s' \<and> length rs = length ks \<and>
     (\<forall>i < length ks. rs ! i \<noteq> Inl RedisNil \<and> (\<forall>fvs. rs ! i = Inr fvs \<longrightarrow> distinct (map fst fvs) \<and>
        (length ks = 1 \<longrightarrow> demo_holds (server_ns demo_redis w) (ks ! i) s = (if fvs = [] then None else Some (RHash (map_of fvs))))))"
    by (simp add: p)
qed

lemma demo_hincrby_ok: "hincrby_law demo_redis demo_holds"
  unfolding hincrby_law_def
proof (intro allI impI)
  fix w k f d s s' r
  assume "rd_hincrby demo_redis w k f d s = (s', r)"
  then have p: "demo_hincrby w k f d s = (s', r)" by simp
  let ?cur = "demo_read (demo_ns w) k s"
  show "untouched demo_redis demo_holds w (if isl r then {} else {k}) s s' \<and>
     (\<forall>n. r = Inr n \<longrightarrow> - (2 ^ 63) \<le> n \<and> n < 2 ^ 63 \<and> (\<exists>h. finite (dom h) \<and>
        demo_holds (server_ns demo_redis w) k s = (if h = Map.empty then None else Some (RHash h)) \<and>
        n = hash_int h f + parse_int d \<and> (h f = None \<or> Option.bind (h f) parse_int64 \<noteq> None) \<and>
        (\<forall>t. server_ns demo_redis w \<le> t \<longrightarrow> demo_holds t k s' =
           (if h \<noteq> Map.empty \<and> demo_holds t k s = None then None else Some (RHash (h(f \<mapsto> format_int n)))))))"
  proof (cases r)
    case (Inl e)
    then have "s' = s" using p by (auto simp: demo_hincrby_def Let_def split: option.splits if_splits)
    with Inl show ?thesis by simp
  next
    case (Inr n)
    then obtain al old where al: "demo_hash ?cur = Some al"
      "(case map_of al f of None \<Rightarrow> Some 0 | Some v \<Rightarrow> parse_int64 v) = Some old" "n = old + parse_int d"
      "- (2 ^ 63) \<le> n" "n < 2 ^ 63"
      "s' = Mapping.update k (DHash (AList.update f (format_int n) al), if ?cur = None then None else Option.bind (Mapping.lookup s k) snd) s"
      using p by (auto simp: demo_hincrby_def Let_def split: option.splits if_splits)
    have old: "old = hash_int (map_of al) f" "map_of al f = None \<or> Option.bind (map_of al f) parse_int64 \<noteq> None"
      using al(2) by (auto simp: hash_int_def split: option.splits)
    have empty: "map_of al = Map.empty \<longleftrightarrow> al = []" by simp
    have cur: "?cur = None \<longleftrightarrow> al = []"
      using al(1) by (auto simp: demo_hash_def demo_read_def split: option.splits demo_value.splits if_splits)
    have later: "demo_holds t k s' = (if al \<noteq> [] \<and> demo_holds t k s = None then None
        else Some (RHash ((map_of al)(f \<mapsto> format_int n))))" if t: "demo_ns w \<le> t" for t
    proof -
      have v: "AList.update f (format_int n) al \<noteq> []" by (cases al) (auto split: if_splits)
      show ?thesis
      proof (cases "al = []")
        case True
        then show ?thesis using v cur by (simp add: al(6) demo_holds_def demo_read_upd demo_redis_value_def update_conv')
      next
        case False
        then obtain x e where se: "Mapping.lookup s k = Some (x, e)" using cur by (auto simp: demo_read_def split: option.splits)
        have x: "x = DHash al" using al(1) cur False se
          by (auto simp: demo_hash_def demo_read_def split: option.splits demo_value.splits if_splits)
        show ?thesis using v cur False se x
          by (simp add: al(6) demo_holds_def demo_read_upd demo_redis_value_def update_conv' demo_read_def split: option.splits if_splits)
      qed
    qed
    have "finite (dom (map_of al))" by (rule finite_dom_map_of)
    then show ?thesis
      using Inr al(3-5) old later demo_hash_read [OF al(1)] empty
      by (auto simp: untouched_def al(6) demo_holds_def demo_read_upd intro!: exI [of _ "map_of al"])
  qed
qed

lemma demo_documented: "redis_documented demo_redis demo_holds"
  by (simp add: redis_documented_def demo_clock demo_expiry demo_get_ok demo_set_ok demo_hincrby_ok demo_pexpire_ok
      demo_pipe_ok demo_run_ok)

end
