(* ===== verification/Resends.thy ===== *)
theory Resends
  imports Fleet
begin

text \<open>
  A fleet whose store is reached over a network. A client that gets no answer to a request may send it again,
  after a pause in which other replicas' calls run and the store's clock moves on, and a request that was
  given up may still reach the server later. So the store can execute a request of a replica any number of
  times more than the one execution whose answer the replica acts on: before it, while the replica waits to
  send again, and after the call has returned. Each such stray execution is a step of its own, at its own time,
  whose answer nobody reads.

  A stray \<^verbatim>\<open>Sync\<close> may carry any request at all, which includes every request a replica sent. A stray
  \<^verbatim>\<open>Decide\<close> repeats one that a replica began, with the decision it drew.
\<close>

subsection \<open>The network\<close>

record decide_call =
  dc_node :: nat
  dc_key :: bucket_key
  dc_policy :: policy_type
  dc_ttl :: int

text \<open>\<open>nw_decides\<close> is every call of \<^verbatim>\<open>Decide\<close> begun so far.\<close>

record ('r, 's, 'e) network =
  nw_fleet :: "('r, 's, 'e) fleet"
  nw_decides :: "decide_call list"

datatype 'w network_event =
  Member "'w fleet_event"
| StraySync 'w nat sync_request
| StrayDecide 'w nat

definition begun_decide :: "nat \<Rightarrow> ('r, 'e) node \<Rightarrow> decide_call list" where
  "begun_decide i n =
     (case nd_phase n of
        Deciding ns result choice \<Rightarrow>
          [\<lparr>dc_node = i, dc_key = (ns, sy_Bucket result), dc_policy = choice, dc_ttl = decisionTTL (d_cfg (nd_bandit n))\<rparr>]
      | _ \<Rightarrow> [])"

fun begun_by :: "'w fleet_event \<Rightarrow> ('r, 's, 'e) fleet \<Rightarrow> decide_call list" where
  "begun_by (ReadWindow i w now) st = begun_decide i (fl_nodes st i)"
| "begun_by _ st = []"

text \<open>An execution the store's clock would have to run backwards for does not happen.\<close>

definition execute_at ::
  "('w \<Rightarrow> int) \<Rightarrow> 'w \<Rightarrow> ('s \<Rightarrow> 's \<times> 'x) \<Rightarrow> ('r, 's, 'e) fleet \<Rightarrow> ('r, 's, 'e) fleet" where
  "execute_at clock w f st =
     (if clock w < fl_time st then st else st\<lparr>fl_time := clock w, fl_store := fst (f (fl_store st))\<rparr>)"

fun network_do ::
  "(nat \<Rightarrow> ('r, 's, 'w, 'e) dist_env) \<Rightarrow> ('w \<Rightarrow> int) \<Rightarrow> 'w network_event \<Rightarrow> ('r, 's, 'e) network \<Rightarrow> ('r, 's, 'e) network"
where
  "network_do E clock (Member ev) nw =
     (let st = fleet_do E clock ev (nw_fleet nw)
      in \<lparr>nw_fleet = st, nw_decides = nw_decides nw @ begun_by ev st\<rparr>)"
| "network_do E clock (StraySync w i req) nw =
     nw\<lparr>nw_fleet := execute_at clock w (so_sync (de_store (E i)) w req) (nw_fleet nw)\<rparr>"
| "network_do E clock (StrayDecide w n) nw =
     (if length (nw_decides nw) \<le> n then nw
      else let call = nw_decides nw ! n
           in nw\<lparr>nw_fleet := execute_at clock w
                (so_decide (de_store (E (dc_node call))) w (fst (dc_key call)) (snd (dc_key call)) (dc_policy call) (dc_ttl call))
                (nw_fleet nw)\<rparr>)"

definition network_run ::
  "(nat \<Rightarrow> ('r, 's, 'w, 'e) dist_env) \<Rightarrow> ('w \<Rightarrow> int) \<Rightarrow> 'w network_event list \<Rightarrow> ('r, 's, 'e) network \<Rightarrow> ('r, 's, 'e) network"
where
  "network_run E clock evs nw = fold (network_do E clock) evs nw"

definition new_network :: "int \<Rightarrow> 's \<Rightarrow> (nat \<Rightarrow> ('r, 'e) distributed) \<Rightarrow> ('r, 's, 'e) network" where
  "new_network t s ds = \<lparr>nw_fleet = new_fleet t s ds, nw_decides = []\<rparr>"

text \<open>Without stray executions it is the fleet of theory \<open>Fleet\<close>.\<close>

lemma network_members:
  "nw_fleet (network_run E clock (map Member evs) nw) = fleet_run E clock evs (nw_fleet nw)"
  by (induction evs arbitrary: nw) (simp_all add: network_run_def fleet_run_def Let_def)

subsection \<open>The decisions made stay the only ones\<close>

definition network_inv ::
  "int \<Rightarrow> ('s \<Rightarrow> bool) \<Rightarrow> (int \<Rightarrow> 's \<Rightarrow> store_view) \<Rightarrow> ('r, 's, 'e) network \<Rightarrow> (bucket_key \<rightharpoonup> policy_type) \<Rightarrow> bool"
where
  "network_inv ep good view nw D \<longleftrightarrow>
     fleet_inv ep good view (nw_fleet nw) D \<and> (\<forall>call \<in> set (nw_decides nw). D (dc_key call) = Some (dc_policy call))"

lemma fleet_phase: "fleet_inv ep good view st D \<Longrightarrow> phase_ok (led st) D i (nd_phase (fl_nodes st i))"
  unfolding fleet_inv_def by blast

lemma begun_made:
  assumes "fleet_inv ep good view st D" and "call \<in> set (begun_by ev st)"
  shows "D (dc_key call) = Some (dc_policy call)"
proof -
  obtain i w now where ev: "ev = ReadWindow i w now" using assms(2) by (cases ev) auto
  from fleet_phase [OF assms(1), of i] assms(2) show ?thesis
    by (auto simp: ev begun_decide_def phase_ok_def split: phase.splits)
qed

context coordination_store begin

text \<open>A stray execution changes the store only, and what the invariant asks of the store survives it.\<close>

lemma execute_inv:
  assumes fi: "fleet_inv ep inv view st D"
    and s': "inv (fst (f (fl_store st)))"
    and leaders: "\<And>t k. fl_time st \<le> time w \<Longrightarrow> time w \<le> t \<Longrightarrow> v_leaders (view t (fl_store st)) k \<noteq> None \<Longrightarrow>
      v_leaders (view t (fst (f (fl_store st)))) k \<noteq> None"
    and dec: "\<And>t. fl_time st \<le> time w \<Longrightarrow> time w \<le> t \<Longrightarrow> v_decisions (view t (fst (f (fl_store st)))) \<subseteq>\<^sub>m D"
  shows "fleet_inv ep inv view (execute_at time w f st) D"
proof (cases "time w < fl_time st")
  case False
  then have w: "fl_time st \<le> time w" by simp
  let ?n = "fl_nodes st 0" and ?s' = "fst (f (fl_store st))"
  have domD: "dom D \<subseteq> fst ` set (fl_led st)" using fi unfolding fleet_inv_def by blast
  have "(led st) = (\<lambda>k j. (k, j) \<in> set (fl_led st @ []))" by (simp add: led_def fun_eq_iff)
  with fleet_phase [OF fi, of 0] have ph: "phase_ok (\<lambda>k j. (k, j) \<in> set (fl_led st @ [])) D 0 (nd_phase ?n)" by simp
  have "fleet_inv ep inv view (put_node 0 \<lparr>nd_bandit = nd_bandit ?n, nd_phase = nd_phase ?n\<rparr>
      (st\<lparr>fl_time := time w, fl_store := ?s', fl_led := fl_led st @ []\<rparr>)) D"
    by (rule fleet_call [OF fi w s' _ leaders]) (use w dec domD ph in auto)
  moreover have "put_node 0 \<lparr>nd_bandit = nd_bandit ?n, nd_phase = nd_phase ?n\<rparr>
      (st\<lparr>fl_time := time w, fl_store := ?s', fl_led := fl_led st @ []\<rparr>) = execute_at time w f st"
    using False by (cases st) (simp add: put_node_def execute_at_def fun_upd_idem)
  ultimately show ?thesis by simp
qed (use fi in \<open>simp add: execute_at_def\<close>)

lemma network_do_inv:
  assumes fits: "epoch_fits ep" and E: "\<And>i. de_store (E i) = ops" and ni: "network_inv ep inv view nw D"
  shows "\<exists>D'. network_inv ep inv view (network_do E time ev nw) D'"
proof -
  let ?st = "nw_fleet nw" and ?s = "fl_store (nw_fleet nw)"
  have fi: "fleet_inv ep inv view ?st D" and made: "\<And>call. call \<in> set (nw_decides nw) \<Longrightarrow> D (dc_key call) = Some (dc_policy call)"
    using ni by (auto simp: network_inv_def)
  have good: "inv ?s" and dec: "\<And>t. fl_time ?st \<le> t \<Longrightarrow> v_decisions (view t ?s) \<subseteq>\<^sub>m D"
    using fi unfolding fleet_inv_def by blast+
  show ?thesis
  proof (cases ev)
    case (Member fe)
    let ?st' = "fleet_do E time fe ?st"
    from fleet_do_inv [where E = E and ev = fe, OF fits E fi] obtain D' where
      D': "D \<subseteq>\<^sub>m D'" "fleet_inv ep inv view ?st' D'" by blast
    have "D' (dc_key call) = Some (dc_policy call)" if "call \<in> set (nw_decides nw @ begun_by fe ?st')" for call
      using that map_le_SomeD [OF D'(1) made] begun_made [OF D'(2)] by auto
    with D'(2) show ?thesis by (auto simp: Member network_inv_def Let_def)
  next
    case (StraySync w i req)
    obtain s' r where so: "so_sync ops w req ?s = (s', r)" by (cases "so_sync ops w req ?s")
    have "fleet_inv ep inv view (execute_at time w (so_sync ops w req) ?st) D"
    proof (rule execute_inv [OF fi])
      show "inv (fst (so_sync ops w req ?s))" by (rule sync_keeps [OF good])
      show "v_leaders (view t (fst (so_sync ops w req ?s))) k \<noteq> None"
        if "time w \<le> t" "v_leaders (view t ?s) k \<noteq> None" for t k
        using sync_claims [OF good so that] so by simp
      show "v_decisions (view t (fst (so_sync ops w req ?s))) \<subseteq>\<^sub>m D" if "fl_time ?st \<le> time w" "time w \<le> t" for t
        using map_le_trans [OF sync_decisions [OF good so that(2)] dec] that so by simp
    qed
    with made show ?thesis by (auto simp: StraySync network_inv_def E)
  next
    case (StrayDecide w n)
    show ?thesis
    proof (cases "n < length (nw_decides nw)")
      case True
      let ?c = "nw_decides nw ! n"
      let ?f = "so_decide ops w (fst (dc_key ?c)) (snd (dc_key ?c)) (dc_policy ?c) (dc_ttl ?c)"
      obtain s' r where so: "?f ?s = (s', r)" by (cases "?f ?s")
      have D: "D (fst (dc_key ?c), snd (dc_key ?c)) = Some (dc_policy ?c)" using made [of ?c] True by simp
      have "fleet_inv ep inv view (execute_at time w ?f ?st) D"
      proof (rule execute_inv [OF fi])
        show "inv (fst (?f ?s))" by (rule decide_keeps_inv [OF good])
        show "v_leaders (view t (fst (?f ?s))) k \<noteq> None" if "time w \<le> t" "v_leaders (view t ?s) k \<noteq> None" for t k
          using decide_claims [OF good so that] so by simp
        show "v_decisions (view t (fst (?f ?s))) \<subseteq>\<^sub>m D" if "fl_time ?st \<le> time w" "time w \<le> t" for t
          using decided_within [OF good so that(2) dec D] that so by simp
      qed
      with made show ?thesis using True by (auto simp: StrayDecide network_inv_def E Let_def)
    qed (use ni in \<open>auto simp: StrayDecide\<close>)
  qed
qed

lemma network_run_inv:
  assumes "epoch_fits ep" and "\<And>i. de_store (E i) = ops" and "network_inv ep inv view nw D"
  shows "\<exists>D'. network_inv ep inv view (network_run E time evs nw) D'"
  using assms(3)
proof (induction evs arbitrary: nw D)
  case (Cons ev evs)
  from network_do_inv [where E = E and ev = ev, OF assms(1,2) Cons.prems] Cons.IH show ?case
    by (auto simp: network_run_def)
qed (auto simp: network_run_def)

text \<open>What an invariant state gives: one decision per bucket, and one leader.\<close>

lemma network_agrees:
  assumes "epoch_fits ep" and "\<And>i. de_store (E i) = ops" and "inv s" "0 \<le> t" "\<And>i. fleet_cfg ep (d_cfg (ds i))"
    and "\<And>t'. t \<le> t' \<Longrightarrow> v_decisions (view t' s) = Map.empty"
    and st: "st = nw_fleet (network_run E time evs (new_network t s ds))"
  shows "single_valued (snd ` set (fl_applied st)) \<and> distinct (map fst (fl_led st))"
proof -
  have "network_inv ep inv view (new_network t s ds) Map.empty"
    using new_fleet_inv [where ds = ds, OF assms(3-6)] by (simp add: network_inv_def new_network_def)
  from network_run_inv [where E = E and evs = evs, OF assms(1,2) this] obtain D
    where D: "fleet_inv ep inv view st D" by (auto simp: network_inv_def st)
  have "single_valued (snd ` set (fl_applied st))"
    using fleet_agrees [OF D] by (fastforce simp: single_valued_def)
  with D show ?thesis unfolding fleet_inv_def by blast
qed

end

end
