(* ===== verification/RedisTheorems.thy ===== *)
theory RedisTheorems
  imports RedisDemo BanditTheorems Resends
begin

text \<open>
  What a fleet over Redis promises, and the layout of what it stores. The theorems hold for every server
  and client that behave as documented (theory \<open>RedisLaws\<close>); their instances run on the small server of
  theory \<open>RedisDemo\<close>.
\<close>

definition demo_redis_store :: "(demo_server, demo_call, unit) redis_store" where
  "demo_redis_store = \<lparr>rs_client = demo_redis, rs_prefix = DefaultKeyPrefix\<rparr>"

lemma demo_store_sel [simp]: "rs_client demo_redis_store = demo_redis" "rs_prefix demo_redis_store = DefaultKeyPrefix"
  by (simp_all add: demo_redis_store_def)

definition demo_redis_env :: "(unit, demo_server, demo_call, unit redis_error) dist_env" where
  "demo_redis_env =
     \<lparr>de_store = redis_ops demo_redis_store, de_beta = (\<lambda>r a b. (r, 1 / 2)), de_pow = (\<lambda>x y. 1),
      de_visit = Mapping.ordered_keys\<rparr>"

definition redis_replica :: "string \<Rightarrow> (unit, unit redis_error) distributed" where
  "redis_replica node =
     \<lparr>d_cfg = demo_cfg node, d_local = NewThompson 1 (), d_selection = 0, d_rng = (),
      d_pending = Mapping.update (ArmKey LFU RoleShadow) \<lparr>Hits = 3, Misses = 1\<rparr> Mapping.empty,
      d_shape = Some demo_shape, d_namespace = ''f'', d_arms = {LRU, LFU},
      d_state = \<lparr>st_lastSync = None, st_lastBucket = 0, st_lastErr = None, st_syncs = 0, st_syncFailures = 0,
        st_leaderships = 0, st_decisions = 0, st_rejected = 0, st_fallback = False, st_fleet = Mapping.empty\<rparr>\<rparr>"

definition demo_request :: sync_request where
  "demo_request =
     \<lparr>sr_Namespace = ''f'', sr_NodeID = ''a'',
      sr_Counts = [\<lparr>ac_Policy = LFU, ac_Role = RoleShadow, ac_Hits = 3, ac_Misses = 1\<rparr>],
      sr_EpochMillis = 1000, sr_CounterTTL = 3000000000, sr_LeaderTTL = 2000000000, sr_Lead = True\<rparr>"

text \<open>
  The first request of replica 0 is executed, its answer is lost, and the client sends it again: bucket 1 is
  claimed and nobody leads it. Replica 0 leads bucket 2, its decision is executed once before the execution
  that is answered and once more when the bucket is long over, and replica 1 follows it.
\<close>

definition demo_redis_events :: "demo_call network_event list" where
  "demo_redis_events =
     [StraySync (1, 0) 0 demo_request, Member (Publish 0 (1, 8000) 0), Member (Apply 0 0),
      Member (Publish 0 (2, 100000) 0), Member (ReadWindow 0 (2, 110000) 0),
      StrayDecide (2, 115000) 0, Member (Decide 0 (2, 120000) 0),
      Member (Publish 1 (2, 500000) 0), Member (Apply 0 0), Member (Apply 1 0), StrayDecide (9, 0) 0]"

definition demo_redis_fleet :: "(unit, demo_server, unit redis_error) fleet" where
  "demo_redis_fleet = nw_fleet (network_run (\<lambda>_. demo_redis_env) demo_ns demo_redis_events
     (new_network 0 Mapping.empty (\<lambda>i. redis_replica (if i = 0 then ''a'' else ''b''))))"

subsection \<open>The layout\<close>

text \<open>C34: The name of a counter's field is read back: parsing what \<^verbatim>\<open>countField\<close> wrote returns the policy, the
  role and the kind it was written for, so two counters never share a field, whatever the policy's number;
  and every field the parser accepts has exactly three parts, a 64-bit number, a role and a kind.\<close>

theorem count_field_roundtrip:
  "parseCountField (countField p RoleShadow hits) = Some (p, RoleShadow, hits) \<and>
   parseCountField (countField p RoleActive hits) = Some (p, RoleActive, hits) \<and>
   (case parseCountField field of None \<Rightarrow> True
    | Some (q, r, h) \<Rightarrow> \<exists>n. field = n @ '':'' @ (if r = RoleActive then ''a'' else ''s'') @ '':'' @ (if h then ''h'' else ''m'') \<and>
        parse_uint n = Some (unat (policy_num q)))"
proof -
  have accepted: "\<exists>n. field = n @ '':'' @ (if r = RoleActive then ''a'' else ''s'') @ '':'' @ (if h then ''h'' else ''m'') \<and>
      parse_uint n = Some (unat (policy_num q))" if f: "parseCountField field = Some (q, r, h)" for q r h
  proof -
    from f obtain n rt kind where parts: "split_at (CHR '':'') field = [n, rt, kind]"
      by (auto simp: parseCountField_def split: list.splits)
    with f obtain m where m: "parse_uint n = Some m" "q = PolicyType (of_nat m)"
      "rt = (if r = RoleActive then ''a'' else ''s'')" "kind = (if h then ''h'' else ''m'')"
      by (auto simp: parseCountField_def bind_eq_Some_conv split: if_splits)
    have "m < 2 ^ 64" using m(1) by (auto simp: parse_uint_def split: if_splits)
    then have "unat (of_nat m :: 64 word) = m" by (simp add: unat_of_nat take_bit_eq_mod)
    moreover have "field = n @ '':'' @ rt @ '':'' @ kind" using parts by (rule split_three)
    ultimately show ?thesis using m by (intro exI [of _ n]) simp
  qed
  show ?thesis
  proof (intro conjI)
    show "case parseCountField field of None \<Rightarrow> True
      | Some (q, r, h) \<Rightarrow> \<exists>n. field = n @ '':'' @ (if r = RoleActive then ''a'' else ''s'') @ '':'' @ (if h then ''h'' else ''m'') \<and>
        parse_uint n = Some (unat (policy_num q))"
    proof (cases "parseCountField field")
      case (Some x)
      then show ?thesis using accepted by (cases x) (simp only: option.case prod.case)
    qed simp
  qed (simp_all add: count_field_read)
qed

subsection \<open>A fleet over Redis\<close>

text \<open>C6: A fleet over Redis agrees, whatever server and client it runs on as long as they behave as
  documented: in every interleaving of the replicas' calls, when calls fail with or without effect, and when
  requests are executed again at any later time, with the calls of others in between, because an answer was
  lost and the client sent them again, replicas that act on a decision for the same bucket of the same
  namespace run the same policy, and no bucket has two leaders. The fleet follows leaders, all its replicas have one
  coordination epoch of at least a millisecond and less than 146 years, and the server holds no decision when it starts.\<close>

theorem redis_fleet_agrees:
  assumes "redis_documented (rs_client rs) holds" and "epoch_fits ep" and "\<And>i. fleet_cfg ep (d_cfg (ds i))"
    and "\<And>i. de_store (E i) = redis_ops rs" and "0 \<le> t"
    and "\<And>t' k. t \<le> t' \<Longrightarrow> holds t' (decision_key rs k) s = None"
    and "st = nw_fleet (network_run E (server_ns (rs_client rs)) evs (new_network t s ds))"
  shows "single_valued (snd ` set (fl_applied st)) \<and> distinct (map fst (fl_led st))"
proof -
  have "v_decisions (redis_view rs holds t' s) = Map.empty" if "t \<le> t'" for t'
    using assms(6) [OF that] by (simp add: redis_view_def fun_eq_iff)
  with coordination_store.network_agrees [OF redis_coordinates [OF assms(1)], where E = E and ds = ds and evs = evs]
  show ?thesis using assms(2-5,7) by blast
qed

lemma redis_fleet_agrees_witness:
  "single_valued (snd ` set (fl_applied demo_redis_fleet)) \<and> distinct (map fst (fl_led demo_redis_fleet))"
proof -
  have env: "de_store demo_redis_env = redis_ops demo_redis_store" by (simp add: demo_redis_env_def)
  have cfg: "fleet_cfg 1000000000 (d_cfg (redis_replica node))" for node
    by (simp add: fleet_cfg_def redis_replica_def demo_cfg_def)
  have "demo_holds t' (decision_key demo_redis_store k) Mapping.empty = None" for t' k
    by (simp add: demo_holds_def demo_read_def)
  moreover have "server_ns (rs_client demo_redis_store) = demo_ns" by (rule ext) simp
  ultimately show ?thesis
    using redis_fleet_agrees [of demo_redis_store demo_holds 1000000000 "\<lambda>i. redis_replica (if i = 0 then ''a'' else ''b'')"
        "\<lambda>_. demo_redis_env" 0 Mapping.empty demo_redis_fleet demo_redis_events] demo_documented demo_epoch env cfg
    by (simp add: demo_redis_fleet_def)
qed

subsection \<open>Counts\<close>

text \<open>C17: Counts reach the fleet: after an answered sync, a window over its bucket, read before the counters
  expire, reports for every arm and role what the bucket held when the answered execution began plus the sum of
  what was published, whatever else the hash holds and in whatever order its fields are visited. (An earlier
  execution of the same request, whose answer was lost, is part of what the bucket held: such counts are added
  once more.)\<close>

theorem redis_counts_pooled:
  assumes "redis_documented (rs_client rs) holds" and "some_count (sr_Counts req)"
    and "\<forall>c \<in> set (sr_Counts req). ac_Role c \<in> {RoleShadow, RoleActive}"
    and sync: "redis_sync rs w req s = (s', Inr res)"
    and w': "server_ns (rs_client rs) w \<le> server_ns (rs_client rs) w'"
      "unix_milli (server_ns (rs_client rs) w') < unix_milli (server_ns (rs_client rs) w) + millis (sr_CounterTTL req)"
    and window: "redis_window rs w' (sr_Namespace req) (sy_Bucket res) (sy_Bucket res) s' = (s'', Inr ws)"
  shows "window_stats ws a = add_stats
    (bucket_stats holds (server_ns (rs_client rs) w) (countsKey (rs_prefix rs) (sr_Namespace req) (sy_Bucket res)) s a)
    (sum_stats (map count_stats (filter (\<lambda>c. count_key c = a) (sr_Counts req))))"
proof -
  let ?k = "sync_key (server_ns (rs_client rs) w) req"
  have k: "?k = (sr_Namespace req, sy_Bucket res)"
    using redis_sync_cases(2) [OF assms(1) sync refl refl] by (simp add: sync_key_def)
  obtain x where x: "sync_script (rs_client rs) w (sync_args (rs_prefix rs) req) s = (s', Inr x)"
    using sync by (auto simp: redis_sync_def split: prod.splits sum.splits elim!: run_cases [OF assms(1)])
  from sync_adds [OF assms(1) refl refl assms(2,3) x w'] window_reads [OF assms(1) window]
  show ?thesis by (simp add: k countsKey_name)
qed

definition demo_synced :: demo_server where
  "demo_synced = fst (redis_sync demo_redis_store (1, 0) demo_request Mapping.empty)"

lemma demo_sync_result:
  "snd (redis_sync demo_redis_store (1, 0) demo_request Mapping.empty) =
    Inr \<lparr>sy_Bucket = 1, sy_Leader = True, sy_Decision = Undefined, sy_HasDecision = False\<rparr>"
  by code_simp

lemma demo_window_result:
  "\<not> isl (snd (redis_window demo_redis_store (2, 0) ''f'' 1 1 demo_synced))"
  by code_simp

lemma redis_counts_pooled_witness:
  "\<exists>ws. snd (redis_window demo_redis_store (2, 0) ''f'' 1 1 demo_synced) = Inr ws \<and>
    window_stats ws (ArmKey LFU RoleShadow) = \<lparr>Hits = 3, Misses = 1\<rparr>"
proof -
  let ?res = "\<lparr>sy_Bucket = 1, sy_Leader = True, sy_Decision = Undefined, sy_HasDecision = False\<rparr>"
  have sync: "redis_sync demo_redis_store (1, 0) demo_request Mapping.empty = (demo_synced, Inr ?res)"
    using demo_sync_result by (simp add: demo_synced_def prod_eq_iff)
  obtain ws where ws: "snd (redis_window demo_redis_store (2, 0) ''f'' 1 1 demo_synced) = Inr ws"
    using demo_window_result by (cases "snd (redis_window demo_redis_store (2, 0) ''f'' 1 1 demo_synced)") auto
  then have window: "redis_window demo_redis_store (2, 0) (sr_Namespace demo_request) (sy_Bucket ?res) (sy_Bucket ?res) demo_synced =
      (fst (redis_window demo_redis_store (2, 0) ''f'' 1 1 demo_synced), Inr ws)"
    by (simp add: demo_request_def prod_eq_iff)
  have t: "demo_ns (1, 0) = 1000000000" "demo_ns (2, 0) = 2000000000" by code_simp+
  have "window_stats ws (ArmKey LFU RoleShadow) = add_stats
      (bucket_stats demo_holds (demo_ns (1, 0)) (countsKey DefaultKeyPrefix ''f'' 1) Mapping.empty (ArmKey LFU RoleShadow))
      (sum_stats (map count_stats (filter (\<lambda>c. count_key c = ArmKey LFU RoleShadow) (sr_Counts demo_request))))"
    using redis_counts_pooled [of demo_redis_store demo_holds demo_request "(1, 0)" Mapping.empty demo_synced ?res "(2, 0)"
        _ ws "ArmKey LFU RoleShadow", OF _ _ _ sync _ _ window] demo_documented
    by (simp add: demo_request_def some_count_def t unix_milli_def millis_def Let_def sdiv_nonneg)
  also have "\<dots> = \<lparr>Hits = 3, Misses = 1\<rparr>"
    by (simp add: bucket_stats_def demo_holds_def demo_read_def demo_request_def count_key_def count_stats_def add_stats_def)
  finally show ?thesis using ws by blast
qed

end
