(* ===== verification/AdviceReports.thy ===== *)
theory AdviceReports
  imports Epoch PolicyNames "HOL-Library.Multiset"
begin

text \<open>
  \<^verbatim>\<open>src/advice.go\<close>: what the cache has learned about its arms. The reports are collected by ranging
  over a map, in an order \<open>order\<close> Go does not specify, and sorted by a stable sort.
\<close>

record policy_report =
  pr_Policy :: policy_type
  pr_Hits :: int
  pr_Misses :: int
  pr_Active :: bool

definition report_hit_rate :: "policy_report \<Rightarrow> float64" where
  "report_hit_rate r =
     (let total = pr_Hits r + pr_Misses r in
      if total = 0 then 0 else f64_div (f64_of_int (pr_Hits r)) (f64_of_int total))"

record advice =
  av_Epochs :: int
  av_Active :: policy_type
  av_Best :: policy_type
  av_Improvement :: float64
  av_Sampled :: bool
  av_SampleRate :: float64
  av_Reports :: "policy_report list"

text \<open>The comparison handed to \<^verbatim>\<open>sort.SliceStable\<close>, and a stable sort by it.\<close>

definition report_less :: "policy_report \<Rightarrow> policy_report \<Rightarrow> bool" where
  "report_less left right =
     (if report_hit_rate left \<noteq> report_hit_rate right then report_hit_rate left > report_hit_rate right
      else pr_Policy left < pr_Policy right)"

fun stable_insert :: "('a \<Rightarrow> 'a \<Rightarrow> bool) \<Rightarrow> 'a \<Rightarrow> 'a list \<Rightarrow> 'a list" where
  "stable_insert before x [] = [x]"
| "stable_insert before x (y # ys) = (if before y x then y # stable_insert before x ys else x # y # ys)"

definition stable_sort :: "('a \<Rightarrow> 'a \<Rightarrow> bool) \<Rightarrow> 'a list \<Rightarrow> 'a list" where
  "stable_sort before xs = foldr (stable_insert before) xs []"

definition collect_report :: "('p, 'k, 'b) cache \<Rightarrow> policy_type \<Rightarrow> policy_report" where
  "collect_report c policyType =
     (let stats = map_stats (tenureStats c) policyType
      in \<lparr>pr_Policy = policyType, pr_Hits = Hits stats, pr_Misses = Misses stats,
          pr_Active = (policyType = activePolicy c)\<rparr>)"

definition Advice :: "policy_type list \<Rightarrow> ('p, 'k, 'b) cache \<Rightarrow> advice" where
  "Advice order c =
     (let reports = stable_sort report_less (map (collect_report c) order);
          advice = \<lparr>av_Epochs = reportingEpochs c, av_Active = activePolicy c, av_Best = activePolicy c,
            av_Improvement = 0, av_Sampled = sampling (sampler c), av_SampleRate = rate (sampler c),
            av_Reports = reports\<rparr>
      in case reports of
           [] \<Rightarrow> advice
         | best # _ \<Rightarrow>
             let advice = advice\<lparr>av_Best := pr_Policy best\<rparr>
             in case find pr_Active reports of
                  None \<Rightarrow> advice
                | Some r \<Rightarrow> advice\<lparr>av_Improvement := f64_sub (report_hit_rate best) (report_hit_rate r)\<rparr>)"

text \<open>
  \<^verbatim>\<open>Advice.String\<close>. A \<^verbatim>\<open>String\<close> method that panics inside \<^verbatim>\<open>fmt\<close> does not escape: \<^verbatim>\<open>fmt\<close> clears the padding
  and prints the panic in its place.
\<close>

definition sprint_policy :: "(string \<Rightarrow> string) \<Rightarrow> policy_type \<Rightarrow> string" where
  "sprint_policy pad p =
     (case policy_string p of
        Some s \<Rightarrow> pad s
      | None \<Rightarrow> ''%!s(PANIC=String method: runtime error: index out of range ['' @
          format_int (sint (policy_num p)) @ ''])'')"

definition report_line :: "policy_report \<Rightarrow> string" where
  "report_line r =
     (let marker = (if pr_Active r then ''*'' else '' '') in
      marker @ sprint_policy (left_in 9) (pr_Policy r) @ '' '' @
      right_in 8 (format_fixed 2 (f64_mul (report_hit_rate r) 100)) @ ''% '' @
      right_in 12 (format_int (pr_Hits r)) @ '' '' @ right_in 12 (format_int (pr_Misses r)) @ new_line)"

definition advice_string :: "advice \<Rightarrow> string" where
  "advice_string a =
     (if length (av_Reports a) = 0 then ''no measurements yet''
      else
        (if av_Best a = av_Active a \<or> av_Improvement a \<le> 0
         then sprint_policy id (av_Active a) @ '' is the best of the '' @ format_int (int (length (av_Reports a))) @
           '' policies measured over '' @ format_int (av_Epochs a) @ '' epochs.'' @ new_line
         else ''On this traffic '' @ sprint_policy id (av_Best a) @ '' beats '' @ sprint_policy id (av_Active a) @
           '' by '' @ format_fixed 2 (f64_mul (av_Improvement a) 100) @ '' points of hit rate, over '' @
           format_int (av_Epochs a) @ '' epochs.'' @ new_line) @
        (if av_Sampled a
         then ''Rates are estimated from '' @ format_fixed 1 (f64_mul (av_SampleRate a) 100) @ ''% of the keyspace.'' @
           new_line
         else '''') @
        new_line @ left_in 10 ''policy'' @ '' '' @ right_in 9 ''hit rate'' @ '' '' @ right_in 12 ''hits'' @ '' '' @
        right_in 12 ''misses'' @ new_line @
        concat (map report_line (av_Reports a)) @ new_line @ ''* currently active'' @ new_line)"

subsection \<open>Sorting\<close>

lemma mset_stable_insert: "mset (stable_insert before x ys) = add_mset x (mset ys)"
  by (induction ys) auto

lemma mset_stable_sort [simp]: "mset (stable_sort before xs) = mset xs"
  by (induction xs) (simp_all add: stable_sort_def mset_stable_insert)

lemma set_stable_sort [simp]: "set (stable_sort before xs) = set xs"
  by (metis mset_stable_sort set_mset_mset)

text \<open>A list sorted by a strict total order is determined by its elements.\<close>

lemma stable_insert_sorted:
  assumes "transp before" and "\<And>y. y \<in> set ys \<Longrightarrow> y \<noteq> x \<Longrightarrow> before x y \<or> before y x" and "x \<notin> set ys"
    and "sorted_wrt before ys"
  shows "sorted_wrt before (stable_insert before x ys)"
  using assms(2-4)
proof (induction ys)
  case (Cons y ys)
  have set: "set (stable_insert before x ys) = insert x (set ys)"
    by (metis mset_stable_insert set_mset_add_mset_insert set_mset_mset)
  show ?case
  proof (cases "before y x")
    case True
    with Cons set show ?thesis by auto
  next
    case False
    with Cons.prems have xy: "before x y" by auto
    then have "\<forall>z \<in> set ys. before x z" using Cons.prems(3) assms(1) by (auto elim: transpE)
    with False xy Cons.prems(3) show ?thesis by simp
  qed
qed simp

lemma stable_sort_sorted:
  assumes "transp before" and "\<And>x y. x \<in> set xs \<Longrightarrow> y \<in> set xs \<Longrightarrow> x \<noteq> y \<Longrightarrow> before x y \<or> before y x"
    and "distinct xs"
  shows "sorted_wrt before (stable_sort before xs)"
  using assms(2,3)
proof (induction xs)
  case (Cons x xs)
  have s: "stable_sort before (x # xs) = stable_insert before x (stable_sort before xs)" by (simp add: stable_sort_def)
  show ?case unfolding s
    by (rule stable_insert_sorted [OF assms(1)]) (use Cons in \<open>auto\<close>)
qed (simp add: stable_sort_def)

lemma sorted_wrt_unique:
  assumes "transp before" "irreflp before" and "sorted_wrt before xs" "sorted_wrt before ys" and "set xs = set ys"
  shows "xs = ys"
  using assms(3-5)
proof (induction xs arbitrary: ys)
  case Nil
  then show ?case by simp
next
  case (Cons x xs)
  then obtain y zs where ys: "ys = y # zs" by (cases ys) auto
  have neq: "\<not> before a a" for a using assms(2) by (auto dest: irreflpD)
  have "x = y"
  proof (rule ccontr)
    assume "x \<noteq> y"
    with Cons.prems ys have "y \<in> set xs" "x \<in> set zs" by auto
    with Cons.prems ys have "before x y" "before y x" by auto
    with assms(1) neq show False by (metis transpE)
  qed
  moreover have "x \<notin> set xs" "y \<notin> set zs" using Cons.prems(1,2) ys neq by auto
  ultimately have "set xs = set zs" using Cons.prems(3) ys by auto
  with Cons ys \<open>x = y\<close> show ?case by auto
qed

lemma report_less_order: "transp report_less" "irreflp report_less"
  by (rule transpI, auto simp: report_less_def split: if_splits) (auto intro!: irreflpI simp: report_less_def)

lemma report_less_total: "pr_Policy a \<noteq> pr_Policy b \<Longrightarrow> report_less a b \<or> report_less b a"
  by (auto simp: report_less_def)

subsection \<open>The reports of an advice\<close>

lemma collect_report_sel [simp]: "pr_Policy (collect_report c p) = p" "pr_Active (collect_report c p) \<longleftrightarrow> p = activePolicy c"
  by (simp_all add: collect_report_def Let_def)

lemma collect_inj: "inj (collect_report c)"
  by (rule injI) (metis collect_report_sel(1))

lemma advice_reports: "av_Reports (Advice order c) = stable_sort report_less (map (collect_report c) order)"
  by (simp add: Advice_def Let_def split: list.splits option.splits)

lemma advice_sorted:
  assumes "distinct order"
  shows "sorted_wrt report_less (av_Reports (Advice order c))"
  unfolding advice_reports
proof (rule stable_sort_sorted [OF report_less_order(1)])
  show "distinct (map (collect_report c) order)"
    using assms by (simp add: distinct_map inj_on_subset [OF collect_inj])
  show "report_less x y \<or> report_less y x"
    if xy: "x \<in> set (map (collect_report c) order)" "y \<in> set (map (collect_report c) order)" "x \<noteq> y" for x y
  proof -
    from xy have "pr_Policy x \<noteq> pr_Policy y" by auto
    then show ?thesis by (rule report_less_total)
  qed
qed

lemma advice_reports_any_order:
  assumes "distinct order" "distinct order'" "set order = set order'"
  shows "av_Reports (Advice order c) = av_Reports (Advice order' c)"
  by (rule sorted_wrt_unique [OF report_less_order advice_sorted advice_sorted])
    (use assms in \<open>simp_all add: advice_reports\<close>)

text \<open>An advice is determined by its sorted reports.\<close>

lemma advice_any_order_eq:
  assumes "distinct order" "distinct order'" "set order = set order'"
  shows "Advice order c = Advice order' c"
  using advice_reports_any_order [OF assms, of c] unfolding advice_reports by (simp add: Advice_def)

lemma advice_best_report:
  assumes "av_Reports (Advice order c) = best # rest"
  shows "av_Best (Advice order c) = pr_Policy best"
    and "av_Improvement (Advice order c) = (case find pr_Active (best # rest) of None \<Rightarrow> 0
      | Some r \<Rightarrow> f64_sub (report_hit_rate best) (report_hit_rate r))"
  using assms unfolding advice_reports by (auto simp: Advice_def Let_def split: option.splits)

lemma report_less_rate: "report_less a b \<Longrightarrow> report_hit_rate b \<le> report_hit_rate a"
  by (auto simp: report_less_def split: if_splits)

text \<open>The active policy's report, where it has one.\<close>

lemma find_report:
  assumes "set (best # rest) = collect_report c ` set order"
  shows "find pr_Active (best # rest) =
    (if activePolicy c \<in> set order then Some (collect_report c (activePolicy c)) else None)"
proof (cases "find pr_Active (best # rest)")
  case None
  then have "\<not> pr_Active x" if "x \<in> set (best # rest)" for x using that unfolding find_None_iff by blast
  then have "activePolicy c \<notin> set order" unfolding assms by force
  with None show ?thesis by simp
next
  case (Some x)
  then have "x \<in> set (best # rest)" "pr_Active x"
    by (force simp: find_Some_iff in_set_conv_nth simp del: find.simps set_simps)+
  then show ?thesis unfolding assms using Some by auto
qed

end
