(* ===== verification/AdviceTheorems.thy ===== *)
theory AdviceTheorems
  imports AdviceReports Arms
begin

text \<open>
  What \<^verbatim>\<open>Advice\<close> reports of a cache: the same answer whatever order Go's map iteration takes, and a best
  policy that really has the highest measured rate.
\<close>

text \<open>Advice is deterministic: whatever order the map of statistics is ranged over in, the same cache
  gives the same advice.\<close>

theorem advice_any_order:
  assumes "distinct order" and "distinct order'" and "set order = dom (tenureStats c)"
    and "set order' = dom (tenureStats c)"
  shows "Advice order c = Advice order' c"
  by (rule advice_any_order_eq) (simp_all add: assms)

definition advised :: "((int, int) arm, int, unit) cache" where
  "advised = (demo_cache MigrationCold)
     \<lparr>tenureStats := [LFU \<mapsto> \<lparr>Hits = 3, Misses = 1\<rparr>, LRU \<mapsto> \<lparr>Hits = 1, Misses = 1\<rparr>, ARC \<mapsto> \<lparr>Hits = 3, Misses = 1\<rparr>],
      activePolicy := LRU\<rparr>"

lemma advised_dom: "dom (tenureStats advised) = {LFU, LRU, ARC}"
  by (auto simp: advised_def)

lemma advice_any_order_witness: "Advice [LFU, LRU, ARC] advised = Advice [ARC, LFU, LRU] advised"
  by (rule advice_any_order) (auto simp: advised_dom names)

text \<open>C33: The policy advised has the highest hit rate of those with measurements, and no policy of a
  smaller number has the same; without any measurement it is the active one. \<^verbatim>\<open>Improvement\<close> is its advantage over
  the active policy, never negative, when the active policy has measurements of its own, and zero otherwise,
  as after a switch, which drops those of both policies that change role, until the next epoch that reports.\<close>

theorem advice_names_best:
  assumes "distinct order" and "set order = dom (tenureStats c)"
  shows "(if tenureStats c = Map.empty then av_Best (Advice order c) = activePolicy c
      else av_Best (Advice order c) \<in> dom (tenureStats c) \<and>
        (\<forall>p \<in> dom (tenureStats c).
          report_hit_rate (collect_report c p) \<le> report_hit_rate (collect_report c (av_Best (Advice order c))) \<and>
          (report_hit_rate (collect_report c p) = report_hit_rate (collect_report c (av_Best (Advice order c))) \<longrightarrow>
            av_Best (Advice order c) \<le> p))) \<and>
    av_Improvement (Advice order c) = (if activePolicy c \<in> dom (tenureStats c)
      then f64_sub (report_hit_rate (collect_report c (av_Best (Advice order c))))
        (report_hit_rate (collect_report c (activePolicy c)))
      else 0) \<and>
    0 \<le> av_Improvement (Advice order c)"
proof (cases "order = []")
  case True
  then have "dom (tenureStats c) = {}" using assms(2) by simp
  then have "tenureStats c = Map.empty" by simp
  with True show ?thesis by (simp add: Advice_def stable_sort_def)
next
  case False
  have set: "set (av_Reports (Advice order c)) = collect_report c ` set order" by (simp add: advice_reports)
  with False obtain best rest where r: "av_Reports (Advice order c) = best # rest"
    by (cases "av_Reports (Advice order c)") auto
  note best = advice_best_report [OF r]
  from set r obtain b where b: "b \<in> set order" "best = collect_report c b" by auto
  have some: "tenureStats c \<noteq> Map.empty" using b(1) assms(2) by auto
  have all: "q = b \<or> report_less best (collect_report c q)" if "q \<in> set order" for q
  proof -
    have "collect_report c q \<in> set (best # rest)" using set r that by auto
    moreover have "\<forall>x \<in> set rest. report_less best x" using advice_sorted [OF assms(1), of c] r by simp
    ultimately show ?thesis using b(2) injD [OF collect_inj] by auto
  qed
  have less: "report_hit_rate (collect_report c q) \<le> report_hit_rate best" if "q \<in> set order" for q
    using all [OF that] b report_less_rate by auto
  have first: "report_hit_rate (collect_report c q) = report_hit_rate best \<longrightarrow> b \<le> q" if "q \<in> set order" for q
    using all [OF that] b by (auto simp: report_less_def)
  have active: "find pr_Active (best # rest) =
      (if activePolicy c \<in> set order then Some (collect_report c (activePolicy c)) else None)"
    using find_report [of best rest c order] set r by simp
  have gain: "0 \<le> f64_sub (report_hit_rate best) (report_hit_rate (collect_report c q))" if "q \<in> set order" for q
    using less [OF that] by (simp add: f64_sub_def rnd_nonneg)
  show ?thesis
    using best(2) less first gain active by (auto simp: best(1) b some simp flip: assms(2))
qed

lemma advice_names_best_witness:
  "av_Best (Advice [LRU, LFU, ARC] advised) = LFU \<and> report_hit_rate (collect_report advised ARC) \<le> 3 / 4"
proof
  show best: "av_Best (Advice [LRU, LFU, ARC] advised) = LFU" by code_simp
  have rate: "report_hit_rate (collect_report advised LFU) = 3 / 4" by code_simp
  have "set [LRU, LFU, ARC] = dom (tenureStats advised)" unfolding advised_dom by auto
  note named = advice_names_best [OF _ this]
  have "tenureStats advised \<noteq> Map.empty" "ARC \<in> dom (tenureStats advised)" "distinct [LRU, LFU, ARC]"
    by (simp_all add: advised_def names)
  with named rate best show "report_hit_rate (collect_report advised ARC) \<le> 3 / 4" by force
qed

end
