(* ===== verification/Accounting.thy ===== *)
theory Accounting
  imports Requests
begin

text \<open>
  What the requests leave alone and what they count: every data-plane handler keeps the control state
  of the cache (who is active, the epoch clock, the reported statistics), and the statistics the cache
  shows its caller move by exactly the outcome of each lookup.
\<close>

subsection \<open>The control state\<close>

definition control ::
  "('p, 'k, 'b) cache \<Rightarrow> policy_type \<times> int \<times> int \<times> int \<times> int \<times> policy_stats \<times> cache_settings \<times>
    'b held_bandit \<times> (policy_type \<rightharpoonup> policy_stats) \<times> (policy_type \<rightharpoonup> policy_stats)" where
  "control c = (activePolicy c, epochID c, lastSwitchEpoch c, epochRequests c, reportingEpochs c,
     globalStats c, settings c, bandit c, epochStats c, tenureStats c)"

lemma controlD:
  assumes "control c' = control c"
  shows "activePolicy c' = activePolicy c" "epochID c' = epochID c" "lastSwitchEpoch c' = lastSwitchEpoch c"
    "epochRequests c' = epochRequests c" "globalStats c' = globalStats c" "settings c' = settings c"
    "bandit c' = bandit c" "epochStats c' = epochStats c" "tenureStats c' = tenureStats c"
    "reportingEpochs c' = reportingEpochs c"
  using assms by (simp_all add: control_def)

lemma control_frames [simp]:
  "control (put_policy pt p c) = control c"
  "control (for_shadows e f c) = control c"
  "control (c\<lparr>policies := ps\<rparr>) = control c"
  "control (c\<lparr>migrating := m\<rparr>) = control c"
  "control (c\<lparr>migrateFrom := pt\<rparr>) = control c"
  "control (c\<lparr>migrationKeys := ks\<rparr>) = control c"
  "control (c\<lparr>migrationRealKeys := rs\<rparr>) = control c"
  "control (c\<lparr>nominalCap := ncs\<rparr>) = control c"
  "control (c\<lparr>shadowCap := ncs\<rparr>) = control c"
  "control (clearMigrationState c) = control c"
  "control (recordActiveSample smp hit c) = control c"
  by (simp_all add: control_def put_policy_def for_shadows_def clearMigrationState_def recordActiveSample_def)

lemma control_demote [simp]: "control (demoteLocked e pt c) = control c"
  by (simp add: demoteLocked_def split: option.split)

lemma control_close [simp]: "control (closeMigrationLocked e c) = control c"
  by (simp add: closeMigrationLocked_def Let_def)

lemma control_promote_capacity [simp]: "control (promoteLockedCapacity e pt c) = control c"
  by (simp add: promoteLockedCapacity_def Let_def split: option.split)

lemma control_active_add: "active_add e k v c = Some (c', ev) \<Longrightarrow> control c' = control c"
  by (auto simp: active_add_def bind_eq_Some_conv split_beta)

lemma control_active_get: "active_get e k c = Some (c', r) \<Longrightarrow> control c' = control c"
  by (auto simp: active_get_def bind_eq_Some_conv split_beta)

lemma control_drain_loop: "drain_loop e ks c = Some c' \<Longrightarrow> control c' = control c"
proof (induction ks arbitrary: c)
  case (Cons key rest)
  then show ?case
    by (auto simp: Let_def bind_eq_Some_conv split: if_splits option.splits dest!: Cons.IH control_active_add)
qed auto

lemma control_drain: "drainOneKey e c = Some c' \<Longrightarrow> control c' = control c"
  unfolding drainOneKey_def by (rule control_drain_loop)

lemma control_promote: "promoteLocked e key c = Some c' \<Longrightarrow> control c' = control c"
  by (auto simp: promoteLocked_def bind_eq_Some_conv split: if_splits option.splits dest!: control_active_add)

lemma control_get_key: "get_key e key c = Some (c', r) \<Longrightarrow> control c' = control c"
  by (auto simp: get_key_def get_read_locked_def get_write_locked_def bind_eq_Some_conv Let_def
      split: if_splits dest!: control_active_get control_promote)

lemma control_Add: "Add e key v c = Some (c', ev) \<Longrightarrow> control c' = control c"
  by (auto simp: Add_def bind_eq_Some_conv Let_def split: if_splits dest!: control_active_add control_drain)

lemma control_Remove: "Remove e key c = Some (c', present) \<Longrightarrow> control c' = control c"
  by (auto simp: Remove_def bind_eq_Some_conv Let_def split_beta split: if_splits)

lemma control_Purge [simp]: "control (Purge e c) = control c"
  by (simp add: Purge_def)

lemma control_Resize [simp]: "control (fst (Resize e sz c)) = control c"
  by (simp add: Resize_def Let_def control_def)

lemmas control_keeps = control_Add control_Remove control_get_key

subsection \<open>What is counted\<close>

text \<open>The counters of the active policy, and the statistics \<^verbatim>\<open>Stats\<close> shows.\<close>

definition active_counts :: "('p, 'k, 'v, 'b) env \<Rightarrow> ('p, 'k, 'b) cache \<Rightarrow> policy_stats" where
  "active_counts e c =
     (case policies c (activePolicy c) of None \<Rightarrow> zero_stats | Some p \<Rightarrow> op_get_stats (policy_iface e) p)"

definition shown :: "('p, 'k, 'v, 'b) env \<Rightarrow> ('p, 'k, 'b) cache \<Rightarrow> policy_stats" where
  "shown e c = add_stats (globalStats c) (active_counts e c)"

lemma Stats_shown: "policies c (activePolicy c) \<noteq> None \<Longrightarrow> Stats e c = Some (shown e c)"
  by (auto simp: Stats_def shown_def active_counts_def add_stats_def Let_def)

lemma map_entries_at: "map_entries f m k = map_option (f k) (m k)"
  by (simp add: map_entries_def)

definition steady :: "('p, 'k, 'b) cache \<Rightarrow> ('p, 'k, 'b) cache \<Rightarrow> bool" where
  "steady c c' \<longleftrightarrow> control c' = control c \<and>
     (migrating c' \<longrightarrow> migrating c \<and> migrateFrom c' = migrateFrom c)"

lemma steady_trans [trans]: "steady c d \<Longrightarrow> steady d f \<Longrightarrow> steady c f"
  by (simp add: steady_def)

context adaptive_cache begin

definition active_good :: "('p, 'k, 'b) cache \<Rightarrow> bool" where
  "active_good c \<longleftrightarrow>
     (\<exists>p. policies c (activePolicy c) = Some p \<and> inv p \<and> op_get_type (policy_iface e) p = activePolicy c)"

text \<open>A step that counts nothing, opens no window and leaves the control state alone.\<close>

definition quiet :: "('p, 'k, 'b) cache \<Rightarrow> ('p, 'k, 'b) cache \<Rightarrow> bool" where
  "quiet c c' \<longleftrightarrow> steady c c' \<and>
     (active_good c \<longrightarrow> active_good c' \<and> active_counts e c' = active_counts e c)"

lemma ok_active_good: "ok \<sigma> c \<Longrightarrow> active_good c"
  using cache_invD(1) [of e inv content \<sigma> c] unfolding active_good_def by blast

lemma quiet_refl [simp]: "quiet c c"
  by (simp add: quiet_def steady_def)

lemma quiet_trans [trans]: "quiet c d \<Longrightarrow> quiet d f \<Longrightarrow> quiet c f"
  by (auto simp: quiet_def intro: steady_trans)

lemma quiet_shown: "quiet c c' \<Longrightarrow> active_good c \<Longrightarrow> shown e c' = shown e c \<and> active_good c'"
  by (auto simp: quiet_def steady_def shown_def dest: controlD)

lemma quiet_steady: "quiet c c' \<Longrightarrow> steady c c'"
  by (simp add: quiet_def)

lemma quiet_fields:
  "quiet c (c\<lparr>migrating := False\<rparr>)" "quiet c (c\<lparr>migrationKeys := ks\<rparr>)" "quiet c (c\<lparr>migrationRealKeys := rs\<rparr>)"
  "quiet c (clearMigrationState c)" "quiet c (recordActiveSample smp hit c)"
  by (simp_all add: quiet_def steady_def active_good_def active_counts_def clearMigrationState_def record_sample_fields)
    (simp add: recordActiveSample_def)

lemma quiet_put_other: "pt \<noteq> activePolicy c \<Longrightarrow> quiet c (put_policy pt p c)"
  by (simp add: quiet_def steady_def active_good_def active_counts_def)

lemma quiet_put_active:
  assumes "policies c (activePolicy c) = Some p"
    and "inv p \<Longrightarrow> inv q \<and> op_get_type (policy_iface e) q = op_get_type (policy_iface e) p \<and>
      op_get_stats (policy_iface e) q = op_get_stats (policy_iface e) p"
  shows "quiet c (put_policy (activePolicy c) q c)"
  using assms by (auto simp: quiet_def steady_def active_good_def active_counts_def)

lemma quiet_demote: "pt \<noteq> activePolicy c \<Longrightarrow> quiet c (demoteLocked e pt c)"
  by (auto simp: demoteLocked_def quiet_put_other split: option.split)

lemma quiet_close: "quiet c (closeMigrationLocked e c)"
proof -
  have "quiet (clearMigrationState c) (demoteLocked e pt (clearMigrationState c))" if "pt \<noteq> activePolicy c" for pt
    using that by (intro quiet_demote) (simp add: frames)
  then show ?thesis
    unfolding closeMigrationLocked_def Let_def by (auto intro: quiet_fields quiet_trans [OF quiet_fields(4)] simp: frames)
qed

lemma quiet_for_shadows: "quiet c (for_shadows e f c)"
  by (auto simp: quiet_def steady_def active_good_def active_counts_def for_shadows_def map_entries_at)

lemma quiet_active_add: "active_add e k v c = Some (c', ev) \<Longrightarrow> quiet c c'"
  by (auto simp: active_add_def bind_eq_Some_conv split_beta add_inv add_type add_stats_same
      intro!: quiet_put_active)

lemma active_get_counts:
  assumes "active_get e k c = Some (c', r)" "active_good c"
  shows "active_good c' \<and> shown e c' = add_stats (shown e c) (outcome r) \<and> steady c c'"
proof -
  obtain p where p: "policies c (activePolicy c) = Some p"
      "c' = put_policy (activePolicy c) (fst (op_get (policy_iface e) p k)) c" "r = snd (op_get (policy_iface e) p k)"
    using assms(1) by (auto simp: active_get_def bind_eq_Some_conv split_beta)
  with assms(2) show ?thesis
    by (auto simp: steady_def active_good_def shown_def active_counts_def get_inv get_type get_stats add_stats_assoc)
qed

lemma quiet_drain_loop: "drain_loop e ks c = Some c' \<Longrightarrow> quiet c c'"
proof (induction ks arbitrary: c)
  case (Cons key rest)
  let ?c = "c\<lparr>migrationKeys := rev rest\<rparr>"
  show ?case
  proof (cases "key \<in> migrationRealKeys c")
    case False
    with Cons.prems have "quiet ?c c'" by (auto intro: Cons.IH)
    then show ?thesis by (rule quiet_trans [OF quiet_fields(2)])
  next
    case True
    then obtain source where source: "policies c (migrateFrom c) = Some source"
      using Cons.prems by (auto simp: bind_eq_Some_conv Let_def)
    show ?thesis
    proof (cases "op_peek (policy_iface e) source key")
      case None
      with Cons True source have "quiet (?c\<lparr>migrationRealKeys := migrationRealKeys c - {key}\<rparr>) c'" by auto
      then show ?thesis by (rule quiet_trans [OF quiet_trans [OF quiet_fields(2) quiet_fields(3)]])
    next
      case (Some v)
      obtain d ev where d: "active_add e key v ?c = Some (d, ev)"
        using Cons.prems True source Some by (auto simp: bind_eq_Some_conv Let_def)
      then have c': "c' = (let d = d\<lparr>migrationRealKeys := migrationRealKeys d - {key}\<rparr> in
          if migrationRealKeys d = {} then closeMigrationLocked e d else d)"
        using Cons.prems True source Some by (simp add: Let_def)
      have "quiet d c'" unfolding c' Let_def by (auto intro: quiet_fields quiet_trans [OF quiet_fields(3) quiet_close])
      then show ?thesis
        by (rule quiet_trans [OF quiet_trans [OF quiet_fields(2) quiet_active_add [OF d]]])
    qed
  qed
qed (auto intro: quiet_close)

lemma quiet_promote:
  assumes "promoteLocked e key c = Some c'"
  shows "quiet c c'"
proof -
  have finish: "quiet d (if migrationRealKeys d = {} then closeMigrationLocked e d else d)" for d
    by (simp add: quiet_close)
  have forget: "quiet d (d\<lparr>migrationRealKeys := migrationRealKeys d - {key}\<rparr>)" for d by (rule quiet_fields(3))
  show ?thesis
  proof (cases "key \<in> migrationRealKeys c")
    case False
    with assms finish [of c] show ?thesis by (auto simp: promoteLocked_def)
  next
    case True
    obtain source where source: "policies c (migrateFrom c) = Some source"
      using assms True by (auto simp: promoteLocked_def bind_eq_Some_conv)
    let ?finished = "\<lambda>d. (let d = d\<lparr>migrationRealKeys := migrationRealKeys d - {key}\<rparr> in
      if migrationRealKeys d = {} then closeMigrationLocked e d else d)"
    have "\<exists>d. quiet c d \<and> c' = ?finished d"
    proof (cases "op_peek (policy_iface e) source key")
      case None
      with assms True source have "c' = ?finished c" by (simp add: promoteLocked_def Let_def)
      then show ?thesis using quiet_refl by blast
    next
      case (Some v)
      then obtain d ev where "active_add e key v c = Some (d, ev)" "c' = ?finished d"
        using assms True source by (auto simp: promoteLocked_def bind_eq_Some_conv Let_def)
      then show ?thesis using quiet_active_add by blast
    qed
    then obtain d where d: "quiet c d" and c': "c' = ?finished d" by blast
    show ?thesis unfolding c' Let_def by (rule quiet_trans [OF quiet_trans [OF d forget] finish])
  qed
qed

text \<open>One lookup is one count.\<close>

lemma get_key_counts:
  assumes g: "get_key e key c = Some (c', r)" and a: "active_good c"
  shows "shown e c' = add_stats (shown e c) (outcome r) \<and> steady c c'"
proof -
  let ?s = "if sampled (sampler c) key then for_shadows e (\<lambda>p. fst (op_get (policy_iface e) p key)) c else c"
  have s: "quiet c ?s" by (simp add: quiet_for_shadows)
  obtain d d' where d: "quiet ?s d" "active_get e key d = Some (d', r)" "quiet d' c'"
  proof (cases "migrating c")
    case False
    with g that [of ?s] show ?thesis
      by (auto simp: get_key_def get_read_locked_def Let_def bind_eq_Some_conv intro: quiet_fields)
  next
    case True
    then have "migrating ?s" by simp
    with True g obtain d d' where "promoteLocked e key ?s = Some d" "active_get e key d = Some (d', r)"
        "c' = recordActiveSample (sampled (sampler c) key) (r \<noteq> None) d'"
      by (simp only: get_key_def get_write_locked_def Let_def bind_eq_Some_conv if_True not_True_eq_False if_False
          split_paired_Ex prod.case prod.inject option.inject) blast
    with that [of d d'] quiet_promote show ?thesis by (auto intro: quiet_fields)
  qed
  have cd: "quiet c d" by (rule quiet_trans [OF s d(1)])
  from quiet_shown [OF cd a] active_get_counts [OF d(2)] quiet_shown [OF d(3)]
    quiet_steady [OF cd] quiet_steady [OF d(3)] show ?thesis by (auto intro: steady_trans)
qed

text \<open>The other handlers count nothing.\<close>

lemma quiet_Add:
  assumes "Add e key v c = Some (c', ev)"
  shows "quiet c c'"
proof -
  define s where "s = (if sampled (sampler c) key
    then for_shadows e (\<lambda>p. fst (op_add (policy_iface e) p key (zero_value e))) c else c)"
  define f where "f = s\<lparr>migrationRealKeys := migrationRealKeys s - {key}\<rparr>"
  have s: "quiet c s" by (simp add: s_def quiet_for_shadows)
  have f: "quiet s f" unfolding f_def by (rule quiet_fields(3))
  obtain d where d: "(if migrating s then
      (if migrationRealKeys f = {} then Some (closeMigrationLocked e f) else drainOneKey e f) else Some s) = Some d"
    and a: "active_add e key v d = Some (c', ev)"
    using assms by (simp only: Add_def Let_def s_def [symmetric] f_def [symmetric] bind_eq_Some_conv) blast
  have "quiet s d"
    using d quiet_trans [OF f quiet_close] quiet_trans [OF f quiet_drain_loop]
    by (auto simp: drainOneKey_def split: if_splits)
  from quiet_trans [OF s quiet_trans [OF this quiet_active_add [OF a]]] show ?thesis .
qed

lemma quiet_Remove:
  assumes "Remove e key c = Some (c', present)"
  shows "quiet c c'"
proof -
  let ?s = "for_shadows e (\<lambda>p. fst (op_remove (policy_iface e) p key)) c"
  define d where "d = (if migrating ?s then
      (let c = ?s\<lparr>migrationRealKeys := migrationRealKeys ?s - {key}\<rparr> in
       if migrationRealKeys c = {} then closeMigrationLocked e c else c) else ?s)"
  have "quiet ?s d"
    unfolding d_def Let_def by (auto intro: quiet_fields quiet_trans [OF quiet_fields(3) quiet_close])
  then have cd: "quiet c d" by (rule quiet_trans [OF quiet_for_shadows])
  obtain p where p: "policies d (activePolicy d) = Some p"
      "c' = put_policy (activePolicy d) (fst (op_remove (policy_iface e) p key)) d"
    using assms unfolding Remove_def Let_def d_def [unfolded Let_def, symmetric]
    by (auto simp: bind_eq_Some_conv split_beta)
  have "quiet d c'" unfolding p(2)
    by (rule quiet_put_active [OF p(1)]) (simp add: remove_inv remove_type remove_stats)
  with cd show ?thesis by (rule quiet_trans)
qed

lemma quiet_entries:
  assumes "\<And>p. inv p \<Longrightarrow> inv (f (activePolicy c) p) \<and>
    op_get_type (policy_iface e) (f (activePolicy c) p) = op_get_type (policy_iface e) p \<and>
    op_get_stats (policy_iface e) (f (activePolicy c) p) = op_get_stats (policy_iface e) p"
  shows "quiet c (c\<lparr>policies := map_entries f (policies c)\<rparr>)"
  using assms by (auto simp: quiet_def steady_def active_good_def active_counts_def map_entries_at)

lemma quiet_Purge: "quiet c (Purge e c)"
  unfolding Purge_def
  by (rule quiet_trans [OF quiet_entries quiet_close]) (simp add: purge_inv purge_type purge_stats)

lemma quiet_Resize: "quiet c (fst (Resize e sz c))"
proof -
  let ?d = "c\<lparr>policies := map_entries (\<lambda>pt p. fst (op_resize (policy_iface e) p (resize_target sz c pt))) (policies c)\<rparr>"
  have "quiet c ?d" by (rule quiet_entries) (simp add: resize_inv resize_type resize_stats)
  moreover have "quiet ?d (fst (Resize e sz c))"
    by (auto simp: quiet_def steady_def active_good_def active_counts_def Resize_def Let_def map_entries_def
        option.map_comp comp_def control_def)
  ultimately show ?thesis by (rule quiet_trans)
qed

end

end
