(* ===== verification/EpochFacts.thy ===== *)
theory EpochFacts
  imports Accounting
begin

text \<open>
  What one epoch does, beyond keeping the invariant: which counts the bandit is told, that no count is
  lost, when the active policy may change, and that a gradual window lasts one epoch at most.
\<close>

subsection \<open>Reporting\<close>

definition counts_at :: "('p, 'k, 'v, 'b) env \<Rightarrow> ('p, 'k, 'b) cache \<Rightarrow> policy_type \<Rightarrow> policy_stats" where
  "counts_at e c pt = (case policies c pt of None \<Rightarrow> zero_stats | Some p \<Rightarrow> op_get_stats (policy_iface e) p)"

lemma active_counts_at: "active_counts e c = counts_at e c (activePolicy c)"
  by (simp add: active_counts_def counts_at_def)

text \<open>The measurement of an arm: the sampled lookups of the active policy, a shadow's own counters.\<close>

definition measured :: "('p, 'k, 'v, 'b) env \<Rightarrow> policy_type \<Rightarrow> ('p, 'k, 'b) cache \<Rightarrow> policy_type \<Rightarrow> policy_stats"
  where
  "measured e cur c pt =
     (if pt = cur then \<lparr>Hits = activeSampledHits c, Misses = activeSampledMisses c\<rparr> else counts_at e c pt)"

definition arm_report :: "('p, 'k, 'v, 'b) env \<Rightarrow> policy_type \<Rightarrow> ('p, 'k, 'b) cache \<Rightarrow> policy_type \<Rightarrow> shadow_stats"
  where
  "arm_report e cur c pt =
     \<lparr>ss_policy = pt, ss_hits = Hits (measured e cur c pt), ss_misses = Misses (measured e cur c pt)\<rparr>"

text \<open>What the report loop leaves of a policy and of the totals, given the policies it visits.\<close>

definition reported :: "('p, 'k, 'v, 'b) env \<Rightarrow> policy_type \<Rightarrow> policy_type list \<Rightarrow> ('p, 'k, 'b) cache \<Rightarrow> ('p, 'k, 'b) cache \<Rightarrow> bool"
  where
  "reported e cur pts c c' \<longleftrightarrow> same_roles c c' \<and>
     policies c' = (\<lambda>pt. if pt \<in> set pts then map_option (op_reset_stats (policy_iface e)) (policies c pt) else policies c pt) \<and>
     globalStats c' = (if cur \<in> set pts then add_stats (globalStats c) (counts_at e c cur) else globalStats c) \<and>
     (cur \<notin> set pts \<longrightarrow> activeSampledHits c' = activeSampledHits c \<and> activeSampledMisses c' = activeSampledMisses c) \<and>
     reportingEpochs c' = reportingEpochs c \<and>
     epochStats c' = (\<lambda>pt. if pt \<in> set pts then Some (measured e cur c pt) else epochStats c pt)"

definition typed :: "('p, 'k, 'v, 'b) env \<Rightarrow> ('p \<Rightarrow> bool) \<Rightarrow> ('p, 'k, 'b) cache \<Rightarrow> bool" where
  "typed e good c \<longleftrightarrow> (\<forall>pt p. policies c pt = Some p \<longrightarrow> good p \<and> op_get_type (policy_iface e) p = pt)"

lemma reportedD:
  assumes "reported e cur pts c c'"
  shows "same_roles c c'"
    and "policies c' pt = (if pt \<in> set pts then map_option (op_reset_stats (policy_iface e)) (policies c pt) else policies c pt)"
    and "globalStats c' = (if cur \<in> set pts then add_stats (globalStats c) (counts_at e c cur) else globalStats c)"
    and "epochStats c' = (\<lambda>pt. if pt \<in> set pts then Some (measured e cur c pt) else epochStats c pt)"
  using assms unfolding reported_def by (blast, simp_all)

lemma same_roles_other: "same_roles (c\<lparr>reportingEpochs := n\<rparr>) d = same_roles c d"
  by (simp add: same_roles_def)

lemma same_roles_bandit: "same_roles c d \<Longrightarrow> same_roles c (d\<lparr>bandit := b\<rparr>)"
  by (simp add: same_roles_def)

text \<open>The epoch the capacity gate skips.\<close>

definition skipped :: "('p, 'k, 'v, 'b) env \<Rightarrow> ('p, 'k, 'b) cache \<Rightarrow> bool" where
  "skipped e c \<longleftrightarrow> \<not> ObserveOnly (settings c) \<and> \<not> EvictPartialCapacityFilling (settings c) \<and>
     (\<exists>p. policies c (activePolicy c) = Some p \<and> op_len (policy_iface e) p \<noteq> op_cap (policy_iface e) p)"

text \<open>The bandit after it was told of every arm.\<close>

definition told :: "('p, 'k, 'v, 'b) env \<Rightarrow> ('p, 'k, 'b) cache \<Rightarrow> 'b held_bandit \<Rightarrow> bool" where
  "told e c b \<longleftrightarrow>
     (let arms = map (arm_report e (activePolicy c) c) (policyOrder c) in
      if epochBandit c
      then \<exists>f. held_record_epoch (bandit_iface e) (bandit c) = Some f \<and>
        b = f \<lparr>er_EpochID = epochID c, er_Active = activePolicy c, er_Stats = arms,
               er_Capacity = map_int (nominalCap c) (activePolicy c), er_SampleRate = rate (sampler c)\<rparr>
      else b = fold (\<lambda>s b. held_record_stats (bandit_iface e) b s) arms (bandit c))"

context adaptive_cache begin

lemma ok_typed: "ok \<sigma> c \<Longrightarrow> typed e inv c"
  by (simp add: typed_def cache_inv_def well_formed_def)

lemma report_arm_result:
  assumes "typed e inv c" and p: "policies c pt = Some p"
    and r: "report_arm e cur pt (report, c) = Some (report', c')"
  shows "reported e cur [pt] c c' \<and>
    (if epochBandit c then report' = report @ [arm_report e cur c pt] \<and> bandit c' = bandit c
     else report' = report \<and> bandit c' = held_record_stats (bandit_iface e) (bandit c) (arm_report e cur c pt))"
proof -
  have "inv p" "op_get_type (policy_iface e) p = pt" using assms(1) p by (simp_all add: typed_def)
  then have ty: "op_get_type (policy_iface e) (op_reset_stats (policy_iface e) p) = pt" by (simp add: reset_type)
  let ?d = "put_policy pt (op_reset_stats (policy_iface e) p) c"
  let ?g = "if pt = cur
    then ?d\<lparr>globalStats := add_stats (globalStats c) (op_get_stats (policy_iface e) p), activeSampledHits := 0, activeSampledMisses := 0\<rparr>
    else ?d"
  let ?h = "?g\<lparr>epochStats := (epochStats c)(pt \<mapsto> measured e cur c pt),
    tenureStats := (tenureStats c)(pt \<mapsto> add_stats (map_stats (tenureStats c) pt) (measured e cur c pt))\<rparr>"
  have eq: "report_arm e cur pt (report, c) = Some (if epochBandit c then (report @ [arm_report e cur c pt], ?h)
      else (report, ?h\<lparr>bandit := held_record_stats (bandit_iface e) (bandit c) (arm_report e cur c pt)\<rparr>))"
    by (simp add: report_arm_def Let_def p ty arm_report_def measured_def counts_at_def)
  have pol: "policies ?h = (\<lambda>q. if q \<in> set [pt] then map_option (op_reset_stats (policy_iface e)) (policies c q) else policies c q)"
    using p by (auto simp: fun_eq_iff)
  have dom: "dom (policies ?h) = dom (policies c)" unfolding pol by (auto simp: dom_def split: if_splits)
  define h where "h = ?h"
  have rep: "reported e cur [pt] c h"
    unfolding h_def using p pol dom by (auto simp: reported_def same_roles_def counts_at_def fun_eq_iff)
  then have repb: "reported e cur [pt] c (h\<lparr>bandit := b\<rparr>)" for b
    by (simp add: reported_def same_roles_bandit)
  have b: "bandit h = bandit c" by (simp add: h_def)
  show ?thesis
    using r rep b repb unfolding eq h_def [symmetric] by (cases "epochBandit c") auto
qed

lemma reported_typed: "reported e cur pts c c' \<Longrightarrow> typed e inv c \<Longrightarrow> typed e inv c'"
  by (auto simp: reported_def typed_def reset_inv reset_type split: if_splits)

lemma reported_cons:
  assumes "reported e cur [pt] c d" "reported e cur pts d c'" "pt \<notin> set pts"
  shows "reported e cur (pt # pts) c c'"
proof -
  have "counts_at e d cur = counts_at e c cur" if "cur \<noteq> pt"
    using assms(1) that by (simp add: reported_def counts_at_def)
  moreover have "measured e cur d q = measured e cur c q" if "q \<in> set pts" for q
    using assms(1,3) that by (auto simp: measured_def reported_def counts_at_def)
  ultimately show ?thesis
    using assms by (auto simp: reported_def fun_eq_iff intro: same_roles_trans)
qed

lemma reported_arm:
  assumes "reported e cur [pt] c d" "q \<noteq> pt"
  shows "arm_report e cur d q = arm_report e cur c q"
  using assms by (auto simp: arm_report_def measured_def reported_def counts_at_def)

lemma report_loop_result:
  assumes "typed e inv c" "distinct pts" "set pts \<subseteq> dom (policies c)"
    and "report_loop e cur pts (report, c) = Some (report', c')"
  shows "reported e cur pts c c' \<and>
    (if epochBandit c then report' = report @ map (arm_report e cur c) pts \<and> bandit c' = bandit c
     else report' = report \<and>
       bandit c' = fold (\<lambda>s b. held_record_stats (bandit_iface e) b s) (map (arm_report e cur c) pts) (bandit c))"
  using assms
proof (induction pts arbitrary: report c)
  case Nil
  then show ?case by (auto simp: reported_def)
next
  case (Cons pt pts)
  obtain p where p: "policies c pt = Some p" using Cons.prems(3) by auto
  obtain r d where d: "report_arm e cur pt (report, c) = Some (r, d)"
    and l: "report_loop e cur pts (r, d) = Some (report', c')"
    using Cons.prems(4) by (auto simp: bind_eq_Some_conv)
  note arm = report_arm_result [OF Cons.prems(1) p d]
  have roles: "same_roles c d" using arm by (simp add: reported_def)
  then have sub: "set pts \<subseteq> dom (policies d)" and eb: "epochBandit d = epochBandit c"
    using Cons.prems(3) by (auto simp: same_roles_def)
  from Cons.prems(2) have pts: "distinct pts" "pt \<notin> set pts" by auto
  have arms: "map (arm_report e cur d) pts = map (arm_report e cur c) pts"
  proof (rule map_cong [OF refl])
    fix q assume "q \<in> set pts"
    with pts(2) have "q \<noteq> pt" by blast
    with arm show "arm_report e cur d q = arm_report e cur c q" by (blast intro: reported_arm)
  qed
  note ih = Cons.IH [OF reported_typed [OF conjunct1 [OF arm] Cons.prems(1)] pts(1) sub l, unfolded arms eb]
  have "reported e cur (pt # pts) c c'" using reported_cons [OF conjunct1 [OF arm] _ pts(2)] ih by blast
  moreover from arm ih have "if epochBandit c
      then report' = report @ map (arm_report e cur c) (pt # pts) \<and> bandit c' = bandit c
      else report' = report \<and> bandit c' =
        fold (\<lambda>s b. held_record_stats (bandit_iface e) b s) (map (arm_report e cur c) (pt # pts)) (bandit c)"
    by (cases "epochBandit c") simp_all
  ultimately show ?case by blast
qed

subsection \<open>Selection\<close>

lemma select_result:
  assumes c: "ok \<sigma> c" and s: "selectPolicyLocked e c = Some (c', selected)"
  shows "same_roles c c' \<and>
    (if skipped e c then selected = activePolicy c \<and> bandit c' = bandit c \<and> policies c' = policies c \<and>
       globalStats c' = globalStats c
     else (\<exists>b. told e c b \<and> (bandit c', selected) = held_select_policy (bandit_iface e) b) \<and>
       (\<forall>pt. counts_at e c' pt = zero_stats) \<and>
       (\<forall>pt. policies c' pt = map_option (op_reset_stats (policy_iface e)) (policies c pt)) \<and>
       (\<forall>pt \<in> dom (policies c). epochStats c' pt = Some (measured e (activePolicy c) c pt)) \<and>
       globalStats c' = add_stats (globalStats c) (active_counts e c))"
proof -
  obtain p where p: "policies c (activePolicy c) = Some p" using cache_invD(1) [OF c] by blast
  show ?thesis
  proof (cases "skipped e c")
    case True
    with s p show ?thesis by (auto simp: skipped_def selectPolicyLocked_def Let_def same_roles_def)
  next
    case False
    let ?d = "c\<lparr>reportingEpochs := reportingEpochs c + 1\<rparr>"
    have wf: "typed e inv ?d" "distinct (policyOrder c)" "set (policyOrder c) = dom (policies c)"
      using c by (simp_all add: typed_def cache_inv_def well_formed_def)
    have on: "(if \<not> ObserveOnly (settings c) \<and> \<not> EvictPartialCapacityFilling (settings c)
        then map_option (\<lambda>p. op_len (policy_iface e) p \<noteq> op_cap (policy_iface e) p) (policies c (activePolicy c))
        else Some False) = Some False"
      using p False by (auto simp: skipped_def)
    obtain r f where f: "report_loop e (activePolicy c) (policyOrder c) ([], ?d) = Some (r, f)"
      using s by (auto simp: selectPolicyLocked_def Let_def on bind_eq_Some_conv)
    have arms: "arm_report e (activePolicy c) ?d = arm_report e (activePolicy c) c"
      by (simp add: fun_eq_iff arm_report_def measured_def counts_at_def)
    note l = report_loop_result [OF wf(1,2) _ f, unfolded arms]
    have rep: "reported e (activePolicy c) (policyOrder c) ?d f" using l wf(3) by simp
    then have roles: "same_roles c f" by (metis reportedD(1) same_roles_other)
    have sel: "\<exists>b. told e c b \<and> (bandit c', selected) = held_select_policy (bandit_iface e) b \<and> c' = f\<lparr>bandit := bandit c'\<rparr>"
    proof (cases "epochBandit c")
      case True
      with l wf(3) have "r = map (arm_report e (activePolicy c) c) (policyOrder c)" "bandit f = bandit c" by simp_all
      with True s f roles show ?thesis
        by (auto simp: on selectPolicyLocked_def Let_def told_def bind_eq_Some_conv split_beta same_roles_def)
    next
      case False
      with l wf(3) have "bandit f = fold (\<lambda>s b. held_record_stats (bandit_iface e) b s)
          (map (arm_report e (activePolicy c) c) (policyOrder c)) (bandit c)" by simp
      with False s f roles show ?thesis
        by (auto simp: on selectPolicyLocked_def Let_def told_def bind_eq_Some_conv split_beta same_roles_def)
    qed
    then obtain b where b: "told e c b" "(bandit c', selected) = held_select_policy (bandit_iface e) b"
      "c' = f\<lparr>bandit := bandit c'\<rparr>" by blast
    have "counts_at e f pt = zero_stats" for pt
      using wf(1,3) by (auto simp: reportedD(2) [OF rep] counts_at_def typed_def reset_stats domIff split: option.split)
    then have "counts_at e c' pt = zero_stats" for pt by (subst b(3)) (simp add: counts_at_def)
    moreover have "policies c' pt = map_option (op_reset_stats (policy_iface e)) (policies c pt)" for pt
      by (subst b(3)) (use wf(3) in \<open>auto simp: reportedD(2) [OF rep] domIff\<close>)
    moreover have "epochStats c' pt = Some (measured e (activePolicy c) c pt)" if "pt \<in> dom (policies c)" for pt
      by (subst b(3)) (use that wf(3) in \<open>simp add: reportedD(4) [OF rep] measured_def counts_at_def\<close>)
    moreover have "globalStats c' = add_stats (globalStats c) (active_counts e c)"
      by (subst b(3)) (use p wf(3) in \<open>auto simp: reportedD(3) [OF rep] counts_at_def active_counts_at\<close>)
    moreover have "same_roles c c'" by (subst b(3)) (rule same_roles_bandit [OF roles])
    ultimately show ?thesis using False b(1,2) by auto
  qed
qed

subsection \<open>The switch\<close>

text \<open>The shape of every migration's result.\<close>

lemma migrateData_shape:
  assumes "migrateData e from to c = Some c'"
  shows "\<exists>q. c' = put_policy to q (clearMigrationState c) \<or>
    MigrationStrategy (settings c) = MigrationGradual \<and>
    (\<exists>ks. c' = (put_policy to q (clearMigrationState c))\<lparr>migrating := True, migrateFrom := from,
       migrationKeys := ks, migrationRealKeys := set ks\<rparr>)"
proof (cases "MigrationStrategy (settings c)")
  case MigrationWarm
  then obtain q p where "c' = put_policy to q (put_policy to p (clearMigrationState c))"
    using assms by (auto simp: migrateData_def Let_def bind_eq_Some_conv frames)
  then have "c' = put_policy to q (clearMigrationState c)" by (simp add: put_policy_def)
  then show ?thesis by blast
next
  case MigrationGradual
  then show ?thesis using assms by (auto simp: migrateData_def Let_def bind_eq_Some_conv frames split: if_splits)
qed (use assms in \<open>auto simp: migrateData_def Let_def bind_eq_Some_conv frames\<close>)

lemma control_migrateData: "migrateData e from to c = Some c' \<Longrightarrow> control c' = control c"
  by (drule migrateData_shape) auto

lemma migrateData_window:
  assumes "migrateData e from to c = Some c'" "migrating c'"
  shows "migrateFrom c' = from \<and> MigrationStrategy (settings c) = MigrationGradual"
  using migrateData_shape [OF assms(1)] assms(2) by (auto simp: frames)

lemma copy_loop_counts:
  assumes "inv q"
  shows "op_get_stats (policy_iface e) (fold (copy_key (policy_iface e) from) ks q) = op_get_stats (policy_iface e) q"
  using assms
proof (induction ks arbitrary: q)
  case (Cons key ks)
  then show ?case
    by (cases "op_peek (policy_iface e) from key") (simp_all add: copy_key_def add_inv add_stats_same)
qed simp

lemma migrateData_counts:
  assumes "migrateData e from to c = Some c'" "typed e inv c" "from \<noteq> to"
  shows "counts_at e c' to = counts_at e c to"
proof (cases "policies c to")
  case None
  with assms(1) show ?thesis
    by (auto simp: migrateData_def Let_def bind_eq_Some_conv frames split: migration_strategy.splits)
next
  case (Some q)
  then have q: "inv q" "inv (op_purge (policy_iface e) q)" using assms(2) by (auto simp: typed_def intro: purge_inv)
  note stats = counts_at_def purge_stats [OF q(1)] copy_loop_counts [OF q(2)]
  show ?thesis
  proof (cases "MigrationStrategy (settings c)")
    case MigrationWarm
    with Some assms(1,3) show ?thesis by (auto simp: migrateData_def Let_def bind_eq_Some_conv frames stats)
  next
    case MigrationGradual
    with Some assms(1,3) show ?thesis
      by (auto simp: migrateData_def Let_def bind_eq_Some_conv frames stats split: if_splits)
  qed (use Some assms(1) in \<open>auto simp: migrateData_def Let_def bind_eq_Some_conv frames stats\<close>)
qed

lemma promote_capacity_counts:
  assumes "typed e inv c"
  shows "counts_at e (promoteLockedCapacity e to c) pt = counts_at e c pt"
    and "typed e inv (promoteLockedCapacity e to c)"
  using assms promoteLockedCapacity_cases [of e to c]
  by (auto simp: counts_at_def typed_def resize_stats resize_inv resize_type split: if_splits)

lemma close_closed: "\<not> migrating c \<Longrightarrow> closeMigrationLocked e c = clearMigrationState c"
  by (simp add: closeMigrationLocked_def Let_def)

lemma switch_result:
  assumes "typed e inv c" "\<not> migrating c" "to \<noteq> from" "switchLocked e from to c = Some c'"
  shows "activePolicy c' = to \<and> epochID c' = epochID c \<and> lastSwitchEpoch c' = lastSwitchEpoch c \<and>
    epochRequests c' = epochRequests c \<and> globalStats c' = globalStats c \<and> settings c' = settings c \<and>
    bandit c' = bandit c \<and> (migrating c' \<longrightarrow> migrateFrom c' = from) \<and> counts_at e c' to = counts_at e c to"
proof -
  let ?d = "promoteLockedCapacity e to (clearMigrationState c)"
  obtain m where m: "migrateData e from to ?d = Some m"
    and c': "c' = (let c = m\<lparr>activePolicy := to, tenureStats := (tenureStats m)(from := None, to := None)\<rparr>
      in if \<not> migrating c then demoteLocked e from c else c)"
    using assms(2,4) by (auto simp: switchLocked_def close_closed bind_eq_Some_conv Let_def)
  have "typed e inv (clearMigrationState c)" using assms(1) by (simp add: typed_def frames)
  note d = promote_capacity_counts [OF this, of to]
  have ctl: "control m = control c" using control_migrateData [OF m] by simp
  have fields: "epochID c' = epochID m" "lastSwitchEpoch c' = lastSwitchEpoch m" "epochRequests c' = epochRequests m"
    "globalStats c' = globalStats m" "settings c' = settings m" "bandit c' = bandit m" "activePolicy c' = to"
    "migrating c' = migrating m" "migrateFrom c' = migrateFrom m" "counts_at e c' to = counts_at e m to"
    using assms(3)
    by (auto simp: c' Let_def demoteLocked_def put_policy_def counts_at_def split: option.split)
  have "counts_at e m to = counts_at e c to"
    using migrateData_counts [OF m d(2)] d(1) [of to] assms(3) by (simp add: counts_at_def frames)
  then show ?thesis using fields controlD [OF ctl] migrateData_window [OF m] by simp
qed

subsection \<open>The epoch\<close>

text \<open>
  The outcome of an epoch: the clock advances; nothing is lost of what is shown; the active policy
  changes only to the bandit's selection, through the gates; and a window that is open afterwards was
  opened by this very epoch.
\<close>

lemma runEpoch_result:
  assumes c: "ok \<sigma> c" and r: "runEpoch e c = Some c'"
  defines "d \<equiv> closeMigrationLocked e c"
  shows "epochID c' = epochID c + 1 \<and> epochRequests c' = epochRequests c \<and> settings c' = settings c \<and>
    shown e c' = shown e c \<and>
    (if skipped e d then bandit c' = bandit c
     else \<exists>b. told e d b \<and> bandit c' = fst (held_select_policy (bandit_iface e) b) \<and>
       (activePolicy c' \<noteq> activePolicy c \<longrightarrow> activePolicy c' = snd (held_select_policy (bandit_iface e) b))) \<and>
    (if activePolicy c' = activePolicy c then \<not> migrating c' \<and> lastSwitchEpoch c' = lastSwitchEpoch c
     else \<not> ObserveOnly (settings c) \<and> \<not> skipped e d \<and> lastSwitchEpoch c' = epochID c \<and>
       (migrating c' \<longrightarrow> migrateFrom c' = activePolicy c) \<and>
       (\<exists>s. selectPolicyLocked e d = Some (s, activePolicy c') \<and> allowSwitchLocked (activePolicy c') s))"
proof -
  have d: "ok \<sigma> d" unfolding d_def by (rule closeMigration_inv [OF c])
  have dc: "control d = control c" "shown e d = shown e c" "\<not> migrating d"
    using quiet_shown [OF quiet_close ok_active_good [OF c]] by (simp_all add: d_def frames)
  obtain f selected where f: "selectPolicyLocked e d = Some (f, selected)" "ok \<sigma> f" "same_roles d f"
    using select_ok [OF d] by blast
  note sel = select_result [OF d f(1)]
  have ff: "\<not> migrating f" "activePolicy f = activePolicy c" "epochID f = epochID c" "settings f = settings c"
    "lastSwitchEpoch f = lastSwitchEpoch c" "epochRequests f = epochRequests c"
    using f(3) dc(3) controlD [OF dc(1)] by (simp_all add: same_roles_def)
  have act: "activePolicy d = activePolicy c" using controlD [OF dc(1)] by simp
  have shown_f: "shown e f = shown e c"
    using sel dc(2) ff(2) act by (auto simp: shown_def active_counts_at counts_at_def split: if_splits)
  let ?go = "\<not> ObserveOnly (settings c) \<and> activePolicy f \<noteq> selected \<and> hasPolicy selected f \<and> allowSwitchLocked selected f"
  show ?thesis
  proof (cases ?go)
    case False
    then have c': "c' = f\<lparr>epochID := epochID f + 1\<rparr>"
      using r f(1) ff(4) by (auto simp: runEpoch_def d_def bind_eq_Some_conv Let_def split: if_splits)
    then have "shown e c' = shown e f" by (simp add: shown_def active_counts_def)
    then show ?thesis using sel ff shown_f controlD [OF dc(1)]
      by (auto simp: c' same_roles_def split: if_splits) (metis fst_conv)+
  next
    case True
    then obtain g where g: "switchLocked e (activePolicy f) selected f = Some g"
        "c' = g\<lparr>lastSwitchEpoch := epochID g, epochID := epochID g + 1\<rparr>"
      using r f(1) ff(4) by (auto simp: runEpoch_def d_def bind_eq_Some_conv Let_def)
    have ns: "\<not> skipped e d" using True sel act ff(2) by (auto split: if_splits)
    note sw = switch_result [OF ok_typed [OF f(2)] ff(1) _ g(1)]
    have zero: "counts_at e f pt = zero_stats" for pt using sel ns by simp
    have "shown e c' = shown e f"
      using sw True zero [of "activePolicy f"] zero [of selected]
      by (simp add: g(2) shown_def active_counts_at cong: conj_cong) (auto simp: counts_at_def)
    then show ?thesis using sel ns sw True ff shown_f f(1)
      by (auto simp: g(2)) (metis fst_conv snd_conv)+
  qed
qed

text \<open>An epoch that changes the active policy is a selection followed by a switch of the same entries.\<close>

lemma runEpoch_switches:
  assumes c: "ok \<sigma> c" and r: "runEpoch e c = Some c'" and new: "activePolicy c' \<noteq> activePolicy c"
  shows "\<exists>f g. ok \<sigma> f \<and> \<not> migrating f \<and> activePolicy f = activePolicy c \<and> settings f = settings c \<and>
    nominalCap f = nominalCap c \<and> policies f (activePolicy c') \<noteq> None \<and>
    content_at content f (activePolicy c) = content_at content c (activePolicy c) \<and>
    switchLocked e (activePolicy f) (activePolicy c') f = Some g \<and>
    c' = g\<lparr>lastSwitchEpoch := epochID g, epochID := epochID g + 1\<rparr>"
proof -
  let ?d = "closeMigrationLocked e c"
  have d: "ok \<sigma> ?d" by (rule closeMigration_inv [OF c])
  obtain f selected where f: "selectPolicyLocked e ?d = Some (f, selected)" "ok \<sigma> f" "same_roles ?d f"
    using select_ok [OF d] by blast
  note sel = select_result [OF d f(1)]
  have ff: "\<not> migrating f" "activePolicy f = activePolicy c" "settings f = settings c" "nominalCap f = nominalCap c"
    using f(3) by (simp_all add: same_roles_def frames)
  have go: "activePolicy f \<noteq> selected \<and> hasPolicy selected f \<and> \<not> ObserveOnly (settings c)"
    and "\<exists>g. switchLocked e (activePolicy f) selected f = Some g \<and> c' = g\<lparr>lastSwitchEpoch := epochID g, epochID := epochID g + 1\<rparr>"
    using r f(1) ff new by (auto simp: runEpoch_def bind_eq_Some_conv Let_def split: if_splits)
  then obtain g where g: "switchLocked e (activePolicy f) selected f = Some g"
      "c' = g\<lparr>lastSwitchEpoch := epochID g, epochID := epochID g + 1\<rparr>" by blast
  have "activePolicy g = selected" using switch_result [OF ok_typed [OF f(2)] ff(1) _ g(1)] go by blast
  then have act: "activePolicy c' = selected" by (simp add: g(2))
  have ns: "\<not> skipped e ?d" using sel go ff(2) by (auto simp: frames split: if_splits)
  obtain p where p: "policies c (activePolicy c) = Some p" "inv p" using cache_invD(1) [OF c] by blast
  have pd: "policies ?d (activePolicy c) = Some p"
    using p(1) by (auto simp: closeMigrationLocked_def Let_def frames demoteLocked_eq visit_entry_apply)
  then have "policies f (activePolicy c) = Some (op_reset_stats (policy_iface e) p)" using sel ns by simp
  then have "content_at content f (activePolicy c) = content_at content c (activePolicy c)"
    using p by (simp add: reset_content)
  with f(2) ff go g act show ?thesis by (auto simp: hasPolicy_def)
qed

end

end
