(* ===== verification/RunFacts.thy ===== *)
theory RunFacts
  imports EpochFacts
begin

text \<open>
  Whole runs: the statistics count every lookup once, switches keep their distance, observation never
  acts, and a gradual window is never older than one epoch.
\<close>

text \<open>What one request adds to the statistics.\<close>

fun lookup_counts :: "('k, 'v) request \<Rightarrow> ('k, 'v) response \<Rightarrow> policy_stats" where
  "lookup_counts (ReqGet k) (RespValue r) = outcome r"
| "lookup_counts _ _ = zero_stats"

text \<open>The epochs at which the active policy changes, in a run.\<close>

fun switch_epochs ::
  "('p, 'k, 'v, 'b) env \<Rightarrow> ('k, 'v) request list \<Rightarrow> ('p, 'k, 'b) cache \<Rightarrow> int list" where
  "switch_epochs e [] c = []"
| "switch_epochs e (req # reqs) c =
     (case handle e req c of
        None \<Rightarrow> []
      | Some (c', _) \<Rightarrow>
          (if activePolicy c' \<noteq> activePolicy c then [epochID c] else []) @ switch_epochs e reqs c')"

text \<open>A request runs at most one epoch. \<open>advanced\<close> says what changes when it does.\<close>

definition advanced :: "('p, 'k, 'b) cache \<Rightarrow> ('p, 'k, 'b) cache \<Rightarrow> bool" where
  "advanced c c' \<longleftrightarrow> settings c' = settings c \<and>
     (if activePolicy c' = activePolicy c
      then lastSwitchEpoch c' = lastSwitchEpoch c \<and> epochID c \<le> epochID c' \<and>
        (migrating c' \<longrightarrow> migrating c \<and> epochID c' = epochID c)
      else lastSwitchEpoch c' = epochID c \<and> epochID c' = epochID c + 1 \<and> \<not> ObserveOnly (settings c) \<and>
        (SwitchCooldownEpochs (settings c) > 0 \<longrightarrow>
          SwitchCooldownEpochs (settings c) \<le> epochID c - lastSwitchEpoch c))"

lemma steady_advanced: "steady c c' \<Longrightarrow> advanced c c'"
  by (auto simp: steady_def advanced_def dest: controlD)

lemma steady_then_advanced:
  assumes "steady c d" "advanced d c'"
  shows "advanced c c'"
proof -
  have "control d = control c" using assms(1) by (simp add: steady_def)
  note same = controlD [OF this]
  show ?thesis using assms by (auto simp: steady_def advanced_def same split: if_splits)
qed

lemma count_advanced: "advanced (c\<lparr>epochRequests := n\<rparr>) c' \<longleftrightarrow> advanced c c'"
  "advanced c (c\<lparr>epochRequests := n\<rparr>)"
  by (simp_all add: advanced_def)

context adaptive_cache begin

lemma runEpoch_advanced:
  assumes "ok \<sigma> c" "runEpoch e c = Some c'"
  shows "advanced c c' \<and> shown e c' = shown e c"
proof -
  let ?d = "closeMigrationLocked e c"
  note r = runEpoch_result [OF assms]
  show ?thesis
  proof (cases "activePolicy c' = activePolicy c")
    case True
    with r show ?thesis by (simp add: advanced_def)
  next
    case False
    with r obtain s where s: "selectPolicyLocked e ?d = Some (s, activePolicy c')" "allowSwitchLocked (activePolicy c') s"
      by auto
    have "same_roles ?d s" using select_result [OF closeMigration_inv [OF assms(1)] s(1)] by simp
    then have "epochID s = epochID c" "lastSwitchEpoch s = lastSwitchEpoch c" "settings s = settings c"
      using controlD [OF control_close [of e c]] by (simp_all add: same_roles_def)
    with s(2) have "SwitchCooldownEpochs (settings c) > 0 \<longrightarrow>
        SwitchCooldownEpochs (settings c) \<le> epochID c - lastSwitchEpoch c"
      by (auto simp: allowSwitchLocked_def switchGated_def Let_def split: if_splits)
    with r False show ?thesis by (simp add: advanced_def)
  qed
qed

lemma shown_requests: "shown e (c\<lparr>epochRequests := n\<rparr>) = shown e c"
  by (simp add: shown_def active_counts_def)

lemma countRequest_advanced:
  assumes "ok \<sigma> c" "countRequest e c = Some c'"
  shows "advanced c c' \<and> shown e c' = shown e c"
proof -
  have "advanced c c' \<and> shown e c' = shown e c" if "runEpoch e (c\<lparr>epochRequests := n\<rparr>) = Some c'" for n
    using runEpoch_advanced [OF _ that] assms(1) by (simp add: frames count_advanced shown_requests)
  then show ?thesis
    using assms(2) by (auto simp: countRequest_def Let_def count_advanced shown_requests advanced_def split: if_splits)
qed

lemma Get_advanced:
  assumes "ok \<sigma> c" "window_open c" "Get e k c = Some (c', r)"
  shows "advanced c c' \<and> shown e c' = add_stats (shown e c) (outcome r)"
proof -
  obtain d where d: "get_key e k c = Some (d, r)" "countRequest e d = Some c'"
    using assms(3) by (auto simp: Get_def bind_eq_Some_conv)
  have "ok \<sigma> d" using get_key_ok [OF assms(1,2), of k] d(1) by (auto simp: lookup_step_def)
  from countRequest_advanced [OF this d(2)] get_key_counts [OF d(1) ok_active_good [OF assms(1)]]
  show ?thesis by (auto intro: steady_then_advanced)
qed

lemma handle_advanced:
  assumes "ok \<sigma> c" "window_open c" "handle e req c = Some (c', resp)"
  shows "advanced c c' \<and> shown e c' = add_stats (shown e c) (lookup_counts req resp)"
proof -
  have q: "advanced c d \<and> shown e d = shown e c" if "quiet c d" for d
    using quiet_shown [OF that ok_active_good [OF assms(1)]] steady_advanced [OF quiet_steady [OF that]] by simp
  show ?thesis
  proof (cases req)
    case (ReqGet k)
    then obtain r where "Get e k c = Some (c', r)" "resp = RespValue r" using assms(3) by auto
    with ReqGet Get_advanced [OF assms(1,2) this(1)] show ?thesis by simp
  next
    case (ReqAdd k v)
    then obtain ev where "Add e k v c = Some (c', ev)" "resp = RespBool ev" using assms(3) by auto
    with ReqAdd q [OF quiet_Add [OF this(1)]] show ?thesis by simp
  next
    case (ReqRemove k)
    then obtain present where "Remove e k c = Some (c', present)" "resp = RespBool present" using assms(3) by auto
    with ReqRemove q [OF quiet_Remove [OF this(1)]] show ?thesis by simp
  next
    case ReqPurge
    with assms(3) q [OF quiet_Purge] show ?thesis by auto
  next
    case (ReqResize n)
    with assms(3) q [OF quiet_Resize [of c n]] show ?thesis by (auto simp: Let_def split_beta)
  next
    case EpochTick
    then have "runEpoch e c = Some c'" "resp = RespUnit" using assms(3) by auto
    with EpochTick runEpoch_advanced [OF assms(1) this(1)] show ?thesis by simp
  qed (use assms(3) q [OF quiet_refl] in auto)
qed

text \<open>The run theorems, from any cache that satisfies the invariant.\<close>

lemma run_counts:
  assumes "ok \<sigma> c" "window_open c" "run e reqs c = Some (c', resps)"
  shows "shown e c' = add_stats (shown e c) (sum_stats (map2 lookup_counts reqs resps))"
  using assms
proof (induction reqs arbitrary: c \<sigma> resps)
  case (Cons req reqs)
  obtain d resp rs where d: "handle e req c = Some (d, resp)" "run e reqs d = Some (c', rs)" "resps = resp # rs"
    using Cons.prems(3) by (auto simp: bind_eq_Some_conv)
  from handle_ok [OF Cons.prems(1,2), of req] d(1) have "ok (spec_step req \<sigma>) d" "window_open d" by auto
  from Cons.IH [OF this d(2)] handle_advanced [OF Cons.prems(1,2) d(1)] d(3) show ?case
    by (simp add: add_stats_assoc)
qed simp

lemma run_switches:
  assumes "ok \<sigma> c" "window_open c" "cd = max 1 (SwitchCooldownEpochs (settings c))"
  shows "sorted_wrt (\<lambda>i j. i + cd \<le> j) (switch_epochs e reqs c) \<and>
    (\<forall>j \<in> set (switch_epochs e reqs c). epochID c \<le> j \<and>
      (SwitchCooldownEpochs (settings c) > 0 \<longrightarrow> lastSwitchEpoch c + SwitchCooldownEpochs (settings c) \<le> j))"
  using assms
proof (induction reqs arbitrary: c \<sigma>)
  case (Cons req reqs)
  obtain d resp where d: "handle e req c = Some (d, resp)" "ok (spec_step req \<sigma>) d" "window_open d" "settings d = settings c"
    using handle_ok [OF Cons.prems(1,2), of req] by auto
  note ih = Cons.IH [OF d(2,3), unfolded d(4), OF Cons.prems(3)]
  have a: "advanced c d" using handle_advanced [OF Cons.prems(1,2) d(1)] by simp
  show ?case
  proof (cases "activePolicy d = activePolicy c")
    case True
    with ih a d(1) show ?thesis by (force simp: advanced_def)
  next
    case False
    have "epochID c + cd \<le> j" if "j \<in> set (switch_epochs e reqs d)" for j
      using ih a False that Cons.prems(3) by (auto simp: advanced_def max_def split: if_splits)
    with ih a d(1) False show ?thesis by (fastforce simp: advanced_def)
  qed
qed simp

lemma run_window:
  assumes "ok \<sigma> c" "window_open c" "migrating c \<Longrightarrow> lastSwitchEpoch c + 1 = epochID c"
    and "run e reqs c = Some (c', resps)" "migrating c'"
  shows "lastSwitchEpoch c' + 1 = epochID c'"
  using assms
proof (induction reqs arbitrary: c \<sigma> resps)
  case (Cons req reqs)
  obtain d resp rs where d: "handle e req c = Some (d, resp)" "run e reqs d = Some (c', rs)"
    using Cons.prems(4) by (auto simp: bind_eq_Some_conv)
  from handle_ok [OF Cons.prems(1,2), of req] d(1) have ok: "ok (spec_step req \<sigma>) d" "window_open d" by auto
  have "advanced c d" using handle_advanced [OF Cons.prems(1,2) d(1)] by simp
  then have "lastSwitchEpoch d + 1 = epochID d" if "migrating d"
    using that Cons.prems(3) by (auto simp: advanced_def split: if_splits)
  from Cons.IH [OF ok this d(2) Cons.prems(5)] show ?case .
qed simp

lemma run_observes:
  assumes "ok \<sigma> c" "window_open c" "ObserveOnly (settings c)" "\<not> migrating c"
    and "run e reqs c = Some (c', resps)"
  shows "activePolicy c' = activePolicy c \<and> \<not> migrating c'"
  using assms
proof (induction reqs arbitrary: c \<sigma> resps)
  case (Cons req reqs)
  obtain d resp rs where d: "handle e req c = Some (d, resp)" "run e reqs d = Some (c', rs)"
    using Cons.prems(5) by (auto simp: bind_eq_Some_conv)
  from handle_ok [OF Cons.prems(1,2), of req] d(1) have ok: "ok (spec_step req \<sigma>) d" "window_open d"
    "settings d = settings c" by auto
  have "advanced c d" using handle_advanced [OF Cons.prems(1,2) d(1)] by simp
  with Cons.prems(3,4) have "activePolicy d = activePolicy c" "\<not> migrating d"
    by (auto simp: advanced_def split: if_splits)
  with Cons.IH [OF ok(1,2) _ _ d(2)] Cons.prems(3) ok(3) show ?case by simp
qed simp

end

end
