(* ===== verification/MigrationFacts.thy ===== *)
theory MigrationFacts
  imports RunFacts Arms
begin

text \<open>
  What a switch preserves when the arms keep exact books: a warm migration copies everything that fits,
  a gradual one serves every pending key until it is drained, and every write drains at least one key.
\<close>

subsection \<open>Caches of exact arms\<close>

locale exact_cache = exact_policy "policy_iface e" inv content capacity
  for e :: "('p, 'k, 'v, 'b) env"
    and inv :: "'p \<Rightarrow> bool"
    and content :: "'p \<Rightarrow> 'k \<rightharpoonup> 'v"
    and capacity :: "'p \<Rightarrow> int"

sublocale exact_cache \<subseteq> adaptive_cache e inv content ..

context exact_cache begin

text \<open>Copying into a cache with room for everything.\<close>

lemma copy_loop_all:
  assumes "inv p" and "inv q" and "content q \<subseteq>\<^sub>m content p" and "int (card (dom (content p))) \<le> capacity q"
    and "set ks \<subseteq> dom (content p)"
  shows "content (fold (copy_key (policy_iface e) p) ks q) = (content q ++ (content p |` set ks)) \<and>
    content q ++ (content p |` set ks) \<subseteq>\<^sub>m content p"
  using assms
proof (induction ks arbitrary: q)
  case Nil
  then show ?case by simp
next
  case (Cons key ks)
  obtain v where v: "content p key = Some v" using Cons.prems(5) by auto
  let ?q = "fst (op_add (policy_iface e) q key v)"
  have step: "copy_key (policy_iface e) p key q = ?q" using v peek_finds [OF Cons.prems(1)] by (simp add: copy_key_def)
  have q': "content ?q = (content q)(key \<mapsto> v)"
  proof (cases "key \<in> dom (content q)")
    case True
    with add_resident [OF Cons.prems(2)] show ?thesis by blast
  next
    case False
    have "dom (content q) \<subset> dom (content p)"
      using False v map_le_implies_dom_le [OF Cons.prems(3)] by blast
    then have "card (dom (content q)) < card (dom (content p))"
      using finite_content [OF Cons.prems(1)] by (intro psubset_card_mono)
    with False add_room [OF Cons.prems(2)] Cons.prems(4) show ?thesis by simp
  qed
  have le: "content ?q \<subseteq>\<^sub>m content p"
    unfolding q' using Cons.prems(3) v by (auto simp: map_le_def)
  have "content q ++ (content p |` set (key # ks)) = content ?q ++ (content p |` set ks)"
    using v le Cons.prems(3) unfolding q'
    by (auto simp: fun_eq_iff map_add_def restrict_map_def split: option.splits)
  with Cons.IH [of ?q] Cons.prems le step show ?case
    by (simp add: add_inv add_capacity)
qed

text \<open>The switch of a warm migration, end to end.\<close>

lemma migrateData_warm:
  assumes "MigrationStrategy (settings c) = MigrationWarm" and "inv p" "inv q"
    and p: "policies c from = Some p" and q: "policies c to = Some q" and "from \<noteq> to"
    and fits: "int (card (dom (content p))) \<le> capacity q"
    and r: "migrateData e from to c = Some c'"
  shows "content_at content c' to = content p"
proof -
  let ?purged = "op_purge (policy_iface e) q"
  have keys: "set (op_keys (policy_iface e) p) = dom (content p)" using keys_enumerate [OF assms(2)] by simp
  have c': "policies c' to = Some (fold (copy_key (policy_iface e) p) (op_keys (policy_iface e) p) ?purged)"
    using r assms(1) p q assms(6) by (auto simp: migrateData_def Let_def frames)
  have "content p |` dom (content p) = content p" by (auto simp: restrict_map_def dom_def fun_eq_iff)
  with copy_loop_all [of p ?purged "op_keys (policy_iface e) p"] assms(2,3) fits keys c'
  show ?thesis by (simp add: purge_inv purge_content purge_capacity)
qed

lemma promote_capacity_fits:
  assumes "policies c to = Some q" "inv q" "nominalCap c to = Some n" "0 < n"
  shows "\<exists>q'. policies (promoteLockedCapacity e to c) to = Some q' \<and> inv q' \<and> capacity q' = n"
  using assms cap_reports [of q]
  by (auto simp: promoteLockedCapacity_def Let_def resize_inv resize_capacity)

lemma warm_switch_complete:
  assumes c: "ok \<sigma> c" and p: "policies c (activePolicy c) = Some p" and to: "to \<noteq> activePolicy c" "policies c to \<noteq> None"
    and strategy: "MigrationStrategy (settings c) = MigrationWarm"
    and n: "nominalCap c to = Some n" "0 < n" "int (card (dom (content p))) \<le> n"
    and sw: "switchLocked e (activePolicy c) to c = Some c'"
  shows "activePolicy c' = to \<and> content_at content c' to = content p"
proof -
  let ?from = "activePolicy c" and ?d = "closeMigrationLocked e c"
  let ?f = "promoteLockedCapacity e to ?d"
  have okd: "ok \<sigma> ?d" by (rule closeMigration_inv [OF c])
  have pd: "policies ?d ?from = Some p"
    using p by (auto simp: closeMigrationLocked_def Let_def frames demoteLocked_eq visit_entry_apply)
  have ip: "inv p" using cache_invD(2) [OF c p] by simp
  have "to \<in> dom (policies ?d)" using to(2) by (auto simp: frames)
  then obtain q where q: "policies ?d to = Some q" by blast
  then have iq: "inv q" using cache_invD(2) [OF okd q] by simp
  obtain q' where q': "policies ?f to = Some q'" "inv q'" "capacity q' = n"
    using promote_capacity_fits [OF q iq, of n] n by (auto simp: frames)
  have pf: "policies ?f ?from = Some p"
    using pd to(1) promoteLockedCapacity_cases [of e to ?d] by auto
  obtain m where m: "migrateData e ?from to ?f = Some m"
    and c': "c' = (let c = m\<lparr>activePolicy := to, tenureStats := (tenureStats m)(?from := None, to := None)\<rparr>
      in if \<not> migrating c then demoteLocked e ?from c else c)"
    using sw by (auto simp: switchLocked_def bind_eq_Some_conv Let_def)
  have "MigrationStrategy (settings ?f) = MigrationWarm"
    using strategy promoteLockedCapacity_cases [of e to ?d] by (auto simp: frames)
  from migrateData_warm [OF this ip q'(2) pf q'(1) to(1) [symmetric] _ m] n(3) q'(3)
  have "content_at content m to = content p" by simp
  then show ?thesis using to(1)
    by (auto simp: c' Let_def content_at_def frames demoteLocked_eq visit_entry_apply)
qed

subsection \<open>Pending keys\<close>

text \<open>A lookup of a key that still waits in an open window finds the source's value.\<close>

lemma active_add_stores:
  assumes "policies c (activePolicy c) = Some q" "inv q" "0 < capacity q" "active_add e key v c = Some (c', ev)"
  shows "\<exists>q'. policies c' (activePolicy c') = Some q' \<and> inv q' \<and> content q' key = Some v"
  using assms add_stored [OF assms(2,3)] by (auto simp: active_add_def split_beta add_inv)

lemma active_get_finds:
  assumes "policies c (activePolicy c) = Some q" "inv q" "active_get e key c = Some (c', r)"
  shows "r = content q key"
  using assms by (auto simp: active_get_def split_beta get_finds)

lemma close_active:
  "policies (closeMigrationLocked e c) (activePolicy c) = policies c (activePolicy c)"
  by (simp add: closeMigrationLocked_def Let_def frames demoteLocked_eq visit_entry_apply)

lemma pending_key_found:
  assumes c: "ok \<sigma> c" "migrating c" and pending: "key \<in> migrationRealKeys c"
    and source: "policies c (migrateFrom c) = Some source" "content source key = Some v"
    and room: "policies c (activePolicy c) = Some q" "0 < capacity q"
    and g: "get_key e key c = Some (c', r)"
  shows "r = Some v"
proof -
  define s where "s = (if sampled (sampler c) key then for_shadows e (\<lambda>p. fst (op_get (policy_iface e) p key)) c else c)"
  have si: "inv source" "op_get_type (policy_iface e) source = migrateFrom c" "migrateFrom c \<noteq> activePolicy c"
    using cache_invD(2) [OF c(1) source(1)] cache_invD(3) [OF c(1,2)] by auto
  have qi: "inv q" "op_get_type (policy_iface e) q = activePolicy c" using cache_invD(2) [OF c(1) room(1)] by auto
  obtain source' where s': "policies s (migrateFrom c) = Some source'" "inv source'" "content source' key = Some v"
  proof (cases "sampled (sampler c) key")
    case True
    with source si that [of "fst (op_get (policy_iface e) source key)"] show ?thesis
      by (simp add: s_def for_shadows_def map_entries_at get_inv get_keeps)
  next
    case False
    with source si(1) that [of source] show ?thesis by (simp add: s_def)
  qed
  have sf: "migrating s" "migrationRealKeys s = migrationRealKeys c" "migrateFrom s = migrateFrom c"
    "activePolicy s = activePolicy c" "policies s (activePolicy c) = Some q"
    using c(2) room(1) qi(2) by (auto simp: s_def for_shadows_def map_entries_at)
  obtain d d' where d: "promoteLocked e key s = Some d" "active_get e key d = Some (d', r)"
    using g c(2) sf(1) unfolding get_key_def get_write_locked_def Let_def s_def [symmetric]
    by (auto simp: bind_eq_Some_conv)
  have peek: "op_peek (policy_iface e) source' key = Some v" using peek_finds [OF s'(2)] s'(3) by simp
  obtain a ev where a: "active_add e key v s = Some (a, ev)"
    using d(1) pending sf s'(1) peek by (auto simp: promoteLocked_def bind_eq_Some_conv)
  let ?f = "a\<lparr>migrationRealKeys := migrationRealKeys a - {key}\<rparr>"
  have "d = (if migrationRealKeys ?f = {} then closeMigrationLocked e ?f else ?f)"
    using d(1) pending sf s'(1) peek a by (simp add: promoteLocked_def)
  moreover obtain q' where "policies a (activePolicy a) = Some q'" "inv q'" "content q' key = Some v"
    using active_add_stores [OF _ qi(1) room(2) a] sf(4,5) by auto
  ultimately have "policies d (activePolicy d) = Some q'" using close_active [of ?f] by (auto simp: frames)
  from active_get_finds [OF this \<open>inv q'\<close> d(2)] \<open>content q' key = Some v\<close> show ?thesis by simp
qed

text \<open>After a gradual switch every entry of the old policy is pending, and the new policy has room.\<close>

lemma gradual_switch_pending:
  assumes c: "ok \<sigma> c" "\<not> migrating c" and p: "policies c (activePolicy c) = Some p"
    and to: "to \<noteq> activePolicy c" "policies c to \<noteq> None"
    and strategy: "MigrationStrategy (settings c) = MigrationGradual"
    and n: "nominalCap c to = Some n" "0 < n" and key: "key \<in> dom (content p)"
    and sw: "switchLocked e (activePolicy c) to c = Some c'"
  shows "migrating c' \<and> activePolicy c' = to \<and> migrateFrom c' = activePolicy c \<and> key \<in> migrationRealKeys c' \<and>
    policies c' (activePolicy c) = Some p \<and> (\<exists>q. policies c' to = Some q \<and> 0 < capacity q)"
proof -
  let ?d = "clearMigrationState c"
  let ?f = "promoteLockedCapacity e to ?d"
  have ip: "inv p" using cache_invD(2) [OF c(1) p] by simp
  have keys: "set (op_keys (policy_iface e) p) = dom (content p)" using keys_enumerate [OF ip] by simp
  then have ne: "op_keys (policy_iface e) p \<noteq> []" using key by auto
  obtain q where q: "policies c to = Some q" using to(2) by blast
  then have iq: "inv q" using cache_invD(2) [OF c(1) q] by simp
  obtain q' where q': "policies ?f to = Some q'" "inv q'" "capacity q' = n"
    using promote_capacity_fits [of ?d to q n] q iq n by (auto simp: frames)
  have pf: "policies ?f (activePolicy c) = Some p"
    using p to(1) promoteLockedCapacity_cases [of e to ?d] by (auto simp: frames)
  have "MigrationStrategy (settings ?f) = MigrationGradual"
    using strategy promoteLockedCapacity_cases [of e to ?d] by (auto simp: frames)
  then have m: "migrateData e (activePolicy c) to ?f =
      Some ((put_policy to (op_purge (policy_iface e) q') (clearMigrationState ?f))\<lparr>migrating := True,
        migrateFrom := activePolicy c, migrationKeys := op_keys (policy_iface e) p,
        migrationRealKeys := set (op_keys (policy_iface e) p)\<rparr>)"
    using pf q'(1) ne to(1) by (auto simp: migrateData_def Let_def frames)
  show ?thesis
    using sw to(1) keys key pf q' n(2) unfolding switchLocked_def close_closed [OF c(2)] Let_def m
    by (auto simp: frames purge_capacity)
qed

lemma gradual_epoch_serves:
  assumes c: "ok \<sigma> c" and r: "runEpoch e c = Some c'" and new: "activePolicy c' \<noteq> activePolicy c"
    and strategy: "MigrationStrategy (settings c) = MigrationGradual"
    and n: "nominalCap c (activePolicy c') = Some n" "0 < n"
    and v: "content_at content c (activePolicy c) key = Some v"
    and g: "get_key e key c' = Some (c'', r)"
  shows "r = Some v"
proof -
  from runEpoch_switches [OF c r new] obtain f h where f: "ok \<sigma> f" "\<not> migrating f" "activePolicy f = activePolicy c"
    "settings f = settings c" "nominalCap f = nominalCap c" "policies f (activePolicy c') \<noteq> None"
    "content_at content f (activePolicy c) = content_at content c (activePolicy c)"
    "switchLocked e (activePolicy f) (activePolicy c') f = Some h"
    "c' = h\<lparr>lastSwitchEpoch := epochID h, epochID := epochID h + 1\<rparr>" by blast
  obtain p where p: "policies f (activePolicy f) = Some p" using cache_invD(1) [OF f(1)] by blast
  have pv: "content p key = Some v" using v f(3,7) p by simp
  have new': "activePolicy c' \<noteq> activePolicy f" using new f(3) by simp
  have sw: "migrating h \<and> activePolicy h = activePolicy c' \<and> migrateFrom h = activePolicy f \<and>
      key \<in> migrationRealKeys h \<and> policies h (activePolicy f) = Some p \<and>
      (\<exists>q. policies h (activePolicy c') = Some q \<and> 0 < capacity q)"
    using gradual_switch_pending [OF f(1,2) p new' f(6) _ _ n(2) _ f(8), of key] strategy n(1) f(4,5) pv
    by (simp add: domI)
  have ok': "ok \<sigma> c'" using runEpoch_ok [OF c] r by auto
  obtain q where q: "policies h (activePolicy c') = Some q" "0 < capacity q" using sw by blast
  have same: "migrating c' = migrating h" "migrationRealKeys c' = migrationRealKeys h"
    "policies c' = policies h" "migrateFrom c' = migrateFrom h"
    using f(9) by simp_all
  show ?thesis
    by (rule pending_key_found [OF ok' _ _ _ pv _ q(2) g]) (use sw q(1) in \<open>simp_all add: same\<close>)
qed

lemma warm_epoch_complete:
  assumes c: "ok \<sigma> c" and r: "runEpoch e c = Some c'" and new: "activePolicy c' \<noteq> activePolicy c"
    and strategy: "MigrationStrategy (settings c) = MigrationWarm"
    and n: "nominalCap c (activePolicy c') = Some n" "int (card (dom (content_at content c (activePolicy c)))) \<le> n" "0 < n"
  shows "content_at content c' (activePolicy c') = content_at content c (activePolicy c)"
proof -
  from runEpoch_switches [OF c r new] obtain f h where f: "ok \<sigma> f" "\<not> migrating f" "activePolicy f = activePolicy c"
    "settings f = settings c" "nominalCap f = nominalCap c" "policies f (activePolicy c') \<noteq> None"
    "content_at content f (activePolicy c) = content_at content c (activePolicy c)"
    "switchLocked e (activePolicy f) (activePolicy c') f = Some h"
    "c' = h\<lparr>lastSwitchEpoch := epochID h, epochID := epochID h + 1\<rparr>" by blast
  obtain p where p: "policies f (activePolicy f) = Some p" using cache_invD(1) [OF f(1)] by blast
  have cp: "content p = content_at content c (activePolicy c)" using p f(3,7) by simp
  have new': "activePolicy c' \<noteq> activePolicy f" using new f(3) by simp
  from warm_switch_complete [OF f(1) p new' f(6) _ _ n(3) _ f(8)] strategy n f(4,5) cp
  have "content_at content h (activePolicy c') = content p" by simp
  then show ?thesis using cp f(9) by (simp add: content_at_def)
qed

end

subsection \<open>Draining\<close>

lemma active_add_window:
  "active_add e k v c = Some (c', ev) \<Longrightarrow> migrating c' = migrating c \<and> migrationRealKeys c' = migrationRealKeys c \<and>
    migrationKeys c' = migrationKeys c"
  by (auto simp: active_add_def bind_eq_Some_conv split_beta)

lemma drain_loop_progress:
  assumes "drain_loop e ks c = Some c'" "finite (migrationRealKeys c)" "migrationRealKeys c \<subseteq> set ks"
  shows "\<not> migrating c' \<or> card (migrationRealKeys c') < card (migrationRealKeys c)"
  using assms
proof (induction ks arbitrary: c)
  case Nil
  then have "c' = closeMigrationLocked e c" by simp
  then show ?case by (simp add: frames)
next
  case (Cons key rest)
  let ?c = "c\<lparr>migrationKeys := rev rest\<rparr>"
  show ?case
  proof (cases "key \<in> migrationRealKeys c")
    case False
    with Cons.IH [of ?c] Cons.prems show ?thesis by auto
  next
    case True
    have less: "card (migrationRealKeys c - {key}) < card (migrationRealKeys c)"
      using True Cons.prems(2) by (meson card_Diff1_less)
    obtain source where source: "policies c (migrateFrom c) = Some source"
      using Cons.prems(1) True by (auto simp: bind_eq_Some_conv Let_def)
    show ?thesis
    proof (cases "op_peek (policy_iface e) source key")
      case None
      with Cons.prems True source
      have "drain_loop e rest (?c\<lparr>migrationRealKeys := migrationRealKeys c - {key}\<rparr>) = Some c'" by simp
      moreover have "migrationRealKeys c - {key} \<subseteq> set rest" using Cons.prems(3) by auto
      ultimately show ?thesis using Cons.IH [of "?c\<lparr>migrationRealKeys := migrationRealKeys c - {key}\<rparr>"] Cons.prems(2) less
        by auto
    next
      case (Some v)
      obtain d ev where d: "active_add e key v ?c = Some (d, ev)"
        using Cons.prems True source Some by (auto simp: bind_eq_Some_conv Let_def)
      then have "c' = (let d = d\<lparr>migrationRealKeys := migrationRealKeys d - {key}\<rparr> in
          if migrationRealKeys d = {} then closeMigrationLocked e d else d)"
        using Cons.prems True source Some by (simp add: Let_def)
      with active_add_window [OF d] less show ?thesis by (auto simp: Let_def frames)
    qed
  qed
qed

lemma Add_progress:
  assumes "Add e key v c = Some (c', ev)" "migrationRealKeys c \<subseteq> set (migrationKeys c)"
  shows "\<not> migrating c' \<or> card (migrationRealKeys c') < card (migrationRealKeys c)"
proof -
  define s where "s = (if sampled (sampler c) key
    then for_shadows e (\<lambda>p. fst (op_add (policy_iface e) p key (zero_value e))) c else c)"
  define f where "f = s\<lparr>migrationRealKeys := migrationRealKeys s - {key}\<rparr>"
  have sf: "migrationRealKeys s = migrationRealKeys c" "migrationKeys s = migrationKeys c" by (simp_all add: s_def)
  have fin: "finite (migrationRealKeys c)" using assms(2) finite_subset by blast
  obtain d where d: "(if migrating s then
      (if migrationRealKeys f = {} then Some (closeMigrationLocked e f) else drainOneKey e f) else Some s) = Some d"
    and a: "active_add e key v d = Some (c', ev)"
    using assms(1) by (simp only: Add_def Let_def s_def [symmetric] f_def [symmetric] bind_eq_Some_conv) blast
  have ff: "finite (migrationRealKeys f)" "migrationRealKeys f \<subseteq> set (migrationKeys f)"
    "card (migrationRealKeys f) \<le> card (migrationRealKeys c)"
    using fin assms(2) sf by (auto simp: f_def intro: card_mono)
  have "\<not> migrating d \<or> card (migrationRealKeys d) < card (migrationRealKeys c)"
  proof (cases "migrating s")
    case False
    with d show ?thesis by auto
  next
    case True
    show ?thesis
    proof (cases "migrationRealKeys f = {}")
      case True
      with d \<open>migrating s\<close> show ?thesis by (auto simp: frames)
    next
      case False
      with d \<open>migrating s\<close> have "drain_loop e (rev (migrationKeys f)) f = Some d" by (simp add: drainOneKey_def)
      from drain_loop_progress [OF this ff(1)] ff(2,3) show ?thesis by auto
    qed
  qed
  with active_add_window [OF a] show ?thesis by simp
qed

context adaptive_cache begin

text \<open>As many writes as there are pending keys close the window.\<close>

lemma writes_close_window:
  assumes "ok \<sigma> c" "window_open c" "card (migrationRealKeys c) \<le> length kvs"
    and "run e (map (\<lambda>(k, v). ReqAdd k v) kvs) c = Some (c', resps)"
  shows "\<not> migrating c'"
  using assms
proof (induction kvs arbitrary: c \<sigma> resps)
  case Nil
  have "migrationRealKeys c \<noteq> {}" if "migrating c" using Nil.prems(2) that by (simp add: window_open_def)
  moreover have "finite (migrationRealKeys c)"
    using Nil.prems(1) finite_subset by (auto simp: cache_inv_def window_def split: if_splits)
  ultimately show ?case using Nil.prems by auto
next
  case (Cons kv kvs)
  obtain k v where kv: "kv = (k, v)" by (cases kv)
  obtain d ev rs where d: "Add e k v c = Some (d, ev)" "run e (map (\<lambda>(k, v). ReqAdd k v) kvs) d = Some (c', rs)"
    using Cons.prems(4) by (auto simp: kv bind_eq_Some_conv)
  have okd: "ok (\<sigma>(k \<mapsto> v)) d" "window_open d" using Add_ok [OF Cons.prems(1,2), of k v] d(1) by auto
  have sub: "migrationRealKeys c \<subseteq> set (migrationKeys c)"
    using Cons.prems(1) by (auto simp: cache_inv_def window_def split: if_splits)
  have "card (migrationRealKeys d) \<le> length kvs"
  proof (cases "migrating d")
    case True
    with Add_progress [OF d(1) sub] Cons.prems(3) show ?thesis by simp
  next
    case False
    with okd(1) show ?thesis by (simp add: cache_inv_def window_def)
  qed
  from Cons.IH [OF okd this d(2)] show ?case .
qed

end

subsection \<open>The two arms keep exact books\<close>

lemma sum_exact:
  assumes A: "exact_policy A inv_a con_a cap_a" and B: "exact_policy B inv_b con_b cap_b"
  shows "exact_policy (sum_ops A B) (case_sum inv_a inv_b) (case_sum con_a con_b) (case_sum cap_a cap_b)"
proof -
  note EA = exact_policy.axioms(2) [OF A] and EB = exact_policy.axioms(2) [OF B]
  note P = sum_policy [OF exact_policy.axioms(1) [OF A] exact_policy.axioms(1) [OF B]]
  note facts = exact_cacher.finite_content [OF EA] exact_cacher.finite_content [OF EB]
    exact_cacher.within_capacity [OF EA] exact_cacher.within_capacity [OF EB]
    exact_cacher.get_finds [OF EA] exact_cacher.get_finds [OF EB]
    exact_cacher.get_keeps [OF EA] exact_cacher.get_keeps [OF EB]
    exact_cacher.peek_finds [OF EA] exact_cacher.peek_finds [OF EB]
    exact_cacher.contains_finds [OF EA] exact_cacher.contains_finds [OF EB]
    exact_cacher.len_counts [OF EA] exact_cacher.len_counts [OF EB]
    exact_cacher.keys_enumerate [OF EA] exact_cacher.keys_enumerate [OF EB]
    exact_cacher.values_enumerate [OF EA] exact_cacher.values_enumerate [OF EB]
    exact_cacher.add_resident [OF EA] exact_cacher.add_resident [OF EB]
    exact_cacher.add_room [OF EA] exact_cacher.add_room [OF EB]
    exact_cacher.add_zero [OF EA] exact_cacher.add_zero [OF EB]
    exact_cacher.remove_exact [OF EA] exact_cacher.remove_exact [OF EB]
    exact_cacher.resize_exact [OF EA] exact_cacher.resize_exact [OF EB]
    exact_cacher.add_capacity [OF EA] exact_cacher.add_capacity [OF EB]
    exact_cacher.get_capacity [OF EA] exact_cacher.get_capacity [OF EB]
    exact_cacher.purge_capacity [OF EA] exact_cacher.purge_capacity [OF EB]
    exact_cacher.remove_capacity [OF EA] exact_cacher.remove_capacity [OF EB]
    exact_cacher.resize_capacity [OF EA] exact_cacher.resize_capacity [OF EB]
    exact_policy.cap_reports [OF A] exact_policy.cap_reports [OF B]
    exact_policy.reset_capacity [OF A] exact_policy.reset_capacity [OF B]
  note full = exact_cacher.add_full [OF EA] exact_cacher.add_full [OF EB]
  have "exact_cacher_axioms (sum_ops A B) (case_sum inv_a inv_b) (case_sum con_a con_b) (case_sum cap_a cap_b)"
    by unfold_locales
      (simp_all only: sum_ops_def on_sum_def cacher_ops.select_convs policy_ops.select_convs split: sum.splits,
       simp_all add: facts del: domIff split: sum.splits, (blast dest: full)+)
  moreover have "exact_policy_axioms (sum_ops A B) (case_sum inv_a inv_b) (case_sum cap_a cap_b)"
    by unfold_locales
      (simp_all only: sum_ops_def on_sum_def cacher_ops.select_convs policy_ops.select_convs split: sum.splits,
       simp_all add: facts split: sum.splits)
  ultimately show ?thesis
    using P by (intro exact_policy.intro exact_cacher.intro policy_contract.axioms(1) [OF P])
qed

definition arm_capacity :: "('k, 'v) arm \<Rightarrow> int" where
  "arm_capacity = case_sum (wrapped lfu_capacity) (wrapped rsize)"

interpretation exact_arms: exact_policy "arm_ops order zk zv" arm_inv arm_content arm_capacity for order zk zv
  unfolding arm_ops_def arm_inv_def arm_content_def arm_capacity_def
  by (intro sum_exact lfu_arm.exact_policy_axioms random_arm.exact_policy_axioms)

interpretation exact_arm_cache: exact_cache "arm_env order zk zv bo" arm_inv arm_content arm_capacity for order zk zv bo
  by (simp add: exact_cache_def arm_env_def exact_arms.exact_policy_axioms)

end
