(* ===== verification/EpochTheorems.thy ===== *)
theory EpochTheorems
  imports RunFacts CacheTheorems
begin

text \<open>
  What the cache promises about its control plane: what the statistics and the bandit's reports mean,
  when the active policy may change, and how long a gradual window lasts.
\<close>

text \<open>Every state a run reaches satisfies the invariant.\<close>

lemma reached:
  assumes "policy_contract (policy_iface e) good content" and "\<And>p. Some p \<in> set pols \<Longrightarrow> good p"
    and "NewAdaptiveCache e hash pols b s = Inr c" and "run e reqs c = Some (c', resps)"
  shows "adaptive_cache e good content" and "\<exists>\<sigma>. cache_inv e good content \<sigma> c \<and> window_open c"
    and "\<exists>\<sigma>. cache_inv e good content \<sigma> c' \<and> window_open c'"
proof -
  show ac: "adaptive_cache e good content" using assms(1) by (simp add: adaptive_cache_def)
  from adaptive_cache.construct_ok [OF ac assms(3,2)] obtain \<sigma> where
    c: "cache_inv e good content \<sigma> c" "window_open c" by blast
  then show "\<exists>\<sigma>. cache_inv e good content \<sigma> c \<and> window_open c" by blast
  from adaptive_cache.run_ok [OF ac c, of reqs] assms(4)
  show "\<exists>\<sigma>. cache_inv e good content \<sigma> c' \<and> window_open c'" by auto
qed

text \<open>A cache built from the demonstration's arms with other settings and another bandit.\<close>

definition demo_build ::
  "'b bandit_ops \<Rightarrow> 'b \<Rightarrow> cache_settings \<Rightarrow> ((int, int) arm, int, 'b) cache" where
  "demo_build bo b s =
     projr (NewAdaptiveCache (arm_env (\<lambda>_. []) 0 0 bo) (\<lambda>_. 0) [Some demo_lfu, Some demo_random] (Some b) (Some s))"

lemma demo_build_ok:
  assumes "\<not> isl (NewAdaptiveCache (arm_env (\<lambda>_. []) 0 0 bo) (\<lambda>_. 0) [Some demo_lfu, Some demo_random] (Some b) (Some s))"
  shows "NewAdaptiveCache (arm_env (\<lambda>_. []) 0 0 bo) (\<lambda>_. 0) [Some demo_lfu, Some demo_random] (Some b) (Some s) =
    Inr (demo_build bo b s)"
  using assms by (cases "NewAdaptiveCache (arm_env (\<lambda>_. []) 0 0 bo) (\<lambda>_. 0) [Some demo_lfu, Some demo_random] (Some b) (Some s)")
    (simp_all add: demo_build_def)

lemma demo_build_contract: "policy_contract (policy_iface (arm_env order 0 0 bo)) arm_inv arm_content"
  by (simp add: arm_env_def arms.policy_contract_axioms)

subsection \<open>Statistics\<close>

text \<open>C12: \<^verbatim>\<open>Stats\<close> counts every \<^verbatim>\<open>Get\<close> exactly once: over any run, hits grow by the lookups that
  returned a value and misses by those that did not, across epochs, switches and gradual windows, and
  nothing else is counted.\<close>

theorem stats_count_every_get:
  assumes "policy_contract (policy_iface e) good content" and "\<And>p. Some p \<in> set pols \<Longrightarrow> good p"
    and "NewAdaptiveCache e hash pols b s = Inr c" and "run e reqs c = Some (c', resps)"
    and "Stats e c = Some before"
  shows "Stats e c' = Some (add_stats before (sum_stats (map2 lookup_counts reqs resps)))"
proof -
  note r = reached [OF assms(1-4)]
  obtain \<sigma> where ok: "cache_inv e good content \<sigma> c" "window_open c" using r(2) by blast
  have "policies c (activePolicy c) \<noteq> None" "policies c' (activePolicy c') \<noteq> None"
    using ok(1) r(3) by (auto simp: cache_inv_def well_formed_def)
  with adaptive_cache.run_counts [OF r(1) ok assms(4)] assms(5) show ?thesis by (simp add: Stats_shown)
qed

definition demo_lookups :: "(int, int) request list" where
  "demo_lookups = [ReqAdd 1 10, ReqGet 1, ReqGet 2, EpochTick, ReqGet 1, ReqGet 3]"

lemma stats_count_every_get_witness:
  "\<exists>c' resps. run demo_env demo_lookups (demo_cache MigrationGradual) = Some (c', resps) \<and>
    ActivePolicy c' = Random \<and> Stats demo_env c' = Some \<lparr>Hits = 2, Misses = 2\<rparr>"
proof -
  let ?r = "run demo_env demo_lookups (demo_cache MigrationGradual)"
  have facts: "map_option snd ?r = Some [RespBool False, RespValue (Some 10), RespValue None, RespUnit,
      RespValue (Some 10), RespValue None] \<and> map_option (\<lambda>r. ActivePolicy (fst r)) ?r = Some Random \<and>
    Stats demo_env (demo_cache MigrationGradual) = Some zero_stats"
    by code_simp
  then obtain c' where c': "?r = Some (c', [RespBool False, RespValue (Some 10), RespValue None, RespUnit,
      RespValue (Some 10), RespValue None])" "ActivePolicy c' = Random"
    by (cases ?r) auto
  from stats_count_every_get [OF demo_contract demo_arms_good demo_new_ok(3) [unfolded demo_new_def] c'(1)] facts c'
  show ?thesis by (auto simp: demo_lookups_def outcome_def add_stats_def)
qed

text \<open>C13: An epoch that the capacity gate does not skip tells the bandit about every policy exactly once:
  the active policy with its sampled lookups, each shadow with its own counters, in the order of their
  types, to an \<^verbatim>\<open>EpochBandit\<close> in one report and to any other bandit one by one; the bandit's selection
  is asked for after that.\<close>

theorem epoch_tells_every_arm:
  assumes "policy_contract (policy_iface e) good content" and "\<And>p. Some p \<in> set pols \<Longrightarrow> good p"
    and "NewAdaptiveCache e hash pols b s = Inr c" and "run e reqs c = Some (c1, resps)"
    and "runEpoch e c1 = Some c2" and "d = closeMigrationLocked e c1" and "\<not> skipped e d"
  shows "sorted (policyOrder d) \<and> distinct (policyOrder d) \<and> set (policyOrder d) = dom (policies d) \<and>
    (\<exists>told_bandit. told e d told_bandit \<and> bandit c2 = fst (held_select_policy (bandit_iface e) told_bandit))"
proof -
  note r = reached [OF assms(1-4)]
  obtain \<sigma> where ok: "cache_inv e good content \<sigma> c1" "window_open c1" using r(3) by blast
  have "cache_inv e good content \<sigma> d" unfolding assms(6) by (rule adaptive_cache.closeMigration_inv [OF r(1) ok(1)])
  then have "sorted (policyOrder d) \<and> distinct (policyOrder d) \<and> set (policyOrder d) = dom (policies d)"
    by (simp add: cache_inv_def well_formed_def)
  with adaptive_cache.runEpoch_result [OF r(1) ok(1) assms(5)] assms(6,7) show ?thesis by auto
qed

definition log_bandit :: "shadow_stats list bandit_ops" where
  "log_bandit = \<lparr>bo_record_stats = (\<lambda>b s. b @ [s]), bo_select_policy = (\<lambda>b. (b, LFU)), bo_record_epoch = None\<rparr>"

definition logged :: "((int, int) arm, int, shadow_stats list) cache" where
  "logged = demo_build log_bandit [] (demo_settings MigrationCold)"

lemma logged_ok:
  "NewAdaptiveCache (arm_env (\<lambda>_. []) 0 0 log_bandit) (\<lambda>_. 0) [Some demo_lfu, Some demo_random] (Some [])
     (Some (demo_settings MigrationCold)) = Inr logged"
  unfolding logged_def by (rule demo_build_ok) code_simp

lemma epoch_tells_every_arm_witness:
  "map_option (\<lambda>r. bandit (fst r)) (run (arm_env (\<lambda>_. []) 0 0 log_bandit) [ReqAdd 1 10, ReqGet 1, ReqGet 2, EpochTick] logged) =
    Some (CallerBandit [\<lparr>ss_policy = LFU, ss_hits = 1, ss_misses = 1\<rparr>, \<lparr>ss_policy = Random, ss_hits = 1, ss_misses = 1\<rparr>])"
proof -
  let ?e = "arm_env (\<lambda>_. []) 0 0 log_bandit" and ?reqs = "[ReqAdd 1 10, ReqGet 1, ReqGet 2]"
  let ?r = "run ?e ?reqs logged" and ?d = "\<lambda>c. closeMigrationLocked ?e c"
  have facts: "let r = ?r; d = ?d (fst (the r)) in \<not> Option.is_none r \<and> \<not> Option.is_none (runEpoch ?e (fst (the r))) \<and>
      EvictPartialCapacityFilling (settings d) \<and> \<not> epochBandit d \<and>
      bandit d = CallerBandit [] \<and> map (arm_report ?e (activePolicy d) d) (policyOrder d) =
        [\<lparr>ss_policy = LFU, ss_hits = 1, ss_misses = 1\<rparr>, \<lparr>ss_policy = Random, ss_hits = 1, ss_misses = 1\<rparr>]"
    by code_simp
  then obtain c1 resps c2 where c1: "?r = Some (c1, resps)" and c2: "runEpoch ?e c1 = Some c2"
    by (auto simp: Option.is_none_def Let_def)
  have "\<not> skipped ?e (?d c1)" using facts c1 by (simp add: skipped_def Let_def)
  from epoch_tells_every_arm [OF demo_build_contract demo_arms_good logged_ok c1 c2 refl this]
  obtain b where "told ?e (?d c1) b" "bandit c2 = fst (held_select_policy log_bandit b)"
    by (auto simp: arm_env_def)
  with facts c1 have "bandit c2 = CallerBandit [\<lparr>ss_policy = LFU, ss_hits = 1, ss_misses = 1\<rparr>, \<lparr>ss_policy = Random, ss_hits = 1, ss_misses = 1\<rparr>]"
    by (simp add: told_def Let_def log_bandit_def arm_env_def)
  moreover have "run ?e (?reqs @ [EpochTick]) logged = Some (c2, resps @ [RespUnit])"
    using c1 c2 by (auto simp: bind_eq_Some_conv)
  ultimately show ?thesis by simp
qed

subsection \<open>Switches\<close>

text \<open>C7: The active policy changes only through the gates: when an epoch changes it, the cache is not
  observing only, the new policy is the bandit's selection and one the cache has, the cooldown since the
  last switch has passed, and, where the thresholds are set, both arms measured enough requests in this
  epoch and the new one's hit rate was better by the required margin.\<close>

theorem switch_only_through_gates:
  assumes "policy_contract (policy_iface e) good content" and "\<And>p. Some p \<in> set pols \<Longrightarrow> good p"
    and "NewAdaptiveCache e hash pols b s = Inr c" and "run e reqs c = Some (c1, resps)"
    and "runEpoch e c1 = Some c2" and "activePolicy c2 \<noteq> activePolicy c1"
    and "d = closeMigrationLocked e c1" and "old = measured e (activePolicy d) d (activePolicy c1)"
    and "new = measured e (activePolicy d) d (activePolicy c2)"
  shows "\<not> ObserveOnly (settings c1) \<and> policies d (activePolicy c2) \<noteq> None \<and>
    (\<exists>told_bandit. told e d told_bandit \<and> activePolicy c2 = snd (held_select_policy (bandit_iface e) told_bandit)) \<and>
    (SwitchCooldownEpochs (settings c1) > 0 \<longrightarrow>
      SwitchCooldownEpochs (settings c1) \<le> epochID c1 - lastSwitchEpoch c1) \<and>
    (MinEpochRequests (settings c1) > 0 \<longrightarrow>
      MinEpochRequests (settings c1) \<le> Hits old + Misses old \<and> MinEpochRequests (settings c1) \<le> Hits new + Misses new) \<and>
    (MinHitRateImprovement (settings c1) > 0 \<longrightarrow>
      MinHitRateImprovement (settings c1) \<le> f64_sub (hitRate new) (hitRate old))"
proof -
  note r = reached [OF assms(1-4)]
  obtain \<sigma> where ok: "cache_inv e good content \<sigma> c1" "window_open c1" using r(3) by blast
  have okd: "cache_inv e good content \<sigma> d" unfolding assms(7) by (rule adaptive_cache.closeMigration_inv [OF r(1) ok(1)])
  note out = adaptive_cache.runEpoch_result [OF r(1) ok(1) assms(5), folded assms(7)]
  with assms(6) obtain s' where ns: "\<not> skipped e d" and sel: "selectPolicyLocked e d = Some (s', activePolicy c2)"
    and allow: "allowSwitchLocked (activePolicy c2) s'" by auto
  note res = adaptive_cache.select_result [OF r(1) okd sel]
  have ctl: "control d = control c1" by (simp add: assms(7))
  have same: "settings s' = settings c1" "epochID s' = epochID c1" "lastSwitchEpoch s' = lastSwitchEpoch c1"
    "activePolicy s' = activePolicy c1" "activePolicy d = activePolicy c1" "dom (policies s') = dom (policies d)"
    using res controlD [OF ctl] by (simp_all add: same_roles_def)
  have "policies d (activePolicy c1) \<noteq> None" using okd same(5) by (simp add: cache_inv_def well_formed_def)
  then have old: "epochStats s' (activePolicy c1) = Some old" using res ns same(5) by (auto simp: assms(8))
  have has: "activePolicy c2 \<in> dom (policies d)"
    using assms(5-7) sel out ns same by (auto simp: runEpoch_def bind_eq_Some_conv Let_def hasPolicy_def split: if_splits)
  then have new: "epochStats s' (activePolicy c2) = Some new" using res ns by (auto simp: assms(9))
  have gates: "(SwitchCooldownEpochs (settings c1) > 0 \<longrightarrow>
      SwitchCooldownEpochs (settings c1) \<le> epochID c1 - lastSwitchEpoch c1) \<and>
    (MinEpochRequests (settings c1) > 0 \<longrightarrow>
      MinEpochRequests (settings c1) \<le> Hits old + Misses old \<and> MinEpochRequests (settings c1) \<le> Hits new + Misses new) \<and>
    (MinHitRateImprovement (settings c1) > 0 \<longrightarrow>
      MinHitRateImprovement (settings c1) \<le> f64_sub (hitRate new) (hitRate old))"
    using allow old new same by (auto simp: allowSwitchLocked_def switchGated_def Let_def split: if_splits)
  from out assms(6) ns obtain b where "told e d b" "activePolicy c2 = snd (held_select_policy (bandit_iface e) b)"
    by auto
  moreover have "\<not> ObserveOnly (settings c1)" using out assms(6) by auto
  ultimately show ?thesis using gates has by blast
qed

lemma switch_only_through_gates_witness:
  "ActivePolicy (demo_after MigrationCold) = Random \<and>
    policies (demo_cache MigrationCold) Random \<noteq> None"
proof -
  let ?c = "demo_cache MigrationCold"
  have facts: "let r = runEpoch demo_env ?c in \<not> Option.is_none r \<and> activePolicy (the r) = Random \<and>
      activePolicy ?c = LFU \<and> \<not> migrating ?c \<and> ActivePolicy (demo_after MigrationCold) = Random"
    by code_simp
  then obtain c2 where c2: "runEpoch demo_env ?c = Some c2" and act: "activePolicy c2 = Random" "activePolicy ?c = LFU"
    by (auto simp: Option.is_none_def Let_def)
  have "activePolicy c2 \<noteq> activePolicy ?c" using act by (simp add: names)
  have "run demo_env [] ?c = Some (?c, [])" by simp
  from switch_only_through_gates [OF demo_contract demo_arms_good demo_new_ok(1) [unfolded demo_new_def] this c2
      \<open>activePolicy c2 \<noteq> activePolicy ?c\<close> refl refl refl]
  have "policies (closeMigrationLocked demo_env ?c) Random \<noteq> None" by (simp add: act)
  then show ?thesis using facts by (simp add: Let_def frames closeMigrationLocked_def)
qed

text \<open>C14: Switches keep their distance: in any run from a new cache, the epochs at which the active policy
  changes are at least \<^verbatim>\<open>SwitchCooldownEpochs\<close> apart, and never two in one epoch.\<close>

theorem switches_keep_distance:
  assumes "policy_contract (policy_iface e) good content" and "\<And>p. Some p \<in> set pols \<Longrightarrow> good p"
    and "NewAdaptiveCache e hash pols b s = Inr c"
  shows "sorted_wrt (\<lambda>i j. i + max 1 (SwitchCooldownEpochs (settings c)) \<le> j) (switch_epochs e reqs c)"
proof -
  have "run e [] c = Some (c, [])" by simp
  note r = reached [OF assms this]
  then obtain \<sigma> where "cache_inv e good content \<sigma> c" "window_open c" by blast
  from adaptive_cache.run_switches [OF r(1) this refl] show ?thesis by blast
qed

text \<open>A bandit that changes its mind every epoch, held back by a cooldown of three.\<close>

definition fickle :: "bool bandit_ops" where
  "fickle = \<lparr>bo_record_stats = (\<lambda>b s. b), bo_select_policy = (\<lambda>b. (\<not> b, if b then Random else LFU)), bo_record_epoch = None\<rparr>"

definition cooled :: "((int, int) arm, int, bool) cache" where
  "cooled = demo_build fickle False ((demo_settings MigrationCold)\<lparr>SwitchCooldownEpochs := 3\<rparr>)"

lemma cooled_ok:
  "NewAdaptiveCache (arm_env (\<lambda>_. []) 0 0 fickle) (\<lambda>_. 0) [Some demo_lfu, Some demo_random] (Some False)
     (Some ((demo_settings MigrationCold)\<lparr>SwitchCooldownEpochs := 3\<rparr>)) = Inr cooled"
  unfolding cooled_def by (rule demo_build_ok) code_simp

lemma switches_keep_distance_witness:
  "sorted_wrt (\<lambda>i j. i + 3 \<le> j) (switch_epochs (arm_env (\<lambda>_. []) 0 0 fickle) (replicate 9 EpochTick) cooled)"
proof -
  have "SwitchCooldownEpochs (settings cooled) = 3" by code_simp
  with switches_keep_distance [OF demo_build_contract demo_arms_good cooled_ok, of "replicate 9 EpochTick"]
  show ?thesis by simp
qed

text \<open>C15: Observing never acts: with \<^verbatim>\<open>ObserveOnly\<close> set, no run of requests and epochs ever changes the
  active policy or opens a migration window, whatever the bandit selects.\<close>

theorem observe_only_never_acts:
  assumes "policy_contract (policy_iface e) good content" and "\<And>p. Some p \<in> set pols \<Longrightarrow> good p"
    and "NewAdaptiveCache e hash pols b (Some s) = Inr c" and "ObserveOnly s"
    and "run e reqs c = Some (c', resps)"
  shows "activePolicy c' = activePolicy c \<and> \<not> migrating c'"
proof -
  have ac: "adaptive_cache e good content" using assms(1) by (simp add: adaptive_cache_def)
  from adaptive_cache.construct_ok [OF ac assms(3,2)] obtain \<sigma> where
    c: "cache_inv e good content \<sigma> c" "window_open c" "\<not> migrating c" "settings c = s" by auto
  from adaptive_cache.run_observes [OF ac c(1,2) _ c(3) assms(5)] assms(4) c(4) show ?thesis by simp
qed

definition observed :: "((int, int) arm, int, unit) cache" where
  "observed = demo_build (stubborn_bandit Random) () ((demo_settings MigrationWarm)\<lparr>ObserveOnly := True\<rparr>)"

lemma observed_ok:
  "NewAdaptiveCache (arm_env (\<lambda>_. []) 0 0 (stubborn_bandit Random)) (\<lambda>_. 0) [Some demo_lfu, Some demo_random] (Some ())
     (Some ((demo_settings MigrationWarm)\<lparr>ObserveOnly := True\<rparr>)) = Inr observed"
  unfolding observed_def by (rule demo_build_ok) code_simp

lemma observe_only_never_acts_witness:
  "map_option (\<lambda>r. ActivePolicy (fst r)) (run (arm_env (\<lambda>_. []) 0 0 (stubborn_bandit Random)) demo_requests observed) = Some LFU"
proof -
  let ?r = "run (arm_env (\<lambda>_. []) 0 0 (stubborn_bandit Random)) demo_requests observed"
  have facts: "\<not> Option.is_none ?r \<and> activePolicy observed = LFU" by code_simp
  then obtain c' resps where r: "?r = Some (c', resps)" by (cases ?r) auto
  have "ObserveOnly ((demo_settings MigrationWarm)\<lparr>ObserveOnly := True\<rparr>)" by simp
  from observe_only_never_acts [OF demo_build_contract demo_arms_good observed_ok this r] facts r
  show ?thesis by (simp add: ActivePolicy_def)
qed

text \<open>C10: A gradual migration window lasts one epoch at most: in every reachable state an open window was
  opened by the epoch before the current one, so the next epoch's tick closes it.\<close>

theorem window_lasts_one_epoch:
  assumes "policy_contract (policy_iface e) good content" and "\<And>p. Some p \<in> set pols \<Longrightarrow> good p"
    and "NewAdaptiveCache e hash pols b s = Inr c" and "run e reqs c = Some (c', resps)" and "migrating c'"
  shows "lastSwitchEpoch c' + 1 = epochID c'"
proof -
  have ac: "adaptive_cache e good content" using assms(1) by (simp add: adaptive_cache_def)
  from adaptive_cache.construct_ok [OF ac assms(3,2)] obtain \<sigma> where
    c: "cache_inv e good content \<sigma> c" "window_open c" "\<not> migrating c" by auto
  from adaptive_cache.run_window [OF ac c(1,2) _ assms(4,5)] c(3) show ?thesis by blast
qed

definition demo_window_requests :: "(int, int) request list" where
  "demo_window_requests = [ReqAdd 1 10]"

text \<open>The bandit sends the cache to Random while the LFU policy holds an entry.\<close>

definition reopened :: "((int, int) arm, int, bool) cache" where
  "reopened = demo_build fickle True (demo_settings MigrationGradual)"

lemma reopened_ok:
  "NewAdaptiveCache (arm_env (\<lambda>_. []) 0 0 fickle) (\<lambda>_. 0) [Some demo_lfu, Some demo_random] (Some True)
     (Some (demo_settings MigrationGradual)) = Inr reopened"
  unfolding reopened_def by (rule demo_build_ok) code_simp

lemma window_lasts_one_epoch_witness:
  "map_option (\<lambda>r. (migrating (fst r), epochID (fst r), lastSwitchEpoch (fst r)))
     (run (arm_env (\<lambda>_. []) 0 0 fickle) (demo_window_requests @ [EpochTick]) reopened) = Some (True, 1, 0)"
proof -
  let ?r = "run (arm_env (\<lambda>_. []) 0 0 fickle) (demo_window_requests @ [EpochTick]) reopened"
  have facts: "map_option (\<lambda>r. (migrating (fst r), epochID (fst r))) ?r = Some (True, 1)" by code_simp
  then obtain c' resps where r: "?r = Some (c', resps)" "migrating c'" "epochID c' = 1" by (cases ?r) auto
  from window_lasts_one_epoch [OF demo_build_contract demo_arms_good reopened_ok r(1,2)] r show ?thesis by simp
qed

end
