(* ===== verification/MigrationTheorems.thy ===== *)
theory MigrationTheorems
  imports MigrationFacts EpochTheorems
begin

text \<open>
  What a switch preserves, and what the constructor accepts: theorems about caches whose arms keep exact
  books, each with an instance on the demonstration cache.
\<close>

subsection \<open>Construction\<close>

text \<open>C30: \<^verbatim>\<open>NewAdaptiveCache\<close> succeeds for exactly the arguments it means to accept: at least one policy,
  none nil, no two of one type; settings that are not nil, with a request epoch that is not negative and
  at least one epoch clock; and a bandit unless the cache only observes. It never panics and returns an
  error for everything else.\<close>

theorem constructor_accepts:
  "(\<exists>c. NewAdaptiveCache e hash pols b s = Inr c) \<longleftrightarrow>
    pols \<noteq> [] \<and> None \<notin> set pols \<and> distinct (map (\<lambda>p. op_get_type (policy_iface e) (the p)) pols) \<and>
    (case s of None \<Rightarrow> False
     | Some st \<Rightarrow> 0 \<le> EpochRequests st \<and> 0 < max (EpochDuration st) (EpochRequests st) \<and>
         (if b = None then ObserveOnly st else True))"
  by (rule construct_accepts)

subsection \<open>Switches\<close>

lemma exact_reached:
  assumes "exact_policy (policy_iface e) good content capacity" and "\<And>p. Some p \<in> set pols \<Longrightarrow> good p"
    and "NewAdaptiveCache e hash pols b s = Inr c" and "run e reqs c = Some (c', resps)"
  shows "exact_cache e good content capacity" and "\<exists>\<sigma>. cache_inv e good content \<sigma> c' \<and> window_open c'"
proof -
  show "exact_cache e good content capacity" using assms(1) by (simp add: exact_cache_def)
  from reached(3) [OF exact_policy.axioms(1) [OF assms(1)] assms(2-4)]
  show "\<exists>\<sigma>. cache_inv e good content \<sigma> c' \<and> window_open c'" .
qed

text \<open>C9: A warm switch loses nothing: with arms of exact bookkeeping, when an epoch of a cache with warm
  migration changes the active policy, and everything it served fits the new policy's nominal capacity,
  the new policy serves exactly the entries the old one did.\<close>

theorem warm_switch_keeps_everything:
  assumes "exact_policy (policy_iface e) good content capacity" and "\<And>p. Some p \<in> set pols \<Longrightarrow> good p"
    and "NewAdaptiveCache e hash pols b s = Inr c" and "run e reqs c = Some (c1, resps)"
    and "runEpoch e c1 = Some c2" and "activePolicy c2 \<noteq> activePolicy c1"
    and "MigrationStrategy (settings c1) = MigrationWarm"
    and "nominalCap c1 (activePolicy c2) = Some n" and "0 < n"
    and "int (card (dom (content_at content c1 (activePolicy c1)))) \<le> n"
  shows "content_at content c2 (activePolicy c2) = content_at content c1 (activePolicy c1)"
  using exact_cache.warm_epoch_complete [OF exact_reached(1) [OF assms(1-4)] _ assms(5-8,10,9)]
    exact_reached(2) [OF assms(1-4)] by blast

lemma demo_exact: "exact_policy (policy_iface demo_env) arm_inv arm_content arm_capacity"
  by (simp add: demo_env_def arm_env_def exact_arms.exact_policy_axioms)

text \<open>Two entries are stored before the switch.\<close>

definition demo_store :: "(int, int) request list" where
  "demo_store = [ReqAdd 1 10, ReqAdd 2 20]"

lemma warm_switch_keeps_everything_witness:
  "\<exists>c1 c2. map_option fst (run demo_env demo_store (demo_cache MigrationWarm)) = Some c1 \<and>
    runEpoch demo_env c1 = Some c2 \<and> activePolicy c2 = Random \<and> content_at arm_content c2 Random 2 = Some 20"
proof -
  let ?r = "run demo_env demo_store (demo_cache MigrationWarm)"
  have facts: "let r = ?r; c1 = fst (the r); c2 = the (runEpoch demo_env c1) in
      \<not> Option.is_none r \<and> \<not> Option.is_none (runEpoch demo_env c1) \<and> activePolicy c1 = LFU \<and> activePolicy c2 = Random \<and>
      MigrationStrategy (settings c1) = MigrationWarm \<and> nominalCap c1 Random = Some 2 \<and>
      op_len (policy_iface demo_env) (the (policies c1 LFU)) \<le> 2 \<and>
      content_at arm_content c1 LFU 2 = Some 20"
    by code_simp
  then obtain c1 resps c2 where c1: "?r = Some (c1, resps)" and c2: "runEpoch demo_env c1 = Some c2"
    by (auto simp: Option.is_none_def Let_def)
  have act: "activePolicy c1 = LFU" "activePolicy c2 = Random" and warm: "MigrationStrategy (settings c1) = MigrationWarm"
    and n: "nominalCap c1 (activePolicy c2) = Some 2" and len: "op_len (policy_iface demo_env) (the (policies c1 LFU)) \<le> 2"
    and v: "content_at arm_content c1 LFU 2 = Some 20"
    using facts c1 c2 by (simp_all add: Let_def)
  obtain \<sigma> where "cache_inv demo_env arm_inv arm_content \<sigma> c1"
    using exact_reached(2) [OF demo_exact demo_arms_good demo_new_ok(2) [unfolded demo_new_def] c1] by blast
  from cache_invD(1) [OF this] act obtain p where p: "policies c1 LFU = Some p" "arm_inv p" by auto
  have "int (card (dom (content_at arm_content c1 (activePolicy c1)))) \<le> 2"
    using len p act exact_cacher.len_counts [OF exact_policy.axioms(2) [OF demo_exact] p(2)] by simp
  from warm_switch_keeps_everything [OF demo_exact demo_arms_good demo_new_ok(2) [unfolded demo_new_def] c1 c2 _ warm n _ this]
  have "content_at arm_content c2 Random = content_at arm_content c1 LFU" using act by (simp add: names)
  with c1 c2 act v show ?thesis by auto
qed

text \<open>C8: A gradual switch loses nothing either: right after an epoch of a cache with gradual migration
  changed the active policy, a \<^verbatim>\<open>Get\<close> of any key the old policy held returns the old policy's value.\<close>

theorem gradual_switch_serves_everything:
  assumes "exact_policy (policy_iface e) good content capacity" and "\<And>p. Some p \<in> set pols \<Longrightarrow> good p"
    and "NewAdaptiveCache e hash pols b s = Inr c" and "run e reqs c = Some (c1, resps)"
    and "runEpoch e c1 = Some c2" and "activePolicy c2 \<noteq> activePolicy c1"
    and "MigrationStrategy (settings c1) = MigrationGradual"
    and "nominalCap c1 (activePolicy c2) = Some n" and "0 < n"
    and "content_at content c1 (activePolicy c1) key = Some v"
    and "Get e key c2 = Some (c3, r)"
  shows "r = Some v"
proof -
  obtain d where d: "get_key e key c2 = Some (d, r)" using assms(11) by (auto simp: Get_def bind_eq_Some_conv)
  from exact_reached(2) [OF assms(1-4)] obtain \<sigma> where "cache_inv e good content \<sigma> c1" by blast
  from exact_cache.gradual_epoch_serves [OF exact_reached(1) [OF assms(1-4)] this assms(5-10) d] show ?thesis .
qed

lemma gradual_switch_serves_everything_witness:
  "map_option (\<lambda>r. last (snd r)) (run demo_env (demo_store @ [EpochTick, ReqGet 2]) (demo_cache MigrationGradual)) =
    Some (RespValue (Some 20))"
proof -
  let ?r = "run demo_env demo_store (demo_cache MigrationGradual)"
  have facts: "let r = ?r; c1 = fst (the r); c2 = the (runEpoch demo_env c1) in
      \<not> Option.is_none r \<and> \<not> Option.is_none (runEpoch demo_env c1) \<and> activePolicy c1 = LFU \<and> activePolicy c2 = Random \<and>
      MigrationStrategy (settings c1) = MigrationGradual \<and> nominalCap c1 Random = Some 2 \<and>
      content_at arm_content c1 LFU 2 = Some 20 \<and> \<not> Option.is_none (Get demo_env 2 c2)"
    by code_simp
  then obtain c1 resps c2 c3 r where c1: "?r = Some (c1, resps)" and c2: "runEpoch demo_env c1 = Some c2"
    and c3: "Get demo_env 2 c2 = Some (c3, r)"
    by (auto simp: Option.is_none_def Let_def)
  have act: "activePolicy c2 \<noteq> activePolicy c1" and gradual: "MigrationStrategy (settings c1) = MigrationGradual"
    and n: "nominalCap c1 (activePolicy c2) = Some 2" and v: "content_at arm_content c1 (activePolicy c1) 2 = Some 20"
    using facts c1 c2 by (simp_all add: Let_def names)
  have "r = Some 20"
    by (rule gradual_switch_serves_everything [OF demo_exact demo_arms_good demo_new_ok(3) [unfolded demo_new_def] c1 c2
          act gradual n zero_less_numeral v c3])
  then show ?thesis using c1 c2 c3 by (auto simp: demo_store_def bind_eq_Some_conv)
qed

text \<open>C11: Every write drains the window: as many \<^verbatim>\<open>Add\<close> calls as there are pending keys close it, so its
  cost is bounded however the keys are chosen.\<close>

theorem window_closes_after_writes:
  assumes "policy_contract (policy_iface e) good content" and "\<And>p. Some p \<in> set pols \<Longrightarrow> good p"
    and "NewAdaptiveCache e hash pols b s = Inr c" and "run e reqs c = Some (c1, resps)"
    and "card (migrationRealKeys c1) \<le> length kvs"
    and "run e (map (\<lambda>(k, v). ReqAdd k v) kvs) c1 = Some (c2, resps')"
  shows "\<not> migrating c2"
proof -
  note r = reached [OF assms(1-4)]
  obtain \<sigma> where "cache_inv e good content \<sigma> c1" "window_open c1" using r(3) by blast
  from adaptive_cache.writes_close_window [OF r(1) this assms(5,6)] show ?thesis .
qed

lemma window_closes_after_writes_witness:
  "\<exists>c1 c2. map_option fst (run demo_env (demo_store @ [EpochTick]) (demo_cache MigrationGradual)) = Some c1 \<and> migrating c1 \<and>
    map_option fst (run demo_env [ReqAdd 5 1, ReqAdd 6 1] c1) = Some c2 \<and> \<not> migrating c2"
proof -
  let ?r = "run demo_env (demo_store @ [EpochTick]) (demo_cache MigrationGradual)"
  have facts: "let r = ?r; c1 = fst (the r) in \<not> Option.is_none r \<and> migrating c1 \<and> migrationRealKeys c1 = {1, 2}"
    by code_simp
  then obtain c1 resps where c1: "?r = Some (c1, resps)" "migrating c1" "migrationRealKeys c1 = {1, 2}"
    by (auto simp: Option.is_none_def Let_def)
  have ac: "adaptive_cache demo_env arm_inv arm_content" using demo_contract by (simp add: adaptive_cache_def)
  obtain \<sigma> where ok: "cache_inv demo_env arm_inv arm_content \<sigma> c1" "window_open c1"
    using reached(3) [OF demo_contract demo_arms_good demo_new_ok(3) [unfolded demo_new_def] c1(1)] by blast
  obtain c2 resps' where c2: "run demo_env [ReqAdd 5 1, ReqAdd 6 1] c1 = Some (c2, resps')"
    using adaptive_cache.run_ok [OF ac ok, of "[ReqAdd 5 1, ReqAdd 6 1]"] by blast
  then have c2': "run demo_env (map (\<lambda>(k, v). ReqAdd k v) [(5, 1), (6, 1)]) c1 = Some (c2, resps')" by (simp only: list.map prod.case)
  have pending: "card (migrationRealKeys c1) \<le> length [(5 :: int, 1 :: int), (6, 1)]" unfolding c1(3) by simp
  have "\<not> migrating c2"
    by (rule window_closes_after_writes [OF demo_contract demo_arms_good demo_new_ok(3) [unfolded demo_new_def] c1(1)
          pending c2'])
  with c1 c2 show ?thesis by auto
qed

end
