(* ===== verification/LfuRuns.thy ===== *)
theory LfuRuns
  imports LFUContract
begin

text \<open>
  The simple LFU cache as its callers see it: any sequence of calls answered by the implementation (a map
  of entries, buckets by frequency, a minimum) is answered the same way by the reference that keeps one
  list in eviction order. The refinement is a forward simulation, step by step.
\<close>

datatype ('k, 'v) lfu_call =
    LfuAdd 'k 'v
  | LfuGet 'k
  | LfuPeek 'k
  | LfuContains 'k
  | LfuRemove 'k
  | LfuResize int
  | LfuPurge
  | LfuRemoveOldest
  | LfuKeys
  | LfuLen

datatype ('k, 'v) lfu_answer =
    Flag bool
  | Found "'v option"
  | Count int
  | Listed "'k list"
  | Oldest "('k \<times> 'v) option"
  | Done

text \<open>The implementation; \<open>order\<close> is the map order \<^verbatim>\<open>Purge\<close> visits entries in, \<open>zk\<close> the zero key.\<close>

fun lfu_step ::
  "('k set \<Rightarrow> 'k list) \<Rightarrow> 'k \<Rightarrow> ('k, 'v) lfu_call \<Rightarrow> ('k, 'v) lfu \<Rightarrow> (('k, 'v) lfu \<times> ('k, 'v) lfu_answer) option"
  where
  "lfu_step order zk (LfuAdd k v) c = map_option (map_prod id Flag) (lfu_add c k v)"
| "lfu_step order zk (LfuGet k) c = map_option (map_prod id Found) (lfu_get c k)"
| "lfu_step order zk (LfuPeek k) c = Some (c, Found (lfu_peek c k))"
| "lfu_step order zk (LfuContains k) c = Some (c, Flag (lfu_contains c k))"
| "lfu_step order zk (LfuRemove k) c = Some (map_prod id Flag (lfu_remove c k))"
| "lfu_step order zk (LfuResize n) c = Some (map_prod id Count (lfu_resize c n))"
| "lfu_step order zk LfuPurge c = Some (lfu_purge order c, Done)"
| "lfu_step order zk LfuRemoveOldest c = Some (map_prod id Oldest (RemoveOldest c))"
| "lfu_step order zk LfuKeys c = map_option (\<lambda>ks. (c, Listed ks)) (lfu_keys zk c)"
| "lfu_step order zk LfuLen c = Some (c, Count (lfu_len c))"

text \<open>The reference: a capacity and the entries from the first to be evicted to the last.\<close>

fun order_step ::
  "('k, 'v) lfu_call \<Rightarrow> int \<times> ('k, 'v) entry list \<Rightarrow> (int \<times> ('k, 'v) entry list) \<times> ('k, 'v) lfu_answer" where
  "order_step (LfuAdd k v) (n, xs) = (let (ys, evicted) = order_add n k v xs in ((n, ys), Flag evicted))"
| "order_step (LfuGet k) (n, xs) = (let (ys, r) = order_get k xs in ((n, ys), Found r))"
| "order_step (LfuPeek k) (n, xs) = ((n, xs), Found (map_option Value (order_find k xs)))"
| "order_step (LfuContains k) (n, xs) = ((n, xs), Flag (order_find k xs \<noteq> None))"
| "order_step (LfuRemove k) (n, xs) = ((n, order_remove k xs), Flag (order_find k xs \<noteq> None))"
| "order_step (LfuResize m) (n, xs) = ((m, drop (length xs - nat m) xs), Count (int (length xs - nat m)))"
| "order_step LfuPurge (n, xs) = ((n, []), Done)"
| "order_step LfuRemoveOldest (n, xs) =
     (case xs of [] \<Rightarrow> ((n, []), Oldest None) | x # ys \<Rightarrow> ((n, ys), Oldest (Some (Key x, Value x))))"
| "order_step LfuKeys (n, xs) = ((n, xs), Listed (map Key xs))"
| "order_step LfuLen (n, xs) = ((n, xs), Count (int (length xs)))"

fun lfu_run ::
  "('k set \<Rightarrow> 'k list) \<Rightarrow> 'k \<Rightarrow> ('k, 'v) lfu_call list \<Rightarrow> ('k, 'v) lfu \<Rightarrow> (('k, 'v) lfu \<times> ('k, 'v) lfu_answer list) option"
  where
  "lfu_run order zk [] c = Some (c, [])"
| "lfu_run order zk (call # rest) c = do {
     (c, a) \<leftarrow> lfu_step order zk call c;
     (c, as) \<leftarrow> lfu_run order zk rest c;
     Some (c, a # as)
   }"

fun order_run ::
  "('k, 'v) lfu_call list \<Rightarrow> int \<times> ('k, 'v) entry list \<Rightarrow> (int \<times> ('k, 'v) entry list) \<times> ('k, 'v) lfu_answer list" where
  "order_run [] s = (s, [])"
| "order_run (call # rest) s =
     (let (s, a) = order_step call s; (s, as) = order_run rest s in (s, a # as))"

text \<open>The abstraction.\<close>

definition lfu_abs :: "('k, 'v) lfu \<Rightarrow> int \<times> ('k, 'v) entry list" where
  "lfu_abs c = (lsize c, entries_in_order c)"

lemma remove_oldest_refines:
  assumes "lfu_inv c"
  shows "lfu_inv (fst (RemoveOldest c)) \<and> lsize (fst (RemoveOldest c)) = lsize c \<and>
    entries_in_order (fst (RemoveOldest c)) = tl (entries_in_order c) \<and>
    snd (RemoveOldest c) = (case entries_in_order c of [] \<Rightarrow> None | x # _ \<Rightarrow> Some (Key x, Value x))"
proof -
  have wf: "lfu_wf c" "lfu_min c" and len: "lfu_len c \<le> max 0 (lsize c)" using assms by (simp_all add: lfu_inv_def)
  show ?thesis
  proof (cases "entries_in_order c")
    case Nil
    with evictOldest_empty [OF wf] assms show ?thesis by (simp add: RemoveOldest_def)
  next
    case (Cons x xs)
    with evictOldest_head [OF wf] obtain c' where c': "evictOldest c = (c', Some (Key x, Value x))" "evicts c x xs c'"
      by blast
    have wf': "lfu_wf c'" "lfu_min c'" "entries_in_order c' = xs" "lsize c' = lsize c"
      using c'(2) by (simp_all add: evicts_def)
    have "lfu_len c' \<le> lfu_len c" using Cons wf' by (simp add: lfu_len_order [OF wf(1)] lfu_len_order [OF wf'(1)])
    with len have "lfu_len c' \<le> max 0 (lsize c)" by linarith
    with wf' c' Cons show ?thesis by (simp add: RemoveOldest_def lfu_inv_def)
  qed
qed

lemma lfu_step_refines:
  assumes inv: "lfu_inv c"
  shows "\<exists>c'. lfu_step order zk call c = Some (c', snd (order_step call (lfu_abs c))) \<and> lfu_inv c' \<and>
    lfu_abs c' = fst (order_step call (lfu_abs c))"
proof -
  have wf: "lfu_wf c" using inv by (simp add: lfu_inv_def)
  show ?thesis
  proof (cases call)
    case (LfuAdd k v)
    with lfu_add_refines [OF inv, of k v] show ?thesis by (auto simp: lfu_abs_def split_beta)
  next
    case (LfuGet k)
    with lfu_get_refines [OF inv, of k] show ?thesis by (auto simp: lfu_abs_def split_beta)
  next
    case (LfuPeek k)
    then show ?thesis using inv by (simp add: lfu_abs_def lfu_peek_def order_find_items [OF wf])
  next
    case (LfuContains k)
    then show ?thesis using inv by (simp add: lfu_abs_def lfu_contains_def order_find_items [OF wf])
  next
    case (LfuRemove k)
    with lfu_remove_refines [OF inv, of k] show ?thesis by (cases "lfu_remove c k") (simp add: lfu_abs_def)
  next
    case (LfuResize n)
    with lfu_resize_refines [OF inv refl, of n] show ?thesis by (cases "lfu_resize c n") (simp add: lfu_abs_def)
  next
    case LfuPurge
    with lfu_purge_refines [OF inv, of order] show ?thesis by (simp add: lfu_abs_def)
  next
    case LfuRemoveOldest
    with remove_oldest_refines [OF inv] show ?thesis
      by (cases "RemoveOldest c"; cases "entries_in_order c") (simp_all add: lfu_abs_def)
  next
    case LfuKeys
    with lfu_keys_exact(1) [OF inv] inv show ?thesis by (simp add: lfu_abs_def)
  next
    case LfuLen
    then show ?thesis using inv by (simp add: lfu_abs_def lfu_len_order [OF wf])
  qed
qed

lemma lfu_run_refines:
  assumes "lfu_inv c"
  shows "\<exists>c'. lfu_run order zk cs c = Some (c', snd (order_run cs (lfu_abs c))) \<and> lfu_inv c' \<and>
    lfu_abs c' = fst (order_run cs (lfu_abs c))"
  using assms
proof (induction cs arbitrary: c)
  case (Cons call rest)
  obtain d where d: "lfu_step order zk call c = Some (d, snd (order_step call (lfu_abs c)))" "lfu_inv d"
      "lfu_abs d = fst (order_step call (lfu_abs c))"
    using lfu_step_refines [OF Cons.prems] by blast
  with Cons.IH [OF d(2)] show ?case by (auto simp: split_beta Let_def)
qed simp

end
