(* ===== verification/LfuCache.thy ===== *)
theory LfuCache
  imports LfuRuns
begin

text \<open>
  The exported LFU cache (\<^verbatim>\<open>src/lfu/lfu.go\<close>): the simple cache behind a lock, with the eviction callback
  delayed until the lock is released. The callback handed to the simple cache appends to two buffers;
  each operation takes what it buffered and calls the user's callback with it. A method runs under the
  lock, so it is one step; the calls after it are logged in \<open>delivered\<close>.

  The theorem is that the delay is invisible: answers are those of the simple cache, and the callbacks
  delivered are exactly those it would have made itself, in the same order, with nothing left behind.
\<close>

record ('k, 'v) lfu_cache =
  lc_lfu :: "('k, 'v) lfu"
  evictedKeys :: "'k list"
  evictedVals :: "'v list"
  onEvictedCB :: bool
  delivered :: "('k \<times> 'v) list"

definition NewWithEvict :: "int \<Rightarrow> bool \<Rightarrow> lfu_error + ('k, 'v) lfu_cache" where
  "NewWithEvict sz onEvicted =
     (case NewLFU sz onEvicted of Inl err \<Rightarrow> Inl err
      | Inr l \<Rightarrow> Inr \<lparr>lc_lfu = l, evictedKeys = [], evictedVals = [], onEvictedCB = onEvicted, delivered = []\<rparr>)"

definition NewCacheLFU :: "int \<Rightarrow> lfu_error + ('k, 'v) lfu_cache" where
  "NewCacheLFU sz = NewWithEvict sz False"

definition initEvictBuffers :: "('k, 'v) lfu_cache \<Rightarrow> ('k, 'v) lfu_cache" where
  "initEvictBuffers c = c\<lparr>evictedKeys := [], evictedVals := []\<rparr>"

definition onEvicted :: "'k \<Rightarrow> 'v \<Rightarrow> ('k, 'v) lfu_cache \<Rightarrow> ('k, 'v) lfu_cache" where
  "onEvicted k v c = c\<lparr>evictedKeys := evictedKeys c @ [k], evictedVals := evictedVals c @ [v]\<rparr>"

text \<open>
  The simple cache returns: its invocations of the callback, its log, have been invocations of
  \<^verbatim>\<open>c.onEvicted\<close>.
\<close>

definition lfu_returns :: "('k, 'v) lfu \<Rightarrow> ('k, 'v) lfu_cache \<Rightarrow> ('k, 'v) lfu_cache" where
  "lfu_returns l c = fold (\<lambda>(k, v). onEvicted k v) (calls l) (c\<lparr>lc_lfu := l\<lparr>calls := []\<rparr>\<rparr>)"

text \<open>What an operation that evicts at most one entry takes from the buffers under the lock.\<close>

definition take_first :: "bool \<Rightarrow> ('k, 'v) lfu_cache \<Rightarrow> (('k, 'v) lfu_cache \<times> ('k \<times> 'v) option) option" where
  "take_first evicted c =
     (if onEvictedCB c \<and> evicted
      then do {
        k \<leftarrow> slice_get (evictedKeys c) 0;
        v \<leftarrow> slice_get (evictedVals c) 0;
        Some (c\<lparr>evictedKeys := take 0 (evictedKeys c), evictedVals := take 0 (evictedVals c)\<rparr>, Some (k, v))
      }
      else Some (c, None))"

definition call_first :: "('k \<times> 'v) option \<Rightarrow> ('k, 'v) lfu_cache \<Rightarrow> ('k, 'v) lfu_cache" where
  "call_first kv c = (case kv of None \<Rightarrow> c | Some kv \<Rightarrow> c\<lparr>delivered := delivered c @ [kv]\<rparr>)"

text \<open>What \<^verbatim>\<open>Purge\<close> and \<^verbatim>\<open>Resize\<close> take, and the loop that calls back.\<close>

definition take_all :: "('k, 'v) lfu_cache \<Rightarrow> ('k, 'v) lfu_cache \<times> 'k list \<times> 'v list" where
  "take_all c =
     (if onEvictedCB c \<and> length (evictedKeys c) > 0
      then (initEvictBuffers c, evictedKeys c, evictedVals c) else (c, [], []))"

fun call_all :: "'k list \<Rightarrow> 'v list \<Rightarrow> ('k, 'v) lfu_cache \<Rightarrow> ('k, 'v) lfu_cache option" where
  "call_all [] vs c = Some c"
| "call_all (k # ks) [] c = None"
| "call_all (k # ks) (v # vs) c = call_all ks vs (c\<lparr>delivered := delivered c @ [(k, v)]\<rparr>)"

subsection \<open>The operations\<close>

definition cache_add :: "('k, 'v) lfu_cache \<Rightarrow> 'k \<Rightarrow> 'v \<Rightarrow> (('k, 'v) lfu_cache \<times> bool) option" where
  "cache_add c key val = do {
     (l, evicted) \<leftarrow> lfu_add (lc_lfu c) key val;
     (c, kv) \<leftarrow> take_first evicted (lfu_returns l c);
     Some (call_first kv c, evicted)
   }"

definition cache_get :: "('k, 'v) lfu_cache \<Rightarrow> 'k \<Rightarrow> (('k, 'v) lfu_cache \<times> 'v option) option" where
  "cache_get c key = do { (l, r) \<leftarrow> lfu_get (lc_lfu c) key; Some (lfu_returns l c, r) }"

definition cache_contains :: "('k, 'v) lfu_cache \<Rightarrow> 'k \<Rightarrow> bool" where
  "cache_contains c key = lfu_contains (lc_lfu c) key"

definition cache_peek :: "('k, 'v) lfu_cache \<Rightarrow> 'k \<Rightarrow> 'v option" where
  "cache_peek c key = lfu_peek (lc_lfu c) key"

definition cache_remove :: "('k, 'v) lfu_cache \<Rightarrow> 'k \<Rightarrow> (('k, 'v) lfu_cache \<times> bool) option" where
  "cache_remove c key = do {
     let (l, present) = lfu_remove (lc_lfu c) key;
     (c, kv) \<leftarrow> take_first present (lfu_returns l c);
     Some (call_first kv c, present)
   }"

definition cache_purge :: "('k set \<Rightarrow> 'k list) \<Rightarrow> ('k, 'v) lfu_cache \<Rightarrow> ('k, 'v) lfu_cache option" where
  "cache_purge order c =
     (let (c, ks, vs) = take_all (lfu_returns (lfu_purge order (lc_lfu c)) c)
      in if onEvictedCB c then call_all ks vs c else Some c)"

definition cache_resize :: "('k, 'v) lfu_cache \<Rightarrow> int \<Rightarrow> (('k, 'v) lfu_cache \<times> int) option" where
  "cache_resize c sz =
     (let (l, evicted) = lfu_resize (lc_lfu c) sz;
          (c, ks, vs) = take_all (lfu_returns l c)
      in map_option (\<lambda>c. (c, evicted)) (if onEvictedCB c then call_all ks vs c else Some c))"

definition ContainsOrAdd :: "('k, 'v) lfu_cache \<Rightarrow> 'k \<Rightarrow> 'v \<Rightarrow> (('k, 'v) lfu_cache \<times> bool \<times> bool) option" where
  "ContainsOrAdd c key val =
     (if lfu_contains (lc_lfu c) key then Some (c, True, False)
      else do {
        (l, evicted) \<leftarrow> lfu_add (lc_lfu c) key val;
        (c, kv) \<leftarrow> take_first evicted (lfu_returns l c);
        Some (call_first kv c, False, evicted)
      })"

definition PeekOrAdd :: "('k, 'v) lfu_cache \<Rightarrow> 'k \<Rightarrow> 'v \<Rightarrow> (('k, 'v) lfu_cache \<times> 'v option \<times> bool) option" where
  "PeekOrAdd c key val =
     (case lfu_peek (lc_lfu c) key of
        Some previous \<Rightarrow> Some (c, Some previous, False)
      | None \<Rightarrow> do {
          (l, evicted) \<leftarrow> lfu_add (lc_lfu c) key val;
          (c, kv) \<leftarrow> take_first evicted (lfu_returns l c);
          Some (call_first kv c, None, evicted)
        })"

definition cache_remove_oldest :: "('k, 'v) lfu_cache \<Rightarrow> (('k, 'v) lfu_cache \<times> ('k \<times> 'v) option) option" where
  "cache_remove_oldest c = do {
     let (l, r) = RemoveOldest (lc_lfu c);
     (c, kv) \<leftarrow> take_first (r \<noteq> None) (lfu_returns l c);
     Some (call_first kv c, r)
   }"

definition cache_get_oldest :: "('k, 'v) lfu_cache \<Rightarrow> ('k \<times> 'v) option" where
  "cache_get_oldest c = GetOldest (lc_lfu c)"

definition cache_keys :: "'k \<Rightarrow> ('k, 'v) lfu_cache \<Rightarrow> 'k list option" where
  "cache_keys zk c = lfu_keys zk (lc_lfu c)"

definition cache_values :: "'v \<Rightarrow> ('k, 'v) lfu_cache \<Rightarrow> 'v list option" where
  "cache_values zv c = lfu_values zv (lc_lfu c)"

definition cache_len :: "('k, 'v) lfu_cache \<Rightarrow> int" where
  "cache_len c = lfu_len (lc_lfu c)"

subsection \<open>Runs of both caches\<close>

datatype ('k, 'v) cache_call =
    Plain "('k, 'v) lfu_call"
  | CallContainsOrAdd 'k 'v
  | CallPeekOrAdd 'k 'v
  | CallGetOldest
  | CallValues

datatype ('k, 'v) cache_answer =
    Same "('k, 'v) lfu_answer"
  | TwoFlags bool bool
  | Previous "'v option" bool
  | OldestIs "('k \<times> 'v) option"
  | AllValues "'v list"

fun cache_plain ::
  "('k set \<Rightarrow> 'k list) \<Rightarrow> 'k \<Rightarrow> ('k, 'v) lfu_call \<Rightarrow> ('k, 'v) lfu_cache \<Rightarrow> (('k, 'v) lfu_cache \<times> ('k, 'v) lfu_answer) option"
  where
  "cache_plain order zk (LfuAdd k v) c = map_option (map_prod id Flag) (cache_add c k v)"
| "cache_plain order zk (LfuGet k) c = map_option (map_prod id lfu_answer.Found) (cache_get c k)"
| "cache_plain order zk (LfuPeek k) c = Some (c, lfu_answer.Found (cache_peek c k))"
| "cache_plain order zk (LfuContains k) c = Some (c, Flag (cache_contains c k))"
| "cache_plain order zk (LfuRemove k) c = map_option (map_prod id Flag) (cache_remove c k)"
| "cache_plain order zk (LfuResize n) c = map_option (map_prod id Count) (cache_resize c n)"
| "cache_plain order zk LfuPurge c = map_option (\<lambda>c. (c, Done)) (cache_purge order c)"
| "cache_plain order zk LfuRemoveOldest c = map_option (map_prod id Oldest) (cache_remove_oldest c)"
| "cache_plain order zk LfuKeys c = map_option (\<lambda>ks. (c, Listed ks)) (cache_keys zk c)"
| "cache_plain order zk LfuLen c = Some (c, Count (cache_len c))"

fun cache_step ::
  "('k set \<Rightarrow> 'k list) \<Rightarrow> 'k \<Rightarrow> 'v \<Rightarrow> ('k, 'v) cache_call \<Rightarrow> ('k, 'v) lfu_cache
    \<Rightarrow> (('k, 'v) lfu_cache \<times> ('k, 'v) cache_answer) option"
  where
  "cache_step order zk zv (Plain call) c = map_option (map_prod id Same) (cache_plain order zk call c)"
| "cache_step order zk zv (CallContainsOrAdd k v) c = map_option (\<lambda>(c, ok, ev). (c, TwoFlags ok ev)) (ContainsOrAdd c k v)"
| "cache_step order zk zv (CallPeekOrAdd k v) c = map_option (\<lambda>(c, prev, ev). (c, Previous prev ev)) (PeekOrAdd c k v)"
| "cache_step order zk zv CallGetOldest c = Some (c, OldestIs (cache_get_oldest c))"
| "cache_step order zk zv CallValues c = map_option (\<lambda>vs. (c, AllValues vs)) (cache_values zv c)"

text \<open>The reference: the simple cache itself, which calls back while it works.\<close>

fun inner_step ::
  "('k set \<Rightarrow> 'k list) \<Rightarrow> 'k \<Rightarrow> 'v \<Rightarrow> ('k, 'v) cache_call \<Rightarrow> ('k, 'v) lfu \<Rightarrow> (('k, 'v) lfu \<times> ('k, 'v) cache_answer) option"
  where
  "inner_step order zk zv (Plain call) l = map_option (map_prod id Same) (lfu_step order zk call l)"
| "inner_step order zk zv (CallContainsOrAdd k v) l =
     (if lfu_contains l k then Some (l, TwoFlags True False) else map_option (\<lambda>(l, ev). (l, TwoFlags False ev)) (lfu_add l k v))"
| "inner_step order zk zv (CallPeekOrAdd k v) l =
     (case lfu_peek l k of Some prev \<Rightarrow> Some (l, Previous (Some prev) False)
      | None \<Rightarrow> map_option (\<lambda>(l, ev). (l, Previous None ev)) (lfu_add l k v))"
| "inner_step order zk zv CallGetOldest l = Some (l, OldestIs (GetOldest l))"
| "inner_step order zk zv CallValues l = map_option (\<lambda>vs. (l, AllValues vs)) (lfu_values zv l)"

subsection \<open>The log is only appended to\<close>

text \<open>A simple cache with earlier callbacks: what it does next does not depend on them.\<close>

definition after :: "('k \<times> 'v) list \<Rightarrow> ('k, 'v) lfu \<Rightarrow> ('k, 'v) lfu" where
  "after xs l = l\<lparr>calls := xs @ calls l\<rparr>"

lemma after_sel [simp]:
  "lsize (after xs l) = lsize l" "minFreq (after xs l) = minFreq l" "items (after xs l) = items l"
  "evictList (after xs l) = evictList l" "onEvict (after xs l) = onEvict l" "calls (after xs l) = xs @ calls l"
  "bucket_or_new (after xs l) f = bucket_or_new l f" "lfu_len (after xs l) = lfu_len l"
  "oldest (after xs l) = oldest l" "lfu_contains (after xs l) k = lfu_contains l k" "lfu_peek (after xs l) k = lfu_peek l k"
  "GetOldest (after xs l) = GetOldest l" "lfu_keys zk (after xs l) = lfu_keys zk l" "lfu_values zv (after xs l) = lfu_values zv l"
  by (simp_all add: after_def bucket_or_new_def lfu_len_def oldest_def lfu_contains_def lfu_peek_def GetOldest_def
      lfu_keys_def lfu_values_def entries_in_order_def)

lemma after_upd:
  "(after xs l)\<lparr>items := a\<rparr> = after xs (l\<lparr>items := a\<rparr>)" "(after xs l)\<lparr>evictList := b\<rparr> = after xs (l\<lparr>evictList := b\<rparr>)"
  "(after xs l)\<lparr>minFreq := m\<rparr> = after xs (l\<lparr>minFreq := m\<rparr>)" "(after xs l)\<lparr>lsize := n\<rparr> = after xs (l\<lparr>lsize := n\<rparr>)"
  by (simp_all add: after_def)

lemma after_min: "recomputeMinFreq (after xs l) = after xs (recomputeMinFreq l)"
  by (simp add: recomputeMinFreq_def after_upd)

lemma after_detach: "detach ent (after xs l) = after xs (detach ent l)"
  by (simp add: detach_def Let_def after_upd after_min split: option.splits)

lemma after_notify: "notify ent (after xs l) = after xs (notify ent l)"
  by (simp add: notify_def after_def)

lemmas after_simps = after_upd after_min after_detach after_notify

lemma after_update: "updateFreq ent (after xs l) = map_option (after xs) (updateFreq ent l)"
  by (cases "Mapping.lookup (evictList l) (Freq ent)")
    (simp_all add: updateFreq_def Let_def after_upd bucket_or_new_def)

lemma after_evict: "evictOldest (after xs l) = map_prod (after xs) id (evictOldest l)"
  by (cases "oldest l") (simp_all add: evictOldest_def Let_def after_simps)

lemma after_add: "lfu_add (after xs l) k v = map_option (map_prod (after xs) id) (lfu_add l k v)"
  by (cases "Mapping.lookup (items l) k")
    (simp_all add: lfu_add_def Let_def after_update after_evict after_upd option.map_comp comp_def split_beta bucket_or_new_def)

lemma after_get: "lfu_get (after xs l) k = map_option (map_prod (after xs) id) (lfu_get l k)"
  by (cases "Mapping.lookup (items l) k") (simp_all add: lfu_get_def after_update option.map_comp comp_def)

lemma after_remove: "lfu_remove (after xs l) k = map_prod (after xs) id (lfu_remove l k)"
  by (cases "Mapping.lookup (items l) k") (simp_all add: lfu_remove_def removeElement_def Let_def after_simps)

lemma after_loop: "evict_loop n (after xs l, m) = map_prod (after xs) id (evict_loop n (l, m))"
  by (induction n arbitrary: l m) (simp_all add: after_evict split_beta split: option.splits prod.splits)

lemma after_resize: "lfu_resize (after xs l) n = map_prod (after xs) id (lfu_resize l n)"
  by (simp add: lfu_resize_def Let_def after_loop after_upd split_beta)

lemma after_purge: "lfu_purge order (after xs l) = after xs (lfu_purge order l)"
  by (simp add: lfu_purge_def Let_def after_def)

lemma after_step: "inner_step order zk zv call (after xs l) = map_option (map_prod (after xs) id) (inner_step order zk zv call l)"
proof (cases call)
  case (Plain p)
  then show ?thesis
    by (cases p) (simp_all add: after_add after_get after_remove after_resize after_purge RemoveOldest_def after_evict
        option.map_comp comp_def prod.map_comp split_beta map_prod_def)
next
  case (CallPeekOrAdd k v)
  then show ?thesis by (simp add: after_add option.map_comp comp_def split_beta split: option.splits)
qed (simp_all add: after_add option.map_comp comp_def split_beta)

subsection \<open>The delay is invisible\<close>

definition same_cache :: "('k, 'v) lfu_cache \<Rightarrow> ('k, 'v) lfu \<Rightarrow> bool" where
  "same_cache c l \<longleftrightarrow> l = after (delivered c) (lc_lfu c) \<and> calls (lc_lfu c) = [] \<and>
     evictedKeys c = [] \<and> evictedVals c = [] \<and> onEvict (lc_lfu c) = onEvictedCB c"

text \<open>An operation has called back once, if it evicted and there is a callback, and otherwise not.\<close>

definition fired :: "('k, 'v) lfu \<Rightarrow> bool \<Rightarrow> ('k, 'v) lfu \<Rightarrow> bool" where
  "fired l flag l' \<longleftrightarrow> onEvict l' = onEvict l \<and>
     (if onEvict l \<and> flag then \<exists>kv. calls l' = [kv] else calls l' = [])"

lemma recompute_calls [simp]: "calls (recomputeMinFreq l) = calls l" "onEvict (recomputeMinFreq l) = onEvict l"
  by (simp_all add: recomputeMinFreq_def)

lemma detach_calls [simp]: "calls (detach e l) = calls l" "onEvict (detach e l) = onEvict l"
  by (simp_all add: detach_def Let_def split: option.splits)

lemma update_calls: "updateFreq e l = Some l' \<Longrightarrow> calls l' = calls l \<and> onEvict l' = onEvict l"
  by (cases "Mapping.lookup (evictList l) (Freq e)") (auto simp: updateFreq_def Let_def split: if_splits)

lemma evict_fired: "calls l = [] \<Longrightarrow> evictOldest l = (l', r) \<Longrightarrow> fired l (r \<noteq> None) l'"
  by (cases "oldest l") (auto simp: evictOldest_def Let_def notify_def fired_def)

lemma add_fired:
  assumes "calls l = []" and "lfu_add l k v = Some (l', ev)"
  shows "fired l ev l'"
proof (cases "lsize l \<le> 0")
  case True
  with assms show ?thesis by (simp add: lfu_add_def fired_def)
next
  case False
  show ?thesis
  proof (cases "Mapping.lookup (items l) k")
    case (Some e)
    with assms False show ?thesis by (auto simp: lfu_add_def fired_def dest!: update_calls)
  next
    case None
    obtain m r where m: "evictOldest l = (m, r)" by (cases "evictOldest l")
    show ?thesis using assms False None evict_fired [OF assms(1) m]
      by (auto simp: lfu_add_def Let_def m fired_def split: if_splits)
  qed
qed

lemma remove_fired: "calls l = [] \<Longrightarrow> lfu_remove l k = (l', p) \<Longrightarrow> fired l p l'"
  by (cases "Mapping.lookup (items l) k") (auto simp: lfu_remove_def removeElement_def Let_def notify_def fired_def)

lemma get_fired: "calls l = [] \<Longrightarrow> lfu_get l k = Some (l', r) \<Longrightarrow> fired l False l'"
  by (cases "Mapping.lookup (items l) k") (auto simp: lfu_get_def fired_def dest!: update_calls)

text \<open>Several callbacks: of \<^verbatim>\<open>Resize\<close> and \<^verbatim>\<open>Purge\<close>.\<close>

definition silent :: "('k, 'v) lfu \<Rightarrow> ('k, 'v) lfu \<Rightarrow> bool" where
  "silent l l' \<longleftrightarrow> onEvict l' = onEvict l \<and> (\<not> onEvict l \<longrightarrow> calls l' = calls l)"

lemma evict_silent: "evictOldest l = (l', r) \<Longrightarrow> silent l l'"
  by (cases "oldest l") (auto simp: evictOldest_def Let_def notify_def silent_def split: if_splits)

lemma loop_silent: "silent l (fst (evict_loop n (l, m)))"
proof (induction n arbitrary: l m)
  case (Suc n)
  obtain l' r where e: "evictOldest l = (l', r)" by (cases "evictOldest l")
  from evict_silent [OF e] Suc [of l'] e show ?case by (cases r) (auto simp: silent_def)
qed (simp add: silent_def)

lemma resize_silent: "lfu_resize l n = (l', r) \<Longrightarrow> silent l l'"
  using loop_silent [of l "nat (if lfu_len l - n < 0 then 0 else lfu_len l - n)" 0]
  by (auto simp: lfu_resize_def Let_def silent_def split: prod.splits)

lemma purge_silent: "silent l (lfu_purge order l)"
  by (simp add: lfu_purge_def Let_def silent_def)

lemma returns_fold:
  "fold (\<lambda>(k, v). onEvicted k v) kvs c =
    c\<lparr>evictedKeys := evictedKeys c @ map fst kvs, evictedVals := evictedVals c @ map snd kvs\<rparr>"
  by (induction kvs arbitrary: c) (auto simp: onEvicted_def)

lemma returns_eq:
  assumes "evictedKeys c = []" "evictedVals c = []"
  shows "lfu_returns l c =
    c\<lparr>lc_lfu := l\<lparr>calls := []\<rparr>, evictedKeys := map fst (calls l), evictedVals := map snd (calls l)\<rparr>"
  using assms by (simp add: lfu_returns_def returns_fold)

lemma first_same:
  assumes same: "same_cache c l" and f: "fired (lc_lfu c) flag m"
  obtains c' kv where "take_first flag (lfu_returns m c) = Some (c', kv)"
    "same_cache (call_first kv c') (after (delivered c) m)"
proof (cases "onEvictedCB c \<and> flag")
  case True
  then obtain k v where "calls m = [(k, v)]" using f same by (auto simp: fired_def same_cache_def)
  with True f same show ?thesis
    by (intro that [of "c\<lparr>lc_lfu := m\<lparr>calls := []\<rparr>, evictedKeys := [], evictedVals := []\<rparr>" "Some (k, v)"])
      (auto simp: take_first_def returns_eq same_cache_def slice_get_def call_first_def fired_def after_def)
next
  case False
  then have "calls m = []" using f same by (auto simp: fired_def same_cache_def)
  with False f same show ?thesis
    by (intro that [of "lfu_returns m c" None])
      (auto simp: take_first_def returns_eq same_cache_def call_first_def fired_def after_def)
qed

lemma call_all_zip: "length ks = length vs \<Longrightarrow> call_all ks vs c = Some (c\<lparr>delivered := delivered c @ zip ks vs\<rparr>)"
  by (induction ks vs arbitrary: c rule: list_induct2) simp_all

lemma all_same:
  assumes same: "same_cache c l" and q: "silent (lc_lfu c) m"
    and t: "take_all (lfu_returns m c) = (c', ks, vs)"
  shows "\<exists>c2. (if onEvictedCB c' then call_all ks vs c' else Some c') = Some c2 \<and> same_cache c2 (after (delivered c) m)"
proof (cases "onEvictedCB c")
  case True
  show ?thesis
  proof (cases "calls m = []")
    case True
    with same q t \<open>onEvictedCB c\<close> show ?thesis
      by (auto simp: take_all_def returns_eq same_cache_def silent_def after_def)
  next
    case False
    then have "c' = c\<lparr>lc_lfu := m\<lparr>calls := []\<rparr>, evictedKeys := [], evictedVals := []\<rparr>" "ks = map fst (calls m)" "vs = map snd (calls m)"
      using same t \<open>onEvictedCB c\<close> by (auto simp: take_all_def returns_eq same_cache_def initEvictBuffers_def)
    with same q \<open>onEvictedCB c\<close> show ?thesis
      by (auto simp: call_all_zip zip_map_fst_snd same_cache_def silent_def after_def)
  qed
next
  case False
  then have "calls m = []" using same q by (simp add: same_cache_def silent_def)
  with False same q t show ?thesis
    by (auto simp: take_all_def returns_eq same_cache_def silent_def after_def)
qed

text \<open>Every operation, on related caches.\<close>

definition answers_same ::
  "(('k, 'v) lfu_cache \<times> 'a) option \<Rightarrow> ('k \<times> 'v) list \<Rightarrow> (('k, 'v) lfu \<times> 'a) option \<Rightarrow> bool" where
  "answers_same x xs y \<longleftrightarrow>
     (case y of None \<Rightarrow> x = None | Some (l, a) \<Rightarrow> \<exists>c. x = Some (c, a) \<and> same_cache c (after xs l))"

lemma step_same:
  assumes same: "same_cache c l"
  shows "answers_same (cache_step order zk zv call c) (delivered c) (inner_step order zk zv call (lc_lfu c))"
proof -
  let ?m = "lc_lfu c" and ?xs = "delivered c"
  have calls: "calls ?m = []" using same by (simp add: same_cache_def)
  have here: "same_cache c (after ?xs ?m)" using same by (simp add: same_cache_def)
  have add: "answers_same (do { (l, ev) \<leftarrow> lfu_add ?m k v; (c, kv) \<leftarrow> take_first ev (lfu_returns l c); Some (call_first kv c, f ev) })
      ?xs (map_option (map_prod id f) (lfu_add ?m k v))" for k v and f :: "bool \<Rightarrow> 'z"
  proof (cases "lfu_add ?m k v")
    case (Some r)
    obtain l' ev where r: "lfu_add ?m k v = Some (l', ev)" using Some by (cases r) auto
    from first_same [OF same add_fired [OF calls r]] obtain c' kv where
      "take_first ev (lfu_returns l' c) = Some (c', kv)" "same_cache (call_first kv c') (after ?xs l')" .
    then show ?thesis by (simp add: answers_same_def r)
  qed (simp add: answers_same_def)
  show ?thesis
  proof (cases call)
    case (Plain p)
    have "answers_same (cache_plain order zk p c) ?xs (lfu_step order zk p ?m)"
    proof (cases p)
      case (LfuAdd k v)
      then show ?thesis using add [of k v id]
        by (simp add: cache_add_def answers_same_def id_def split: option.splits prod.splits)
    next
      case (LfuGet k)
      show ?thesis
      proof (cases "lfu_get ?m k")
        case (Some r)
        obtain l' x where r: "lfu_get ?m k = Some (l', x)" using Some by (cases r) auto
        from first_same [OF same get_fired [OF calls r]] show ?thesis
          using LfuGet r by (auto simp: cache_get_def answers_same_def take_first_def call_first_def)
      qed (simp add: LfuGet cache_get_def answers_same_def)
    next
      case (LfuRemove k)
      obtain l' x where r: "lfu_remove ?m k = (l', x)" by (cases "lfu_remove ?m k")
      from first_same [OF same remove_fired [OF calls r]] obtain c' kv where
        "take_first x (lfu_returns l' c) = Some (c', kv)" "same_cache (call_first kv c') (after ?xs l')" .
      then show ?thesis using LfuRemove r by (simp add: cache_remove_def answers_same_def)
    next
      case (LfuResize n)
      obtain l' x where r: "lfu_resize ?m n = (l', x)" by (cases "lfu_resize ?m n")
      obtain c' ks vs where t: "take_all (lfu_returns l' c) = (c', ks, vs)" by (metis prod_cases3)
      from all_same [OF same resize_silent [OF r] t] show ?thesis
        using LfuResize r t by (auto simp: cache_resize_def answers_same_def)
    next
      case LfuPurge
      obtain c' ks vs where t: "take_all (lfu_returns (lfu_purge order ?m) c) = (c', ks, vs)" by (metis prod_cases3)
      from all_same [OF same purge_silent t] show ?thesis
        using LfuPurge t by (auto simp: cache_purge_def answers_same_def)
    next
      case LfuRemoveOldest
      obtain l' x where r: "RemoveOldest ?m = (l', x)" by (cases "RemoveOldest ?m")
      then have "fired ?m (x \<noteq> None) l'" using evict_fired [OF calls] by (simp add: RemoveOldest_def)
      from first_same [OF same this] obtain c' kv where
        "take_first (x \<noteq> None) (lfu_returns l' c) = Some (c', kv)" "same_cache (call_first kv c') (after ?xs l')" .
      then show ?thesis using LfuRemoveOldest r by (simp add: cache_remove_oldest_def answers_same_def)
    qed (use here in \<open>auto simp: answers_same_def cache_peek_def cache_contains_def cache_keys_def cache_len_def split: option.splits\<close>)
    then show ?thesis unfolding Plain
      by (auto simp: answers_same_def split: option.splits prod.splits)
  next
    case (CallContainsOrAdd k v)
    show ?thesis
    proof (cases "lfu_contains ?m k")
      case True
      with CallContainsOrAdd here show ?thesis by (simp add: ContainsOrAdd_def answers_same_def)
    next
      case False
      with add [of k v "Pair False"] CallContainsOrAdd show ?thesis
        by (auto simp: ContainsOrAdd_def answers_same_def split: option.splits prod.splits)
    qed
  next
    case (CallPeekOrAdd k v)
    show ?thesis
    proof (cases "lfu_peek ?m k")
      case (Some x)
      with CallPeekOrAdd here show ?thesis by (simp add: PeekOrAdd_def answers_same_def)
    next
      case None
      with add [of k v "Pair None"] CallPeekOrAdd show ?thesis
        by (auto simp: PeekOrAdd_def answers_same_def split: option.splits prod.splits)
    qed
  qed (use here in \<open>auto simp: answers_same_def cache_get_oldest_def cache_values_def split: option.splits\<close>)
qed

fun cache_run ::
  "('k set \<Rightarrow> 'k list) \<Rightarrow> 'k \<Rightarrow> 'v \<Rightarrow> ('k, 'v) cache_call list \<Rightarrow> ('k, 'v) lfu_cache
    \<Rightarrow> (('k, 'v) lfu_cache \<times> ('k, 'v) cache_answer list) option"
  where
  "cache_run order zk zv [] c = Some (c, [])"
| "cache_run order zk zv (call # rest) c = do {
     (c, a) \<leftarrow> cache_step order zk zv call c;
     (c, as) \<leftarrow> cache_run order zk zv rest c;
     Some (c, a # as)
   }"

fun inner_run ::
  "('k set \<Rightarrow> 'k list) \<Rightarrow> 'k \<Rightarrow> 'v \<Rightarrow> ('k, 'v) cache_call list \<Rightarrow> ('k, 'v) lfu
    \<Rightarrow> (('k, 'v) lfu \<times> ('k, 'v) cache_answer list) option"
  where
  "inner_run order zk zv [] l = Some (l, [])"
| "inner_run order zk zv (call # rest) l = do {
     (l, a) \<leftarrow> inner_step order zk zv call l;
     (l, as) \<leftarrow> inner_run order zk zv rest l;
     Some (l, a # as)
   }"

lemma inner_step_total:
  assumes inv: "lfu_inv l"
  obtains l' a where "inner_step order zk zv call l = Some (l', a)" "lfu_inv l'"
proof -
  have add: "\<exists>l' ev. lfu_add l k v = Some (l', ev) \<and> lfu_inv l'" for k v
    using lfu_add_refines [OF inv, of k v] by auto
  have "\<exists>l' a. inner_step order zk zv call l = Some (l', a) \<and> lfu_inv l'"
  proof (cases call)
    case (Plain p)
    with lfu_step_refines [OF inv, of order zk p] show ?thesis by auto
  next
    case (CallContainsOrAdd k v)
    with add [of k v] inv show ?thesis by auto
  next
    case (CallPeekOrAdd k v)
    with add [of k v] inv show ?thesis by (auto split: option.split)
  next
    case CallValues
    with lfu_keys_exact(2) [OF inv] inv show ?thesis by auto
  qed (use inv in simp)
  with that show ?thesis by blast
qed

lemma run_same:
  assumes "same_cache c l" and "lfu_inv l"
  shows "\<exists>c' l' as. cache_run order zk zv cs c = Some (c', as) \<and> inner_run order zk zv cs l = Some (l', as) \<and>
    same_cache c' l' \<and> lfu_inv l'"
  using assms
proof (induction cs arbitrary: c l)
  case (Cons call rest)
  from inner_step_total [OF Cons.prems(2)] obtain l1 a where l1: "inner_step order zk zv call l = Some (l1, a)" "lfu_inv l1" .
  have "l = after (delivered c) (lc_lfu c)" using Cons.prems(1) by (simp add: same_cache_def)
  with l1(1) obtain m where "inner_step order zk zv call (lc_lfu c) = Some (m, a)" "l1 = after (delivered c) m"
    by (auto simp: after_step)
  with step_same [OF Cons.prems(1), of order zk zv call] obtain c1 where
    "cache_step order zk zv call c = Some (c1, a)" "same_cache c1 l1" by (auto simp: answers_same_def)
  with l1 Cons.IH [OF this(2) l1(2)] show ?case by auto
qed auto

lemma new_same:
  assumes "NewWithEvict sz cb = Inr c" and "NewLFU sz cb = Inr l"
  shows "same_cache c l" "lfu_inv l"
proof -
  show "lfu_inv l" using NewLFU_inv [OF assms(2)] by simp
  show "same_cache c l" using assms
    by (auto simp: NewWithEvict_def NewLFU_def same_cache_def after_def split: if_splits)
qed

end
