(* ===== verification/LinkedList.thy ===== *)
theory LinkedList
  imports SimpleLFU
begin

text \<open>
  The doubly linked list under the LFU buckets (\<^verbatim>\<open>src/lfu/internal/list.go\<close>): entries on a heap, linked
  into a ring through a sentinel, and the assignments of each operation in their order. A nil pointer
  that is dereferenced is a panic, \<^term>\<open>None\<close>.

  The operations are shown to be the operations on lists that theory \<open>SimpleLFU\<close> is written with: in
  every run of calls the ring never panics and answers as a list of identified entries does.
\<close>

subsection \<open>The heap\<close>

text \<open>A pointer is the sentinel of a list object or an entry; both are objects with a number.\<close>

datatype ptr = Root nat | Cell nat

text \<open>The zero \<^verbatim>\<open>time.Time\<close> is \<^term>\<open>None\<close>.\<close>

record ('k, 'v) cell =
  c_next :: "ptr option"
  c_prev :: "ptr option"
  c_list :: "nat option"
  c_Key :: 'k
  c_Value :: 'v
  c_ExpiresAt :: "int option"
  c_ExpireBucket :: "8 word"
  c_Freq :: int

record ('k, 'v) list_heap =
  lh_cells :: "ptr \<Rightarrow> ('k, 'v) cell"
  lh_len :: "nat \<Rightarrow> int"
  lh_free :: nat

abbreviation next_of :: "('k, 'v) list_heap \<Rightarrow> ptr \<Rightarrow> ptr option" where
  "next_of h p \<equiv> c_next (lh_cells h p)"

abbreviation prev_of :: "('k, 'v) list_heap \<Rightarrow> ptr \<Rightarrow> ptr option" where
  "prev_of h p \<equiv> c_prev (lh_cells h p)"

abbreviation list_of :: "('k, 'v) list_heap \<Rightarrow> ptr \<Rightarrow> nat option" where
  "list_of h p \<equiv> c_list (lh_cells h p)"

definition set_cell :: "ptr \<Rightarrow> (('k, 'v) cell \<Rightarrow> ('k, 'v) cell) \<Rightarrow> ('k, 'v) list_heap \<Rightarrow> ('k, 'v) list_heap" where
  "set_cell p f h = h\<lparr>lh_cells := (lh_cells h)(p := f (lh_cells h p))\<rparr>"

definition set_next :: "ptr \<Rightarrow> ptr option \<Rightarrow> ('k, 'v) list_heap \<Rightarrow> ('k, 'v) list_heap" where
  "set_next p x = set_cell p (\<lambda>c. c\<lparr>c_next := x\<rparr>)"

definition set_prev :: "ptr \<Rightarrow> ptr option \<Rightarrow> ('k, 'v) list_heap \<Rightarrow> ('k, 'v) list_heap" where
  "set_prev p x = set_cell p (\<lambda>c. c\<lparr>c_prev := x\<rparr>)"

definition set_list :: "ptr \<Rightarrow> nat option \<Rightarrow> ('k, 'v) list_heap \<Rightarrow> ('k, 'v) list_heap" where
  "set_list p x = set_cell p (\<lambda>c. c\<lparr>c_list := x\<rparr>)"

definition set_len :: "nat \<Rightarrow> int \<Rightarrow> ('k, 'v) list_heap \<Rightarrow> ('k, 'v) list_heap" where
  "set_len l n h = h\<lparr>lh_len := (lh_len h)(l := n)\<rparr>"

lemmas heap_defs = set_cell_def set_next_def set_prev_def set_list_def set_len_def

subsection \<open>The operations\<close>

definition PrevEntry :: "ptr \<Rightarrow> ('k, 'v) list_heap \<Rightarrow> ptr option" where
  "PrevEntry e h =
     (case list_of h e of None \<Rightarrow> None
      | Some l \<Rightarrow> let p = prev_of h e in if p \<noteq> Some (Root l) then p else None)"

definition Init :: "nat \<Rightarrow> ('k, 'v) list_heap \<Rightarrow> ('k, 'v) list_heap" where
  "Init l h = set_len l 0 (set_prev (Root l) (Some (Root l)) (set_next (Root l) (Some (Root l)) h))"

text \<open>\<^verbatim>\<open>l\<close> is the number of the new object; of its sentinel only the fields \<^verbatim>\<open>Init\<close> sets are used.\<close>

definition NewList :: "nat \<Rightarrow> ('k, 'v) list_heap \<Rightarrow> ('k, 'v) list_heap" where
  "NewList l h = Init l h"

definition Length :: "nat \<Rightarrow> ('k, 'v) list_heap \<Rightarrow> int" where
  "Length l h = lh_len h l"

definition Back :: "nat \<Rightarrow> ('k, 'v) list_heap \<Rightarrow> ptr option" where
  "Back l h = (if lh_len h l = 0 then None else prev_of h (Root l))"

definition lazyInit :: "nat \<Rightarrow> ('k, 'v) list_heap \<Rightarrow> ('k, 'v) list_heap" where
  "lazyInit l h = (if next_of h (Root l) = None then Init l h else h)"

definition list_insert :: "nat \<Rightarrow> ptr \<Rightarrow> ptr \<Rightarrow> ('k, 'v) list_heap \<Rightarrow> (('k, 'v) list_heap \<times> ptr) option" where
  "list_insert l e mark h = do {
     let h = set_prev e (Some mark) h;
     let h = set_next e (next_of h mark) h;
     p \<leftarrow> prev_of h e;
     let h = set_next p (Some e) h;
     n \<leftarrow> next_of h e;
     let h = set_prev n (Some e) h;
     let h = set_list e (Some l) h;
     let h = set_len l (lh_len h l + 1) h;
     Some (h, e)
   }"

text \<open>\<^verbatim>\<open>&Entry{...}\<close> is a new object whose other fields are zero.\<close>

definition insertValue ::
  "nat \<Rightarrow> 'k \<Rightarrow> 'v \<Rightarrow> int option \<Rightarrow> ptr \<Rightarrow> int \<Rightarrow> ('k, 'v) list_heap \<Rightarrow> (('k, 'v) list_heap \<times> ptr) option" where
  "insertValue l k v expiresAt mark freq h =
     (let e = Cell (lh_free h);
          h = h\<lparr>lh_free := lh_free h + 1\<rparr>;
          h = set_cell e (\<lambda>_. \<lparr>c_next = None, c_prev = None, c_list = None, c_Key = k, c_Value = v,
                c_ExpiresAt = expiresAt, c_ExpireBucket = 0, c_Freq = freq\<rparr>) h
      in list_insert l e mark h)"

definition Remove_entry :: "nat \<Rightarrow> ptr \<Rightarrow> ('k, 'v) list_heap \<Rightarrow> (('k, 'v) list_heap \<times> 'v) option" where
  "Remove_entry l e h = do {
     p \<leftarrow> prev_of h e;
     let h = set_next p (next_of h e) h;
     n \<leftarrow> next_of h e;
     let h = set_prev n (prev_of h e) h;
     let h = set_next e None h;
     let h = set_prev e None h;
     let h = set_list e None h;
     let h = set_len l (lh_len h l - 1) h;
     Some (h, c_Value (lh_cells h e))
   }"

definition move :: "ptr \<Rightarrow> ptr \<Rightarrow> ('k, 'v) list_heap \<Rightarrow> ('k, 'v) list_heap option" where
  "move e mark h =
     (if e = mark then Some h
      else do {
        p \<leftarrow> prev_of h e;
        let h = set_next p (next_of h e) h;
        n \<leftarrow> next_of h e;
        let h = set_prev n (prev_of h e) h;
        let h = set_prev e (Some mark) h;
        let h = set_next e (next_of h mark) h;
        p \<leftarrow> prev_of h e;
        let h = set_next p (Some e) h;
        n \<leftarrow> next_of h e;
        Some (set_prev n (Some e) h)
      })"

definition PushFront :: "nat \<Rightarrow> 'k \<Rightarrow> 'v \<Rightarrow> ('k, 'v) list_heap \<Rightarrow> (('k, 'v) list_heap \<times> ptr) option" where
  "PushFront l k v h = insertValue l k v None (Root l) 1 (lazyInit l h)"

definition PushFrontFreq :: "nat \<Rightarrow> 'k \<Rightarrow> 'v \<Rightarrow> int \<Rightarrow> ('k, 'v) list_heap \<Rightarrow> (('k, 'v) list_heap \<times> ptr) option" where
  "PushFrontFreq l k v freq h = insertValue l k v None (Root l) freq (lazyInit l h)"

definition PushFrontExpirable ::
  "nat \<Rightarrow> 'k \<Rightarrow> 'v \<Rightarrow> int option \<Rightarrow> ('k, 'v) list_heap \<Rightarrow> (('k, 'v) list_heap \<times> ptr) option" where
  "PushFrontExpirable l k v expiresAt h = insertValue l k v expiresAt (Root l) 1 (lazyInit l h)"

definition PushFrontFreqExpirable ::
  "nat \<Rightarrow> 'k \<Rightarrow> 'v \<Rightarrow> int option \<Rightarrow> int \<Rightarrow> ('k, 'v) list_heap \<Rightarrow> (('k, 'v) list_heap \<times> ptr) option" where
  "PushFrontFreqExpirable l k v expiresAt freq h = insertValue l k v expiresAt (Root l) freq (lazyInit l h)"

definition MoveToFront :: "nat \<Rightarrow> ptr \<Rightarrow> ('k, 'v) list_heap \<Rightarrow> ('k, 'v) list_heap option" where
  "MoveToFront l e h =
     (if list_of h e \<noteq> Some l \<or> next_of h (Root l) = Some e then Some h else move e (Root l) h)"

subsection \<open>Chains\<close>

text \<open>From \<open>p\<close> over the entries \<open>xs\<close> to \<open>q\<close>: every next pointer and its inverse.\<close>

fun linked :: "(ptr \<Rightarrow> ptr option) \<Rightarrow> (ptr \<Rightarrow> ptr option) \<Rightarrow> ptr \<Rightarrow> ptr list \<Rightarrow> ptr \<Rightarrow> bool" where
  "linked nx pv p [] q \<longleftrightarrow> nx p = Some q \<and> pv q = Some p"
| "linked nx pv p (x # xs) q \<longleftrightarrow> nx p = Some x \<and> pv x = Some p \<and> linked nx pv x xs q"

lemma linked_append: "linked nx pv p (xs @ y # ys) q \<longleftrightarrow> linked nx pv p xs y \<and> linked nx pv y ys q"
  by (induction xs arbitrary: p) auto

lemma linked_next [simp]: "a \<noteq> p \<Longrightarrow> a \<notin> set xs \<Longrightarrow> linked (nx(a := b)) pv p xs q = linked nx pv p xs q"
  by (induction xs arbitrary: p) auto

lemma linked_prev [simp]: "a \<noteq> q \<Longrightarrow> a \<notin> set xs \<Longrightarrow> linked nx (pv(a := b)) p xs q = linked nx pv p xs q"
  by (induction xs arbitrary: p) auto

lemma linked_first: "linked nx pv p xs q \<Longrightarrow> nx p = Some (hd (xs @ [q]))"
  by (cases xs) auto

lemma linked_last: "linked nx pv p xs q \<Longrightarrow> pv q = Some (last (p # xs))"
  by (cases xs rule: rev_cases) (auto simp: linked_append)

text \<open>Unlinking: the predecessor and the successor of an entry are joined.\<close>

lemma linked_join:
  assumes "linked nx pv p xs e" and "linked nx pv e ys q" and "distinct (xs @ ys)"
    and "p \<notin> set (xs @ ys)" "q \<notin> set (xs @ ys)"
  shows "linked (nx(last (p # xs) := Some (hd (ys @ [q])))) (pv(hd (ys @ [q]) := Some (last (p # xs)))) p (xs @ ys) q"
proof (cases xs rule: rev_cases)
  case Nil
  then show ?thesis using assms by (cases ys) auto
next
  case (snoc zs z)
  have z: "linked nx pv p zs z" "nx z = Some e" "pv e = Some z" using assms(1) snoc by (simp_all add: linked_append)
  show ?thesis using assms(2-5) snoc z by (cases ys) (auto simp: linked_append)
qed

text \<open>Linking an entry in at the front.\<close>

lemma linked_front:
  assumes "linked nx pv r xs r" and "e \<noteq> r" "e \<notin> set xs" and "distinct xs" "r \<notin> set xs"
  shows "linked (nx(e := Some (hd (xs @ [r])), r := Some e)) (pv(e := Some r, hd (xs @ [r]) := Some e)) r (e # xs) r"
  using assms by (cases xs) auto

subsection \<open>The list a ring represents\<close>

type_synonym ('k, 'v) ring = "(nat \<times> ('k, 'v) entry) list"

definition cell_entry :: "('k, 'v) cell \<Rightarrow> ('k, 'v) entry" where
  "cell_entry c = \<lparr>Key = c_Key c, Value = c_Value c, Freq = c_Freq c\<rparr>"

definition cells_of :: "('k, 'v) ring \<Rightarrow> ptr list" where
  "cells_of es = map (\<lambda>x. Cell (fst x)) es"

definition ring_at :: "('k, 'v) list_heap \<Rightarrow> nat \<Rightarrow> ('k, 'v) ring \<Rightarrow> bool" where
  "ring_at h l es \<longleftrightarrow>
     linked (next_of h) (prev_of h) (Root l) (cells_of es) (Root l) \<and>
     distinct (map fst es) \<and> lh_len h l = int (length es) \<and>
     (\<forall>(e, x) \<in> set es. e < lh_free h \<and> list_of h (Cell e) = Some l \<and> cell_entry (lh_cells h (Cell e)) = x) \<and>
     (\<forall>e. e \<notin> fst ` set es \<longrightarrow> list_of h (Cell e) \<noteq> Some l)"

text \<open>A zero \<^verbatim>\<open>LfuList\<close>, before its first push, is an empty list too.\<close>

definition represents :: "('k, 'v) list_heap \<Rightarrow> nat \<Rightarrow> ('k, 'v) ring \<Rightarrow> bool" where
  "represents h l es \<longleftrightarrow> ring_at h l es \<or>
     (es = [] \<and> next_of h (Root l) = None \<and> lh_len h l = 0 \<and> (\<forall>e. list_of h (Cell e) \<noteq> Some l))"

lemma cells_distinct: "distinct (map fst es) \<Longrightarrow> distinct (cells_of es) \<and> Root l \<notin> set (cells_of es)"
  by (auto simp: cells_of_def distinct_map inj_on_def)

lemma cells_mem [simp]: "Cell e \<in> set (cells_of es) \<longleftrightarrow> e \<in> fst ` set es" "Root l \<notin> set (cells_of es)"
  by (auto simp: cells_of_def)

lemma cells_hd: "hd (cells_of es @ [Root l]) = (case es of [] \<Rightarrow> Root l | x # _ \<Rightarrow> Cell (fst x))"
  by (cases es) (simp_all add: cells_of_def)

lemma represents_init: "represents h l es \<Longrightarrow> ring_at (lazyInit l h) l es"
  by (auto simp: represents_def lazyInit_def ring_at_def Init_def heap_defs cells_of_def dest: linked_first)

subsection \<open>What the operations do to it\<close>

lemma ring_first: "ring_at h l es \<Longrightarrow> next_of h (Root l) = Some (hd (cells_of es @ [Root l]))"
  by (auto simp: ring_at_def dest: linked_first)

lemma ring_last: "ring_at h l es \<Longrightarrow> prev_of h (Root l) = Some (last (Root l # cells_of es))"
  by (auto simp: ring_at_def dest: linked_last)

lemma set_cell_entry [simp]:
  "cell_entry (c\<lparr>c_next := x\<rparr>) = cell_entry c" "cell_entry (c\<lparr>c_prev := x\<rparr>) = cell_entry c"
  "cell_entry (c\<lparr>c_list := y\<rparr>) = cell_entry c"
  by (simp_all add: cell_entry_def)

text \<open>A heap whose links, owners and contents are given.\<close>

lemma ring_atI:
  assumes "linked nx pv (Root l) (cells_of es) (Root l)" and "next_of h = nx" "prev_of h = pv"
    and "distinct (map fst es)" "lh_len h l = int (length es)"
    and "\<And>e x. (e, x) \<in> set es \<Longrightarrow> e < lh_free h \<and> list_of h (Cell e) = Some l \<and> cell_entry (lh_cells h (Cell e)) = x"
    and "\<And>e. e \<notin> fst ` set es \<Longrightarrow> list_of h (Cell e) \<noteq> Some l"
  shows "ring_at h l es"
  using assms by (auto simp: ring_at_def)

lemma ring_cellD:
  "ring_at h l es \<Longrightarrow> (e, x) \<in> set es \<Longrightarrow>
    e < lh_free h \<and> list_of h (Cell e) = Some l \<and> cell_entry (lh_cells h (Cell e)) = x"
  unfolding ring_at_def by (elim conjE) (drule (1) bspec, simp)

lemma insertValue_ring:
  assumes r: "ring_at h l es"
  obtains h' where "insertValue l k v t (Root l) f h = Some (h', Cell (lh_free h))"
    "ring_at h' l ((lh_free h, \<lparr>Key = k, Value = v, Freq = f\<rparr>) # es)" "lh_free h' = lh_free h + 1"
proof -
  let ?e = "Cell (lh_free h)" and ?first = "hd (cells_of es @ [Root l])"
  have new: "lh_free h \<notin> fst ` set es" using r by (force simp: ring_at_def)
  have first: "next_of h (Root l) = Some ?first" using ring_first [OF r] .
  have ne: "?first \<noteq> ?e" using new by (cases es) (auto simp: cells_of_def)
  define c where "c = (\<lparr>c_next = None, c_prev = None, c_list = None, c_Key = k, c_Value = v,
    c_ExpiresAt = t, c_ExpireBucket = 0, c_Freq = f\<rparr> :: ('a, 'b) cell)"
  define h1 where "h1 = set_prev ?e (Some (Root l)) (set_cell ?e (\<lambda>_. c) (h\<lparr>lh_free := Suc (lh_free h)\<rparr>))"
  define h2 where "h2 = set_next (Root l) (Some ?e) (set_next ?e (Some ?first) h1)"
  define h' where "h' = set_len l (lh_len h l + 1) (set_list ?e (Some l) (set_prev ?first (Some ?e) h2))"
  have "next_of h1 (Root l) = Some ?first" using first by (simp add: h1_def heap_defs)
  moreover have "prev_of (set_next ?e (Some ?first) h1) ?e = Some (Root l)" by (simp add: h1_def heap_defs)
  moreover have "next_of h2 ?e = Some ?first" by (simp add: h2_def heap_defs)
  moreover have "lh_len (set_list ?e (Some l) (set_prev ?first (Some ?e) h2)) l = lh_len h l"
    by (simp add: h2_def h1_def heap_defs)
  ultimately have h': "insertValue l k v t (Root l) f h = Some (h', ?e)"
    by (simp add: insertValue_def list_insert_def Let_def c_def [symmetric] h1_def [symmetric] h2_def [symmetric] h'_def)
  have nx: "next_of h' = (next_of h)(?e := Some ?first, Root l := Some ?e)"
    by (rule ext) (simp add: h'_def h2_def h1_def heap_defs c_def)
  have pv: "prev_of h' = (prev_of h)(?e := Some (Root l), ?first := Some ?e)"
    by (rule ext) (simp add: h'_def h2_def h1_def heap_defs c_def)
  have li: "list_of h' p = (if p = ?e then Some l else list_of h p)"
    and ce: "p \<noteq> ?e \<Longrightarrow> cell_entry (lh_cells h' p) = cell_entry (lh_cells h p)"
    and cn: "cell_entry (lh_cells h' ?e) = \<lparr>Key = k, Value = v, Freq = f\<rparr>"
    and ln: "lh_len h' l = lh_len h l + 1" and fr: "lh_free h' = lh_free h + 1" for p
    using ne by (simp_all add: h'_def h2_def h1_def heap_defs c_def) (simp_all add: cell_entry_def)
  have "ring_at h' l ((lh_free h, \<lparr>Key = k, Value = v, Freq = f\<rparr>) # es)"
  proof (rule ring_atI)
    show "linked (next_of h') (prev_of h') (Root l) (cells_of ((lh_free h, \<lparr>Key = k, Value = v, Freq = f\<rparr>) # es)) (Root l)"
      using linked_front [of "next_of h" "prev_of h" "Root l" "cells_of es" ?e] r new cells_distinct [of es l]
      unfolding nx pv by (simp add: ring_at_def cells_of_def image_iff)
    fix d y assume "(d, y) \<in> set ((lh_free h, \<lparr>Key = k, Value = v, Freq = f\<rparr>) # es)"
    then show "d < lh_free h' \<and> list_of h' (Cell d) = Some l \<and> cell_entry (lh_cells h' (Cell d)) = y"
      using ring_cellD [OF r, of d y] new by (auto simp: li ce cn fr)
  next
    show "list_of h' (Cell d) \<noteq> Some l" if "d \<notin> fst ` set ((lh_free h, \<lparr>Key = k, Value = v, Freq = f\<rparr>) # es)" for d
      using that r by (simp add: li ring_at_def)
  qed (use r new in \<open>simp_all add: ring_at_def ln\<close>)
  with h' fr show ?thesis by (intro that [of h'])
qed

text \<open>The first two assignments of \<^verbatim>\<open>Remove\<close> and \<^verbatim>\<open>move\<close>.\<close>

definition unlink :: "ptr \<Rightarrow> ('k, 'v) list_heap \<Rightarrow> ('k, 'v) list_heap option" where
  "unlink e h = do {
     p \<leftarrow> prev_of h e;
     let h = set_next p (next_of h e) h;
     n \<leftarrow> next_of h e;
     Some (set_prev n (prev_of h e) h)
   }"

lemma ring_neighbours:
  assumes "ring_at h l (as @ (e, x) # bs)"
  shows "prev_of h (Cell e) = Some (last (Root l # cells_of as))" "next_of h (Cell e) = Some (hd (cells_of bs @ [Root l]))"
proof -
  have "linked (next_of h) (prev_of h) (Root l) (cells_of as) (Cell e)" "linked (next_of h) (prev_of h) (Cell e) (cells_of bs) (Root l)"
    using assms by (simp_all add: ring_at_def cells_of_def linked_append)
  then show "prev_of h (Cell e) = Some (last (Root l # cells_of as))" "next_of h (Cell e) = Some (hd (cells_of bs @ [Root l]))"
    by (auto dest: linked_last linked_first)
qed

lemma unlink_ring:
  assumes r: "ring_at h l (as @ (e, x) # bs)"
  obtains h' where "unlink (Cell e) h = Some h'"
    "linked (next_of h') (prev_of h') (Root l) (cells_of (as @ bs)) (Root l)"
    "next_of h' (Cell e) = next_of h (Cell e)" "prev_of h' (Cell e) = prev_of h (Cell e)"
    "\<And>p. list_of h' p = list_of h p" "\<And>p. cell_entry (lh_cells h' p) = cell_entry (lh_cells h p)"
    "lh_len h' = lh_len h" "lh_free h' = lh_free h"
    "\<And>p. c_Value (lh_cells h' p) = c_Value (lh_cells h p)"
proof -
  let ?pre = "last (Root l # cells_of as)" and ?suc = "hd (cells_of bs @ [Root l])"
  note nb = ring_neighbours [OF r]
  have dist: "distinct (map fst (as @ (e, x) # bs))" using r by (simp add: ring_at_def)
  have ne: "?pre \<noteq> Cell e" "?suc \<noteq> Cell e"
  proof -
    have "?pre \<in> insert (Root l) (set (cells_of as))" by (cases as rule: rev_cases) (auto simp: cells_of_def)
    then show "?pre \<noteq> Cell e" using dist by auto
    have "?suc \<in> insert (Root l) (set (cells_of bs))" by (cases bs) (auto simp: cells_of_def)
    then show "?suc \<noteq> Cell e" using dist by auto
  qed
  define h' where "h' = set_prev ?suc (Some ?pre) (set_next ?pre (Some ?suc) h)"
  have "next_of (set_next ?pre (Some ?suc) h) (Cell e) = Some ?suc" "prev_of (set_next ?pre (Some ?suc) h) (Cell e) = Some ?pre"
    using ne nb by (simp_all add: heap_defs)
  then have h': "unlink (Cell e) h = Some h'" by (simp add: unlink_def Let_def nb h'_def)
  have nx: "next_of h' = (next_of h)(?pre := Some ?suc)" by (rule ext) (simp add: h'_def heap_defs)
  have pv: "prev_of h' = (prev_of h)(?suc := Some ?pre)" by (rule ext) (simp add: h'_def heap_defs)
  have rest: "list_of h' p = list_of h p" "cell_entry (lh_cells h' p) = cell_entry (lh_cells h p)"
      "lh_len h' = lh_len h" "lh_free h' = lh_free h" "c_Value (lh_cells h' p) = c_Value (lh_cells h p)" for p
    by (simp_all add: h'_def heap_defs)
  have "linked (next_of h) (prev_of h) (Root l) (cells_of as) (Cell e)" "linked (next_of h) (prev_of h) (Cell e) (cells_of bs) (Root l)"
    using r by (simp_all add: ring_at_def cells_of_def linked_append)
  from linked_join [OF this] cells_distinct [of "as @ bs" l] dist
  have "linked (next_of h') (prev_of h') (Root l) (cells_of (as @ bs)) (Root l)"
    unfolding nx pv by (simp add: cells_of_def)
  moreover have "next_of h' (Cell e) = next_of h (Cell e)" "prev_of h' (Cell e) = prev_of h (Cell e)"
    using fun_cong [OF nx, of "Cell e"] fun_cong [OF pv, of "Cell e"] ne by simp_all
  ultimately show ?thesis using h' rest by (intro that [of h'])
qed

lemma Remove_ring:
  assumes r: "ring_at h l (as @ (e, x) # bs)"
  obtains h' where "Remove_entry l (Cell e) h = Some (h', Value x)" "ring_at h' l (as @ bs)" "lh_free h' = lh_free h"
    "list_of h' (Cell e) = None" "prev_of h' (Cell e) = None"
proof -
  obtain h1 where h1: "unlink (Cell e) h = Some h1"
    "linked (next_of h1) (prev_of h1) (Root l) (cells_of (as @ bs)) (Root l)"
    "\<And>p. list_of h1 p = list_of h p" "\<And>p. cell_entry (lh_cells h1 p) = cell_entry (lh_cells h p)"
    "lh_len h1 = lh_len h" "lh_free h1 = lh_free h" "\<And>p. c_Value (lh_cells h1 p) = c_Value (lh_cells h p)"
    using unlink_ring [OF r] by metis
  define h' where "h' = set_len l (lh_len h l - 1) (set_list (Cell e) None (set_prev (Cell e) None (set_next (Cell e) None h1)))"
  have dist: "distinct (map fst (as @ (e, x) # bs))" using r by (simp add: ring_at_def)
  have "cell_entry (lh_cells h (Cell e)) = x" using r by (simp add: ring_at_def)
  then have val: "c_Value (lh_cells h (Cell e)) = Value x" by (auto simp: cell_entry_def)
  have run: "Remove_entry l (Cell e) h = map_option (\<lambda>h1. let h' = set_len l (lh_len h1 l - 1)
      (set_list (Cell e) None (set_prev (Cell e) None (set_next (Cell e) None h1))) in (h', c_Value (lh_cells h' (Cell e)))) (unlink (Cell e) h)"
    by (simp add: Remove_entry_def unlink_def Let_def set_len_def set_list_def set_prev_def set_next_def set_cell_def
        map_option_bind split: bind_splits)
  have "Remove_entry l (Cell e) h = Some (h', Value x)"
    unfolding run h1(1) by (simp add: h'_def Let_def h1(5,7) heap_defs val)
  moreover have "ring_at h' l (as @ bs)"
  proof (rule ring_atI)
    have "e \<notin> fst ` set (as @ bs)" using dist by auto
    then have "linked ((next_of h1)(Cell e := None)) ((prev_of h1)(Cell e := None)) (Root l) (cells_of (as @ bs)) (Root l)"
      using h1(2) by simp
    moreover have "next_of h' = (next_of h1)(Cell e := None)" "prev_of h' = (prev_of h1)(Cell e := None)"
      by (auto simp: h'_def heap_defs fun_eq_iff)
    ultimately show "linked (next_of h') (prev_of h') (Root l) (cells_of (as @ bs)) (Root l)" by simp
    have le: "list_of h' p = (if p = Cell e then None else list_of h p)" "cell_entry (lh_cells h' p) = cell_entry (lh_cells h p)" for p
      by (simp_all add: h'_def heap_defs h1(3,4))
    show "d < lh_free h' \<and> list_of h' (Cell d) = Some l \<and> cell_entry (lh_cells h' (Cell d)) = y" if "(d, y) \<in> set (as @ bs)" for d y
    proof -
      have "d \<noteq> e" using that dist by (auto simp: image_iff)
      moreover have "d < lh_free h \<and> list_of h (Cell d) = Some l \<and> cell_entry (lh_cells h (Cell d)) = y"
        using ring_cellD [OF r, of d y] that by auto
      ultimately show ?thesis by (simp add: le) (simp add: h'_def heap_defs h1(6))
    qed
    show "list_of h' (Cell d) \<noteq> Some l" if "d \<notin> fst ` set (as @ bs)" for d
      using that r by (auto simp: le ring_at_def)
    show "lh_len h' l = int (length (as @ bs))" using r by (simp add: h'_def heap_defs ring_at_def)
  qed (use dist in auto)
  ultimately show ?thesis by (intro that [of h']) (simp_all add: h'_def heap_defs h1(6))
qed

lemma MoveToFront_ring:
  assumes r: "ring_at h l (as @ (e, x) # bs)"
  obtains h' where "MoveToFront l (Cell e) h = Some h'" "ring_at h' l ((e, x) # as @ bs)" "lh_free h' = lh_free h"
proof (cases as)
  case Nil
  have "list_of h (Cell e) = Some l" "next_of h (Root l) = Some (Cell e)"
    using r Nil by (simp_all add: ring_at_def cells_of_def)
  then have "MoveToFront l (Cell e) h = Some h" by (simp add: MoveToFront_def)
  with r Nil show ?thesis by (intro that) simp_all
next
  case (Cons a as')
  have dist: "distinct (map fst (as @ (e, x) # bs))" using r by (simp add: ring_at_def)
  have own: "list_of h (Cell e) = Some l" "next_of h (Root l) \<noteq> Some (Cell e)"
    using r Cons by (auto simp: ring_at_def cells_of_def)
  obtain h1 where h1: "unlink (Cell e) h = Some h1"
    "linked (next_of h1) (prev_of h1) (Root l) (cells_of (as @ bs)) (Root l)"
    "next_of h1 (Cell e) = next_of h (Cell e)" "prev_of h1 (Cell e) = prev_of h (Cell e)"
    "\<And>p. list_of h1 p = list_of h p" "\<And>p. cell_entry (lh_cells h1 p) = cell_entry (lh_cells h p)"
    "lh_len h1 = lh_len h" "lh_free h1 = lh_free h"
    using unlink_ring [OF r] by metis
  let ?first = "hd (cells_of (as @ bs) @ [Root l])"
  have first: "next_of h1 (Root l) = Some ?first" using linked_first [OF h1(2)] .
  have ne: "?first \<noteq> Cell e" using dist Cons by (auto simp: cells_of_def)
  have run: "MoveToFront l (Cell e) h = Option.bind (unlink (Cell e) h) (\<lambda>h. do {
        let h = set_prev (Cell e) (Some (Root l)) h;
        let h = set_next (Cell e) (next_of h (Root l)) h;
        p \<leftarrow> prev_of h (Cell e);
        let h = set_next p (Some (Cell e)) h;
        n \<leftarrow> next_of h (Cell e);
        Some (set_prev n (Some (Cell e)) h)})"
    using own by (simp add: MoveToFront_def move_def unlink_def Let_def)
  define h2 where "h2 = set_next (Cell e) (Some ?first) (set_prev (Cell e) (Some (Root l)) h1)"
  define h' where "h' = set_prev ?first (Some (Cell e)) (set_next (Root l) (Some (Cell e)) h2)"
  have h2: "prev_of h2 (Cell e) = Some (Root l)" "next_of (set_next (Root l) x h2) (Cell e) = Some ?first" for x
    by (simp_all add: h2_def heap_defs)
  have "next_of (set_prev (Cell e) (Some (Root l)) h1) (Root l) = Some ?first" using first by (simp add: heap_defs)
  then have h': "MoveToFront l (Cell e) h = Some h'"
    unfolding run h1(1) by (simp add: Let_def h2_def [symmetric] h2 h'_def)
  have nx: "next_of h' = (next_of h1)(Cell e := Some ?first, Root l := Some (Cell e))"
    and pv: "prev_of h' = (prev_of h1)(Cell e := Some (Root l), ?first := Some (Cell e))"
    and rest: "\<And>p. list_of h' p = list_of h1 p" "\<And>p. cell_entry (lh_cells h' p) = cell_entry (lh_cells h1 p)"
      "lh_len h' = lh_len h1" "lh_free h' = lh_free h1"
    using ne by (auto simp: h'_def h2_def heap_defs cell_entry_def fun_eq_iff)
  have "ring_at h' l ((e, x) # as @ bs)"
  proof (rule ring_atI)
    show "linked (next_of h') (prev_of h') (Root l) (cells_of ((e, x) # as @ bs)) (Root l)"
      using linked_front [OF h1(2), of "Cell e"] dist cells_distinct [of "as @ bs" l]
      unfolding nx pv by (simp add: cells_of_def image_iff)
    fix d y assume "(d, y) \<in> set ((e, x) # as @ bs)"
    then show "d < lh_free h' \<and> list_of h' (Cell d) = Some l \<and> cell_entry (lh_cells h' (Cell d)) = y"
      using ring_cellD [OF r, of d y] by (auto simp: rest h1(5-8))
  qed (use r dist in \<open>auto simp: ring_at_def rest h1(5-8)\<close>)
  with h' rest(4) h1(8) show ?thesis by (intro that [of h']) simp_all
qed

lemma Back_ring: "ring_at h l es \<Longrightarrow> Back l h = (if es = [] then None else Some (Cell (fst (last es))))"
  using ring_last [of h l es] by (auto simp: Back_def ring_at_def cells_of_def last_map)

lemma PrevEntry_ring:
  assumes r: "ring_at h l (as @ (e, x) # bs)"
  shows "PrevEntry (Cell e) h = (if as = [] then None else Some (Cell (fst (last as))))"
proof -
  have "list_of h (Cell e) = Some l" using r by (simp add: ring_at_def)
  then show ?thesis using ring_neighbours(1) [OF r] by (auto simp: PrevEntry_def Let_def cells_of_def last_map)
qed

subsection \<open>Runs\<close>

datatype ('k, 'v) list_call = PushC 'k 'v int | RemoveC nat | MoveC nat | BackC | PrevC nat | LengthC

datatype 'v list_answer = Pushed ptr | Removed 'v | Moved | PointsTo "ptr option" | Counted int

fun list_do :: "nat \<Rightarrow> ('k, 'v) list_call \<Rightarrow> ('k, 'v) list_heap \<Rightarrow> (('k, 'v) list_heap \<times> 'v list_answer) option" where
  "list_do l (PushC k v freq) h = map_option (\<lambda>(h, e). (h, Pushed e)) (PushFrontFreq l k v freq h)"
| "list_do l (RemoveC e) h = map_option (\<lambda>(h, v). (h, Removed v)) (Remove_entry l (Cell e) h)"
| "list_do l (MoveC e) h = map_option (\<lambda>h. (h, Moved)) (MoveToFront l (Cell e) h)"
| "list_do l BackC h = Some (h, PointsTo (Back l h))"
| "list_do l (PrevC e) h = Some (h, PointsTo (PrevEntry (Cell e) h))"
| "list_do l LengthC h = Some (h, Counted (Length l h))"

text \<open>The reference: a list of numbered entries and the next number; \<open>without e\<close> is \<^verbatim>\<open>bucket.Remove\<close>.\<close>

definition without :: "nat \<Rightarrow> ('k, 'v) ring \<Rightarrow> ('k, 'v) ring" where
  "without e = filter (\<lambda>x. fst x \<noteq> e)"

definition last_cell :: "('k, 'v) ring \<Rightarrow> ptr option" where
  "last_cell es = (if es = [] then None else Some (Cell (fst (last es))))"

fun ring_do :: "('k, 'v) list_call \<Rightarrow> ('k, 'v) ring \<times> nat \<Rightarrow> (('k, 'v) ring \<times> nat) \<times> 'v list_answer" where
  "ring_do (PushC k v freq) (es, n) = (((n, \<lparr>Key = k, Value = v, Freq = freq\<rparr>) # es, n + 1), Pushed (Cell n))"
| "ring_do (RemoveC e) (es, n) = ((without e es, n), Removed (Value (the (map_of es e))))"
| "ring_do (MoveC e) (es, n) = ((case map_of es e of None \<Rightarrow> es | Some x \<Rightarrow> (e, x) # without e es, n), Moved)"
| "ring_do BackC (es, n) = ((es, n), PointsTo (last_cell es))"
| "ring_do (PrevC e) (es, n) = ((es, n), PointsTo (last_cell (takeWhile (\<lambda>x. fst x \<noteq> e) es)))"
| "ring_do LengthC (es, n) = ((es, n), Counted (int (length es)))"

text \<open>\<^verbatim>\<open>Remove\<close> and \<^verbatim>\<open>PrevEntry\<close> are called on entries of the list.\<close>

fun legal_call :: "('k, 'v) list_call \<Rightarrow> ('k, 'v) ring \<Rightarrow> bool" where
  "legal_call (RemoveC e) es \<longleftrightarrow> e \<in> fst ` set es"
| "legal_call (PrevC e) es \<longleftrightarrow> e \<in> fst ` set es"
| "legal_call _ es \<longleftrightarrow> True"

fun list_run :: "nat \<Rightarrow> ('k, 'v) list_call list \<Rightarrow> ('k, 'v) list_heap \<Rightarrow> (('k, 'v) list_heap \<times> 'v list_answer list) option" where
  "list_run l [] h = Some (h, [])"
| "list_run l (c # cs) h = do { (h, a) \<leftarrow> list_do l c h; (h, as) \<leftarrow> list_run l cs h; Some (h, a # as) }"

fun ring_run :: "('k, 'v) list_call list \<Rightarrow> ('k, 'v) ring \<times> nat \<Rightarrow> ('k, 'v) ring \<times> 'v list_answer list" where
  "ring_run [] s = (fst s, [])"
| "ring_run (c # cs) s = (let (s, a) = ring_do c s; (es, as) = ring_run cs s in (es, a # as))"

fun legal_run :: "('k, 'v) list_call list \<Rightarrow> ('k, 'v) ring \<times> nat \<Rightarrow> bool" where
  "legal_run [] s \<longleftrightarrow> True"
| "legal_run (c # cs) s \<longleftrightarrow> legal_call c (fst s) \<and> legal_run cs (fst (ring_do c s))"

lemma ring_split:
  assumes "e \<in> fst ` set es" and "distinct (map fst es)"
  obtains as x bs where "es = as @ (e, x) # bs" "without e es = as @ bs" "map_of es e = Some x"
    "takeWhile (\<lambda>x. fst x \<noteq> e) es = as"
proof -
  obtain x where "(e, x) \<in> set es" using assms(1) by auto
  then obtain as bs where es: "es = as @ (e, x) # bs" by (meson split_list)
  have "e \<notin> fst ` set as" "e \<notin> fst ` set bs" using assms(2) es by auto
  then have out: "\<forall>y \<in> set as. fst y \<noteq> e" "\<forall>y \<in> set bs. fst y \<noteq> e" by force+
  then have "without e es = as @ bs" by (auto simp: without_def es filter_id_conv)
  moreover have "map_of es e = Some x" using assms(2) es by (intro map_of_is_SomeI) simp_all
  moreover have "takeWhile (\<lambda>x. fst x \<noteq> e) es = as" using out(1) by (simp add: es takeWhile_append2)
  ultimately show ?thesis using es that by blast
qed

lemma list_do_refines:
  assumes r: "represents h l es" and legal: "legal_call c es" and n: "lh_free h = n"
  obtains h' es' n' a where "ring_do c (es, n) = ((es', n'), a)" "list_do l c h = Some (h', a)"
    "represents h' l es'" "lh_free h' = n'" "ring_at h l es \<Longrightarrow> ring_at h' l es'"
proof (cases c)
  case (PushC k v freq)
  have "lh_free (lazyInit l h) = n" using n by (simp add: lazyInit_def Init_def heap_defs)
  with insertValue_ring [OF represents_init [OF r], of k v None freq] obtain h' where
    "PushFrontFreq l k v freq h = Some (h', Cell n)" "ring_at h' l ((n, \<lparr>Key = k, Value = v, Freq = freq\<rparr>) # es)"
    "lh_free h' = n + 1" by (auto simp: PushFrontFreq_def)
  with PushC show ?thesis by (intro that) (auto simp: represents_def)
next
  case (RemoveC e)
  with legal r have ring: "ring_at h l es" and e: "e \<in> fst ` set es" by (auto simp: represents_def)
  from ring have "distinct (map fst es)" by (simp add: ring_at_def)
  from ring_split [OF e this] obtain as x bs where es: "es = as @ (e, x) # bs" "without e es = as @ bs" "map_of es e = Some x" .
  obtain h' where h': "Remove_entry l (Cell e) h = Some (h', Value x)" "ring_at h' l (as @ bs)" "lh_free h' = lh_free h"
    using Remove_ring [OF ring [unfolded es(1)]] by metis
  show ?thesis
    by (rule that [of "as @ bs" n "Removed (Value x)" h']) (use RemoveC es(2,3) h' n in \<open>simp_all add: represents_def\<close>)
next
  case (MoveC e)
  show ?thesis
  proof (cases "e \<in> fst ` set es")
    case True
    with r have ring: "ring_at h l es" by (auto simp: represents_def)
    from ring have "distinct (map fst es)" by (simp add: ring_at_def)
    from ring_split [OF True this] obtain as x bs where es: "es = as @ (e, x) # bs" "without e es = as @ bs" "map_of es e = Some x" .
    obtain h' where h': "MoveToFront l (Cell e) h = Some h'" "ring_at h' l ((e, x) # as @ bs)" "lh_free h' = lh_free h"
      using MoveToFront_ring [OF ring [unfolded es(1)]] by metis
    show ?thesis
      by (rule that [of "(e, x) # as @ bs" n Moved h']) (use MoveC es(2,3) h' n in \<open>simp_all add: represents_def\<close>)
  next
    case False
    then have "list_of h (Cell e) \<noteq> Some l" using r by (auto simp: represents_def ring_at_def)
    then have "MoveToFront l (Cell e) h = Some h" by (simp add: MoveToFront_def)
    moreover have "map_of es e = None" using False by (simp add: map_of_eq_None_iff)
    ultimately show ?thesis using MoveC r n by (intro that [of es n Moved h]) simp_all
  qed
next
  case BackC
  have "Back l h = last_cell es"
  proof (cases "ring_at h l es")
    case True
    then show ?thesis by (simp add: Back_ring last_cell_def)
  next
    case False
    with r show ?thesis by (simp add: represents_def last_cell_def Back_def)
  qed
  with BackC r n show ?thesis by (intro that) simp_all
next
  case (PrevC e)
  with legal r have ring: "ring_at h l es" and e: "e \<in> fst ` set es" by (auto simp: represents_def)
  from ring have "distinct (map fst es)" by (simp add: ring_at_def)
  from ring_split [OF e this] obtain as x bs where es: "es = as @ (e, x) # bs" "takeWhile (\<lambda>x. fst x \<noteq> e) es = as" .
  have "PrevEntry (Cell e) h = last_cell as"
    using PrevEntry_ring [OF ring [unfolded es(1)]] by (simp add: last_cell_def)
  with PrevC r n es(2) show ?thesis by (intro that) simp_all
next
  case LengthC
  have "Length l h = int (length es)" using r by (auto simp: represents_def ring_at_def Length_def)
  with LengthC r n show ?thesis by (intro that) simp_all
qed

lemma list_run_refines:
  assumes "represents h l es" and "legal_run cs (es, lh_free h)"
  shows "\<exists>h' es' as. ring_run cs (es, lh_free h) = (es', as) \<and> list_run l cs h = Some (h', as) \<and> represents h' l es'"
  using assms
proof (induction cs arbitrary: h es)
  case (Cons c cs)
  obtain h1 es1 n1 a where c: "ring_do c (es, lh_free h) = ((es1, n1), a)" "list_do l c h = Some (h1, a)"
    "represents h1 l es1" "lh_free h1 = n1"
    using list_do_refines [OF Cons.prems(1) _ refl, of c] Cons.prems(2) by (metis legal_run.simps(2) fst_conv)
  have "legal_run cs (es1, lh_free h1)" using Cons.prems(2) c by simp
  from Cons.IH [OF c(3) this] c show ?case by auto
qed auto

lemma NewList_ring: "(\<And>e. list_of h (Cell e) \<noteq> Some l) \<Longrightarrow> ring_at (NewList l h) l [] \<and> lh_free (NewList l h) = lh_free h"
  by (simp add: NewList_def ring_at_def Init_def heap_defs cells_of_def)

text \<open>A list from \<^verbatim>\<open>NewList\<close> is a ring from the start and stays one.\<close>

lemma ring_run_refines:
  assumes "ring_at h l es" and "legal_run cs (es, lh_free h)"
  shows "\<exists>h' es' as. ring_run cs (es, lh_free h) = (es', as) \<and> list_run l cs h = Some (h', as) \<and> ring_at h' l es'"
  using assms
proof (induction cs arbitrary: h es)
  case (Cons c cs)
  have r: "represents h l es" using Cons.prems(1) by (simp add: represents_def)
  obtain h1 es1 n1 a where c: "ring_do c (es, lh_free h) = ((es1, n1), a)" "list_do l c h = Some (h1, a)"
    "ring_at h1 l es1" "lh_free h1 = n1"
    using list_do_refines [OF r _ refl, of c] Cons.prems by (metis legal_run.simps(2) fst_conv)
  have "legal_run cs (es1, lh_free h1)" using Cons.prems(2) c by simp
  from Cons.IH [OF c(3) this] c show ?case by auto
qed auto

end
