(* ===== verification/ArmTheorems.thy ===== *)
theory ArmTheorems
  imports LfuCache LinkedList RandomCache Sampling
begin

text \<open>
  What the two eviction policies of this repository promise, and the key samples shadows are measured on.
\<close>

subsection \<open>LFU\<close>

text \<open>C19: The LFU cache is its reference: from a new cache, any sequence of calls is answered exactly as the
  list in eviction order answers it, without a panic, and the cache's entries are that list's at the end.\<close>

theorem lfu_answers_as_reference:
  assumes "NewLFU sz cb = Inr c"
  shows "\<exists>c'. lfu_run order zk cs c = Some (c', snd (order_run cs (sz, []))) \<and>
    entries_in_order c' = snd (fst (order_run cs (sz, [])))"
proof -
  have "lfu_inv c" "lfu_abs c = (sz, [])" using NewLFU_inv [OF assms] by (simp_all add: lfu_abs_def)
  with lfu_run_refines [OF this(1), of order zk cs] obtain c' where
    "lfu_run order zk cs c = Some (c', snd (order_run cs (sz, [])))" "lfu_abs c' = fst (order_run cs (sz, []))" by auto
  then show ?thesis by (metis lfu_abs_def snd_conv)
qed

definition small_lfu :: "(int, int) lfu" where
  "small_lfu = \<lparr>lsize = 2, minFreq = 0, items = Mapping.empty, evictList = Mapping.empty, onEvict = False, calls = []\<rparr>"

lemma small_lfu_new: "NewLFU 2 False = Inr small_lfu"
  by (simp add: NewLFU_def small_lfu_def)

lemma lfu_answers_as_reference_witness:
  "map_option snd (lfu_run (\<lambda>_. []) 0 [LfuAdd 1 10, LfuAdd 2 20, LfuGet 1, LfuAdd 3 30, LfuKeys] small_lfu) =
    Some [Flag False, Flag False, Found (Some 10), Flag True, Listed [3, 1]]"
proof -
  let ?cs = "[LfuAdd 1 10, LfuAdd 2 20, LfuGet 1, LfuAdd 3 30, LfuKeys] :: (int, int) lfu_call list"
  have "snd (order_run ?cs (2, [])) = [Flag False, Flag False, Found (Some 10), Flag True, Listed [3, 1]]"
    by code_simp
  with lfu_answers_as_reference [OF small_lfu_new, of "\<lambda>_. []" 0 ?cs] show ?thesis by auto
qed

text \<open>C38: The victim is a least frequently used entry: whatever calls came before, no entry was used less
  often than the one \<^verbatim>\<open>RemoveOldest\<close> evicts.\<close>

theorem lfu_evicts_least_used:
  assumes "NewLFU sz cb = Inr c" and "lfu_run order zk cs c = Some (c1, as)"
    and "RemoveOldest c1 = (c2, Some (k, v))" and "Mapping.lookup (items c1) j = Some other"
  shows "\<exists>victim. Mapping.lookup (items c1) k = Some victim \<and> Value victim = v \<and> Freq victim \<le> Freq other \<and>
    Mapping.lookup (items c2) = (Mapping.lookup (items c1))(k := None)"
proof -
  have "lfu_inv c" using NewLFU_inv [OF assms(1)] by simp
  with lfu_run_refines [OF this, of order zk cs] assms(2) have inv: "lfu_inv c1" by auto
  then have wf: "lfu_wf c1" "lfu_min c1" by (simp_all add: lfu_inv_def)
  have snd: "snd (RemoveOldest c1) = Some (k, v)" using assms(3) by simp
  then obtain x xs where xs: "entries_in_order c1 = x # xs" "Key x = k" "Value x = v"
    using remove_oldest_refines [OF inv] by (auto split: list.splits)
  have x: "Mapping.lookup (items c1) (Key x) = Some x" using in_order_iff [OF wf(1), of x] xs(1) by simp
  have "Key other = j" using lfu_wf_fields(4) [OF wf(1) assms(4)] by simp
  then have "other \<in> set (entries_in_order c1)" using in_order_iff [OF wf(1), of other] assms(4) by simp
  moreover have "sorted (map Freq (entries_in_order c1))" by (rule order_facts(1) [OF wf(1)])
  ultimately have "Freq x \<le> Freq other" using xs(1) by auto
  moreover obtain d where "evictOldest c1 = (d, Some (Key x, Value x))" "evicts c1 x xs d"
    using evictOldest_head [OF wf xs(1)] by blast
  then have "Mapping.lookup (items c2) = (Mapping.lookup (items c1))(k := None)"
    using assms(3) xs(2) by (simp add: RemoveOldest_def evicts_def)
  ultimately show ?thesis using x xs(2,3) by blast
qed

lemma lfu_evicts_least_used_witness:
  "\<exists>c1 as c2. lfu_run (\<lambda>_. []) 0 [LfuAdd 1 10, LfuAdd 2 20, LfuGet 1] small_lfu = Some (c1, as) \<and>
    RemoveOldest c1 = (c2, Some (2, 20)) \<and> Mapping.lookup (items c2) 2 = None"
proof -
  let ?cs = "[LfuAdd 1 10, LfuAdd 2 20, LfuGet 1] :: (int, int) lfu_call list"
  have "let c1 = fst (the (lfu_run (\<lambda>_. []) 0 ?cs small_lfu)) in
      \<not> Option.is_none (lfu_run (\<lambda>_. []) 0 ?cs small_lfu) \<and> snd (RemoveOldest c1) = Some (2, 20) \<and>
      \<not> Option.is_none (Mapping.lookup (items c1) 1)"
    by code_simp
  then obtain c1 as c2 other where run: "lfu_run (\<lambda>_. []) 0 ?cs small_lfu = Some (c1, as)"
    and r: "RemoveOldest c1 = (c2, Some (2, 20))" and "Mapping.lookup (items c1) 1 = Some other"
    by (auto simp: Option.is_none_def Let_def) (metis prod.collapse)
  from lfu_evicts_least_used [OF small_lfu_new run r this(3)] run r show ?thesis by auto
qed

text \<open>C21: Delaying the eviction callback past the lock loses and reorders nothing: from a new cache any
  sequence of calls of the exported LFU cache returns, without a panic, the answers of the simple cache
  inside, and the callbacks it has delivered are exactly those the simple cache would have made itself,
  in the same order, with none left in the buffers.\<close>

theorem lfu_callbacks_as_made:
  assumes "NewWithEvict sz cb = Inr c" and "NewLFU sz cb = Inr l"
  shows "\<exists>c' l' as. cache_run order zk zv cs c = Some (c', as) \<and> inner_run order zk zv cs l = Some (l', as) \<and>
    delivered c' = calls l' \<and> evictedKeys c' = [] \<and> evictedVals c' = []"
proof -
  from run_same [OF new_same [OF assms], of order zk zv cs] obtain c' l' as where
    "cache_run order zk zv cs c = Some (c', as)" "inner_run order zk zv cs l = Some (l', as)" "same_cache c' l'" by blast
  then show ?thesis by (auto simp: same_cache_def)
qed

definition notifying_lfu :: "(int, int) lfu_cache" where
  "notifying_lfu = \<lparr>lc_lfu = small_lfu\<lparr>onEvict := True\<rparr>, evictedKeys = [], evictedVals = [], onEvictedCB = True, delivered = []\<rparr>"

lemma lfu_callbacks_as_made_witness:
  "map_option (\<lambda>(c, as). (delivered c, evictedKeys c)) (cache_run (\<lambda>_. [2, 3]) 0 0
     [Plain (LfuAdd 1 10), CallPeekOrAdd 2 20, CallContainsOrAdd 3 30, Plain (LfuRemove 1), Plain LfuPurge] notifying_lfu) =
    Some ([(1, 10), (2, 20), (3, 30)], [])"
proof -
  let ?cs = "[Plain (LfuAdd 1 10), CallPeekOrAdd 2 20, CallContainsOrAdd 3 30, Plain (LfuRemove 1), Plain LfuPurge]
    :: (int, int) cache_call list"
  let ?l = "small_lfu\<lparr>onEvict := True\<rparr>"
  have "NewWithEvict 2 True = Inr notifying_lfu" "NewLFU 2 True = Inr ?l"
    by (simp_all add: NewWithEvict_def NewLFU_def notifying_lfu_def small_lfu_def)
  from lfu_callbacks_as_made [OF this, of "\<lambda>_. [2, 3]" 0 0 ?cs] obtain c' l' as where
    run: "cache_run (\<lambda>_. [2, 3]) 0 0 ?cs notifying_lfu = Some (c', as)" "inner_run (\<lambda>_. [2, 3]) 0 0 ?cs ?l = Some (l', as)"
      "delivered c' = calls l'" "evictedKeys c' = []" by blast
  have "map_option (calls \<circ> fst) (inner_run (\<lambda>_. [2, 3]) 0 0 ?cs ?l) = Some [(1, 10), (2, 20), (3, 30)]"
    by code_simp
  with run show ?thesis by simp
qed

text \<open>C20: The intrusive linked list never loses a node: from a new list, any sequence of pushes, moves,
  removals and traversals that removes an entry, or asks for the one before it, only while the entry is in the list
  follows no nil pointer, answers as a list of numbered entries does, and leaves the next and previous pointers
  a single ring through the sentinel over exactly that list's entries. (\<^verbatim>\<open>Remove\<close> clears the pointers of its entry
  and does not check them, so removing one twice would follow nil; the caches never do.)\<close>

theorem list_answers_as_ring:
  assumes "\<And>e. list_of h (Cell e) \<noteq> Some l" and "legal_run cs ([], lh_free h)"
  shows "\<exists>h' es as. ring_run cs ([], lh_free h) = (es, as) \<and> list_run l cs (NewList l h) = Some (h', as) \<and>
    linked (next_of h') (prev_of h') (Root l) (cells_of es) (Root l) \<and> lh_len h' l = int (length es)"
proof -
  from NewList_ring [OF assms(1)] have new: "ring_at (NewList l h) l []" "lh_free (NewList l h) = lh_free h" by simp_all
  with ring_run_refines [OF new(1), of cs] assms(2) obtain h' es as where
    "ring_run cs ([], lh_free h) = (es, as)" "list_run l cs (NewList l h) = Some (h', as)" "ring_at h' l es" by auto
  then show ?thesis by (auto simp: ring_at_def)
qed

definition blank_heap :: "(int, int) list_heap" where
  "blank_heap =
     \<lparr>lh_cells = (\<lambda>_. \<lparr>c_next = None, c_prev = None, c_list = None, c_Key = 0, c_Value = 0, c_ExpiresAt = None,
        c_ExpireBucket = 0, c_Freq = 0\<rparr>), lh_len = (\<lambda>_. 0), lh_free = 0\<rparr>"

lemma list_answers_as_ring_witness:
  "map_option snd (list_run 0 [PushC 1 10 1, PushC 2 20 1, PushC 3 30 1, MoveC 0, RemoveC 1, BackC, PrevC 2, LengthC]
     (NewList 0 blank_heap)) =
    Some [Pushed (Cell 0), Pushed (Cell 1), Pushed (Cell 2), Moved, Removed 20, PointsTo (Some (Cell 2)),
      PointsTo (Some (Cell 0)), Counted 2]"
proof -
  let ?cs = "[PushC 1 10 1, PushC 2 20 1, PushC 3 30 1, MoveC 0, RemoveC 1, BackC, PrevC 2, LengthC] :: (int, int) list_call list"
  have "legal_run ?cs ([], lh_free blank_heap)" by code_simp
  moreover have "list_of blank_heap (Cell e) \<noteq> Some 0" for e by (simp add: blank_heap_def)
  moreover have "snd (ring_run ?cs ([], lh_free blank_heap)) = [Pushed (Cell 0), Pushed (Cell 1), Pushed (Cell 2), Moved,
      Removed 20, PointsTo (Some (Cell 2)), PointsTo (Some (Cell 0)), Counted 2]" by code_simp
  ultimately show ?thesis using list_answers_as_ring [of blank_heap 0 ?cs] by auto
qed

subsection \<open>Random\<close>

text \<open>C25: A random-eviction cache never drops what it was just given: whatever the generator draws, after
  an \<^verbatim>\<open>Add\<close> to a cache with room for anything the key is resident with its value, every other resident
  keeps its value or is gone, the capacity holds, and \<^verbatim>\<open>evicted\<close> says exactly whether the cache was full
  of other keys. The eviction loop terminates and no index is out of range.\<close>

theorem random_never_evicts_new_key:
  assumes "random_inv c" and "0 < rsize c"
  shows "\<exists>c'. random_add c k v = Some (c', k \<notin> dom (random_content c) \<and> random_len c = rsize c) \<and> random_inv c' \<and>
    random_content c' k = Some v \<and> random_content c' \<subseteq>\<^sub>m (random_content c)(k \<mapsto> v) \<and> random_len c' \<le> rsize c"
proof -
  have len: "random_len d = int (length (rkeys d))" "random_len d \<le> rsize d" if "random_inv d" for d :: "('a, 'b) random_cache"
    using random_facts [OF that] by (simp_all add: random_len_def mapping_size)
  show ?thesis
  proof (cases "k \<in> dom (random_content c)")
    case True
    with random_add_resident [OF assms(1) True] obtain c' where "random_add c k v = Some (c', False)" "random_inv c'"
      "rsize c' = rsize c" "random_content c' = (random_content c)(k \<mapsto> v)" by blast
    with True len(2) [of c'] show ?thesis by auto
  next
    case False
    from random_add_new [OF assms(1) False assms(2), of v] obtain c' m where
      c': "random_add c k v = Some (c', int (length (rkeys c)) = rsize c)" "random_inv c'" "rsize c' = rsize c"
        "random_content c' = m(k \<mapsto> v)" "m \<subseteq>\<^sub>m random_content c" by blast
    have "m(k \<mapsto> v) \<subseteq>\<^sub>m (random_content c)(k \<mapsto> v)" using c'(5) by (auto simp: map_le_def)
    with c' False len(1) [OF assms(1)] len(2) [OF c'(2)] show ?thesis by auto
  qed
qed

definition small_random :: "(int, int) random_cache" where
  "small_random = NewRandom (\<lambda>i. i) 1"

lemma random_never_evicts_new_key_witness:
  "\<exists>c'. random_add small_random 7 70 = Some (c', False) \<and> random_content c' 7 = Some 70"
proof -
  have "random_inv small_random" "random_content small_random = Map.empty" "rsize small_random = 1"
    "random_len small_random = 0"
    using NewRandom_inv [of "\<lambda>i. i" 1] by (simp_all add: small_random_def) (simp_all add: NewRandom_def random_len_def)
  with random_never_evicts_new_key [of small_random 7 70] show ?thesis by auto
qed

subsection \<open>Samples\<close>



text \<open>C37: A miniature shadow is never smaller than the floor or its own nominal capacity allows, never
  larger than the policy it stands for, and is measured at no smaller rate than the one configured.\<close>

theorem shadow_capacity_bounds:
  assumes "shadow_capacity n r m = (c, e)" and "0 < n" and "n < 2 ^ 53" and "0 < m" and "m < 2 ^ 53"
    and "rnd r = r" and "0 \<le> r" and "r < 1"
  shows "min m n \<le> c \<and> c \<le> n \<and> r \<le> e \<and> e \<le> 1"
  using assms(1,2,8)
proof (cases rule: shadow_capacity_cases)
  case 1
  with assms(8) show ?thesis by simp
next
  case 2
  with floored_rate_ge [of n m r] floored_rate_le_1 [of n m] assms show ?thesis by simp
next
  case 3
  with assms(8) show ?thesis by simp
qed

lemma shadow_capacity_bounds_witness:
  "256 \<le> fst (shadow_capacity 1000 (1 / 128) 256) \<and> snd (shadow_capacity 1000 (1 / 128) 256) \<le> 1"
proof -
  obtain c e where ce: "shadow_capacity 1000 (1 / 128) 256 = (c, e)" by fastforce
  have "rnd (1 / 128) = 1 / 128" by (rule rnd_exact [where m = 1 and e = "- 7"]) (simp_all add: power_int_minus)
  from shadow_capacity_bounds [OF ce _ _ _ _ this] show ?thesis by (simp add: ce)
qed

end
