(* ===== verification/TtlCache.thy ===== *)
theory TtlCache
  imports LFUContract
begin

text \<open>
  The LRU cache with expiry (\<^verbatim>\<open>src/policies/ttl.go\<close>). The plain LRU underneath is hashicorp's, a parameter
  of the model: its operations, and the laws of \<^verbatim>\<open>cacher_contract\<close> and, for the bookkeeping, of
  \<^verbatim>\<open>sized_cacher\<close>.

  \<^verbatim>\<open>c.now()\<close> is what the clock reads: an operation on one key takes the reading, the loops over all keys
  take a reading per key, so time may pass inside them. Instants are nanoseconds; the zero \<^verbatim>\<open>time.Time\<close>
  is \<^term>\<open>None\<close>.
\<close>

record 'v ttl_entry =
  te_value :: 'v
  expiresAt :: "int option"

record 'l ttl_cache =
  tc_cache :: 'l
  tc_size :: int
  tc_ttl :: int

text \<open>\<^verbatim>\<open>lru.New\<close> returns nothing when it fails, and then the constructor panics.\<close>

definition NewTTLCache :: "(int \<Rightarrow> 'l option) \<Rightarrow> int \<Rightarrow> int \<Rightarrow> 'l ttl_cache option" where
  "NewTTLCache lru_New sz ttl =
     (let sz = (if sz < 0 then 0 else sz)
      in map_option (\<lambda>cache. \<lparr>tc_cache = cache, tc_size = sz, tc_ttl = ttl\<rparr>) (lru_New (max sz 1)))"

definition ttl_expired :: "int \<Rightarrow> 'v ttl_entry \<Rightarrow> bool" where
  "ttl_expired now e = (case expiresAt e of None \<Rightarrow> False | Some d \<Rightarrow> now > d)"

definition ttl_deadline :: "int \<Rightarrow> 'l ttl_cache \<Rightarrow> int option" where
  "ttl_deadline now c = (if tc_ttl c \<le> 0 then None else Some (now + tc_ttl c))"

definition ttl_add ::
  "('l, 'k, 'v ttl_entry, 'z) cacher_ops_scheme \<Rightarrow> int \<Rightarrow> 'l ttl_cache \<Rightarrow> 'k \<Rightarrow> 'v \<Rightarrow> 'l ttl_cache \<times> bool" where
  "ttl_add lru now c key val =
     (if tc_size c \<le> 0 then (c, False)
      else let (l, evicted) = op_add lru (tc_cache c) key \<lparr>te_value = val, expiresAt = ttl_deadline now c\<rparr>
           in (c\<lparr>tc_cache := l\<rparr>, evicted))"

definition ttl_get ::
  "('l, 'k, 'v ttl_entry, 'z) cacher_ops_scheme \<Rightarrow> int \<Rightarrow> 'l ttl_cache \<Rightarrow> 'k \<Rightarrow> 'l ttl_cache \<times> 'v option" where
  "ttl_get lru now c key =
     (let (l, r) = op_get lru (tc_cache c) key; c = c\<lparr>tc_cache := l\<rparr>
      in case r of
           None \<Rightarrow> (c, None)
         | Some entry \<Rightarrow>
             if ttl_expired now entry then (c\<lparr>tc_cache := fst (op_remove lru (tc_cache c) key)\<rparr>, None)
             else (c, Some (te_value entry)))"

definition ttl_peek ::
  "('l, 'k, 'v ttl_entry, 'z) cacher_ops_scheme \<Rightarrow> int \<Rightarrow> 'l ttl_cache \<Rightarrow> 'k \<Rightarrow> 'v option" where
  "ttl_peek lru now c key =
     (case op_peek lru (tc_cache c) key of
        None \<Rightarrow> None
      | Some entry \<Rightarrow> if ttl_expired now entry then None else Some (te_value entry))"

definition ttl_contains :: "('l, 'k, 'v ttl_entry, 'z) cacher_ops_scheme \<Rightarrow> int \<Rightarrow> 'l ttl_cache \<Rightarrow> 'k \<Rightarrow> bool" where
  "ttl_contains lru now c key =
     (case op_peek lru (tc_cache c) key of None \<Rightarrow> False | Some entry \<Rightarrow> \<not> ttl_expired now entry)"

definition ttl_remove ::
  "('l, 'k, 'v ttl_entry, 'z) cacher_ops_scheme \<Rightarrow> int \<Rightarrow> 'l ttl_cache \<Rightarrow> 'k \<Rightarrow> 'l ttl_cache \<times> bool" where
  "ttl_remove lru now c key =
     (let entry = op_peek lru (tc_cache c) key; l = fst (op_remove lru (tc_cache c) key)
      in (c\<lparr>tc_cache := l\<rparr>, case entry of None \<Rightarrow> False | Some e \<Rightarrow> \<not> ttl_expired now e))"

definition ttl_purge :: "('l, 'k, 'v ttl_entry, 'z) cacher_ops_scheme \<Rightarrow> 'l ttl_cache \<Rightarrow> 'l ttl_cache" where
  "ttl_purge lru c = c\<lparr>tc_cache := op_purge lru (tc_cache c)\<rparr>"

definition ttl_keys :: "('l, 'k, 'v ttl_entry, 'z) cacher_ops_scheme \<Rightarrow> ('k \<Rightarrow> int) \<Rightarrow> 'l ttl_cache \<Rightarrow> 'k list" where
  "ttl_keys lru clock c =
     fold (\<lambda>key keys. case op_peek lru (tc_cache c) key of
                None \<Rightarrow> keys
              | Some entry \<Rightarrow> if \<not> ttl_expired (clock key) entry then keys @ [key] else keys)
       (op_keys lru (tc_cache c)) []"

definition ttl_values :: "('l, 'k, 'v ttl_entry, 'z) cacher_ops_scheme \<Rightarrow> ('k \<Rightarrow> int) \<Rightarrow> 'l ttl_cache \<Rightarrow> 'v list" where
  "ttl_values lru clock c =
     fold (\<lambda>key vals. case op_peek lru (tc_cache c) key of
                None \<Rightarrow> vals
              | Some entry \<Rightarrow> if \<not> ttl_expired (clock key) entry then vals @ [te_value entry] else vals)
       (op_keys lru (tc_cache c)) []"

definition ttl_len :: "('l, 'k, 'v ttl_entry, 'z) cacher_ops_scheme \<Rightarrow> ('k \<Rightarrow> int) \<Rightarrow> 'l ttl_cache \<Rightarrow> int" where
  "ttl_len lru clock c =
     (if tc_ttl c \<le> 0 then op_len lru (tc_cache c)
      else fold (\<lambda>key live. case op_peek lru (tc_cache c) key of
                     None \<Rightarrow> live
                   | Some entry \<Rightarrow> if \<not> ttl_expired (clock key) entry then live + 1 else live)
             (op_keys lru (tc_cache c)) 0)"

definition ttl_cap :: "'l ttl_cache \<Rightarrow> int" where
  "ttl_cap c = tc_size c"

definition ttl_resize ::
  "('l, 'k, 'v ttl_entry, 'z) cacher_ops_scheme \<Rightarrow> 'l ttl_cache \<Rightarrow> int \<Rightarrow> 'l ttl_cache \<times> int" where
  "ttl_resize lru c sz =
     (let sz = (if sz < 0 then 0 else sz); c = c\<lparr>tc_size := sz\<rparr>
      in if sz = 0
         then (c\<lparr>tc_cache := op_purge lru (tc_cache c)\<rparr>, op_len lru (tc_cache c))
         else let (l, evicted) = op_resize lru (tc_cache c) sz in (c\<lparr>tc_cache := l\<rparr>, evicted))"

subsection \<open>The loops\<close>

text \<open>The entry of a key, if it is unexpired at its reading of the clock.\<close>

definition live_entry ::
  "('l, 'k, 'v ttl_entry, 'z) cacher_ops_scheme \<Rightarrow> ('k \<Rightarrow> int) \<Rightarrow> 'l ttl_cache \<Rightarrow> 'k \<Rightarrow> 'v option" where
  "live_entry lru clock c key = ttl_peek lru (clock key) c key"

lemma fold_collect:
  "fold (\<lambda>key xs. case p key of None \<Rightarrow> xs | Some e \<Rightarrow> if q key e then xs @ [f key e] else xs) keys xs =
    xs @ List.map_filter (\<lambda>key. case p key of None \<Rightarrow> None | Some e \<Rightarrow> if q key e then Some (f key e) else None) keys"
  by (induction keys arbitrary: xs) (auto simp: List.map_filter_simps split: option.splits)

lemma fold_select:
  "fold (\<lambda>key xs. case p key of None \<Rightarrow> xs | Some e \<Rightarrow> if q key e then xs @ [key] else xs) keys xs =
    xs @ filter (\<lambda>key. case p key of None \<Rightarrow> False | Some e \<Rightarrow> q key e) keys"
  by (induction keys arbitrary: xs) (auto split: option.splits)

lemma ttl_keys_eq: "ttl_keys lru clock c = filter (\<lambda>key. live_entry lru clock c key \<noteq> None) (op_keys lru (tc_cache c))"
  unfolding ttl_keys_def fold_select
  by (auto simp: live_entry_def ttl_peek_def intro!: filter_cong split: option.splits)

lemma map_some_filter: "map Some (List.map_filter f xs) = map f (filter (\<lambda>x. f x \<noteq> None) xs)"
  by (induction xs) (auto simp: List.map_filter_simps)

lemma ttl_values_eq: "map Some (ttl_values lru clock c) = map (live_entry lru clock c) (ttl_keys lru clock c)"
proof -
  have "ttl_values lru clock c = List.map_filter (live_entry lru clock c) (op_keys lru (tc_cache c))"
    unfolding ttl_values_def fold_collect append_Nil
    by (rule arg_cong2 [where f = List.map_filter]) (auto simp: live_entry_def ttl_peek_def fun_eq_iff split: option.splits)
  then show ?thesis by (simp add: map_some_filter ttl_keys_eq)
qed

lemma fold_count:
  "fold (\<lambda>key n. case p key of None \<Rightarrow> n | Some e \<Rightarrow> if q key e then n + 1 else n) keys (n :: int) =
    n + int (length (filter (\<lambda>key. case p key of None \<Rightarrow> False | Some e \<Rightarrow> q key e) keys))"
  by (induction keys arbitrary: n) (auto split: option.splits)

lemma ttl_len_eq:
  "0 < tc_ttl c \<Longrightarrow> ttl_len lru clock c = int (length (ttl_keys lru clock c))"
  unfolding ttl_len_def ttl_keys_eq fold_count
  by (auto simp: live_entry_def ttl_peek_def intro!: arg_cong [where f = length] filter_cong split: option.splits)

subsection \<open>Runs\<close>

text \<open>A call and the clock during it.\<close>

datatype ('k, 'v) ttl_call =
    TtlAdd 'k 'v | TtlGet 'k | TtlPeek 'k | TtlContains 'k | TtlRemove 'k | TtlPurge | TtlKeys | TtlValues | TtlLen | TtlCap
  | TtlResize int

datatype ('k, 'v) ttl_answer = Told bool | Read "'v option" | Number int | KeyList "'k list" | ValueList "'v list" | Nothing

fun ttl_step ::
  "('l, 'k, 'v ttl_entry, 'z) cacher_ops_scheme \<Rightarrow> ('k \<Rightarrow> int) \<times> ('k, 'v) ttl_call \<Rightarrow> 'l ttl_cache \<Rightarrow> 'l ttl_cache \<times> ('k, 'v) ttl_answer"
  where
  "ttl_step lru (clock, TtlAdd k v) c = map_prod id Told (ttl_add lru (clock k) c k v)"
| "ttl_step lru (clock, TtlGet k) c = map_prod id Read (ttl_get lru (clock k) c k)"
| "ttl_step lru (clock, TtlPeek k) c = (c, Read (ttl_peek lru (clock k) c k))"
| "ttl_step lru (clock, TtlContains k) c = (c, Told (ttl_contains lru (clock k) c k))"
| "ttl_step lru (clock, TtlRemove k) c = map_prod id Told (ttl_remove lru (clock k) c k)"
| "ttl_step lru (clock, TtlPurge) c = (ttl_purge lru c, Nothing)"
| "ttl_step lru (clock, TtlKeys) c = (c, KeyList (ttl_keys lru clock c))"
| "ttl_step lru (clock, TtlValues) c = (c, ValueList (ttl_values lru clock c))"
| "ttl_step lru (clock, TtlLen) c = (c, Number (ttl_len lru clock c))"
| "ttl_step lru (clock, TtlCap) c = (c, Number (ttl_cap c))"
| "ttl_step lru (clock, TtlResize n) c = map_prod id Number (ttl_resize lru c n)"

fun ttl_run ::
  "('l, 'k, 'v ttl_entry, 'z) cacher_ops_scheme \<Rightarrow> (('k \<Rightarrow> int) \<times> ('k, 'v) ttl_call) list \<Rightarrow> 'l ttl_cache
    \<Rightarrow> 'l ttl_cache \<times> ('k, 'v) ttl_answer list"
  where
  "ttl_run lru [] c = (c, [])"
| "ttl_run lru (x # xs) c = (let (c, a) = ttl_step lru x c; (c, as) = ttl_run lru xs c in (c, a # as))"

text \<open>The latest store of a key that no \<^verbatim>\<open>Remove\<close> or \<^verbatim>\<open>Purge\<close> came after: when, and of what.\<close>

fun note_call :: "'k \<Rightarrow> ('k \<Rightarrow> int) \<times> ('k, 'v) ttl_call \<Rightarrow> (int \<times> 'v) option \<Rightarrow> (int \<times> 'v) option" where
  "note_call k (clock, TtlAdd j v) s = (if j = k then Some (clock k, v) else s)"
| "note_call k (clock, TtlRemove j) s = (if j = k then None else s)"
| "note_call k (clock, TtlPurge) s = None"
| "note_call k _ s = s"

definition last_store :: "'k \<Rightarrow> (('k \<Rightarrow> int) \<times> ('k, 'v) ttl_call) list \<Rightarrow> (int \<times> 'v) option" where
  "last_store k xs = fold (note_call k) xs None"

definition dated :: "int \<Rightarrow> (int \<times> 'v) option \<Rightarrow> 'v ttl_entry \<Rightarrow> bool" where
  "dated ttl s e \<longleftrightarrow> (\<exists>t. s = Some (t, te_value e) \<and> expiresAt e = (if ttl \<le> 0 then None else Some (t + ttl)))"

definition deadlines_hold ::
  "('l \<Rightarrow> 'k \<rightharpoonup> 'v ttl_entry) \<Rightarrow> int \<Rightarrow> ('k \<Rightarrow> (int \<times> 'v) option) \<Rightarrow> 'l ttl_cache \<Rightarrow> bool" where
  "deadlines_hold content ttl stores c \<longleftrightarrow> tc_ttl c = ttl \<and> (tc_size c \<le> 0 \<longrightarrow> content (tc_cache c) = Map.empty) \<and>
     (\<forall>k e. content (tc_cache c) k = Some e \<longrightarrow> dated ttl (stores k) e)"

locale ttl_over = cacher_contract lru inv content
  for lru :: "('l, 'k, 'v ttl_entry, 'z) cacher_ops_scheme" and inv :: "'l \<Rightarrow> bool"
    and content :: "'l \<Rightarrow> 'k \<rightharpoonup> 'v ttl_entry"
begin

lemma peek_fresh:
  assumes "inv (tc_cache c)" "deadlines_hold content ttl stores c" "ttl_peek lru now c k = Some v"
  shows "\<exists>t. stores k = Some (t, v) \<and> (0 < ttl \<longrightarrow> now \<le> t + ttl)"
proof -
  obtain e where e: "op_peek lru (tc_cache c) k = Some e" "\<not> ttl_expired now e" "v = te_value e"
    using assms(3) by (auto simp: ttl_peek_def split: option.splits if_splits)
  with peek_result [OF assms(1) e(1)] assms(2) show ?thesis
    by (fastforce simp: deadlines_hold_def dated_def ttl_expired_def split: if_splits)
qed

lemma get_fresh:
  assumes "inv (tc_cache c)" "deadlines_hold content ttl stores c" "snd (ttl_get lru now c k) = Some v"
  shows "\<exists>t. stores k = Some (t, v) \<and> (0 < ttl \<longrightarrow> now \<le> t + ttl)"
proof -
  obtain e where e: "snd (op_get lru (tc_cache c) k) = Some e" "\<not> ttl_expired now e" "v = te_value e"
    using assms(3) by (auto simp: ttl_get_def Let_def split_beta split: option.splits if_splits)
  with get_result [OF assms(1) e(1)] assms(2) show ?thesis
    by (fastforce simp: deadlines_hold_def dated_def ttl_expired_def split: if_splits)
qed

text \<open>A smaller content keeps its deadlines.\<close>

lemma deadlines_sub:
  assumes d: "deadlines_hold content ttl stores c" and sub: "content l \<subseteq>\<^sub>m content (tc_cache c)"
  shows "deadlines_hold content ttl stores (c\<lparr>tc_cache := l\<rparr>)"
proof -
  have "content l = Map.empty" if "content (tc_cache c) = Map.empty"
    using sub that by (metis map_le_antisym map_le_empty)
  with d show ?thesis by (auto simp: deadlines_hold_def dest!: map_le_SomeD [OF sub])
qed

lemma step_deadlines:
  assumes "inv (tc_cache c)" and "deadlines_hold content ttl stores c"
  shows "inv (tc_cache (fst (ttl_step lru x c))) \<and>
    deadlines_hold content ttl (\<lambda>k. note_call k x (stores k)) (fst (ttl_step lru x c))"
proof -
  obtain clock call where x: "x = (clock, call)" by (cases x)
  let ?l = "tc_cache c"
  show ?thesis
  proof (cases call)
    case (TtlAdd k v)
    let ?l' = "fst (op_add lru ?l k \<lparr>te_value = v, expiresAt = ttl_deadline (clock k) c\<rparr>)"
    show ?thesis
    proof (cases "tc_size c \<le> 0")
      case True
      with assms TtlAdd x show ?thesis by (simp add: ttl_add_def deadlines_hold_def)
    next
      case False
      have "deadlines_hold content ttl (\<lambda>j. note_call j x (stores j)) (c\<lparr>tc_cache := ?l'\<rparr>)"
        using assms False unfolding deadlines_hold_def
        by (auto simp: x TtlAdd ttl_deadline_def dated_def [of _ _ "\<lparr>te_value = v, expiresAt = y\<rparr>" for y] dest!: add_at [OF assms(1)] split: if_splits)
      with False TtlAdd x add_inv [OF assms(1)] show ?thesis by (simp add: ttl_add_def split_beta)
    qed
  next
    case (TtlGet k)
    let ?l' = "fst (op_get lru ?l k)"
    have g: "inv ?l'" "content ?l' \<subseteq>\<^sub>m content ?l" using get_inv [OF assms(1)] get_content [OF assms(1)] by blast+
    have r: "inv (fst (op_remove lru ?l' k))" using remove_inv [OF g(1)] .
    have "content (fst (op_remove lru ?l' k)) \<subseteq>\<^sub>m content ?l"
      using remove_at [OF g(1)] map_le_SomeD [OF g(2)] by (auto simp: map_le_def)
    with g r assms deadlines_sub [OF assms(2)] show ?thesis
      by (auto simp: x TtlGet ttl_get_def Let_def split_beta split: option.split)
  next
    case (TtlRemove k)
    let ?l' = "fst (op_remove lru ?l k)"
    have "content ?l' \<subseteq>\<^sub>m content (tc_cache c)" using remove_at [OF assms(1)] by (auto simp: map_le_def)
    from deadlines_sub [OF assms(2) this] have "deadlines_hold content ttl stores (c\<lparr>tc_cache := ?l'\<rparr>)" .
    then have "deadlines_hold content ttl (\<lambda>j. note_call j x (stores j)) (c\<lparr>tc_cache := ?l'\<rparr>)"
      using remove_at [OF assms(1), of k k] by (auto simp: x TtlRemove deadlines_hold_def)
    with remove_inv [OF assms(1)] show ?thesis by (simp add: x TtlRemove ttl_remove_def Let_def)
  next
    case TtlPurge
    with assms purge_inv purge_content show ?thesis by (auto simp: x ttl_purge_def deadlines_hold_def)
  next
    case (TtlResize n)
    let ?l' = "fst (op_resize lru ?l n)"
    have "deadlines_hold content ttl stores (c\<lparr>tc_cache := ?l'\<rparr>)"
      by (rule deadlines_sub [OF assms(2) resize_content [OF assms(1)]])
    with assms purge_inv purge_content resize_inv show ?thesis
      by (auto simp: x TtlResize ttl_resize_def Let_def split_beta deadlines_hold_def)
  qed (use assms in \<open>simp_all add: x\<close>)
qed

lemma run_deadlines:
  assumes "inv (tc_cache c)" and "deadlines_hold content ttl stores c"
    and "ttl_run lru xs c = (c', as)" and "i < length xs"
    and "xs ! i = (clock, TtlGet k) \<or> xs ! i = (clock, TtlPeek k)" and "as ! i = Read (Some v)"
  shows "\<exists>t. fold (note_call k) (take i xs) (stores k) = Some (t, v) \<and> (0 < ttl \<longrightarrow> clock k \<le> t + ttl)"
  using assms
proof (induction xs arbitrary: c stores i as)
  case (Cons x xs)
  obtain d a where d: "ttl_step lru x c = (d, a)" by (cases "ttl_step lru x c")
  obtain bs where bs: "ttl_run lru xs d = (c', bs)" "as = a # bs"
    using Cons.prems(3) by (auto simp: d split: prod.splits)
  note step = step_deadlines [OF Cons.prems(1,2), of x, unfolded d fst_conv]
  show ?case
  proof (cases i)
    case 0
    with Cons.prems(5,6) bs(2) d have "snd (ttl_get lru (clock k) c k) = Some v \<or> ttl_peek lru (clock k) c k = Some v"
      by (auto simp: map_prod_def split: prod.splits)
    with 0 get_fresh [OF Cons.prems(1,2)] peek_fresh [OF Cons.prems(1,2)] show ?thesis by auto
  next
    case (Suc n)
    with Cons.prems(4-6) bs(2) Cons.IH [OF _ _ bs(1), of "\<lambda>k. note_call k x (stores k)" n] step show ?thesis
      by auto
  qed
qed simp

end

subsection \<open>Bookkeeping\<close>

text \<open>What the plain LRU promises besides: exact listings and a capacity that \<^verbatim>\<open>Resize\<close> sets.\<close>

locale sized_cacher = cacher_contract ops inv content
  for ops :: "('c, 'k, 'v, 'z) cacher_ops_scheme" and inv :: "'c \<Rightarrow> bool" and content :: "'c \<Rightarrow> 'k \<rightharpoonup> 'v" +
  fixes capacity :: "'c \<Rightarrow> int"
  assumes sized_within: "inv c \<Longrightarrow> finite (dom (content c)) \<and> int (card (dom (content c))) \<le> capacity c"
    and sized_peek: "inv c \<Longrightarrow> op_peek ops c k = content c k"
    and sized_keys: "inv c \<Longrightarrow> distinct (op_keys ops c) \<and> set (op_keys ops c) = dom (content c)"
    and sized_len: "inv c \<Longrightarrow> op_len ops c = int (card (dom (content c)))"
    and sized_capacity: "inv c \<Longrightarrow> capacity (fst (op_add ops c k v)) = capacity c \<and>
      capacity (fst (op_get ops c k)) = capacity c \<and> capacity (op_purge ops c) = capacity c \<and>
      capacity (fst (op_remove ops c k)) = capacity c"
    and sized_resize: "inv c \<Longrightarrow> 0 < n \<Longrightarrow> capacity (fst (op_resize ops c n)) = n"

sublocale exact_cacher \<subseteq> sized: sized_cacher ops inv content capacity
  by unfold_locales
    (simp_all add: finite_content within_capacity peek_finds keys_enumerate len_counts add_capacity get_capacity
      purge_capacity remove_capacity resize_capacity)

definition ttl_ok ::
  "('l \<Rightarrow> bool) \<Rightarrow> ('l \<Rightarrow> 'k \<rightharpoonup> 'v ttl_entry) \<Rightarrow> ('l \<Rightarrow> int) \<Rightarrow> 'l ttl_cache \<Rightarrow> bool" where
  "ttl_ok good content capacity c \<longleftrightarrow> good (tc_cache c) \<and> 0 \<le> tc_size c \<and>
     (tc_size c = 0 \<longrightarrow> content (tc_cache c) = Map.empty) \<and> (0 < tc_size c \<longrightarrow> capacity (tc_cache c) = tc_size c) \<and>
     (tc_ttl c \<le> 0 \<longrightarrow> (\<forall>e \<in> ran (content (tc_cache c)). expiresAt e = None))"

lemma ttl_okI:
  assumes "good l" and "0 \<le> n" and "n = 0 \<Longrightarrow> content l = Map.empty" and "0 < n \<Longrightarrow> capacity l = n"
    and "\<And>k e. ttl \<le> 0 \<Longrightarrow> content l k = Some e \<Longrightarrow> expiresAt e = None"
  shows "ttl_ok good content capacity \<lparr>tc_cache = l, tc_size = n, tc_ttl = ttl\<rparr>"
  using assms by (auto simp: ttl_ok_def ran_def)

locale ttl_sized = sized_cacher lru inv content capacity
  for lru :: "('l, 'k, 'v ttl_entry, 'z) cacher_ops_scheme" and inv :: "'l \<Rightarrow> bool"
    and content :: "'l \<Rightarrow> 'k \<rightharpoonup> 'v ttl_entry" and capacity :: "'l \<Rightarrow> int"
begin

lemma ok_keeps:
  assumes ok: "ttl_ok inv content capacity c" and l: "inv l" "capacity l = capacity (tc_cache c)" "content l \<subseteq>\<^sub>m content (tc_cache c)"
  shows "ttl_ok inv content capacity (c\<lparr>tc_cache := l\<rparr>)"
proof -
  have "content l = Map.empty" if "content (tc_cache c) = Map.empty"
    using l(3) that by (metis map_le_antisym map_le_empty)
  with ok l show ?thesis by (auto simp: ttl_ok_def ran_def dest!: map_le_SomeD [OF l(3)])
qed

lemma step_ok:
  assumes ok: "ttl_ok inv content capacity c"
  shows "ttl_ok inv content capacity (fst (ttl_step lru x c))"
proof -
  obtain clock call where x: "x = (clock, call)" by (cases x)
  let ?l = "tc_cache c"
  have i: "inv ?l" using ok by (simp add: ttl_ok_def)
  note cap = sized_capacity [OF i]
  show ?thesis
  proof (cases call)
    case (TtlAdd k v)
    let ?e = "\<lparr>te_value = v, expiresAt = ttl_deadline (clock k) c\<rparr>"
    have "ttl_ok inv content capacity (c\<lparr>tc_cache := fst (op_add lru ?l k ?e)\<rparr>)" if "0 < tc_size c"
      using ok that add_inv [OF i] cap
      by (auto simp: ttl_ok_def ran_def ttl_deadline_def dest!: add_at [OF i] split: if_splits) blast
    with ok show ?thesis by (auto simp: x TtlAdd ttl_add_def split_beta)
  next
    case (TtlGet k)
    let ?m = "fst (op_get lru ?l k)"
    have m: "inv ?m" "content ?m \<subseteq>\<^sub>m content ?l" using get_inv [OF i] get_content [OF i] by blast+
    have "content (fst (op_remove lru ?m k)) \<subseteq>\<^sub>m content ?l"
      using remove_at [OF m(1)] map_le_SomeD [OF m(2)] by (auto simp: map_le_def)
    with ok_keeps [OF ok] m remove_inv [OF m(1)] sized_capacity [OF m(1)] cap show ?thesis
      by (auto simp: x TtlGet ttl_get_def Let_def split_beta split: option.split)
  next
    case (TtlRemove k)
    have "content (fst (op_remove lru ?l k)) \<subseteq>\<^sub>m content ?l" using remove_at [OF i] by (auto simp: map_le_def)
    with ok_keeps [OF ok] remove_inv [OF i] cap show ?thesis by (simp add: x TtlRemove ttl_remove_def Let_def)
  next
    case TtlPurge
    with ok_keeps [OF ok] purge_inv [OF i] purge_content [OF i] cap show ?thesis by (simp add: x ttl_purge_def)
  next
    case (TtlResize n)
    have "ttl_ok inv content capacity (c\<lparr>tc_size := n, tc_cache := fst (op_resize lru ?l n)\<rparr>)" if "0 < n"
      using ok that resize_inv [OF i] sized_resize [OF i that]
      by (auto simp: ttl_ok_def ran_def dest!: resize_at [OF i])
    moreover have "ttl_ok inv content capacity (c\<lparr>tc_size := 0, tc_cache := op_purge lru ?l\<rparr>)"
      using ok purge_inv [OF i] purge_content [OF i] by (auto simp: ttl_ok_def)
    ultimately show ?thesis by (simp add: x TtlResize ttl_resize_def Let_def split_beta)
  qed (use ok in \<open>simp_all add: x\<close>)
qed

lemma run_ok: "ttl_ok inv content capacity c \<Longrightarrow> ttl_ok inv content capacity (fst (ttl_run lru xs c))"
proof (induction xs arbitrary: c)
  case (Cons x xs)
  show ?case using Cons.IH [OF step_ok [OF Cons.prems, of x]] by (simp add: split_beta)
qed simp

lemma listings:
  assumes ok: "ttl_ok inv content capacity c"
  shows "distinct (ttl_keys lru clock c)" and "set (ttl_keys lru clock c) = {k. ttl_contains lru (clock k) c k}"
    and "int (length (ttl_keys lru clock c)) \<le> ttl_cap c" and "ttl_len lru clock c = int (length (ttl_keys lru clock c))"
proof -
  let ?l = "tc_cache c"
  have i: "inv ?l" using ok by (simp add: ttl_ok_def)
  note keys = sized_keys [OF i]
  show d: "distinct (ttl_keys lru clock c)" using keys by (simp add: ttl_keys_eq)
  have live: "live_entry lru clock c k \<noteq> None \<longleftrightarrow> ttl_contains lru (clock k) c k" for k
    by (auto simp: live_entry_def ttl_peek_def ttl_contains_def split: option.splits)
  have "ttl_contains lru (clock k) c k \<Longrightarrow> k \<in> dom (content ?l)" for k
    by (auto simp: ttl_contains_def sized_peek [OF i] split: option.splits)
  with keys live show "set (ttl_keys lru clock c) = {k. ttl_contains lru (clock k) c k}" by (auto simp: ttl_keys_eq)
  have "length (ttl_keys lru clock c) \<le> length (op_keys lru ?l)" unfolding ttl_keys_eq by (rule length_filter_le)
  also have "length (op_keys lru ?l) = card (dom (content ?l))" using keys distinct_card by metis
  finally have "int (length (ttl_keys lru clock c)) \<le> int (card (dom (content ?l)))" by simp
  also have "\<dots> \<le> tc_size c" using ok sized_within [OF i] by (cases "tc_size c = 0") (simp_all add: ttl_ok_def)
  finally show "int (length (ttl_keys lru clock c)) \<le> ttl_cap c" by (simp add: ttl_cap_def)
  show "ttl_len lru clock c = int (length (ttl_keys lru clock c))"
  proof (cases "0 < tc_ttl c")
    case True
    then show ?thesis by (rule ttl_len_eq)
  next
    case False
    then have "live_entry lru clock c k \<noteq> None" if "k \<in> set (op_keys lru ?l)" for k
      using ok that keys
      by (auto simp: live_entry_def ttl_peek_def sized_peek [OF i] ttl_expired_def ttl_ok_def ran_def)
    then have "ttl_keys lru clock c = op_keys lru ?l" by (simp add: ttl_keys_eq filter_id_conv)
    with False \<open>length (op_keys lru ?l) = card (dom (content ?l))\<close> show ?thesis
      by (simp add: ttl_len_def sized_len [OF i])
  qed
qed

end

text \<open>The LFU cache of this repository meets the same laws and can stand under the expiry.\<close>

interpretation ttl_lfu: ttl_over "lfu_ops order zk zv" lfu_inv lfu_content for order zk zv
  by unfold_locales

interpretation ttl_lfu: ttl_sized "lfu_ops order zk zv" lfu_inv lfu_content lfu_capacity for order zk zv
  by unfold_locales

subsection \<open>As an arm\<close>

text \<open>
  As a \<^verbatim>\<open>Cacher\<close> the cache reads the clock itself: the object carries the readings to come, each call
  that changes it takes the next, and time never runs backwards. Its content is what is unexpired now.
\<close>

record 'l timed =
  tm_cache :: "'l ttl_cache"
  tm_clock :: "nat \<Rightarrow> int"
  tm_at :: nat

definition now_of :: "'l timed \<Rightarrow> int" where
  "now_of m = tm_clock m (tm_at m)"

definition timed_step ::
  "(int \<Rightarrow> 'l ttl_cache \<Rightarrow> 'l ttl_cache \<times> 'a) \<Rightarrow> 'l timed \<Rightarrow> 'l timed \<times> 'a" where
  "timed_step f m =
     (let m = m\<lparr>tm_at := tm_at m + 1\<rparr>; (c, a) = f (now_of m) (tm_cache m) in (m\<lparr>tm_cache := c\<rparr>, a))"

definition ttl_ops :: "('l, 'k, 'v ttl_entry, 'z) cacher_ops_scheme \<Rightarrow> ('l timed, 'k, 'v) cacher_ops" where
  "ttl_ops lru =
     \<lparr>op_add = (\<lambda>m k v. timed_step (\<lambda>t c. ttl_add lru t c k v) m),
      op_contains = (\<lambda>m. ttl_contains lru (now_of m) (tm_cache m)),
      op_get = (\<lambda>m k. timed_step (\<lambda>t c. ttl_get lru t c k) m),
      op_keys = (\<lambda>m. ttl_keys lru (\<lambda>_. now_of m) (tm_cache m)),
      op_len = (\<lambda>m. ttl_len lru (\<lambda>_. now_of m) (tm_cache m)),
      op_peek = (\<lambda>m. ttl_peek lru (now_of m) (tm_cache m)),
      op_purge = (\<lambda>m. fst (timed_step (\<lambda>t c. (ttl_purge lru c, ())) m)),
      op_remove = (\<lambda>m k. timed_step (\<lambda>t c. ttl_remove lru t c k) m),
      op_resize = (\<lambda>m n. timed_step (\<lambda>t c. ttl_resize lru c n) m),
      op_values = (\<lambda>m. ttl_values lru (\<lambda>_. now_of m) (tm_cache m))\<rparr>"

definition unexpired :: "('l \<Rightarrow> 'k \<rightharpoonup> 'v ttl_entry) \<Rightarrow> 'l timed \<Rightarrow> 'k \<rightharpoonup> 'v" where
  "unexpired content m k =
     (case content (tc_cache (tm_cache m)) k of
        None \<Rightarrow> None | Some e \<Rightarrow> if ttl_expired (now_of m) e then None else Some (te_value e))"

definition timed_ok ::
  "('l \<Rightarrow> bool) \<Rightarrow> ('l \<Rightarrow> 'k \<rightharpoonup> 'v ttl_entry) \<Rightarrow> ('l \<Rightarrow> int) \<Rightarrow> 'l timed \<Rightarrow> bool" where
  "timed_ok good content capacity m \<longleftrightarrow> ttl_ok good content capacity (tm_cache m) \<and> mono (tm_clock m)"

lemma timed_step_sel:
  "tm_cache (fst (timed_step f m)) = fst (f (tm_clock m (tm_at m + 1)) (tm_cache m))"
  "snd (timed_step f m) = snd (f (tm_clock m (tm_at m + 1)) (tm_cache m))"
  "tm_clock (fst (timed_step f m)) = tm_clock m" "now_of (fst (timed_step f m)) = tm_clock m (tm_at m + 1)"
  by (simp_all add: timed_step_def now_of_def Let_def split_beta)

lemma map_le_pointwise: "(\<And>j y. f j = Some y \<Longrightarrow> g j = Some y) \<Longrightarrow> f \<subseteq>\<^sub>m g"
  by (auto simp: map_le_def)

text \<open>Time passes and the cache below loses entries: what is left was there before.\<close>

lemma unexpired_shrinks:
  assumes "mono (tm_clock m)" and "\<And>k e. content (tc_cache (fst (f (tm_clock m (tm_at m + 1)) (tm_cache m)))) k = Some e \<Longrightarrow>
      content (tc_cache (tm_cache m)) k = Some e"
    and "unexpired content (fst (timed_step f m)) k = Some v"
  shows "unexpired content m k = Some v"
proof -
  have "now_of m \<le> tm_clock m (tm_at m + 1)" using assms(1) by (simp add: mono_def now_of_def)
  with assms(2,3) show ?thesis
    by (auto simp: unexpired_def timed_step_sel ttl_expired_def split: option.splits if_splits)
qed

context ttl_sized begin

lemma timed_keeps:
  assumes "timed_ok inv content capacity m" and "\<And>t. \<exists>x. fst (f t (tm_cache m)) = fst (ttl_step lru x (tm_cache m))"
  shows "timed_ok inv content capacity (fst (timed_step f m))"
  using assms(1) assms(2) [of "tm_clock m (tm_at m + 1)"] step_ok
  by (auto simp: timed_ok_def timed_step_sel)

lemma peek_unexpired:
  "timed_ok inv content capacity m \<Longrightarrow> ttl_peek lru (now_of m) (tm_cache m) k = unexpired content m k"
  by (simp add: ttl_peek_def unexpired_def timed_ok_def ttl_ok_def sized_peek split: option.split)

lemma contains_unexpired:
  "timed_ok inv content capacity m \<Longrightarrow> ttl_contains lru (now_of m) (tm_cache m) k \<longleftrightarrow> k \<in> dom (unexpired content m)"
  by (auto simp: ttl_contains_def unexpired_def timed_ok_def ttl_ok_def sized_peek split: option.splits)

lemma get_below:
  assumes "inv (tc_cache c)" and "content (tc_cache (fst (ttl_get lru t c k))) j = Some e"
  shows "content (tc_cache c) j = Some e"
proof -
  let ?m = "fst (op_get lru (tc_cache c) k)"
  have m: "inv ?m" by (rule get_inv [OF assms(1)])
  from assms(2) have "content ?m j = Some e"
    by (auto simp: ttl_get_def Let_def split_beta dest: remove_at [OF m] split: option.splits if_splits)
  then show ?thesis by (rule get_at [OF assms(1)])
qed

theorem timed_contract: "cacher_contract (ttl_ops lru) (timed_ok inv content capacity) (unexpired content)"
proof unfold_locales
  fix m :: "'l timed" and k :: 'k and v :: 'v and n :: int
  assume ok: "timed_ok inv content capacity m"
  let ?c = "tm_cache m" and ?t = "tm_clock m (tm_at m + 1)"
  have i: "inv (tc_cache ?c)" and mono: "mono (tm_clock m)" using ok by (simp_all add: timed_ok_def ttl_ok_def)
  have calls: "\<exists>x. fst (ttl_add lru t ?c k v) = fst (ttl_step lru x ?c)" "\<exists>x. fst (ttl_get lru t ?c k) = fst (ttl_step lru x ?c)"
    "\<exists>x. fst (ttl_remove lru t ?c k) = fst (ttl_step lru x ?c)" "\<exists>x. ttl_purge lru ?c = fst (ttl_step lru x ?c)"
    "\<exists>x. fst (ttl_resize lru ?c n) = fst (ttl_step lru x ?c)" for t
  proof -
    show "\<exists>x. fst (ttl_add lru t ?c k v) = fst (ttl_step lru x ?c)" by (rule exI [of _ "(\<lambda>_. t, TtlAdd k v)"]) simp
    show "\<exists>x. fst (ttl_get lru t ?c k) = fst (ttl_step lru x ?c)" by (rule exI [of _ "(\<lambda>_. t, TtlGet k)"]) simp
    show "\<exists>x. fst (ttl_remove lru t ?c k) = fst (ttl_step lru x ?c)" by (rule exI [of _ "(\<lambda>_. t, TtlRemove k)"]) simp
    show "\<exists>x. ttl_purge lru ?c = fst (ttl_step lru x ?c)" by (rule exI [of _ "(\<lambda>_. t, TtlPurge)"]) simp
    show "\<exists>x. fst (ttl_resize lru ?c n) = fst (ttl_step lru x ?c)" by (rule exI [of _ "(\<lambda>_. t, TtlResize n)"]) simp
  qed
  show "timed_ok inv content capacity (fst (op_add (ttl_ops lru) m k v))"
    using timed_keeps [OF ok, of "\<lambda>t c. ttl_add lru t c k v"] calls(1) by (simp add: ttl_ops_def)
  show "timed_ok inv content capacity (fst (op_get (ttl_ops lru) m k))"
    using timed_keeps [OF ok, of "\<lambda>t c. ttl_get lru t c k"] calls(2) by (simp add: ttl_ops_def)
  show "timed_ok inv content capacity (fst (op_remove (ttl_ops lru) m k))"
    using timed_keeps [OF ok, of "\<lambda>t c. ttl_remove lru t c k"] calls(3) by (simp add: ttl_ops_def)
  show "timed_ok inv content capacity (op_purge (ttl_ops lru) m)"
    using timed_keeps [OF ok, of "\<lambda>t c. (ttl_purge lru c, ())"] calls(4) by (simp add: ttl_ops_def)
  show "timed_ok inv content capacity (fst (op_resize (ttl_ops lru) m n))"
    using timed_keeps [OF ok, of "\<lambda>t c. ttl_resize lru c n"] calls(5) by (simp add: ttl_ops_def)
  show "unexpired content (fst (op_add (ttl_ops lru) m k v)) \<subseteq>\<^sub>m (unexpired content m)(k \<mapsto> v)"
  proof (rule map_le_pointwise)
    fix j y
    assume "unexpired content (fst (op_add (ttl_ops lru) m k v)) j = Some y"
    then have y: "unexpired content (fst (timed_step (\<lambda>t c. ttl_add lru t c k v) m)) j = Some y" by (simp add: ttl_ops_def)
    show "((unexpired content m)(k \<mapsto> v)) j = Some y"
    proof (cases "tc_size ?c \<le> 0")
      case True
      have empty: "content (tc_cache ?c) = Map.empty" using ok True by (auto simp: timed_ok_def ttl_ok_def)
      from y show ?thesis by (simp add: unexpired_def timed_step_sel ttl_add_def True empty)
    next
      case False
      let ?e = "\<lparr>te_value = v, expiresAt = ttl_deadline ?t ?c\<rparr>"
      from y False obtain e where e: "content (fst (op_add lru (tc_cache ?c) k ?e)) j = Some e" "\<not> ttl_expired ?t e" "y = te_value e"
        by (auto simp: unexpired_def timed_step_sel ttl_add_def split_beta split: option.splits if_splits)
      have "now_of m \<le> ?t" using mono by (simp add: mono_def now_of_def)
      with add_at [OF i e(1)] e(2,3) show ?thesis
        by (auto simp: unexpired_def ttl_expired_def split: option.splits if_splits)
    qed
  qed
  show get: "unexpired content (fst (op_get (ttl_ops lru) m k)) \<subseteq>\<^sub>m unexpired content m"
    using unexpired_shrinks [OF mono, of content "\<lambda>t c. ttl_get lru t c k"] get_below [OF i]
    by (auto simp: map_le_def ttl_ops_def)
  show "unexpired content m k = Some v" if "snd (op_get (ttl_ops lru) m k) = Some v"
  proof -
    from that obtain e where e: "snd (op_get lru (tc_cache ?c) k) = Some e" "\<not> ttl_expired ?t e" "v = te_value e"
      by (auto simp: ttl_ops_def timed_step_sel ttl_get_def Let_def split_beta split: option.splits if_splits)
    have "now_of m \<le> ?t" using mono by (simp add: mono_def now_of_def)
    with get_result [OF i e(1)] e(2,3) show ?thesis by (auto simp: unexpired_def ttl_expired_def split: option.splits)
  qed
  show "op_peek (ttl_ops lru) m k = Some v \<Longrightarrow> unexpired content m k = Some v"
    by (simp add: ttl_ops_def peek_unexpired [OF ok])
  show "op_contains (ttl_ops lru) m k \<Longrightarrow> k \<in> dom (unexpired content m)"
    by (simp only: ttl_ops_def cacher_ops.simps contains_unexpired [OF ok])
  show "unexpired content (op_purge (ttl_ops lru) m) = Map.empty"
    using purge_content [OF i] by (simp add: ttl_ops_def unexpired_def timed_step_sel ttl_purge_def fun_eq_iff)
  show "unexpired content (fst (op_remove (ttl_ops lru) m k)) \<subseteq>\<^sub>m (unexpired content m)(k := None)"
  proof (rule map_le_pointwise)
    fix j y
    assume "unexpired content (fst (op_remove (ttl_ops lru) m k)) j = Some y"
    then have y: "unexpired content (fst (timed_step (\<lambda>t c. ttl_remove lru t c k) m)) j = Some y" by (simp add: ttl_ops_def)
    have rem: "content (tc_cache (fst (ttl_remove lru t ?c k))) j = Some e \<Longrightarrow> j \<noteq> k \<and> content (tc_cache ?c) j = Some e" for t e j
      using remove_at [OF i] by (auto simp: ttl_remove_def Let_def)
    then have "unexpired content m j = Some y" using unexpired_shrinks [OF mono _ y] by blast
    moreover have "j \<noteq> k" using y rem by (fastforce simp: unexpired_def timed_step_sel split: option.splits)
    ultimately show "((unexpired content m)(k := None)) j = Some y" by simp
  qed
  have res: "content (tc_cache (fst (ttl_resize lru ?c n))) j = Some e \<Longrightarrow> content (tc_cache ?c) j = Some e" for j e
    using resize_at [OF i] purge_content [OF i] by (auto simp: ttl_resize_def Let_def split_beta split: if_splits)
  then show "unexpired content (fst (op_resize (ttl_ops lru) m n)) \<subseteq>\<^sub>m unexpired content m"
    using unexpired_shrinks [OF mono, of content "\<lambda>t c. ttl_resize lru c n"] by (auto simp: map_le_def ttl_ops_def)
  have keys: "set (ttl_keys lru (\<lambda>_. now_of m) ?c) = dom (unexpired content m)"
    using listings(2) ok contains_unexpired [OF ok] by (auto simp: timed_ok_def)
  then show "dom (unexpired content m) \<subseteq> set (op_keys (ttl_ops lru) m)" by (simp add: ttl_ops_def)
  show "set (op_values (ttl_ops lru) m) \<subseteq> ran (unexpired content m)"
  proof
    fix x assume "x \<in> set (op_values (ttl_ops lru) m)"
    then have "Some x \<in> set (map Some (ttl_values lru (\<lambda>_. now_of m) ?c))" by (simp add: ttl_ops_def)
    then show "x \<in> ran (unexpired content m)"
      unfolding ttl_values_eq by (auto simp: live_entry_def peek_unexpired [OF ok] ran_def)
  qed
qed

end

interpretation ttl_arm: cacher_contract "ttl_ops (lfu_ops order zk zv)" "timed_ok lfu_inv lfu_content lfu_capacity"
  "unexpired lfu_content" for order zk zv
  by (rule ttl_lfu.timed_contract)

end
