(* ===== verification/AdaptCache.thy ===== *)
theory AdaptCache
  imports LFUContract
begin

text \<open>
  The adapter from a cache library's usual interface to a full \<^verbatim>\<open>Cacher\<close> (\<^verbatim>\<open>src/policies/adapt.go\<close>). The
  wrapped cache (hashicorp's 2Q or ARC) and the function that builds one are parameters: a record of
  operations and a function from sizes. What is relied on of them is the locale \<^verbatim>\<open>partial_contract\<close>.

  The loop that trims the cache after a failed rebuild ends only because \<^verbatim>\<open>Remove\<close> removes; it is a
  \<^theory_text>\<open>partial_function\<close>, where \<^term>\<open>None\<close> is a loop that never returns, and every operation that can reach
  it is shown to return.
\<close>

record ('p, 'k, 'v) partial_ops =
  pa_add :: "'p \<Rightarrow> 'k \<Rightarrow> 'v \<Rightarrow> 'p"
  pa_get :: "'p \<Rightarrow> 'k \<Rightarrow> 'p \<times> 'v option"
  pa_peek :: "'p \<Rightarrow> 'k \<Rightarrow> 'v option"
  pa_contains :: "'p \<Rightarrow> 'k \<Rightarrow> bool"
  pa_remove :: "'p \<Rightarrow> 'k \<Rightarrow> 'p"
  pa_purge :: "'p \<Rightarrow> 'p"
  pa_keys :: "'p \<Rightarrow> 'k list"
  pa_values :: "'p \<Rightarrow> 'v list"
  pa_len :: "'p \<Rightarrow> int"

record ('p, 'e) adapted =
  ad_cache :: 'p
  ad_size :: int
  ad_build :: "int \<Rightarrow> 'e + 'p"

datatype 'e adapt_error = BuildNil | BuildFailed 'e

definition Adapt :: "int \<Rightarrow> (int \<Rightarrow> 'e + 'p) option \<Rightarrow> 'e adapt_error + ('p, 'e) adapted" where
  "Adapt sz build =
     (case build of
        None \<Rightarrow> Inl BuildNil
      | Some build \<Rightarrow>
          case build sz of
            Inl err \<Rightarrow> Inl (BuildFailed err)
          | Inr cache \<Rightarrow> Inr \<lparr>ad_cache = cache, ad_size = sz, ad_build = build\<rparr>)"

partial_function (option) enforceCapacityLocked ::
  "('p, 'k, 'v) partial_ops \<Rightarrow> ('p, 'e) adapted \<Rightarrow> ('p, 'e) adapted option" where
  "enforceCapacityLocked ops c =
     (if pa_len ops (ad_cache c) > ad_size c
      then (case pa_keys ops (ad_cache c) of
              [] \<Rightarrow> Some c
            | key # _ \<Rightarrow> enforceCapacityLocked ops (c\<lparr>ad_cache := pa_remove ops (ad_cache c) key\<rparr>))
      else Some c)"

declare enforceCapacityLocked.simps [code]

definition adapted_add ::
  "('p, 'k, 'v) partial_ops \<Rightarrow> ('p, 'e) adapted \<Rightarrow> 'k \<Rightarrow> 'v \<Rightarrow> (('p, 'e) adapted \<times> bool) option" where
  "adapted_add ops c key val =
     (if ad_size c \<le> 0 then Some (c, False)
      else do {
        let evicts = (\<not> pa_contains ops (ad_cache c) key \<and> pa_len ops (ad_cache c) \<ge> ad_size c);
        c \<leftarrow> enforceCapacityLocked ops (c\<lparr>ad_cache := pa_add ops (ad_cache c) key val\<rparr>);
        Some (c, evicts)
      })"

definition adapted_get :: "('p, 'k, 'v) partial_ops \<Rightarrow> ('p, 'e) adapted \<Rightarrow> 'k \<Rightarrow> ('p, 'e) adapted \<times> 'v option" where
  "adapted_get ops c key = (let (p, r) = pa_get ops (ad_cache c) key in (c\<lparr>ad_cache := p\<rparr>, r))"

definition adapted_peek :: "('p, 'k, 'v) partial_ops \<Rightarrow> ('p, 'e) adapted \<Rightarrow> 'k \<Rightarrow> 'v option" where
  "adapted_peek ops c key = pa_peek ops (ad_cache c) key"

definition adapted_contains :: "('p, 'k, 'v) partial_ops \<Rightarrow> ('p, 'e) adapted \<Rightarrow> 'k \<Rightarrow> bool" where
  "adapted_contains ops c key = pa_contains ops (ad_cache c) key"

definition adapted_remove :: "('p, 'k, 'v) partial_ops \<Rightarrow> ('p, 'e) adapted \<Rightarrow> 'k \<Rightarrow> ('p, 'e) adapted \<times> bool" where
  "adapted_remove ops c key =
     (let present = pa_contains ops (ad_cache c) key
      in (c\<lparr>ad_cache := pa_remove ops (ad_cache c) key\<rparr>, present))"

definition adapted_purge :: "('p, 'k, 'v) partial_ops \<Rightarrow> ('p, 'e) adapted \<Rightarrow> ('p, 'e) adapted" where
  "adapted_purge ops c = c\<lparr>ad_cache := pa_purge ops (ad_cache c)\<rparr>"

definition adapted_keys :: "('p, 'k, 'v) partial_ops \<Rightarrow> ('p, 'e) adapted \<Rightarrow> 'k list" where
  "adapted_keys ops c = pa_keys ops (ad_cache c)"

definition adapted_values :: "('p, 'k, 'v) partial_ops \<Rightarrow> ('p, 'e) adapted \<Rightarrow> 'v list" where
  "adapted_values ops c = pa_values ops (ad_cache c)"

definition adapted_len :: "('p, 'k, 'v) partial_ops \<Rightarrow> ('p, 'e) adapted \<Rightarrow> int" where
  "adapted_len ops c = pa_len ops (ad_cache c)"

definition adapted_cap :: "('p, 'e) adapted \<Rightarrow> int" where
  "adapted_cap c = ad_size c"

text \<open>The entries kept for the rebuilt cache, in the order of \<^verbatim>\<open>Keys\<close>.\<close>

definition kept_entries :: "('p, 'k, 'v) partial_ops \<Rightarrow> 'p \<Rightarrow> ('k \<times> 'v) list" where
  "kept_entries ops p =
     fold (\<lambda>key kept. case pa_peek ops p key of None \<Rightarrow> kept | Some val \<Rightarrow> kept @ [(key, val)]) (pa_keys ops p) []"

definition adapted_resize ::
  "('p, 'k, 'v) partial_ops \<Rightarrow> ('p, 'e) adapted \<Rightarrow> int \<Rightarrow> (('p, 'e) adapted \<times> int) option" where
  "adapted_resize ops c sz =
     (let sz = (if sz < 0 then 0 else sz)
      in if sz = ad_size c then Some (c, 0)
         else
           let before = pa_len ops (ad_cache c)
           in if sz = 0 then Some (c\<lparr>ad_cache := pa_purge ops (ad_cache c), ad_size := 0\<rparr>, before)
              else
                let kept = kept_entries ops (ad_cache c)
                in case ad_build c sz of
                     Inl err \<Rightarrow>
                       let c = c\<lparr>ad_size := sz\<rparr>; before = pa_len ops (ad_cache c)
                       in do {
                            c \<leftarrow> enforceCapacityLocked ops c;
                            Some (c, before - pa_len ops (ad_cache c))
                          }
                   | Inr rebuilt \<Rightarrow>
                       let rebuilt = fold (\<lambda>(key, val) p. pa_add ops p key val) kept rebuilt
                       in Some (c\<lparr>ad_cache := rebuilt, ad_size := sz\<rparr>, before - pa_len ops rebuilt))"

subsection \<open>What is relied on\<close>

text \<open>
  A wrapped cache holds at most \<open>bound\<close> entries, evicts only when a new key finds it full, and lists what
  it holds. A built cache is empty and of the size asked for; a builder that accepts a size accepts the
  larger ones.
\<close>

locale partial_contract =
  fixes ops :: "('p, 'k, 'v) partial_ops" and good :: "'p \<Rightarrow> bool" and content :: "'p \<Rightarrow> 'k \<rightharpoonup> 'v" and bound :: "'p \<Rightarrow> int"
    and build :: "int \<Rightarrow> 'e + 'p"
  assumes pa_fits: "good p \<Longrightarrow> finite (dom (content p)) \<and> int (card (dom (content p))) \<le> bound p"
    and pa_add_law: "good p \<Longrightarrow> 0 < bound p \<Longrightarrow> good (pa_add ops p k v) \<and> bound (pa_add ops p k v) = bound p \<and>
      content (pa_add ops p k v) \<subseteq>\<^sub>m (content p)(k \<mapsto> v)"
    and pa_add_room: "good p \<Longrightarrow> k \<in> dom (content p) \<or> int (card (dom (content p))) < bound p \<Longrightarrow>
      content (pa_add ops p k v) = (content p)(k \<mapsto> v)"
    and pa_get_law: "good p \<Longrightarrow> good (fst (pa_get ops p k)) \<and> bound (fst (pa_get ops p k)) = bound p \<and>
      content (fst (pa_get ops p k)) = content p \<and> snd (pa_get ops p k) = content p k"
    and pa_remove_law: "good p \<Longrightarrow> good (pa_remove ops p k) \<and> bound (pa_remove ops p k) = bound p \<and>
      content (pa_remove ops p k) = (content p)(k := None)"
    and pa_purge_law: "good p \<Longrightarrow> good (pa_purge ops p) \<and> bound (pa_purge ops p) = bound p \<and> content (pa_purge ops p) = Map.empty"
    and pa_reads: "good p \<Longrightarrow> pa_peek ops p k = content p k \<and> (pa_contains ops p k \<longleftrightarrow> content p k \<noteq> None) \<and>
      pa_len ops p = int (card (dom (content p))) \<and> distinct (pa_keys ops p) \<and> set (pa_keys ops p) = dom (content p) \<and>
      map Some (pa_values ops p) = map (content p) (pa_keys ops p)"
    and build_law: "build n = Inr p \<Longrightarrow> 0 < n \<and> good p \<and> content p = Map.empty \<and> bound p = n"
    and build_larger: "build n = Inr p \<Longrightarrow> n \<le> m \<Longrightarrow> \<exists>q. build m = Inr q"

definition adapted_ok ::
  "('p \<Rightarrow> bool) \<Rightarrow> ('p \<Rightarrow> 'k \<rightharpoonup> 'v) \<Rightarrow> ('p \<Rightarrow> int) \<Rightarrow> (int \<Rightarrow> 'e + 'p) \<Rightarrow> ('p, 'e) adapted \<Rightarrow> bool" where
  "adapted_ok good content bound build c \<longleftrightarrow>
     good (ad_cache c) \<and> ad_build c = build \<and> 0 \<le> ad_size c \<and> int (card (dom (content (ad_cache c)))) \<le> ad_size c \<and>
     ad_size c \<le> bound (ad_cache c) \<and> (\<exists>q. build (bound (ad_cache c)) = Inr q)"

fun put_all :: "('k \<rightharpoonup> 'v) \<Rightarrow> ('k \<times> 'v) list \<Rightarrow> ('k \<rightharpoonup> 'v)" where
  "put_all m [] = m"
| "put_all m ((k, v) # kvs) = put_all (m(k \<mapsto> v)) kvs"

lemma put_all_map_of: "distinct (map fst kvs) \<Longrightarrow> put_all f kvs = f ++ map_of kvs"
proof (induction kvs arbitrary: f)
  case (Cons x kvs)
  obtain k v where x: "x = (k, v)" by fastforce
  with Cons.prems have "k \<notin> dom (map_of kvs)" by (simp add: dom_map_of_conv_image_fst)
  with Cons show ?case by (simp add: x map_add_upd_left map_add_upd [symmetric] del: map_add_upd fun_upd_apply)
qed simp

lemma put_all_mono: "f \<subseteq>\<^sub>m g \<Longrightarrow> put_all f kvs \<subseteq>\<^sub>m put_all g kvs"
proof (induction kvs arbitrary: f g)
  case (Cons x kvs)
  then show ?case by (cases x) (auto intro!: Cons.IH map_le_upd simp del: fun_upd_apply)
qed simp

context partial_contract begin

text \<open>The trimming loop returns, with what fits.\<close>

lemma enforce_returns:
  assumes "good (ad_cache c)" and "0 \<le> ad_size c"
  shows "\<exists>p. enforceCapacityLocked ops c = Some (c\<lparr>ad_cache := p\<rparr>) \<and> good p \<and> bound p = bound (ad_cache c) \<and>
    content p \<subseteq>\<^sub>m content (ad_cache c) \<and>
    int (card (dom (content p))) = min (ad_size c) (int (card (dom (content (ad_cache c)))))"
  using assms
proof (induction "card (dom (content (ad_cache c)))" arbitrary: c rule: less_induct)
  case less
  let ?p = "ad_cache c"
  have len: "pa_len ops ?p = int (card (dom (content ?p)))" and keys: "set (pa_keys ops ?p) = dom (content ?p)"
    using pa_reads [OF less.prems(1)] by blast+
  show ?case
  proof (cases "pa_len ops ?p > ad_size c")
    case False
    then have "enforceCapacityLocked ops c = Some (c\<lparr>ad_cache := ?p\<rparr>)" by (simp add: enforceCapacityLocked.simps)
    with False len less.prems(1) show ?thesis by (intro exI [of _ ?p]) simp
  next
    case True
    with len less.prems(2) have "dom (content ?p) \<noteq> {}" by auto
    with keys obtain k ks where k: "pa_keys ops ?p = k # ks" "k \<in> dom (content ?p)" by (cases "pa_keys ops ?p") auto
    let ?q = "pa_remove ops ?p k"
    have q: "good ?q" "bound ?q = bound ?p" "content ?q = (content ?p)(k := None)"
      using pa_remove_law [OF less.prems(1)] by blast+
    have "finite (dom (content ?p))" using pa_fits [OF less.prems(1)] by blast
    moreover have "dom (content ?q) = dom (content ?p) - {k}" unfolding q(3) by simp
    ultimately have card: "card (dom (content ?p)) = card (dom (content ?q)) + 1"
      using k(2) card.remove [of "dom (content ?p)" k] by simp
    from less.hyps [of "c\<lparr>ad_cache := ?q\<rparr>"] card q(1) less.prems(2) obtain p where
      p: "enforceCapacityLocked ops (c\<lparr>ad_cache := ?q\<rparr>) = Some (c\<lparr>ad_cache := p\<rparr>)" "good p" "bound p = bound ?q"
        "content p \<subseteq>\<^sub>m content ?q" "int (card (dom (content p))) = min (ad_size c) (int (card (dom (content ?q))))"
      by auto
    have "content ?q \<subseteq>\<^sub>m content ?p" by (simp add: q(3))
    with p(4) have "content p \<subseteq>\<^sub>m content ?p" by (rule map_le_trans)
    moreover have "enforceCapacityLocked ops c = enforceCapacityLocked ops (c\<lparr>ad_cache := ?q\<rparr>)"
      using True k(1) by (subst enforceCapacityLocked.simps) simp
    moreover have "int (card (dom (content p))) = min (ad_size c) (int (card (dom (content ?p))))"
      using True len card p(5) by linarith
    ultimately show ?thesis using p q(2) by (intro exI [of _ p]) simp
  qed
qed

lemma kept_exact: "good p \<Longrightarrow> kept_entries ops p = map (\<lambda>k. (k, the (content p k))) (pa_keys ops p)"
proof -
  assume p: "good p"
  have "fold (\<lambda>key kept. case pa_peek ops p key of None \<Rightarrow> kept | Some val \<Rightarrow> kept @ [(key, val)]) ks acc =
      acc @ map (\<lambda>k. (k, the (content p k))) ks" if "set ks \<subseteq> dom (content p)" for ks acc
    using that by (induction ks arbitrary: acc) (auto simp: pa_reads [OF p])
  then show ?thesis using pa_reads [OF p] by (simp add: kept_entries_def)
qed

text \<open>Replaying entries into a cache: nothing but them, and all of them while there is room.\<close>

lemma replay:
  assumes "good p" and "0 < bound p"
  shows "good (fold (\<lambda>(key, val) p. pa_add ops p key val) kvs p) \<and>
    bound (fold (\<lambda>(key, val) p. pa_add ops p key val) kvs p) = bound p \<and>
    content (fold (\<lambda>(key, val) p. pa_add ops p key val) kvs p) \<subseteq>\<^sub>m put_all (content p) kvs \<and>
    (int (card (dom (content p) \<union> fst ` set kvs)) \<le> bound p \<longrightarrow>
      content (fold (\<lambda>(key, val) p. pa_add ops p key val) kvs p) = put_all (content p) kvs)"
  using assms
proof (induction kvs arbitrary: p)
  case (Cons x kvs)
  obtain k v where x: "x = (k, v)" by fastforce
  let ?q = "pa_add ops p k v"
  have q: "good ?q" "bound ?q = bound p" "content ?q \<subseteq>\<^sub>m (content p)(k \<mapsto> v)" using pa_add_law [OF Cons.prems] by blast+
  have fin: "finite (dom (content p))" using pa_fits [OF Cons.prems(1)] by blast
  have full: "content ?q = (content p)(k \<mapsto> v) \<and> int (card (dom (content ?q) \<union> fst ` set kvs)) \<le> bound ?q"
    if le: "int (card (dom (content p) \<union> fst ` set (x # kvs))) \<le> bound p"
  proof -
    have "k \<in> dom (content p) \<or> int (card (dom (content p))) < bound p"
    proof (cases "k \<in> dom (content p)")
      case False
      then have "dom (content p) \<subset> dom (content p) \<union> fst ` set (x # kvs)" by (auto simp: x)
      with fin have "card (dom (content p)) < card (dom (content p) \<union> fst ` set (x # kvs))" by (intro psubset_card_mono) auto
      with le show ?thesis by linarith
    qed simp
    with pa_add_room [OF Cons.prems(1)] have "content ?q = (content p)(k \<mapsto> v)" by blast
    moreover from this have "dom (content ?q) \<union> fst ` set kvs = dom (content p) \<union> fst ` set (x # kvs)" by (auto simp: x)
    ultimately show ?thesis using le q(2) by simp
  qed
  let ?r = "fold (\<lambda>(key, val) p. pa_add ops p key val) kvs ?q"
  have r: "good ?r" "bound ?r = bound p" "content ?r \<subseteq>\<^sub>m put_all (content ?q) kvs"
    "int (card (dom (content ?q) \<union> fst ` set kvs)) \<le> bound ?q \<Longrightarrow> content ?r = put_all (content ?q) kvs"
    using Cons.IH [OF q(1)] q(2) Cons.prems(2) by simp_all
  have "content ?r \<subseteq>\<^sub>m put_all ((content p)(k \<mapsto> v)) kvs" by (rule map_le_trans [OF r(3) put_all_mono [OF q(3)]])
  moreover have "content ?r = put_all ((content p)(k \<mapsto> v)) kvs" if "int (card (dom (content p) \<union> fst ` set (x # kvs))) \<le> bound p"
    using full [OF that] r(4) by metis
  moreover have "fold (\<lambda>(key, val) p. pa_add ops p key val) (x # kvs) p = ?r" "put_all (content p) (x # kvs) = put_all ((content p)(k \<mapsto> v)) kvs"
    by (simp_all add: x)
  ultimately show ?case using r(1,2) by presburger
qed simp

lemma map_of_content:
  assumes "good p"
  shows "map_of (kept_entries ops p) = content p"
  using pa_reads [OF assms]
  by (auto simp: kept_exact [OF assms] map_of_map_restrict fun_eq_iff restrict_map_def)
    (metis domIff option.collapse)+

lemma resize_returns:
  assumes ok: "adapted_ok good content bound build c"
  shows "\<exists>c' n'. adapted_resize ops c n = Some (c', n') \<and> adapted_ok good content bound build c' \<and> ad_size c' = max 0 n \<and>
    content (ad_cache c') \<subseteq>\<^sub>m content (ad_cache c) \<and>
    n' = int (card (dom (content (ad_cache c)))) - int (card (dom (content (ad_cache c')))) \<and>
    (int (card (dom (content (ad_cache c)))) \<le> n \<longrightarrow> content (ad_cache c') = content (ad_cache c))"
proof -
  let ?p = "ad_cache c" and ?n = "max 0 n"
  have g: "good ?p" and b: "ad_build c = build" and fits: "int (card (dom (content ?p))) \<le> ad_size c" "ad_size c \<le> bound ?p"
    and buildable: "\<exists>q. build (bound ?p) = Inr q" and fin: "finite (dom (content ?p))"
    using ok pa_fits [of ?p] by (auto simp: adapted_ok_def)
  have len: "pa_len ops ?p = int (card (dom (content ?p)))" if "good ?p" for p using pa_reads [OF g] by blast
  consider "?n = ad_size c" | "?n \<noteq> ad_size c" "n \<le> 0"
    | err where "?n \<noteq> ad_size c" "0 < n" "build n = Inl err"
    | q where "?n \<noteq> ad_size c" "0 < n" "build n = Inr q" by (cases "build n") fastforce+
  then show ?thesis
  proof cases
    case 1
    then have "adapted_resize ops c n = Some (c, 0)" by (auto simp: adapted_resize_def Let_def max_def split: if_splits)
    with 1 ok show ?thesis by simp
  next
    case 2
    let ?c = "c\<lparr>ad_cache := pa_purge ops ?p, ad_size := 0\<rparr>"
    have p: "good (pa_purge ops ?p)" "bound (pa_purge ops ?p) = bound ?p" "content (pa_purge ops ?p) = Map.empty"
      using pa_purge_law [OF g] by blast+
    have "adapted_resize ops c n = Some (?c, int (card (dom (content ?p))))"
      using 2 len [OF g] by (auto simp: adapted_resize_def Let_def max_def split: if_splits)
    moreover have "adapted_ok good content bound build ?c" using ok p fits by (simp add: adapted_ok_def)
    ultimately show ?thesis using 2 p fin by (auto simp: max_def)
  next
    case 3
    let ?c = "c\<lparr>ad_size := n\<rparr>"
    have le: "n \<le> bound ?p" using 3(3) build_larger buildable by (metis Inl_Inr_False linorder_le_cases)
    obtain p where p: "enforceCapacityLocked ops ?c = Some (?c\<lparr>ad_cache := p\<rparr>)" "good p" "bound p = bound ?p"
      "content p \<subseteq>\<^sub>m content ?p" "int (card (dom (content p))) = min n (int (card (dom (content ?p))))"
      using enforce_returns [of ?c] g 3(2) by auto
    have len': "pa_len ops p = int (card (dom (content p)))" using pa_reads [OF p(2)] by blast
    have "adapted_resize ops c n = Some (?c\<lparr>ad_cache := p\<rparr>, int (card (dom (content ?p))) - int (card (dom (content p))))"
      using 3 p(1) len [OF g] len' b by (auto simp: adapted_resize_def Let_def max_def split: if_splits)
    moreover have "adapted_ok good content bound build (?c\<lparr>ad_cache := p\<rparr>)"
      using ok p 3(2) le by (simp add: adapted_ok_def)
    moreover have "content p = content ?p" if "int (card (dom (content ?p))) \<le> n"
    proof -
      have "card (dom (content p)) = card (dom (content ?p))" using p(5) that by simp
      with p(4) fin have "dom (content p) = dom (content ?p)" by (metis card_subset_eq map_le_implies_dom_le)
      with p(4) show ?thesis by (metis map_le_antisym map_le_def)
    qed
    ultimately show ?thesis using 3(2) p(4) by auto
  next
    case 4
    let ?q = "fold (\<lambda>(key, val) p. pa_add ops p key val) (kept_entries ops ?p) q"
    have q: "0 < n" "good q" "content q = Map.empty" "bound q = n" using build_law [OF 4(3)] by blast+
    have keys: "map fst (kept_entries ops ?p) = pa_keys ops ?p" by (simp add: kept_exact [OF g] comp_def)
    have "put_all (content q) (kept_entries ops ?p) = content ?p"
      using pa_reads [OF g] by (simp add: put_all_map_of keys q(3) map_of_content [OF g])
    moreover have "fst ` set (kept_entries ops ?p) = dom (content ?p)"
      using pa_reads [OF g] keys by (metis set_map)
    ultimately have r: "good ?q" "bound ?q = n" "content ?q \<subseteq>\<^sub>m content ?p"
      "int (card (dom (content ?p))) \<le> n \<longrightarrow> content ?q = content ?p"
      using replay [OF q(2), of "kept_entries ops ?p"] q by simp_all
    have len': "pa_len ops ?q = int (card (dom (content ?q)))" using pa_reads [OF r(1)] by blast
    have "adapted_resize ops c n = Some (c\<lparr>ad_cache := ?q, ad_size := n\<rparr>, int (card (dom (content ?p))) - int (card (dom (content ?q))))"
      using 4 len [OF g] len' b by (auto simp: adapted_resize_def Let_def max_def split: if_splits)
    moreover have "adapted_ok good content bound build (c\<lparr>ad_cache := ?q, ad_size := n\<rparr>)"
      using ok r(1,2) 4(2,3) pa_fits [OF r(1)] by (simp add: adapted_ok_def)
    ultimately show ?thesis using 4(2) r by auto
  qed
qed

lemma add_returns:
  assumes ok: "adapted_ok good content bound build c"
  shows "\<exists>c' flag. adapted_add ops c k v = Some (c', flag) \<and> adapted_ok good content bound build c' \<and> ad_size c' = ad_size c \<and>
    content (ad_cache c') \<subseteq>\<^sub>m (content (ad_cache c))(k \<mapsto> v) \<and>
    (ad_size c = 0 \<longrightarrow> content (ad_cache c') = content (ad_cache c) \<and> \<not> flag) \<and>
    (0 < ad_size c \<longrightarrow> (flag \<longleftrightarrow> content (ad_cache c') \<noteq> (content (ad_cache c))(k \<mapsto> v)))"
proof (cases "ad_size c \<le> 0")
  case True
  with ok have "ad_size c = 0" "dom (content (ad_cache c)) = {}" using pa_fits [of "ad_cache c"] by (auto simp: adapted_ok_def)
  with ok True show ?thesis by (auto simp: adapted_add_def)
next
  case False
  let ?p = "ad_cache c" and ?q = "pa_add ops (ad_cache c) k v" and ?up = "(content (ad_cache c))(k \<mapsto> v)"
  have g: "good ?p" and fits: "int (card (dom (content ?p))) \<le> ad_size c" "ad_size c \<le> bound ?p"
    and fin: "finite (dom (content ?p))" using ok pa_fits [of ?p] by (auto simp: adapted_ok_def)
  have q: "good ?q" "bound ?q = bound ?p" "content ?q \<subseteq>\<^sub>m ?up" using pa_add_law [OF g, of k v] False fits by auto
  obtain p where p: "enforceCapacityLocked ops (c\<lparr>ad_cache := ?q\<rparr>) = Some (c\<lparr>ad_cache := p\<rparr>)" "good p" "bound p = bound ?q"
    "content p \<subseteq>\<^sub>m content ?q" "int (card (dom (content p))) = min (ad_size c) (int (card (dom (content ?q))))"
    using enforce_returns [of "c\<lparr>ad_cache := ?q\<rparr>"] q(1) False by auto
  define flag where "flag = (k \<notin> dom (content ?p) \<and> int (card (dom (content ?p))) \<ge> ad_size c)"
  have "adapted_add ops c k v = Some (c\<lparr>ad_cache := p\<rparr>, flag)"
    using False p(1) pa_reads [OF g] by (auto simp: adapted_add_def Let_def flag_def)
  moreover have "adapted_ok good content bound build (c\<lparr>ad_cache := p\<rparr>)" using ok p q(2) by (simp add: adapted_ok_def)
  moreover have sub: "content p \<subseteq>\<^sub>m ?up" using p(4) q(3) by (rule map_le_trans)
  moreover have "flag \<longleftrightarrow> content p \<noteq> ?up"
  proof
    assume flag
    then have "card (dom ?up) = card (dom (content ?p)) + 1" using fin by (simp add: flag_def)
    moreover have "int (card (dom (content p))) \<le> ad_size c" using p(5) by linarith
    ultimately show "content p \<noteq> ?up" using \<open>flag\<close> by (auto simp: flag_def)
  next
    assume ne: "content p \<noteq> ?up"
    show flag
    proof (rule ccontr)
      assume no: "\<not> flag"
      then have "k \<in> dom (content ?p) \<or> int (card (dom (content ?p))) < bound ?p" using fits by (auto simp: flag_def)
      then have eq: "content ?q = ?up" by (rule pa_add_room [OF g])
      have "int (card (dom ?up)) \<le> ad_size c"
        using no fits(1) fin by (auto simp: flag_def insert_absorb card_insert_if)
      with p(5) eq have "card (dom (content p)) = card (dom ?up)" by (simp only: eq)
      moreover have "finite (dom ?up)" using fin by simp
      ultimately have "dom (content p) = dom ?up" using map_le_implies_dom_le [OF sub] by (metis card_subset_eq)
      with sub have "content p = ?up" by (metis map_le_antisym map_le_def)
      with ne show False ..
    qed
  qed
  ultimately show ?thesis using False by auto
qed

end

subsection \<open>Runs\<close>

datatype ('k, 'v) adapted_call =
    AdaptedAdd 'k 'v | AdaptedGet 'k | AdaptedRemove 'k | AdaptedPurge | AdaptedResize int

fun adapted_step :: "('p, 'k, 'v) partial_ops \<Rightarrow> ('k, 'v) adapted_call \<Rightarrow> ('p, 'e) adapted \<Rightarrow> ('p, 'e) adapted option" where
  "adapted_step ops (AdaptedAdd k v) c = map_option fst (adapted_add ops c k v)"
| "adapted_step ops (AdaptedGet k) c = Some (fst (adapted_get ops c k))"
| "adapted_step ops (AdaptedRemove k) c = Some (fst (adapted_remove ops c k))"
| "adapted_step ops AdaptedPurge c = Some (adapted_purge ops c)"
| "adapted_step ops (AdaptedResize n) c = map_option fst (adapted_resize ops c n)"

fun adapted_run :: "('p, 'k, 'v) partial_ops \<Rightarrow> ('k, 'v) adapted_call list \<Rightarrow> ('p, 'e) adapted \<Rightarrow> ('p, 'e) adapted option" where
  "adapted_run ops [] c = Some c"
| "adapted_run ops (x # xs) c = Option.bind (adapted_step ops x c) (adapted_run ops xs)"

context partial_contract begin

lemma step_returns:
  assumes ok: "adapted_ok good content bound build c"
  shows "\<exists>c'. adapted_step ops x c = Some c' \<and> adapted_ok good content bound build c'"
proof (cases x)
  case (AdaptedAdd k v)
  with add_returns [OF ok, of k v] show ?thesis by auto
next
  case (AdaptedResize n)
  with resize_returns [OF ok, of n] show ?thesis by auto
next
  case (AdaptedGet k)
  with ok pa_get_law [of "ad_cache c" k] show ?thesis by (auto simp: adapted_ok_def adapted_get_def split_beta Let_def)
next
  case (AdaptedRemove k)
  have g: "good (ad_cache c)" using ok by (simp add: adapted_ok_def)
  have "card (dom (content (pa_remove ops (ad_cache c) k))) \<le> card (dom (content (ad_cache c)))"
    using pa_remove_law [OF g, of k] pa_fits [OF g] by (simp add: card_Diff1_le)
  with AdaptedRemove ok pa_remove_law [OF g, of k] show ?thesis
    by (auto simp: adapted_ok_def adapted_remove_def Let_def)
next
  case AdaptedPurge
  with ok pa_purge_law [of "ad_cache c"] show ?thesis by (auto simp: adapted_ok_def adapted_purge_def)
qed

lemma run_returns:
  "adapted_ok good content bound build c \<Longrightarrow> \<exists>c'. adapted_run ops xs c = Some c' \<and> adapted_ok good content bound build c'"
proof (induction xs arbitrary: c)
  case (Cons x xs)
  from step_returns [OF Cons.prems, of x] Cons.IH show ?case by fastforce
qed simp

lemma Adapt_ok: "Adapt n (Some build) = Inr c \<Longrightarrow> adapted_ok good content bound build c"
  using build_law [of n] by (auto simp: Adapt_def adapted_ok_def split: sum.splits)

lemma reads_back:
  "adapted_ok good content bound build c \<Longrightarrow> adapted_len ops c = int (card (dom (content (ad_cache c)))) \<and>
    adapted_len ops c \<le> adapted_cap c \<and> adapted_peek ops c k = content (ad_cache c) k"
  using pa_reads [of "ad_cache c"] by (simp add: adapted_ok_def adapted_len_def adapted_cap_def adapted_peek_def)

end

subsection \<open>As an arm\<close>

text \<open>\<^verbatim>\<open>Add\<close> and \<^verbatim>\<open>Resize\<close> always return, so their results can be taken.\<close>

definition adapted_ops :: "('p, 'k, 'v) partial_ops \<Rightarrow> (('p, 'e) adapted, 'k, 'v) cacher_ops" where
  "adapted_ops ops =
     \<lparr>op_add = (\<lambda>c k v. the (adapted_add ops c k v)), op_contains = adapted_contains ops, op_get = adapted_get ops,
      op_keys = adapted_keys ops, op_len = adapted_len ops, op_peek = adapted_peek ops, op_purge = adapted_purge ops,
      op_remove = adapted_remove ops, op_resize = (\<lambda>c n. the (adapted_resize ops c n)), op_values = adapted_values ops\<rparr>"

context partial_contract begin

theorem adapted_contract:
  "cacher_contract (adapted_ops ops) (adapted_ok good content bound build) (\<lambda>c. content (ad_cache c))"
proof unfold_locales
  fix c :: "('p, 'e) adapted" and k :: 'k and v :: 'v and n :: int
  assume ok: "adapted_ok good content bound build c"
  have g: "good (ad_cache c)" using ok by (simp add: adapted_ok_def)
  note reads = pa_reads [OF g]
  obtain c' flag where a: "adapted_add ops c k v = Some (c', flag)" "adapted_ok good content bound build c'"
    "content (ad_cache c') \<subseteq>\<^sub>m (content (ad_cache c))(k \<mapsto> v)" using add_returns [OF ok, of k v] by blast
  show "adapted_ok good content bound build (fst (op_add (adapted_ops ops) c k v))"
    "content (ad_cache (fst (op_add (adapted_ops ops) c k v))) \<subseteq>\<^sub>m (content (ad_cache c))(k \<mapsto> v)"
    using a by (simp_all add: adapted_ops_def)
  obtain d lost where r: "adapted_resize ops c n = Some (d, lost)" "adapted_ok good content bound build d"
    "content (ad_cache d) \<subseteq>\<^sub>m content (ad_cache c)" using resize_returns [OF ok, of n] by blast
  show "adapted_ok good content bound build (fst (op_resize (adapted_ops ops) c n))"
    "content (ad_cache (fst (op_resize (adapted_ops ops) c n))) \<subseteq>\<^sub>m content (ad_cache c)"
    using r by (simp_all add: adapted_ops_def)
  show "adapted_ok good content bound build (fst (op_get (adapted_ops ops) c k))"
    using step_returns [OF ok, of "AdaptedGet k"] by (simp add: adapted_ops_def)
  show "adapted_ok good content bound build (op_purge (adapted_ops ops) c)"
    using step_returns [OF ok, of AdaptedPurge] by (simp add: adapted_ops_def)
  show "adapted_ok good content bound build (fst (op_remove (adapted_ops ops) c k))"
    using step_returns [OF ok, of "AdaptedRemove k"] by (simp add: adapted_ops_def)
  show "content (ad_cache (fst (op_get (adapted_ops ops) c k))) \<subseteq>\<^sub>m content (ad_cache c)"
    "snd (op_get (adapted_ops ops) c k) = Some v \<Longrightarrow> content (ad_cache c) k = Some v"
    using pa_get_law [OF g, of k] by (simp_all add: adapted_ops_def adapted_get_def split_beta Let_def)
  show "op_peek (adapted_ops ops) c k = Some v \<Longrightarrow> content (ad_cache c) k = Some v"
    "op_contains (adapted_ops ops) c k \<Longrightarrow> k \<in> dom (content (ad_cache c))"
    "dom (content (ad_cache c)) \<subseteq> set (op_keys (adapted_ops ops) c)"
    using reads by (auto simp: adapted_ops_def adapted_peek_def adapted_contains_def adapted_keys_def)
  show "content (ad_cache (op_purge (adapted_ops ops) c)) = Map.empty"
    using pa_purge_law [OF g] by (simp add: adapted_ops_def adapted_purge_def)
  show "content (ad_cache (fst (op_remove (adapted_ops ops) c k))) \<subseteq>\<^sub>m (content (ad_cache c))(k := None)"
    using pa_remove_law [OF g] by (simp add: adapted_ops_def adapted_remove_def Let_def)
  show "set (op_values (adapted_ops ops) c) \<subseteq> ran (content (ad_cache c))"
  proof
    fix x assume "x \<in> set (op_values (adapted_ops ops) c)"
    then have "Some x \<in> set (map Some (pa_values ops (ad_cache c)))" by (simp add: adapted_ops_def adapted_values_def)
    moreover have "map Some (pa_values ops (ad_cache c)) = map (content (ad_cache c)) (pa_keys ops (ad_cache c))" using reads by blast
    ultimately show "x \<in> ran (content (ad_cache c))" by (metis (no_types, lifting) imageE ranI set_map)
  qed
qed

end

subsection \<open>On a cache of this repository\<close>

text \<open>The LFU cache, with what it reports dropped, has the shape the adapter wraps.\<close>

definition lfu_partial :: "('k set \<Rightarrow> 'k list) \<Rightarrow> 'k \<Rightarrow> 'v \<Rightarrow> (('k, 'v) lfu, 'k, 'v) partial_ops" where
  "lfu_partial order zk zv = (let ops = lfu_ops order zk zv in
     \<lparr>pa_add = (\<lambda>c k v. fst (op_add ops c k v)), pa_get = op_get ops, pa_peek = op_peek ops, pa_contains = op_contains ops,
      pa_remove = (\<lambda>c k. fst (op_remove ops c k)), pa_purge = op_purge ops, pa_keys = op_keys ops,
      pa_values = op_values ops, pa_len = op_len ops\<rparr>)"

definition build_lfu :: "int \<Rightarrow> lfu_error + ('k, 'v) lfu" where
  "build_lfu n = NewLFU n False"

interpretation adapted_lfu: partial_contract "lfu_partial order zk zv" lfu_inv lfu_content lfu_capacity build_lfu
  for order zk zv
proof unfold_locales
  fix p :: "('a, 'b) lfu" and k :: 'a and v :: 'b
  assume inv: "lfu_inv p"
  note lfu = lfu.finite_content [OF inv] lfu.within_capacity [OF inv] lfu.add_inv [OF inv] lfu.add_content [OF inv]
    lfu.add_capacity [OF inv] lfu.get_inv [OF inv] lfu.get_finds [OF inv] lfu.get_keeps [OF inv] lfu.get_capacity [OF inv]
    lfu.remove_inv [OF inv] lfu.remove_exact [OF inv] lfu.remove_capacity [OF inv] lfu.purge_inv [OF inv]
    lfu.purge_content [OF inv] lfu.purge_capacity [OF inv]
  show "finite (dom (lfu_content p)) \<and> int (card (dom (lfu_content p))) \<le> lfu_capacity p" by (simp add: lfu)
  show "lfu_inv (pa_add (lfu_partial order zk zv) p k v) \<and> lfu_capacity (pa_add (lfu_partial order zk zv) p k v) = lfu_capacity p \<and>
      lfu_content (pa_add (lfu_partial order zk zv) p k v) \<subseteq>\<^sub>m (lfu_content p)(k \<mapsto> v)"
    by (simp add: lfu_partial_def Let_def lfu del: fun_upd_apply)
  show "k \<in> dom (lfu_content p) \<or> int (card (dom (lfu_content p))) < lfu_capacity p \<Longrightarrow>
      lfu_content (pa_add (lfu_partial order zk zv) p k v) = (lfu_content p)(k \<mapsto> v)"
    using lfu.add_resident [OF inv, of k] lfu.add_room [OF inv, of k]
    by (cases "k \<in> dom (lfu_content p)") (simp_all add: lfu_partial_def Let_def del: fun_upd_apply domIff)
  show "lfu_inv (fst (pa_get (lfu_partial order zk zv) p k)) \<and>
      lfu_capacity (fst (pa_get (lfu_partial order zk zv) p k)) = lfu_capacity p \<and>
      lfu_content (fst (pa_get (lfu_partial order zk zv) p k)) = lfu_content p \<and>
      snd (pa_get (lfu_partial order zk zv) p k) = lfu_content p k"
    by (simp add: lfu_partial_def Let_def lfu)
  show "lfu_inv (pa_remove (lfu_partial order zk zv) p k) \<and>
      lfu_capacity (pa_remove (lfu_partial order zk zv) p k) = lfu_capacity p \<and>
      lfu_content (pa_remove (lfu_partial order zk zv) p k) = (lfu_content p)(k := None)"
    by (simp add: lfu_partial_def Let_def lfu del: fun_upd_apply)
  show "lfu_inv (pa_purge (lfu_partial order zk zv) p) \<and> lfu_capacity (pa_purge (lfu_partial order zk zv) p) = lfu_capacity p \<and>
      lfu_content (pa_purge (lfu_partial order zk zv) p) = Map.empty"
    by (simp add: lfu_partial_def Let_def lfu)
  show "pa_peek (lfu_partial order zk zv) p k = lfu_content p k \<and>
      (pa_contains (lfu_partial order zk zv) p k \<longleftrightarrow> lfu_content p k \<noteq> None) \<and>
      pa_len (lfu_partial order zk zv) p = int (card (dom (lfu_content p))) \<and> distinct (pa_keys (lfu_partial order zk zv) p) \<and>
      set (pa_keys (lfu_partial order zk zv) p) = dom (lfu_content p) \<and>
      map Some (pa_values (lfu_partial order zk zv) p) = map (lfu_content p) (pa_keys (lfu_partial order zk zv) p)"
    using lfu.peek_finds [OF inv] lfu.contains_finds [OF inv] lfu.len_counts [OF inv] lfu.keys_enumerate [OF inv]
      lfu.values_enumerate [OF inv] by (simp add: lfu_partial_def Let_def domIff)
next
  fix n m :: int and p :: "('a, 'b) lfu"
  assume n: "build_lfu n = Inr p"
  with NewLFU_inv [of n False p] lfu_counts(1) [of p]
  show "0 < n \<and> lfu_inv p \<and> lfu_content p = Map.empty \<and> lfu_capacity p = n"
    by (auto simp: build_lfu_def lfu_capacity_def)
  show "n \<le> m \<Longrightarrow> \<exists>q. build_lfu m = Inr (q :: ('a, 'b) lfu)"
    using n by (auto simp: build_lfu_def NewLFU_def split: if_splits)
qed

interpretation adapted_arm: cacher_contract "adapted_ops (lfu_partial order zk zv)"
  "adapted_ok lfu_inv lfu_content lfu_capacity build_lfu" "\<lambda>c. lfu_content (ad_cache c)" for order zk zv
  by (rule adapted_lfu.adapted_contract)

end
