(* ===== verification/Adapters.thy ===== *)
theory Adapters
  imports TtlCache AdaptCache LfuCache RandomCache
begin

text \<open>
  The constructors of the policies (\<^verbatim>\<open>src/policies/adapters.go\<close>, \<^verbatim>\<open>src/policies/arc/arc.go\<close>) and the adapter
  of otter's W-TinyLFU cache (\<^verbatim>\<open>src/policies/tinylfu/tinylfu.go\<close>). The constructors of hashicorp's caches
  and all of otter are parameters.
\<close>

subsection \<open>Constructors\<close>

text \<open>The wrapped errors: which step failed, and the error it failed with.\<close>

datatype 'e build_error =
    BuildLRU 'e
  | BuildLFU lfu_error
  | BuildTwoQueue "'e adapt_error"
  | BuildARC "'e adapt_error"
  | BuildTinyLFU 'e

definition NewLRU :: "(int \<Rightarrow> 'e + 'c) \<Rightarrow> int \<Rightarrow> 'e build_error + 'c cache_wrapper" where
  "NewLRU lru_New sz =
     (case lru_New sz of Inl err \<Rightarrow> Inl (BuildLRU err) | Inr cache \<Rightarrow> Inr (NewCache cache LRU sz))"

definition NewLFU_policy :: "int \<Rightarrow> 'e build_error + ('k, 'v) lfu_cache cache_wrapper" where
  "NewLFU_policy sz =
     (case NewCacheLFU sz of Inl err \<Rightarrow> Inl (BuildLFU err) | Inr cache \<Rightarrow> Inr (NewCache cache LFU sz))"

definition NewTwoQueue :: "(int \<Rightarrow> 'e + 'p) \<Rightarrow> int \<Rightarrow> 'e build_error + ('p, 'e) adapted cache_wrapper" where
  "NewTwoQueue lru_New2Q sz =
     (case Adapt sz (Some (\<lambda>sz. lru_New2Q sz)) of
        Inl err \<Rightarrow> Inl (BuildTwoQueue err)
      | Inr cache \<Rightarrow> Inr (NewCache cache TwoQueue sz))"

definition NewTTL :: "(int \<Rightarrow> 'l option) \<Rightarrow> int \<Rightarrow> int \<Rightarrow> 'l ttl_cache cache_wrapper option" where
  "NewTTL lru_New sz ttl = map_option (\<lambda>cache. NewCache cache TTL sz) (NewTTLCache lru_New sz ttl)"

definition NewRandomPolicy :: "(nat \<Rightarrow> nat) \<Rightarrow> int \<Rightarrow> ('k, 'v) random_cache cache_wrapper" where
  "NewRandomPolicy seed sz = NewCache (NewRandom seed sz) Random sz"

definition arc_New :: "(int \<Rightarrow> 'e + 'p) \<Rightarrow> int \<Rightarrow> 'e adapt_error + ('p, 'e) adapted" where
  "arc_New NewARC sz = Adapt sz (Some (\<lambda>sz. NewARC sz))"

definition arc_NewPolicy :: "(int \<Rightarrow> 'e + 'p) \<Rightarrow> int \<Rightarrow> 'e build_error + ('p, 'e) adapted cache_wrapper" where
  "arc_NewPolicy NewARC sz =
     (case arc_New NewARC sz of Inl err \<Rightarrow> Inl (BuildARC err) | Inr cache \<Rightarrow> Inr (NewCache cache ARC sz))"

subsection \<open>W-TinyLFU\<close>

text \<open>
  otter's cache as the operations the adapter calls. \<^verbatim>\<open>EstimatedSize\<close> is whatever it says; \<^verbatim>\<open>Keys\<close> and
  \<^verbatim>\<open>Values\<close> are what its iterators yield.
\<close>

record ('o, 'k, 'v) otter_ops =
  ot_GetEntryQuietly :: "'o \<Rightarrow> 'k \<Rightarrow> 'v option"
  ot_GetIfPresent :: "'o \<Rightarrow> 'k \<Rightarrow> 'o \<times> 'v option"
  ot_EstimatedSize :: "'o \<Rightarrow> int"
  ot_GetMaximum :: "'o \<Rightarrow> 64 word"
  ot_Set :: "'o \<Rightarrow> 'k \<Rightarrow> 'v \<Rightarrow> 'o"
  ot_Invalidate :: "'o \<Rightarrow> 'k \<Rightarrow> 'o \<times> bool"
  ot_InvalidateAll :: "'o \<Rightarrow> 'o"
  ot_Keys :: "'o \<Rightarrow> 'k list"
  ot_Values :: "'o \<Rightarrow> 'v list"
  ot_SetMaximum :: "'o \<Rightarrow> 64 word \<Rightarrow> 'o"
  ot_CleanUp :: "'o \<Rightarrow> 'o"

definition MaxInt :: int where
  "MaxInt = 2 ^ 63 - 1"

definition capacityToInt :: "64 word \<Rightarrow> int" where
  "capacityToInt capacity = (if uint capacity > MaxInt then MaxInt else uint capacity)"

definition capacityToUint64 :: "int \<Rightarrow> 64 word" where
  "capacityToUint64 sz = (if sz < 0 then 0 else word_of_int sz)"

definition tiny_New :: "(int \<Rightarrow> 'e + 'o) \<Rightarrow> int \<Rightarrow> 'e build_error + 'o" where
  "tiny_New otter_New sz = (case otter_New sz of Inl err \<Rightarrow> Inl (BuildTinyLFU err) | Inr cache \<Rightarrow> Inr cache)"

definition tiny_add :: "('o, 'k, 'v) otter_ops \<Rightarrow> 'o \<Rightarrow> 'k \<Rightarrow> 'v \<Rightarrow> 'o \<times> bool" where
  "tiny_add ops c key val =
     (let existed = ot_GetEntryQuietly ops c key \<noteq> None;
          full = ot_EstimatedSize ops c \<ge> capacityToInt (ot_GetMaximum ops c)
      in (ot_Set ops c key val, \<not> existed \<and> full))"

definition tiny_get :: "('o, 'k, 'v) otter_ops \<Rightarrow> 'o \<Rightarrow> 'k \<Rightarrow> 'o \<times> 'v option" where
  "tiny_get ops c key = ot_GetIfPresent ops c key"

definition tiny_peek :: "('o, 'k, 'v) otter_ops \<Rightarrow> 'o \<Rightarrow> 'k \<Rightarrow> 'v option" where
  "tiny_peek ops c key = (case ot_GetEntryQuietly ops c key of None \<Rightarrow> None | Some entry \<Rightarrow> Some entry)"

definition tiny_contains :: "('o, 'k, 'v) otter_ops \<Rightarrow> 'o \<Rightarrow> 'k \<Rightarrow> bool" where
  "tiny_contains ops c key = (ot_GetEntryQuietly ops c key \<noteq> None)"

definition tiny_remove :: "('o, 'k, 'v) otter_ops \<Rightarrow> 'o \<Rightarrow> 'k \<Rightarrow> 'o \<times> bool" where
  "tiny_remove ops c key = ot_Invalidate ops c key"

definition tiny_purge :: "('o, 'k, 'v) otter_ops \<Rightarrow> 'o \<Rightarrow> 'o" where
  "tiny_purge ops c = ot_InvalidateAll ops c"

definition tiny_keys :: "('o, 'k, 'v) otter_ops \<Rightarrow> 'o \<Rightarrow> 'k list" where
  "tiny_keys ops c = fold (\<lambda>key keys. keys @ [key]) (ot_Keys ops c) []"

definition tiny_values :: "('o, 'k, 'v) otter_ops \<Rightarrow> 'o \<Rightarrow> 'v list" where
  "tiny_values ops c = fold (\<lambda>val vals. vals @ [val]) (ot_Values ops c) []"

definition tiny_len :: "('o, 'k, 'v) otter_ops \<Rightarrow> 'o \<Rightarrow> int" where
  "tiny_len ops c = ot_EstimatedSize ops c"

definition tiny_cap :: "('o, 'k, 'v) otter_ops \<Rightarrow> 'o \<Rightarrow> int" where
  "tiny_cap ops c = capacityToInt (ot_GetMaximum ops c)"

definition tiny_resize :: "('o, 'k, 'v) otter_ops \<Rightarrow> 'o \<Rightarrow> int \<Rightarrow> 'o \<times> int" where
  "tiny_resize ops c sz =
     (let sz = (if sz < 0 then 0 else sz);
          before = ot_EstimatedSize ops c;
          c = ot_SetMaximum ops c (capacityToUint64 sz);
          c = ot_CleanUp ops c;
          evicted = before - ot_EstimatedSize ops c
      in if evicted < 0 then (c, 0) else (c, evicted))"

definition tiny_NewPolicy :: "(int \<Rightarrow> 'e + 'o) \<Rightarrow> int \<Rightarrow> 'e build_error + 'o cache_wrapper" where
  "tiny_NewPolicy otter_New sz =
     (case tiny_New otter_New sz of Inl err \<Rightarrow> Inl err | Inr cache \<Rightarrow> Inr (NewCache cache TinyLFU sz))"

definition tiny_ops :: "('o, 'k, 'v) otter_ops \<Rightarrow> ('o, 'k, 'v) cacher_ops" where
  "tiny_ops ops =
     \<lparr>op_add = tiny_add ops, op_contains = tiny_contains ops, op_get = tiny_get ops, op_keys = tiny_keys ops,
      op_len = tiny_len ops, op_peek = tiny_peek ops, op_purge = tiny_purge ops, op_remove = tiny_remove ops,
      op_resize = tiny_resize ops, op_values = tiny_values ops\<rparr>"

subsection \<open>Capacities\<close>

text \<open>The two conversions lose nothing an \<^verbatim>\<open>int\<close> can hold, clamp the rest, and never wrap.\<close>

lemma capacity_roundtrip: "0 \<le> n \<Longrightarrow> n \<le> MaxInt \<Longrightarrow> capacityToInt (capacityToUint64 n) = n"
  by (simp add: capacityToInt_def capacityToUint64_def MaxInt_def uint_word_of_int_eq take_bit_int_eq_self)

lemma capacityToInt_bounds: "0 \<le> capacityToInt w \<and> capacityToInt w \<le> MaxInt"
  by (simp add: capacityToInt_def MaxInt_def)

lemma capacityToInt_mono: "v \<le> w \<Longrightarrow> capacityToInt v \<le> capacityToInt w"
  by (auto simp: capacityToInt_def word_le_def)

lemma capacityToUint64_negative: "n \<le> 0 \<Longrightarrow> capacityToUint64 n = 0"
  by (simp add: capacityToUint64_def)

lemma tiny_resize_count: "0 \<le> snd (tiny_resize ops c n)"
  by (simp add: tiny_resize_def Let_def)

subsection \<open>W-TinyLFU as an arm\<close>

text \<open>
  What an adaptive cache needs of an arm holds of the adapter whenever otter returns only what was stored:
  a lookup of a key finds its stored value or nothing, entries may disappear at any time, and the
  iterators yield what is resident.
\<close>

locale otter_contract =
  fixes ops :: "('o, 'k, 'v) otter_ops" and good :: "'o \<Rightarrow> bool" and content :: "'o \<Rightarrow> 'k \<rightharpoonup> 'v"
  assumes ot_good: "good c \<Longrightarrow> good (ot_Set ops c k v) \<and> good (fst (ot_GetIfPresent ops c k)) \<and>
      good (fst (ot_Invalidate ops c k)) \<and> good (ot_InvalidateAll ops c) \<and> good (ot_SetMaximum ops c w) \<and> good (ot_CleanUp ops c)"
    and ot_set: "good c \<Longrightarrow> content (ot_Set ops c k v) \<subseteq>\<^sub>m (content c)(k \<mapsto> v)"
    and ot_get: "good c \<Longrightarrow> content (fst (ot_GetIfPresent ops c k)) \<subseteq>\<^sub>m content c \<and>
      (\<forall>v. snd (ot_GetIfPresent ops c k) = Some v \<longrightarrow> content c k = Some v)"
    and ot_quiet: "good c \<Longrightarrow> ot_GetEntryQuietly ops c k = Some v \<Longrightarrow> content c k = Some v"
    and ot_invalidate: "good c \<Longrightarrow> content (fst (ot_Invalidate ops c k)) \<subseteq>\<^sub>m (content c)(k := None)"
    and ot_all: "good c \<Longrightarrow> content (ot_InvalidateAll ops c) = Map.empty"
    and ot_iterate: "good c \<Longrightarrow> dom (content c) \<subseteq> set (ot_Keys ops c) \<and> set (ot_Values ops c) \<subseteq> ran (content c)"
    and ot_shrink: "good c \<Longrightarrow> content (ot_SetMaximum ops c w) \<subseteq>\<^sub>m content c \<and> content (ot_CleanUp ops c) \<subseteq>\<^sub>m content c"
begin

lemma fold_append: "fold (\<lambda>x xs. xs @ [x]) ys xs = xs @ ys"
  by (induction ys arbitrary: xs) auto

theorem tiny_contract: "cacher_contract (tiny_ops ops) good content"
proof unfold_locales
  fix c :: 'o and k :: 'k and v :: 'v and n :: int
  assume c: "good c"
  note good = ot_good [OF c]
  show "good (fst (op_add (tiny_ops ops) c k v))" "good (fst (op_get (tiny_ops ops) c k))" "good (op_purge (tiny_ops ops) c)"
    "good (fst (op_remove (tiny_ops ops) c k))"
    using good by (auto simp: tiny_ops_def tiny_add_def tiny_get_def tiny_purge_def tiny_remove_def Let_def)
  show "good (fst (op_resize (tiny_ops ops) c n))"
    using good ot_good by (auto simp: tiny_ops_def tiny_resize_def Let_def)
  show "content (fst (op_add (tiny_ops ops) c k v)) \<subseteq>\<^sub>m (content c)(k \<mapsto> v)"
    using ot_set [OF c] by (simp add: tiny_ops_def tiny_add_def Let_def)
  show "content (fst (op_get (tiny_ops ops) c k)) \<subseteq>\<^sub>m content c"
    "snd (op_get (tiny_ops ops) c k) = Some v \<Longrightarrow> content c k = Some v"
    using ot_get [OF c, of k] by (auto simp: tiny_ops_def tiny_get_def)
  show "op_peek (tiny_ops ops) c k = Some v \<Longrightarrow> content c k = Some v" "op_contains (tiny_ops ops) c k \<Longrightarrow> k \<in> dom (content c)"
    using ot_quiet [OF c, of k] by (auto simp: tiny_ops_def tiny_peek_def tiny_contains_def split: option.splits)
  show "content (op_purge (tiny_ops ops) c) = Map.empty" using ot_all [OF c] by (simp add: tiny_ops_def tiny_purge_def)
  show "content (fst (op_remove (tiny_ops ops) c k)) \<subseteq>\<^sub>m (content c)(k := None)"
    using ot_invalidate [OF c] by (simp add: tiny_ops_def tiny_remove_def)
  show "content (fst (op_resize (tiny_ops ops) c n)) \<subseteq>\<^sub>m content c"
  proof -
    let ?d = "ot_SetMaximum ops c (capacityToUint64 (if n < 0 then 0 else n))"
    have "content (ot_CleanUp ops ?d) \<subseteq>\<^sub>m content ?d" using ot_shrink good by blast
    also have "content ?d \<subseteq>\<^sub>m content c" using ot_shrink [OF c] by blast
    finally show ?thesis by (simp add: tiny_ops_def tiny_resize_def Let_def)
  qed
  show "dom (content c) \<subseteq> set (op_keys (tiny_ops ops) c)" "set (op_values (tiny_ops ops) c) \<subseteq> ran (content c)"
    using ot_iterate [OF c] by (simp_all add: tiny_ops_def tiny_keys_def tiny_values_def fold_append)
qed

end

text \<open>The LFU cache of this repository, behind otter's interface, meets the contract.\<close>

definition lfu_otter :: "('k set \<Rightarrow> 'k list) \<Rightarrow> 'k \<Rightarrow> 'v \<Rightarrow> (('k, 'v) lfu, 'k, 'v) otter_ops" where
  "lfu_otter order zk zv = (let ops = lfu_ops order zk zv in
     \<lparr>ot_GetEntryQuietly = op_peek ops, ot_GetIfPresent = op_get ops, ot_EstimatedSize = op_len ops,
      ot_GetMaximum = (\<lambda>c. capacityToUint64 (lfu_capacity c)), ot_Set = (\<lambda>c k v. fst (op_add ops c k v)),
      ot_Invalidate = op_remove ops, ot_InvalidateAll = op_purge ops, ot_Keys = op_keys ops, ot_Values = op_values ops,
      ot_SetMaximum = (\<lambda>c w. fst (op_resize ops c (capacityToInt w))), ot_CleanUp = (\<lambda>c. c)\<rparr>)"

interpretation tiny_lfu: otter_contract "lfu_otter order zk zv" lfu_inv lfu_content for order zk zv
  by unfold_locales
    (simp_all add: lfu_otter_def Let_def lfu.op_inv lfu.add_content lfu.get_content lfu.get_result lfu.peek_result
      lfu.remove_content lfu.purge_content lfu.resize_content lfu.keys_content lfu.values_content)

interpretation tiny_arm: cacher_contract "tiny_ops (lfu_otter order zk zv)" lfu_inv lfu_content for order zk zv
  by (rule tiny_lfu.tiny_contract)

end
