(* ===== verification/PolicyTheorems.thy ===== *)
theory PolicyTheorems
  imports Adapters
begin

text \<open>
  What the policies built on other libraries' caches promise, given those caches' documented behaviour.
\<close>

subsection \<open>TTL\<close>

text \<open>C22: The expiring cache never serves an expired, removed or overwritten value, and never a zero value
  as a hit: in any run from a new cache, on an LRU that returns only what was added to it, every value a
  \<^verbatim>\<open>Get\<close> or \<^verbatim>\<open>Peek\<close> returns is the one most recently added under that key, at most \<^verbatim>\<open>ttl\<close> ago by the
  clock of the lookup, with no \<^verbatim>\<open>Remove\<close> or \<^verbatim>\<open>Purge\<close> since; the clock may jump in either direction.\<close>

theorem ttl_serves_only_unexpired:
  assumes "cacher_contract lru good content" and "\<And>n l. lru_New n = Some l \<Longrightarrow> good l \<and> content l = Map.empty"
    and "NewTTLCache lru_New sz ttl = Some c" and "ttl_run lru xs c = (c', as)" and "i < length xs"
    and "xs ! i = (clock, TtlGet k) \<or> xs ! i = (clock, TtlPeek k)" and "as ! i = Read (Some v)"
  shows "\<exists>t. last_store k (take i xs) = Some (t, v) \<and> (0 < ttl \<longrightarrow> clock k \<le> t + ttl)"
proof -
  have over: "ttl_over lru good content" using assms(1) by (rule ttl_over.intro)
  have c: "good (tc_cache c)" "content (tc_cache c) = Map.empty" "tc_ttl c = ttl"
    using assms(2,3) by (auto simp: NewTTLCache_def Let_def)
  then have "deadlines_hold content ttl (\<lambda>_. None) c" by (simp add: deadlines_hold_def)
  from ttl_over.run_deadlines [OF over c(1) this assms(4-7)] show ?thesis by (simp add: last_store_def)
qed

definition lfu_of_size :: "int \<Rightarrow> (int, int ttl_entry) lfu option" where
  "lfu_of_size n = (case NewLFU n False of Inl _ \<Rightarrow> None | Inr l \<Rightarrow> Some l)"

definition any_order :: "int set \<Rightarrow> int list" where
  "any_order _ = []"

abbreviation under_ttl :: "((int, int ttl_entry) lfu, int, int ttl_entry) cacher_ops" where
  "under_ttl \<equiv> lfu_ops any_order 0 \<lparr>te_value = 0, expiresAt = None\<rparr>"

definition small_ttl :: "(int, int ttl_entry) lfu ttl_cache" where
  "small_ttl = the (NewTTLCache lfu_of_size 2 100)"

lemma small_ttl_new: "NewTTLCache lfu_of_size 2 100 = Some small_ttl"
  by (simp add: small_ttl_def NewTTLCache_def lfu_of_size_def NewLFU_def)

lemma lfu_of_size_new: "lfu_of_size n = Some l \<Longrightarrow> lfu_inv l \<and> lfu_content l = Map.empty \<and> lfu_capacity l = n"
  using NewLFU_inv [of n False l] lfu_counts(1) [of l]
  by (auto simp: lfu_of_size_def lfu_capacity_def split: sum.splits)

lemma ttl_serves_only_unexpired_witness:
  "snd (ttl_run under_ttl [(\<lambda>_. 0, TtlAdd 1 10), (\<lambda>_. 100, TtlGet 1), (\<lambda>_. 101, TtlPeek 1), (\<lambda>_. 101, TtlGet 1)] small_ttl) =
     [Told False, Read (Some 10), Read None, Read None] \<and>
   (\<exists>t. last_store 1 [(\<lambda>_. 0, TtlAdd (1 :: int) 10)] = Some (t, 10 :: int) \<and> 100 \<le> t + 100)"
proof -
  let ?xs = "[(\<lambda>_. 0, TtlAdd 1 10), (\<lambda>_. 100, TtlGet 1), (\<lambda>_. 101, TtlPeek 1), (\<lambda>_. 101, TtlGet 1)]
    :: ((int \<Rightarrow> int) \<times> (int, int) ttl_call) list"
  have run: "snd (ttl_run under_ttl ?xs small_ttl) = [Told False, Read (Some 10), Read None, Read None]" by code_simp
  obtain c' as where c': "ttl_run under_ttl ?xs small_ttl = (c', as)" by fastforce
  have "as = [Told False, Read (Some 10), Read None, Read None]" using run unfolding c' by (rule trans [rotated]) simp
  then have "as ! 1 = Read (Some 10)" by simp
  with ttl_serves_only_unexpired [OF lfu.cacher_contract_axioms _ small_ttl_new c', of 1 "\<lambda>_. 100" 1 10] lfu_of_size_new
  have "\<exists>t. last_store 1 [(\<lambda>_. 0, TtlAdd (1 :: int) 10)] = Some (t, 10 :: int) \<and> 100 \<le> t + 100" by auto
  with run show ?thesis by (rule conjI)
qed

text \<open>C35: The listings of the expiring cache agree with each other at every moment: after any run, on an LRU
  with exact listings, \<^verbatim>\<open>Keys\<close> has no duplicates and lists exactly the keys \<^verbatim>\<open>Contains\<close> confirms, \<^verbatim>\<open>Values\<close>
  has the value of each listed key at the same position, \<^verbatim>\<open>Len\<close> is their number, and that never exceeds
  \<^verbatim>\<open>Cap\<close>, so a cache resized to zero holds nothing.\<close>

theorem ttl_listings_agree:
  assumes "sized_cacher lru good content capacity"
    and "\<And>n l. 0 < n \<Longrightarrow> lru_New n = Some l \<Longrightarrow> good l \<and> content l = Map.empty \<and> capacity l = n"
    and "NewTTLCache lru_New sz ttl = Some c"
  shows "let c' = fst (ttl_run lru xs c); keys = ttl_keys lru clock c' in
    distinct keys \<and> set keys = {k. ttl_contains lru (clock k) c' k} \<and>
    map Some (ttl_values lru clock c') = map (\<lambda>k. ttl_peek lru (clock k) c' k) keys \<and>
    ttl_len lru clock c' = int (length keys) \<and> int (length keys) \<le> ttl_cap c'"
proof -
  have sized: "ttl_sized lru good content capacity" using assms(1) by (rule ttl_sized.intro)
  obtain l where l: "lru_New (max (max 0 sz) 1) = Some l" "c = \<lparr>tc_cache = l, tc_size = max 0 sz, tc_ttl = ttl\<rparr>"
    using assms(3) by (auto simp: NewTTLCache_def Let_def max_def split: if_splits)
  have "ttl_ok good content capacity c"
    unfolding l(2) by (rule ttl_okI) (use assms(2) [OF _ l(1)] in auto)
  then have "ttl_ok good content capacity (fst (ttl_run lru xs c))" by (rule ttl_sized.run_ok [OF sized])
  from ttl_sized.listings [OF sized this, of clock] show ?thesis
    by (simp add: Let_def ttl_values_eq live_entry_def)
qed

lemma ttl_listings_agree_witness:
  "let c' = fst (ttl_run under_ttl [(\<lambda>_. 0, TtlAdd 1 10), (\<lambda>_. 50, TtlAdd 2 20), (\<lambda>_. 60, TtlGet 2)] small_ttl) in
    ttl_keys under_ttl (\<lambda>_. 120) c' = [2] \<and> map Some (ttl_values under_ttl (\<lambda>_. 120) c') = [ttl_peek under_ttl 120 c' 2] \<and>
    ttl_len under_ttl (\<lambda>_. 120) c' = 1"
proof -
  let ?xs = "[(\<lambda>_. 0, TtlAdd 1 10), (\<lambda>_. 50, TtlAdd 2 20), (\<lambda>_. 60, TtlGet 2)] :: ((int \<Rightarrow> int) \<times> (int, int) ttl_call) list"
  have "ttl_keys under_ttl (\<lambda>_. 120) (fst (ttl_run under_ttl ?xs small_ttl)) = [2]" by code_simp
  with ttl_listings_agree [OF lfu.sized.sized_cacher_axioms _ small_ttl_new, of any_order 0 "\<lparr>te_value = 0, expiresAt = None\<rparr>"
      ?xs "\<lambda>_. 120"] lfu_of_size_new show ?thesis by (simp add: Let_def)
qed

subsection \<open>Adapted caches\<close>

text \<open>C24: An adapted cache infers evictions exactly and respects the capacity it reports, even after a rebuild
  failed: in any state a run of calls can reach, which all return, \<^verbatim>\<open>Add\<close> returns, reports an eviction
  exactly when some entry it should have kept is gone afterwards, and leaves at most \<^verbatim>\<open>Cap\<close> entries.\<close>

theorem adapted_add_reports_eviction:
  assumes "partial_contract ops good content bound build" and "Adapt sz (Some build) = Inr c"
  shows "\<exists>c1 c2 flag. adapted_run ops xs c = Some c1 \<and> adapted_add ops c1 k v = Some (c2, flag) \<and>
    adapted_cap c2 = adapted_cap c1 \<and> adapted_len ops c2 \<le> adapted_cap c2 \<and>
    (0 < adapted_cap c1 \<longrightarrow> (flag \<longleftrightarrow> content (ad_cache c2) \<noteq> (content (ad_cache c1))(k \<mapsto> v))) \<and>
    (adapted_cap c1 \<le> 0 \<longrightarrow> \<not> flag \<and> content (ad_cache c2) = content (ad_cache c1))"
proof -
  note laws = assms(1)
  obtain c1 where c1: "adapted_run ops xs c = Some c1" "adapted_ok good content bound build c1"
    using partial_contract.run_returns [OF laws partial_contract.Adapt_ok [OF laws assms(2)]] by blast
  from partial_contract.add_returns [OF laws c1(2), of k v] obtain c2 flag where
    c2: "adapted_add ops c1 k v = Some (c2, flag)" "adapted_ok good content bound build c2" "ad_size c2 = ad_size c1"
    "ad_size c1 = 0 \<longrightarrow> content (ad_cache c2) = content (ad_cache c1) \<and> \<not> flag"
    "0 < ad_size c1 \<longrightarrow> (flag \<longleftrightarrow> content (ad_cache c2) \<noteq> (content (ad_cache c1))(k \<mapsto> v))" by blast
  have "0 \<le> ad_size c1" using c1(2) by (simp add: adapted_ok_def)
  moreover have "adapted_len ops c2 \<le> adapted_cap c2" using partial_contract.reads_back [OF laws c2(2)] by blast
  ultimately show ?thesis using c1(1) c2
    by (intro exI [of _ c1] exI [of _ c2] exI [of _ flag]) (simp add: adapted_cap_def del: fun_upd_apply)
qed

text \<open>A builder that, like 2Q's, rejects a size of one.\<close>

definition build_two_or_more :: "int \<Rightarrow> lfu_error + (int, int) lfu" where
  "build_two_or_more n = (if n \<le> 1 then NewLFU 0 False else NewLFU n False)"

abbreviation wrapped_lfu :: "((int, int) lfu, int, int) partial_ops" where
  "wrapped_lfu \<equiv> lfu_partial (\<lambda>_. []) 0 0"

lemma two_or_more_contract: "partial_contract wrapped_lfu lfu_inv lfu_content lfu_capacity build_two_or_more"
proof -
  have build: "build_two_or_more n = Inr p \<Longrightarrow> 1 < n \<and> build_lfu n = Inr p" for n p
    by (auto simp: build_two_or_more_def build_lfu_def NewLFU_def split: if_splits)
  then have new: "0 < n \<and> lfu_inv p \<and> lfu_content p = Map.empty \<and> lfu_capacity p = n" if "build_two_or_more n = Inr p" for n p
    using adapted_lfu.build_law [of n p] that by blast
  have larger: "\<exists>q. build_two_or_more m = Inr q" if "build_two_or_more n = Inr p" "n \<le> m" for n m p
    using build [OF that(1)] that(2) by (simp add: build_two_or_more_def NewLFU_def)
  show ?thesis
    by (rule partial_contract.intro)
      (rule adapted_lfu.pa_fits adapted_lfu.pa_add_law adapted_lfu.pa_add_room adapted_lfu.pa_get_law
        adapted_lfu.pa_remove_law adapted_lfu.pa_purge_law adapted_lfu.pa_reads new larger; assumption)+
qed

definition small_adapted :: "((int, int) lfu, lfu_error) adapted" where
  "small_adapted = (case Adapt 3 (Some build_two_or_more) of Inr c \<Rightarrow> c)"

lemma small_adapted_new: "Adapt 3 (Some build_two_or_more) = Inr small_adapted"
  by (simp add: small_adapted_def Adapt_def build_two_or_more_def NewLFU_def)

lemma adapted_add_reports_eviction_witness:
  "\<exists>c1 c2. adapted_run wrapped_lfu [AdaptedAdd 1 10, AdaptedAdd 2 20, AdaptedResize 1] small_adapted = Some c1 \<and>
    adapted_add wrapped_lfu c1 3 30 = Some (c2, True) \<and> adapted_cap c2 = 1 \<and> adapted_len wrapped_lfu c2 \<le> 1"
proof -
  let ?xs = "[AdaptedAdd 1 10, AdaptedAdd 2 20, AdaptedResize 1] :: (int, int) adapted_call list"
  have "map_option (\<lambda>c. (adapted_cap c, map_option snd (adapted_add wrapped_lfu c 3 30)))
      (adapted_run wrapped_lfu ?xs small_adapted) = Some (1, Some True)" by code_simp
  with adapted_add_reports_eviction [OF two_or_more_contract small_adapted_new, of ?xs 3 30] show ?thesis by fastforce
qed

text \<open>C23: Resizing an adapted cache returns, reaches the capacity asked for whether or not a cache of that size
  could be built, reports exactly the entries lost, invents none, and loses none while they fit.\<close>

theorem adapted_resize_exact:
  assumes "partial_contract ops good content bound build" and "Adapt sz (Some build) = Inr c"
    and "adapted_run ops xs c = Some c1"
  shows "\<exists>c2 lost. adapted_resize ops c1 n = Some (c2, lost) \<and> adapted_cap c2 = max 0 n \<and> adapted_len ops c2 \<le> max 0 n \<and>
    lost = adapted_len ops c1 - adapted_len ops c2 \<and>
    (\<forall>k v. adapted_peek ops c2 k = Some v \<longrightarrow> adapted_peek ops c1 k = Some v) \<and>
    (adapted_len ops c1 \<le> n \<longrightarrow> (\<forall>k. adapted_peek ops c2 k = adapted_peek ops c1 k))"
proof -
  note laws = assms(1)
  have ok: "adapted_ok good content bound build c1"
    using partial_contract.run_returns [OF laws partial_contract.Adapt_ok [OF laws assms(2)], of xs] assms(3) by fastforce
  from partial_contract.resize_returns [OF laws ok, of n] obtain c2 lost where
    c2: "adapted_resize ops c1 n = Some (c2, lost)" "adapted_ok good content bound build c2" "ad_size c2 = max 0 n"
    "content (ad_cache c2) \<subseteq>\<^sub>m content (ad_cache c1)"
    "lost = int (card (dom (content (ad_cache c1)))) - int (card (dom (content (ad_cache c2))))"
    "int (card (dom (content (ad_cache c1)))) \<le> n \<longrightarrow> content (ad_cache c2) = content (ad_cache c1)" by blast
  have len: "adapted_len ops c1 = int (card (dom (content (ad_cache c1))))"
    "adapted_len ops c2 = int (card (dom (content (ad_cache c2))))" "adapted_len ops c2 \<le> adapted_cap c2"
    using partial_contract.reads_back [OF laws ok] partial_contract.reads_back [OF laws c2(2)] by blast+
  have peek: "adapted_peek ops c1 = content (ad_cache c1)" "adapted_peek ops c2 = content (ad_cache c2)"
    using partial_contract.reads_back [OF laws ok] partial_contract.reads_back [OF laws c2(2)] by blast+
  have "\<forall>k v. adapted_peek ops c2 k = Some v \<longrightarrow> adapted_peek ops c1 k = Some v"
    unfolding peek using map_le_SomeD [OF c2(4)] by blast
  moreover have "adapted_cap c2 = max 0 n" using c2(3) by (simp only: adapted_cap_def)
  moreover have "adapted_len ops c1 \<le> n \<longrightarrow> (\<forall>k. adapted_peek ops c2 k = adapted_peek ops c1 k)"
    unfolding len(1) peek using c2(6) by metis
  moreover have "lost = adapted_len ops c1 - adapted_len ops c2" using c2(5) by (simp only: len(1,2))
  moreover have "adapted_len ops c2 \<le> max 0 n" using len(3) c2(3) by (simp only: adapted_cap_def)
  ultimately show ?thesis using c2(1) by blast
qed

lemma adapted_resize_exact_witness:
  "\<exists>c1 c2. adapted_run wrapped_lfu [AdaptedAdd 1 10, AdaptedAdd 2 20, AdaptedAdd 3 30] small_adapted = Some c1 \<and>
    adapted_resize wrapped_lfu c1 1 = Some (c2, 2) \<and> adapted_cap c2 = 1 \<and> adapted_len wrapped_lfu c2 \<le> 1"
proof -
  let ?xs = "[AdaptedAdd 1 10, AdaptedAdd 2 20, AdaptedAdd 3 30] :: (int, int) adapted_call list"
  have run: "map_option (\<lambda>c. map_option snd (adapted_resize wrapped_lfu c 1)) (adapted_run wrapped_lfu ?xs small_adapted) =
      Some (Some 2)" by code_simp
  then obtain c1 where c1: "adapted_run wrapped_lfu ?xs small_adapted = Some c1" by (auto simp del: adapted_run.simps)
  from adapted_resize_exact [OF two_or_more_contract small_adapted_new c1, of 1] run c1 show ?thesis
    by (auto simp del: adapted_run.simps)
qed

subsection \<open>Arms\<close>

text \<open>C26: Every policy built on another library's cache is an arm an adaptive cache may hold: wrapped by
  \<^verbatim>\<open>NewCache\<close>, the expiring cache, the adapted caches (2Q and ARC) and the W-TinyLFU adapter meet the
  contract under which the cache serves only what was last written, given that the caches underneath
  return only what was stored in them. The expiring cache meets it while its clock runs.\<close>

theorem shipped_arms_meet_contract:
  assumes "sized_cacher lru good1 content1 capacity" and "partial_contract pops good2 content2 bound build"
    and "otter_contract oops good3 content3"
  shows "policy_contract (wrapper_ops (ttl_ops lru)) (wrapped (timed_ok good1 content1 capacity)) (wrapped (unexpired content1)) \<and>
    policy_contract (wrapper_ops (adapted_ops pops)) (wrapped (adapted_ok good2 content2 bound build))
      (wrapped (\<lambda>c. content2 (ad_cache c))) \<and>
    policy_contract (wrapper_ops (tiny_ops oops)) (wrapped good3) (wrapped content3)"
proof (intro conjI cacher_contract.wrapped_policy)
  show "cacher_contract (ttl_ops lru) (timed_ok good1 content1 capacity) (unexpired content1)"
    by (rule ttl_sized.timed_contract [OF ttl_sized.intro [OF assms(1)]])
  show "cacher_contract (adapted_ops pops) (adapted_ok good2 content2 bound build) (\<lambda>c. content2 (ad_cache c))"
    by (rule partial_contract.adapted_contract [OF assms(2)])
  show "cacher_contract (tiny_ops oops) good3 content3" by (rule otter_contract.tiny_contract [OF assms(3)])
qed

lemma shipped_arms_meet_contract_witness:
  "policy_contract (wrapper_ops (ttl_ops under_ttl)) (wrapped (timed_ok lfu_inv lfu_content lfu_capacity)) (wrapped (unexpired lfu_content)) \<and>
   policy_contract (wrapper_ops (adapted_ops wrapped_lfu)) (wrapped (adapted_ok lfu_inv lfu_content lfu_capacity build_two_or_more))
     (wrapped (\<lambda>c. lfu_content (ad_cache c))) \<and>
   policy_contract (wrapper_ops (tiny_ops (lfu_otter any_order 0 (0 :: int)))) (wrapped lfu_inv) (wrapped lfu_content)"
  by (rule shipped_arms_meet_contract [OF lfu.sized.sized_cacher_axioms two_or_more_contract tiny_lfu.otter_contract_axioms])

end
