(* ===== verification/Monitoring.thy ===== *)
theory Monitoring
  imports AdviceReports Distributed "HOL-Library.List_Lexorder"
begin

text \<open>
  What is exported for monitoring: the state of a distributed bandit (\<^verbatim>\<open>src/bandit/snapshot.go\<close>) and the
  measurements of a cache (\<^verbatim>\<open>src/metrics/metrics.go\<close>). The order a range visits a map in is a parameter
  \<open>order\<close>; a policy whose \<^verbatim>\<open>String\<close> panics makes the snapshot panic, \<^term>\<open>None\<close>. Rendering a cache's
  snapshot as JSON is \<^verbatim>\<open>encoding/json\<close> and is not modelled.
\<close>

subsection \<open>The bandit's snapshot\<close>

record arm_evidence =
  ae_Policy :: string
  ae_Hits :: float64
  ae_Misses :: float64
  ae_HitRate :: float64

record snapshot =
  sn_Selection :: string
  sn_Mode :: string
  sn_NodeID :: string
  sn_Namespace :: string
  sn_Regime :: string
  sn_Fallback :: bool
  sn_LastSyncAge :: int
  sn_LastError :: string
  sn_LastBucket :: int
  sn_Syncs :: int
  sn_SyncFailures :: int
  sn_Leaderships :: int
  sn_Decisions :: int
  sn_Rejected :: int
  sn_Fleet :: "arm_evidence list"

definition collect_evidence :: "pooled \<Rightarrow> policy_type \<Rightarrow> arm_evidence option" where
  "collect_evidence fleet policy = do {
     arm \<leftarrow> Mapping.lookup fleet policy;
     name \<leftarrow> policy_string policy;
     Some \<lparr>ae_Policy = name, ae_Hits = w_Hits arm, ae_Misses = w_Misses arm, ae_HitRate = weighted_hitRate arm\<rparr>
   }"

definition evidence_less :: "arm_evidence \<Rightarrow> arm_evidence \<Rightarrow> bool" where
  "evidence_less left right =
     (if ae_HitRate left \<noteq> ae_HitRate right then ae_HitRate left > ae_HitRate right
      else ae_Policy left < ae_Policy right)"

text \<open>\<open>now\<close> is what \<^verbatim>\<open>cfg.Now()\<close> returns, \<open>error_text\<close> the \<^verbatim>\<open>Error\<close> method of the store's errors.\<close>

definition Snapshot ::
  "('e \<Rightarrow> string) \<Rightarrow> int \<Rightarrow> policy_type list \<Rightarrow> ('r, 'e) distributed \<Rightarrow> snapshot option" where
  "Snapshot error_text now order d = do {
     let mode = (if cfg_Mode (d_cfg d) = ModeSharedPosterior then ''shared-posterior'' else ''leader'');
     selection \<leftarrow> policy_string (PolicyType (d_selection d));
     regime \<leftarrow> (case d_shape d of None \<Rightarrow> Some '''' | Some shape \<Rightarrow> regime_string shape);
     fleet \<leftarrow> those (map (collect_evidence (st_fleet (d_state d))) order);
     Some \<lparr>sn_Selection = selection, sn_Mode = mode, sn_NodeID = cfg_NodeID (d_cfg d), sn_Namespace = d_namespace d,
       sn_Regime = regime, sn_Fallback = st_fallback (d_state d),
       sn_LastSyncAge = (case st_lastSync (d_state d) of None \<Rightarrow> 0 | Some t \<Rightarrow> now - t),
       sn_LastError = (case st_lastErr (d_state d) of None \<Rightarrow> '''' | Some err \<Rightarrow> error_text err),
       sn_LastBucket = st_lastBucket (d_state d), sn_Syncs = st_syncs (d_state d),
       sn_SyncFailures = st_syncFailures (d_state d), sn_Leaderships = st_leaderships (d_state d),
       sn_Decisions = st_decisions (d_state d), sn_Rejected = st_rejected (d_state d),
       sn_Fleet = stable_sort evidence_less fleet\<rparr>
   }"

text \<open>
  \<^verbatim>\<open>Duration.Round(time.Millisecond)\<close>, half away from zero, and \<^verbatim>\<open>Duration.String\<close> of a whole number of
  milliseconds: hours, minutes and seconds without trailing zeros, or plain milliseconds below a second.
\<close>

definition round_to_ms :: "int \<Rightarrow> int" where
  "round_to_ms ns = (if ns < 0 then - ((- ns + 500000) div 1000000) else (ns + 500000) div 1000000)"

definition drop_zeros :: "string \<Rightarrow> string" where
  "drop_zeros s = rev (dropWhile (\<lambda>c. c = CHR ''0'') (rev s))"

definition format_ms :: "int \<Rightarrow> string" where
  "format_ms ms =
     (let sign = (if ms < 0 then ''-'' else ''''); m = nat \<bar>ms\<bar>;
          frac = drop_zeros (pad_left 3 (digits 10 (m mod 1000)));
          secs = (if frac = '''' then '''' else ''.'' @ frac) @ ''s'';
          s = m div 1000
      in if m = 0 then ''0s''
         else if m < 1000 then sign @ digits 10 m @ ''ms''
         else if s < 60 then sign @ digits 10 s @ secs
         else if s < 3600 then sign @ digits 10 (s div 60) @ ''m'' @ digits 10 (s mod 60) @ secs
         else sign @ digits 10 (s div 3600) @ ''h'' @ digits 10 (s div 60 mod 60) @ ''m'' @ digits 10 (s mod 60) @ secs)"

text \<open>\<^verbatim>\<open>%.0f\<close>\<close>

definition format_whole :: "float64 \<Rightarrow> string" where
  "format_whole x = (if x < 0 then [minus_sign] else []) @ digits 10 (nat \<bar>round_even x\<bar>)"

definition fleet_line :: "arm_evidence \<Rightarrow> string" where
  "fleet_line arm =
     left_in 10 (ae_Policy arm) @ '' '' @ right_in 8 (format_fixed 2 (f64_mul (ae_HitRate arm) 100)) @ ''% '' @
     right_in 14 (format_whole (ae_Hits arm)) @ '' '' @ right_in 14 (format_whole (ae_Misses arm)) @ new_line"

definition snapshot_string :: "snapshot \<Rightarrow> string" where
  "snapshot_string s =
     (let b = sn_NodeID s @ '' running '' @ sn_Selection s @ '', '' @ sn_Mode s @ '' mode'';
          b = (if sn_Fallback s
               then b @ '' (FALLBACK: store unreachable for '' @ format_ms (round_to_ms (sn_LastSyncAge s)) @ '')'' else b);
          b = b @ new_line;
          b = b @ ''namespace '' @ sn_Namespace s @ '' ['' @ sn_Regime s @ '']'' @ new_line;
          b = b @ format_int (sn_Syncs s) @ '' syncs, '' @ format_int (sn_SyncFailures s) @ '' failures, '' @
            format_int (sn_Leaderships s) @ '' led, '' @ format_int (sn_Decisions s) @ '' decisions applied, '' @
            format_int (sn_Rejected s) @ '' rejected'' @ new_line
      in if length (sn_Fleet s) = 0 then b
         else b @ new_line @ left_in 10 ''policy'' @ '' '' @ right_in 9 ''hit rate'' @ '' '' @ right_in 14 ''hits'' @ '' '' @
           right_in 14 ''misses'' @ new_line @ concat (map fleet_line (sn_Fleet s)))"

subsection \<open>The cache's snapshot\<close>

record policy_snapshot =
  ps_Policy :: string
  ps_Hits :: int
  ps_Misses :: int
  ps_HitRate :: float64
  ps_Active :: bool

record metrics =
  mt_ActivePolicy :: string
  mt_Epochs :: int
  mt_Entries :: int
  mt_Hits :: int
  mt_Misses :: int
  mt_HitRate :: float64
  mt_BestPolicy :: string
  mt_Improvement :: float64
  mt_Sampled :: bool
  mt_SampleRate :: float64
  mt_Policies :: "policy_snapshot list"

text \<open>The \<^verbatim>\<open>Advisor\<close>: the four readings \<^verbatim>\<open>Take\<close> makes of a cache.\<close>

record advisor =
  ad_Advice :: advice
  ad_Stats :: policy_stats
  ad_ActivePolicy :: policy_type
  ad_Len :: int

definition policy_snapshot_of :: "policy_report \<Rightarrow> policy_snapshot option" where
  "policy_snapshot_of report = do {
     name \<leftarrow> policy_string (pr_Policy report);
     Some \<lparr>ps_Policy = name, ps_Hits = pr_Hits report, ps_Misses = pr_Misses report,
       ps_HitRate = report_hit_rate report, ps_Active = pr_Active report\<rparr>
   }"

definition Take :: "advisor \<Rightarrow> metrics option" where
  "Take cache = do {
     let advice = ad_Advice cache;
     let stats = ad_Stats cache;
     active \<leftarrow> policy_string (av_Active advice);
     best \<leftarrow> policy_string (av_Best advice);
     let total = Hits stats + Misses stats;
     let rate = (if total > 0 then f64_div (f64_of_int (Hits stats)) (f64_of_int total) else 0);
     policies \<leftarrow> those (map policy_snapshot_of (av_Reports advice));
     Some \<lparr>mt_ActivePolicy = active, mt_Epochs = av_Epochs advice, mt_Entries = ad_Len cache, mt_Hits = Hits stats,
       mt_Misses = Misses stats, mt_HitRate = rate, mt_BestPolicy = best, mt_Improvement = av_Improvement advice,
       mt_Sampled = av_Sampled advice, mt_SampleRate = av_SampleRate advice,
       mt_Policies = stable_sort (\<lambda>a b. ps_HitRate a > ps_HitRate b) policies\<rparr>
   }"

text \<open>
  \<^verbatim>\<open>Publish\<close>: the names \<^verbatim>\<open>expvar\<close> knows are a set. Whatever other code publishes between the check and
  the registration is \<open>others\<close>; registering a known name panics, which the deferred function turns into
  an error.
\<close>

datatype publish_error = AlreadyPublished string | PublishPanicked string

definition expvar_publish :: "string \<Rightarrow> string set \<Rightarrow> string set option" where
  "expvar_publish name vars = (if name \<in> vars then None else Some (insert name vars))"

definition Publish :: "(string set \<Rightarrow> string set) \<Rightarrow> string \<Rightarrow> string set \<Rightarrow> string set \<times> publish_error option" where
  "Publish others name vars =
     (if name \<in> vars then (vars, Some (AlreadyPublished name))
      else let vars = others vars
           in case expvar_publish name vars of
                None \<Rightarrow> (vars, Some (PublishPanicked name))
              | Some vars \<Rightarrow> (vars, None))"

subsection \<open>Order\<close>

lemma evidence_less_order: "transp evidence_less" "irreflp evidence_less"
  by (rule transpI, auto simp: evidence_less_def split: if_splits) (auto intro!: irreflpI simp: evidence_less_def)

lemma evidence_less_total: "ae_Policy a \<noteq> ae_Policy b \<Longrightarrow> evidence_less a b \<or> evidence_less b a"
  by (auto simp: evidence_less_def)

lemma collect_evidence_name: "collect_evidence fleet p = Some e \<Longrightarrow> policy_string p = Some (ae_Policy e)"
  by (auto simp: collect_evidence_def split: Option.bind_splits)

lemma those_map: "those (map f xs) = (if \<forall>x \<in> set xs. f x \<noteq> None then Some (map (\<lambda>x. the (f x)) xs) else None)"
  by (induction xs) (auto split: option.splits)

text \<open>Arms of different names are never tied, so the sorted evidence depends on the arms alone.\<close>

lemma evidence_sorted:
  assumes "distinct xs" and some: "\<forall>p \<in> set xs. collect_evidence fleet p \<noteq> None"
  shows "sorted_wrt evidence_less (stable_sort evidence_less (map (\<lambda>p. the (collect_evidence fleet p)) xs))"
proof (rule stable_sort_sorted [OF evidence_less_order(1)])
  let ?f = "\<lambda>p. the (collect_evidence fleet p)"
  have apart: "ae_Policy (?f p) \<noteq> ae_Policy (?f q)" if pq: "p \<in> set xs" "q \<in> set xs" "p \<noteq> q" for p q
  proof -
    from some pq obtain a b where "collect_evidence fleet p = Some a" "collect_evidence fleet q = Some b" by blast
    with collect_evidence_name [of fleet p a] collect_evidence_name [of fleet q b] policy_string_inject [of p _ q] pq(3)
    show ?thesis by fastforce
  qed
  then show "distinct (map ?f xs)" using assms(1) by (auto simp: distinct_map inj_on_def) metis
  show "evidence_less x y \<or> evidence_less y x" if "x \<in> set (map ?f xs)" "y \<in> set (map ?f xs)" "x \<noteq> y" for x y
    using that apart evidence_less_total by (auto simp del: option.sel)
qed

lemma fleet_any_order:
  assumes "distinct xs" "distinct ys" "set xs = set ys"
  shows "map_option (stable_sort evidence_less) (those (map (collect_evidence fleet) xs)) =
    map_option (stable_sort evidence_less) (those (map (collect_evidence fleet) ys))"
proof (cases "\<forall>p \<in> set xs. collect_evidence fleet p \<noteq> None")
  case True
  have "stable_sort evidence_less (map (\<lambda>p. the (collect_evidence fleet p)) xs) =
      stable_sort evidence_less (map (\<lambda>p. the (collect_evidence fleet p)) ys)"
    by (rule sorted_wrt_unique [OF evidence_less_order evidence_sorted [OF assms(1)] evidence_sorted [OF assms(2)]])
      (use True assms(3) in auto)
  with True assms(3) show ?thesis by (simp add: those_map)
next
  case False
  then have "those (map (collect_evidence fleet) xs) = None" "those (map (collect_evidence fleet) ys) = None"
    using assms(3) by (auto simp: those_map)
  then show ?thesis by simp
qed

lemma snapshot_any_order_eq:
  assumes "distinct xs" "distinct ys" "set xs = set ys"
  shows "Snapshot error_text now xs d = Snapshot error_text now ys d"
proof -
  let ?f = "\<lambda>order. those (map (collect_evidence (st_fleet (d_state d))) order)"
  have "map_option (stable_sort evidence_less) (?f xs) = map_option (stable_sort evidence_less) (?f ys)"
    by (rule fleet_any_order [OF assms])
  then show ?thesis by (cases "?f xs"; cases "?f ys") (simp_all add: Snapshot_def Let_def)
qed

text \<open>Reports sorted by rate and number are already sorted by rate: the stable sort of \<^verbatim>\<open>Take\<close> keeps them.\<close>

lemma stable_sort_sorted_id:
  "sorted_wrt (\<lambda>x y. \<not> before y x) xs \<Longrightarrow> stable_sort before xs = xs"
proof (induction xs)
  case (Cons x xs)
  then have "stable_sort before (x # xs) = stable_insert before x xs" by (simp add: stable_sort_def)
  also have "\<dots> = x # xs" using Cons.prems by (cases xs) simp_all
  finally show ?case .
qed (simp add: stable_sort_def)

lemma Take_keeps_order:
  assumes "sorted_wrt report_less (av_Reports (ad_Advice cache))" and "Take cache = Some m"
  shows "map ps_Policy (mt_Policies m) = map (\<lambda>r. the (policy_string (pr_Policy r))) (av_Reports (ad_Advice cache)) \<and>
    map ps_HitRate (mt_Policies m) = map report_hit_rate (av_Reports (ad_Advice cache)) \<and>
    map ps_Active (mt_Policies m) = map pr_Active (av_Reports (ad_Advice cache))"
proof -
  let ?rs = "av_Reports (ad_Advice cache)"
  obtain ps where ps: "those (map policy_snapshot_of ?rs) = Some ps" "mt_Policies m = stable_sort (\<lambda>a b. ps_HitRate a > ps_HitRate b) ps"
    using assms(2) by (auto simp: Take_def Let_def split: Option.bind_splits)
  then have ps': "ps = map (\<lambda>r. the (policy_snapshot_of r)) ?rs" "\<forall>r \<in> set ?rs. policy_snapshot_of r \<noteq> None"
    by (auto simp: those_map split: if_splits)
  have sel: "policy_string (pr_Policy r) = Some (ps_Policy (the (policy_snapshot_of r))) \<and>
      ps_HitRate (the (policy_snapshot_of r)) = report_hit_rate r \<and> ps_Active (the (policy_snapshot_of r)) = pr_Active r"
    if "r \<in> set ?rs" for r
    using ps'(2) that by (auto simp: policy_snapshot_of_def split: Option.bind_splits)
  have "sorted_wrt (\<lambda>x y. report_hit_rate y \<le> report_hit_rate x) ?rs"
    by (rule sorted_wrt_mono_rel [OF _ assms(1)]) (rule report_less_rate)
  then have "sorted_wrt (\<lambda>a b. \<not> ps_HitRate b > ps_HitRate a) ps"
    unfolding ps'(1) sorted_wrt_map by (rule sorted_wrt_mono_rel [rotated]) (simp add: sel not_less)
  from stable_sort_sorted_id [OF this] ps(2) show ?thesis
    by (simp add: ps'(1) sel comp_def)
qed

lemma Publish_safe:
  "snd (Publish others name vars) = None \<longleftrightarrow> name \<notin> vars \<and> name \<notin> others vars"
  "snd (Publish others name vars) = None \<Longrightarrow> fst (Publish others name vars) = insert name (others vars)"
  by (auto simp: Publish_def expvar_publish_def Let_def)

end
