(* ===== verification/Bench.thy ===== *)
theory Bench
  imports AdviceReports Fingerprint Adapters
begin

text \<open>
  The benchmark harness: generated workloads (\<^verbatim>\<open>src/bench/workload.go\<close>), the replay of a workload against a
  cache (\<^verbatim>\<open>src/bench/harness.go\<close>), and fleets of replicas (\<^verbatim>\<open>src/bench/fleet.go\<close>). The random sources
  are functions from the number of the draw; the clock readings of a replay are its duration. A size so
  large that a slice of it would overflow an \<^verbatim>\<open>int\<close> is not modelled; a negative one panics, \<^term>\<open>None\<close>.
\<close>

subsection \<open>Workloads\<close>

record workload =
  wl_Name :: string
  wl_Keys :: "string list"
  wl_Description :: string

definition workload_len :: "workload \<Rightarrow> int" where
  "workload_len w = int (length (wl_Keys w))"

definition bench_key :: "int \<Rightarrow> string" where
  "bench_key i = ''k'' @ format_int i"

lemma bench_key_inject [simp]: "bench_key i = bench_key j \<longleftrightarrow> i = j"
  by (simp add: bench_key_def)

text \<open>\<^verbatim>\<open>a % b\<close> of integers truncates towards zero and panics for \<open>b = 0\<close>.\<close>

definition go_rem :: "int \<Rightarrow> int \<Rightarrow> int option" where
  "go_rem a b = (if b = 0 then None else Some (sgn a * (\<bar>a\<bar> mod \<bar>b\<bar>)))"

text \<open>The ids \<^verbatim>\<open>newZipf\<close> draws: \<open>draw n\<close> is the \<open>n\<close>-th value of \<^verbatim>\<open>zipf.Uint64\<close> for the parameters given.\<close>

definition newZipf :: "(nat \<Rightarrow> nat) \<Rightarrow> int \<Rightarrow> nat \<Rightarrow> int" where
  "newZipf draw keyspace n =
     (if keyspace < 2 then 0
      else let maxID = nat (keyspace - 1) in int (min (draw n) maxID))"

definition Zipf :: "(nat \<Rightarrow> nat) \<Rightarrow> int \<Rightarrow> int \<Rightarrow> workload option" where
  "Zipf draw requests keyspace =
     (if requests < 0 then None
      else Some \<lparr>wl_Name = ''zipf'', wl_Keys = map (\<lambda>i. bench_key (newZipf draw keyspace i)) [0 ..< nat requests],
        wl_Description = ''skewed popularity; favours frequency-aware policies (LFU, W-TinyLFU)''\<rparr>)"

text \<open>\<^verbatim>\<open>rng.IntN\<close> panics unless its bound is positive.\<close>

definition Uniform :: "(nat \<Rightarrow> nat) \<Rightarrow> int \<Rightarrow> int \<Rightarrow> workload option" where
  "Uniform draw requests keyspace =
     (if requests < 0 \<or> (0 < requests \<and> keyspace \<le> 0) then None
      else Some \<lparr>wl_Name = ''uniform'', wl_Keys = map (\<lambda>i. bench_key (int (draw i) mod keyspace)) [0 ..< nat requests],
        wl_Description = ''no reuse structure; random eviction is competitive''\<rparr>)"

definition Loop :: "int \<Rightarrow> int \<Rightarrow> workload option" where
  "Loop requests workingSet =
     (if requests < 0 then None
      else do {
        ids \<leftarrow> those (map (\<lambda>i. go_rem i workingSet) [0 .. requests - 1]);
        Some \<lparr>wl_Name = ''loop'', wl_Keys = map bench_key ids,
          wl_Description = ''cyclic scan just over capacity; pathological for LRU, fine for random''\<rparr>
      })"

text \<open>One round of \<^verbatim>\<open>Scan\<close>: the reads of the hot set, then ids nobody asks for again.\<close>

definition scan_round :: "int \<Rightarrow> int \<Rightarrow> int \<Rightarrow> int list \<times> int \<Rightarrow> (int list \<times> int) option" where
  "scan_round hotSet hotReads scanLen s =
     (let (keys, scanID) = s in do {
        hot \<leftarrow> those (map (\<lambda>i. go_rem i hotSet) [0 .. hotReads - 1]);
        Some (keys @ hot @ map (\<lambda>i. scanID + i) [0 .. scanLen - 1], scanID + max 0 scanLen)
      })"

fun scan_rounds :: "nat \<Rightarrow> int \<Rightarrow> int \<Rightarrow> int \<Rightarrow> int list \<times> int \<Rightarrow> (int list \<times> int) option" where
  "scan_rounds 0 hotSet hotReads scanLen s = Some s"
| "scan_rounds (Suc n) hotSet hotReads scanLen s =
     Option.bind (scan_round hotSet hotReads scanLen s) (scan_rounds n hotSet hotReads scanLen)"

definition Scan :: "int \<Rightarrow> int \<Rightarrow> int \<Rightarrow> int \<Rightarrow> workload option" where
  "Scan rounds hotSet hotReads scanLen =
     (if rounds * (hotReads + scanLen) < 0 then None
      else do {
        (ids, _) \<leftarrow> scan_rounds (nat rounds) hotSet hotReads scanLen ([], 1000000);
        Some \<lparr>wl_Name = ''scan'', wl_Keys = map bench_key ids, wl_Description =
          ''hot set plus repeated one-off sweeps; favours scan-resistant policies (2Q, ARC, W-TinyLFU)''\<rparr>
      })"

text \<open>The ids of phase \<open>p\<close>; the even phases draw on from where the last one stopped.\<close>

definition phase_ids :: "(nat \<Rightarrow> nat) \<Rightarrow> int \<Rightarrow> int \<Rightarrow> int \<Rightarrow> int \<Rightarrow> int list option" where
  "phase_ids draw perPhase keyspace workingSet p =
     (if p mod 2 = 0
      then Some (map (\<lambda>i. newZipf draw keyspace (nat (p div 2 * perPhase + i))) [0 .. perPhase - 1])
      else those (map (\<lambda>i. go_rem i workingSet) [0 .. perPhase - 1]))"

definition PhaseShift :: "(nat \<Rightarrow> nat) \<Rightarrow> int \<Rightarrow> int \<Rightarrow> int \<Rightarrow> int \<Rightarrow> workload option" where
  "PhaseShift draw phases perPhase keyspace workingSet =
     (if phases * perPhase < 0 then None
      else do {
        ids \<leftarrow> those (map (phase_ids draw perPhase keyspace workingSet) [0 .. phases - 1]);
        Some \<lparr>wl_Name = ''phase-shift'', wl_Keys = map bench_key (concat ids),
          wl_Description = ''alternating zipf and loop phases; no fixed policy is good in both''\<rparr>
      })"

definition PhaseBoundaries :: "int \<Rightarrow> int \<Rightarrow> int list option" where
  "PhaseBoundaries phases perPhase = (if phases < 0 then None else Some (map (\<lambda>p. p * perPhase) [1 .. phases - 1]))"

subsection \<open>Replay\<close>

record bench_result =
  rs_Policy :: string
  rs_Hits :: int
  rs_Misses :: int
  rs_Duration :: int

definition result_hit_rate :: "bench_result \<Rightarrow> float64" where
  "result_hit_rate r =
     (let total = rs_Hits r + rs_Misses r in
      if total = 0 then 0 else f64_div (f64_of_int (rs_Hits r)) (f64_of_int total))"

definition NsPerOp :: "bench_result \<Rightarrow> float64" where
  "NsPerOp r =
     (let total = rs_Hits r + rs_Misses r in
      if total = 0 then 0 else f64_div (f64_of_int (rs_Duration r)) (f64_of_int total))"

text \<open>The interface \<^verbatim>\<open>Cache\<close> the harness drives, and \<^verbatim>\<open>policyCache\<close>, a policy seen through it.\<close>

record ('c, 'k, 'v) bench_cache =
  bc_get :: "'c \<Rightarrow> 'k \<Rightarrow> 'c \<times> 'v option"
  bc_add :: "'c \<Rightarrow> 'k \<Rightarrow> 'v \<Rightarrow> 'c \<times> bool"

definition policyCache :: "('c, 'k, 'v, 'z) cacher_ops_scheme \<Rightarrow> ('c, 'k, 'v) bench_cache" where
  "policyCache ops = \<lparr>bc_get = op_get ops, bc_add = op_add ops\<rparr>"

definition replay_request ::
  "('c, 'k, int) bench_cache \<Rightarrow> int \<times> 'k \<Rightarrow> 'c \<times> bench_result \<Rightarrow> 'c \<times> bench_result" where
  "replay_request ops x s =
     (let (i, key) = x; (c, result) = s; (c, r) = bc_get ops c key
      in if r \<noteq> None then (c, result\<lparr>rs_Hits := rs_Hits result + 1\<rparr>)
         else (fst (bc_add ops c key i), result\<lparr>rs_Misses := rs_Misses result + 1\<rparr>))"

definition Replay :: "string \<Rightarrow> ('c, 'k, int) bench_cache \<Rightarrow> int \<Rightarrow> 'c \<Rightarrow> 'k list \<Rightarrow> 'c \<times> bench_result" where
  "Replay name ops elapsed c keys =
     (let result = \<lparr>rs_Policy = name, rs_Hits = 0, rs_Misses = 0, rs_Duration = 0\<rparr>;
          (c, result) = fold (replay_request ops) (zip [0 .. int (length keys) - 1] keys) (c, result)
      in (c, result\<lparr>rs_Duration := elapsed\<rparr>))"

definition result_better :: "bench_result \<Rightarrow> bench_result \<Rightarrow> bool" where
  "result_better a b \<longleftrightarrow> result_hit_rate a > result_hit_rate b"

definition table_line :: "bench_result \<Rightarrow> string" where
  "table_line r = ''| '' @ rs_Policy r @ '' | '' @ format_fixed 2 (f64_mul (result_hit_rate r) 100) @ ''% | '' @
     ((if NsPerOp r < 0 then [minus_sign] else []) @ digits 10 (nat \<bar>round_even (NsPerOp r)\<bar>)) @ '' |'' @ new_line"

definition Table :: "bench_result list \<Rightarrow> string" where
  "Table results =
     ''| Policy | Hit rate | ns/op |'' @ new_line @ ''| --- | --- | --- |'' @ new_line @
     concat (map table_line (stable_sort result_better results))"

definition Ranking :: "bench_result list \<Rightarrow> string list" where
  "Ranking results = map rs_Policy (stable_sort result_better results)"

subsection \<open>Fleets\<close>

definition append_key :: "nat \<Rightarrow> string \<Rightarrow> workload list \<Rightarrow> workload list" where
  "append_key i k shards = shards[i := (shards ! i)\<lparr>wl_Keys := wl_Keys (shards ! i) @ [k]\<rparr>]"

definition empty_shards :: "string \<Rightarrow> workload \<Rightarrow> int \<Rightarrow> workload list" where
  "empty_shards label w n =
     map (\<lambda>i. \<lparr>wl_Name = wl_Name w @ label @ format_int i, wl_Keys = [], wl_Description = wl_Description w\<rparr>) [0 .. n - 1]"

text \<open>\<^verbatim>\<open>fnv\<close> is the 64-bit FNV-1a hash of theory \<open>Fingerprint\<close>, written out again.\<close>

definition bench_fnv :: "string \<Rightarrow> 64 word" where
  "bench_fnv s = fold (\<lambda>c h. (xor h (of_char c)) * 1099511628211) s 14695981039346656037"

definition Shard :: "workload \<Rightarrow> int \<Rightarrow> workload list" where
  "Shard w n =
     (if n \<le> 1 then [w]
      else fold (\<lambda>k shards. append_key (unat (bench_fnv k mod word_of_int n)) k shards) (wl_Keys w) (empty_shards ''/shard-'' w n))"

definition Split :: "workload \<Rightarrow> int \<Rightarrow> workload list" where
  "Split w n =
     (if n \<le> 1 then [w]
      else fold (\<lambda>(i, k) shards. append_key (nat (i mod n)) k shards)
             (zip [0 .. int (length (wl_Keys w)) - 1] (wl_Keys w)) (empty_shards ''/slice-'' w n))"

record fleet_result = bench_result +
  fr_Replicas :: int
  fr_Policies :: int
  fr_Ending :: "string list"

text \<open>What \<^verbatim>\<open>replayFleet\<close> makes of the outcomes of its replicas, which ran concurrently.\<close>

definition add_outcome :: "bench_result \<times> string \<Rightarrow> fleet_result \<times> string set \<Rightarrow> fleet_result \<times> string set" where
  "add_outcome o1 s =
     (let (result, ending) = o1; (fleet, distinct) = s;
          fleet = fleet\<lparr>rs_Hits := rs_Hits fleet + rs_Hits result\<rparr>;
          fleet = fleet\<lparr>rs_Misses := rs_Misses fleet + rs_Misses result\<rparr>;
          fleet = fleet\<lparr>fr_Ending := fr_Ending fleet @ [ending]\<rparr>
      in (fleet, insert ending distinct))"

definition fleet_outcome :: "string \<Rightarrow> int \<Rightarrow> (bench_result \<times> string) list \<Rightarrow> fleet_result" where
  "fleet_outcome name elapsed outcomes =
     (let fleet = \<lparr>rs_Policy = name, rs_Hits = 0, rs_Misses = 0, rs_Duration = elapsed,
            fr_Replicas = int (length outcomes), fr_Policies = 0, fr_Ending = []\<rparr>;
          (fleet, distinct) = fold add_outcome outcomes (fleet, {})
      in fleet\<lparr>fr_Policies := int (card distinct)\<rparr>)"

text \<open>The insertion sort of \<^verbatim>\<open>FleetTable\<close>, swap by swap.\<close>

fun sink :: "('a \<Rightarrow> 'a \<Rightarrow> bool) \<Rightarrow> nat \<Rightarrow> 'a list \<Rightarrow> 'a list" where
  "sink before 0 xs = xs"
| "sink before (Suc j) xs =
     (if before (xs ! Suc j) (xs ! j) then sink before j (xs[Suc j := xs ! j, j := xs ! Suc j]) else xs)"

definition insertion_sort :: "('a \<Rightarrow> 'a \<Rightarrow> bool) \<Rightarrow> 'a list \<Rightarrow> 'a list" where
  "insertion_sort before xs = fold (sink before) [1 ..< length xs] xs"

definition fleet_better :: "fleet_result \<Rightarrow> fleet_result \<Rightarrow> bool" where
  "fleet_better a b \<longleftrightarrow> result_hit_rate (bench_result.truncate a) > result_hit_rate (bench_result.truncate b)"

definition fleet_table_line :: "fleet_result \<Rightarrow> string" where
  "fleet_table_line r = ''| '' @ rs_Policy r @ '' | '' @
     format_fixed 2 (f64_mul (result_hit_rate (bench_result.truncate r)) 100) @ ''% | '' @ format_int (fr_Policies r) @ '' |'' @ new_line"

definition FleetTable :: "fleet_result list \<Rightarrow> string" where
  "FleetTable results =
     ''| Setup | Hit rate | Policies in use at the end |'' @ new_line @ ''| --- | --- | --- |'' @ new_line @
     concat (map fleet_table_line (insertion_sort fleet_better results))"

definition DistinctKeys :: "workload \<Rightarrow> int" where
  "DistinctKeys w = int (card (set (wl_Keys w)))"

end
