(* ===== verification/BenchFacts.thy ===== *)
theory BenchFacts
  imports Bench
begin

text \<open>
  What the harness does to a workload: sharding and slicing lose and reorder nothing, the tables are
  stable sorts, and a cyclic scan over more keys than an LRU cache holds never hits.
\<close>

subsection \<open>Sorting\<close>

text \<open>Sorting by a smaller key, both ways round.\<close>

lemma stable_insert_insort: "stable_insert (\<lambda>a b. g a < g b) x ys = insort_key g x ys" for g :: "'a \<Rightarrow> 'b :: linorder"
  by (induction ys) auto

lemma stable_sort_key: "stable_sort (\<lambda>a b. g a < g b) xs = sort_key g xs" for g :: "'a \<Rightarrow> 'b :: linorder"
  by (induction xs) (simp_all add: stable_sort_def stable_insert_insort)

text \<open>One element sinks into the sorted prefix before it, past everything it goes before.\<close>

definition insert_right :: "('a \<Rightarrow> 'a \<Rightarrow> bool) \<Rightarrow> 'a list \<Rightarrow> 'a \<Rightarrow> 'a list" where
  "insert_right before ys x = rev (dropWhile (before x) (rev ys)) @ x # rev (takeWhile (before x) (rev ys))"

lemma sink_inserts: "sink before (length ys) (ys @ x # zs) = insert_right before ys x @ zs"
proof (induction ys arbitrary: zs rule: rev_induct)
  case (snoc y ys)
  then show ?case by (simp add: insert_right_def nth_append list_update_append)
qed (simp add: insert_right_def)

lemma insert_right_sorts:
  fixes g :: "'a \<Rightarrow> 'b :: linorder"
  assumes "sorted (map g ys)"
  shows "sort_key g (ys @ [x]) = insert_right (\<lambda>a b. g a < g b) ys x"
proof (rule properties_for_sort_key)
  let ?p = "\<lambda>b. g x < g b"
  let ?as = "rev (dropWhile ?p (rev ys))" and ?bs = "rev (takeWhile ?p (rev ys))"
  have ys: "?as @ ?bs = ys" by (metis rev_append rev_rev_ident takeWhile_dropWhile_id)
  have bs: "\<forall>b \<in> set ?bs. g x < g b" using set_takeWhileD by fastforce
  have as: "\<forall>a \<in> set ?as. g a \<le> g x"
  proof (cases "dropWhile ?p (rev ys)")
    case (Cons z zs)
    then have "\<not> ?p z" using hd_dropWhile [of ?p "rev ys"] by simp
    moreover have "sorted (map g (rev zs @ [z]))"
      using assms ys Cons by (metis map_append rev.simps(2) sorted_append)
    ultimately show ?thesis using Cons by (auto simp: sorted_append)
  next
    case Nil
    show ?thesis unfolding Nil by simp
  qed
  show "mset (insert_right (\<lambda>a b. g a < g b) ys x) = mset (ys @ [x])"
    unfolding insert_right_def by (subst (3) ys [symmetric]) simp
  show "sorted (map g (insert_right (\<lambda>a b. g a < g b) ys x))"
    using assms as bs unfolding insert_right_def by (subst (asm) ys [symmetric]) (auto simp: sorted_append less_imp_le)
  show "filter (\<lambda>y. g k = g y) (insert_right (\<lambda>a b. g a < g b) ys x) = filter (\<lambda>y. g k = g y) (ys @ [x])" for k
  proof -
    have "filter (\<lambda>y. g k = g y) ?bs = []" if "g k = g x" using bs that by (auto simp: filter_empty_conv)
    then show ?thesis unfolding insert_right_def by (subst (3) ys [symmetric]) auto
  qed
qed

lemma sort_key_keeps: "filter (\<lambda>y. g k = g y) (sort_key g zs) = filter (\<lambda>y. g k = g y) zs"
  using sort_key_stable [where f = g and k = "g k" and xs = zs] by (simp add: eq_commute)

lemma insertion_sort_key: "insertion_sort (\<lambda>a b. g a < g b) xs = sort_key g xs" for g :: "'a \<Rightarrow> 'b :: linorder"
proof -
  let ?b = "\<lambda>a b. g a < g b"
  have "fold (sink ?b) [1 ..< m] xs = sort_key g (take m xs) @ drop m xs" if "1 \<le> m" "m \<le> length xs" for m
    using that
  proof (induction m rule: dec_induct)
    case base
    then show ?case by (cases xs) auto
  next
    case (step m)
    let ?ys = "sort_key g (take m xs)"
    have len: "length ?ys = m" and drop: "drop m xs = xs ! m # drop (Suc m) xs"
      using step.prems by (simp_all add: Cons_nth_drop_Suc)
    have "fold (sink ?b) [1 ..< Suc m] xs = sink ?b (length ?ys) (?ys @ xs ! m # drop (Suc m) xs)"
      using step by (simp add: drop len)
    also have "\<dots> = insert_right ?b ?ys (xs ! m) @ drop (Suc m) xs" by (rule sink_inserts)
    also have "insert_right ?b ?ys (xs ! m) = sort_key g (?ys @ [xs ! m])" by (rule insert_right_sorts [symmetric]) simp
    also have "\<dots> = sort_key g (take (Suc m) xs)"
      by (rule properties_for_sort_key)
        (use step.prems in \<open>simp_all add: take_Suc_conv_app_nth sort_key_keeps del: filter.simps filter_append\<close>, simp add: sort_key_keeps)
    finally show ?case .
  qed
  from this [of "length xs"] show ?thesis by (cases xs) (simp_all add: insertion_sort_def)
qed

subsection \<open>Shards\<close>

lemma append_key_simps [simp]:
  "length (append_key i k shards) = length shards"
  "j < length shards \<Longrightarrow> wl_Keys (append_key i k shards ! j) = wl_Keys (shards ! j) @ (if i = j then [k] else [])"
  by (auto simp: append_key_def nth_list_update)

lemma empty_shards_simps [simp]:
  "length (empty_shards label w n) = nat n" "i < nat n \<Longrightarrow> wl_Keys (empty_shards label w n ! i) = []"
  by (simp_all add: empty_shards_def)

lemma fold_shard:
  "length (fold (\<lambda>k shards. append_key (f k) k shards) ks shards) = length shards \<and>
    (i < length shards \<longrightarrow> wl_Keys (fold (\<lambda>k shards. append_key (f k) k shards) ks shards ! i) =
      wl_Keys (shards ! i) @ filter (\<lambda>k. f k = i) ks)"
  by (induction ks arbitrary: shards) auto

definition shard_of :: "int \<Rightarrow> string \<Rightarrow> nat" where
  "shard_of n k = unat (bench_fnv k mod word_of_int n)"

lemma shard_of_less:
  assumes "1 < n" and "n < 2 ^ 63"
  shows "int (shard_of n k) < n"
proof -
  have u: "uint (word_of_int n :: 64 word) = n" using assms by (simp add: uint_word_of_int_eq take_bit_int_eq_self)
  have "int (shard_of n k) = uint (bench_fnv k) mod n" by (simp add: shard_of_def uint_mod_distrib u flip: uint_nat)
  then show ?thesis using assms(1) by simp
qed

lemma Shard_keys:
  assumes "1 < n"
  shows "length (Shard w n) = nat n"
    and "i < nat n \<Longrightarrow> wl_Keys (Shard w n ! i) = filter (\<lambda>k. shard_of n k = i) (wl_Keys w)"
  using assms fold_shard [of "shard_of n" "wl_Keys w" "empty_shards ''/shard-'' w n" i]
  by (simp_all add: Shard_def shard_of_def)

lemma fold_slice:
  "length (fold (\<lambda>(j, k) shards. append_key (nat (j mod n)) k shards) jks shards) = length shards \<and>
    (i < length shards \<longrightarrow> wl_Keys (fold (\<lambda>(j, k) shards. append_key (nat (j mod n)) k shards) jks shards ! i) =
      wl_Keys (shards ! i) @ map snd (filter (\<lambda>(j, k). nat (j mod n) = i) jks))"
  by (induction jks arbitrary: shards) auto

lemma Split_keys:
  assumes "1 < n"
  shows "length (Split w n) = nat n"
    and "i < nat n \<Longrightarrow> wl_Keys (Split w n ! i) =
      map snd (filter (\<lambda>(j, k). nat (j mod n) = i) (zip [0 .. int (length (wl_Keys w)) - 1] (wl_Keys w)))"
  using assms fold_slice [of n "zip [0 .. int (length (wl_Keys w)) - 1] (wl_Keys w)" "empty_shards ''/slice-'' w n" i]
  by (simp_all add: Split_def)

text \<open>Parts selected by a number below \<open>n\<close> add up to the whole.\<close>

lemma parts_mset:
  assumes "\<forall>x \<in> set xs. f x < (n :: nat)"
  shows "(\<Sum>i < n. mset (filter (\<lambda>x. f x = i) xs)) = mset xs"
  using assms
proof (induction xs)
  case (Cons x xs)
  have "(\<Sum>i < n. mset (filter (\<lambda>y. f y = i) (x # xs))) =
      (\<Sum>i < n. (if i = f x then {#x#} else {#}) + mset (filter (\<lambda>y. f y = i) xs))"
    by (rule sum.cong) auto
  also have "\<dots> = (\<Sum>i < n. if i = f x then {#x#} else {#}) + mset xs" using Cons by (simp add: sum.distrib)
  also have "(\<Sum>i < n. if i = f x then {#x#} else {#}) = {#x#}"
    using Cons.prems sum.delta [of "{..< n}" "f x" "\<lambda>_. {#x#}"] by simp
  finally show ?case by simp
qed simp

subsection \<open>Replay\<close>

lemma replay_counts:
  "rs_Hits (snd (fold (replay_request ops) xs (c, r))) + rs_Misses (snd (fold (replay_request ops) xs (c, r))) =
    rs_Hits r + rs_Misses r + int (length xs)"
  by (induction xs arbitrary: c r) (auto simp: replay_request_def split_beta Let_def)

text \<open>
  What is relied on of a least-recently-used cache: it holds its keys in the order of their last use,
  a hit moves a key to the front, and a new key pushes the last out when there are more than \<open>cap\<close>.
\<close>

definition recency_law :: "('c, 'k, int) bench_cache \<Rightarrow> ('c \<Rightarrow> 'k list) \<Rightarrow> nat \<Rightarrow> bool" where
  "recency_law ops recency cap \<longleftrightarrow>
     (\<forall>c k. (snd (bc_get ops c k) \<noteq> None \<longleftrightarrow> k \<in> set (recency c)) \<and>
       recency (fst (bc_get ops c k)) = (if k \<in> set (recency c) then k # remove1 k (recency c) else recency c) \<and>
       (k \<notin> set (recency c) \<longrightarrow> (\<forall>v. recency (fst (bc_add ops c k v)) = take cap (k # recency c))))"

definition loop_recency :: "int \<Rightarrow> nat \<Rightarrow> nat \<Rightarrow> string list" where
  "loop_recency ws cap m = take cap (map (\<lambda>j. bench_key (int j mod ws)) (rev [0 ..< m]))"

lemma loop_never_resident:
  assumes "int cap < ws"
  shows "bench_key (int m mod ws) \<notin> set (loop_recency ws cap m)"
proof
  assume "bench_key (int m mod ws) \<in> set (loop_recency ws cap m)"
  then obtain i where i: "i < cap" "i < m" "bench_key (int m mod ws) = bench_key (int (m - 1 - i) mod ws)"
    by (auto simp: loop_recency_def in_set_conv_nth rev_nth)
  then have "ws dvd int m - int (m - 1 - i)" by (simp add: mod_eq_dvd_iff)
  moreover have "int m - int (m - 1 - i) = int i + 1" using i(2) by simp
  ultimately have "ws \<le> int i + 1" using zdvd_imp_le by fastforce
  with i(1) assms show False by linarith
qed

lemma loop_recency_next: "take cap (bench_key (int m mod ws) # loop_recency ws cap m) = loop_recency ws cap (Suc m)"
  by (cases cap) (simp_all add: loop_recency_def take_map)

lemma loop_misses:
  assumes law: "recency_law ops recency cap" and ws: "int cap < ws"
  shows "recency c = loop_recency ws cap m \<Longrightarrow> length is = n \<Longrightarrow>
    snd (fold (replay_request ops) (zip is (map (\<lambda>j. bench_key (int j mod ws)) [m ..< m + n])) (c, r)) =
      r\<lparr>rs_Misses := rs_Misses r + int n\<rparr>"
proof (induction n arbitrary: m c r "is")
  case (Suc n)
  let ?k = "bench_key (int m mod ws)"
  obtain i js where is_: "is = i # js" using Suc.prems(2) by (cases "is") auto
  have out: "?k \<notin> set (recency c)" using loop_never_resident [OF ws] Suc.prems(1) by simp
  obtain d v where d: "bc_get ops c ?k = (d, v)" by fastforce
  with law out have get: "v = None" "recency d = recency c" unfolding recency_law_def by (metis fst_conv snd_conv)+
  have "recency (fst (bc_add ops d ?k i)) = take cap (?k # recency d)" using law out get(2) unfolding recency_law_def by metis
  then have rec: "recency (fst (bc_add ops d ?k i)) = loop_recency ws cap (Suc m)"
    using get(2) Suc.prems(1) loop_recency_next by simp
  have "[m ..< m + Suc n] = m # [Suc m ..< Suc m + n]" by (simp add: upt_conv_Cons)
  then have "fold (replay_request ops) (zip is (map (\<lambda>j. bench_key (int j mod ws)) [m ..< m + Suc n])) (c, r) =
      fold (replay_request ops) (zip js (map (\<lambda>j. bench_key (int j mod ws)) [Suc m ..< Suc m + n]))
        (fst (bc_add ops d ?k i), r\<lparr>rs_Misses := rs_Misses r + 1\<rparr>)"
    by (simp add: is_ replay_request_def d get(1))
  with Suc.IH [OF rec, of js] Suc.prems(2) is_ show ?case by simp
qed simp

lemma those_map_Some: "(\<And>x. x \<in> set xs \<Longrightarrow> f x = Some (h x)) \<Longrightarrow> those (map f xs) = Some (map h xs)"
  by (induction xs) auto

lemma go_rem_nat: "0 < b \<Longrightarrow> go_rem (int a) b = Some (int a mod b)"
  by (cases a) (simp_all add: go_rem_def)

lemma Loop_keys:
  assumes "Loop requests ws = Some w" and "0 < ws"
  shows "wl_Keys w = map (\<lambda>j. bench_key (int j mod ws)) [0 ..< nat requests]" and "0 \<le> requests"
proof -
  have upto: "[0 .. requests - 1] = map int [0 ..< nat requests]" by (rule nth_equalityI) auto
  have ids: "those (map (\<lambda>i. go_rem i ws) [0 .. requests - 1]) = Some (map (\<lambda>j. int j mod ws) [0 ..< nat requests])"
    unfolding upto using assms(2) 
    by (simp add: comp_def those_map_Some go_rem_nat)
  show "wl_Keys w = map (\<lambda>j. bench_key (int j mod ws)) [0 ..< nat requests]" "0 \<le> requests"
    using assms(1) ids by (auto simp: Loop_def comp_def split: if_splits)
qed

end
