(* ===== verification/Trace.thy ===== *)
theory Trace
  imports Bench RedisKeys
begin

text \<open>
  Reading workloads from trace files (\<^verbatim>\<open>src/bench/trace.go\<close>). A file is what its scanner yields: the lines,
  decompressed, and whether reading ended in an error; opening and decompressing files is the operating
  system's, and the discovery of trace files is in theory \<^verbatim>\<open>BenchFleet\<close>. White space is the predicate \<open>space\<close>, \<^verbatim>\<open>unicode.IsSpace\<close>.
\<close>

record trace_format =
  tf_Delimiter :: string
  tf_KeyColumn :: int
  tf_Comment :: string
  tf_SkipHeader :: bool

definition LineFormat :: trace_format where
  "LineFormat = \<lparr>tf_Delimiter = '''', tf_KeyColumn = 0, tf_Comment = '''', tf_SkipHeader = False\<rparr>"

definition CSVFormat :: "int \<Rightarrow> trace_format" where
  "CSVFormat keyColumn = \<lparr>tf_Delimiter = '','', tf_KeyColumn = keyColumn, tf_Comment = '''', tf_SkipHeader = True\<rparr>"

definition TwitterFormat :: trace_format where
  "TwitterFormat = \<lparr>tf_Delimiter = '','', tf_KeyColumn = 1, tf_Comment = '''', tf_SkipHeader = False\<rparr>"

definition LIRSFormat :: trace_format where
  "LIRSFormat = \<lparr>tf_Delimiter = '''', tf_KeyColumn = 0, tf_Comment = ''*'', tf_SkipHeader = False\<rparr>"

subsection \<open>The string functions used\<close>

definition has_prefix :: "string \<Rightarrow> string \<Rightarrow> bool" where
  "has_prefix s p \<longleftrightarrow> take (length p) s = p"

text \<open>\<^verbatim>\<open>strings.Fields\<close>: the maximal runs without white space.\<close>

function fields_of :: "(char \<Rightarrow> bool) \<Rightarrow> string \<Rightarrow> string list" where
  "fields_of space s =
     (case dropWhile space s of
        [] \<Rightarrow> []
      | c # cs \<Rightarrow> (c # takeWhile (\<lambda>c. \<not> space c) cs) # fields_of space (dropWhile (\<lambda>c. \<not> space c) cs))"
  by pat_completeness auto

termination fields_of
proof (relation "measure (\<lambda>(space, s). length s)")
  fix space :: "char \<Rightarrow> bool" and s c cs
  assume "dropWhile space s = c # cs"
  then have "length cs < length s" using length_dropWhile_le [of space s] by simp
  then show "((space, dropWhile (\<lambda>c. \<not> space c) cs), space, s) \<in> measure (\<lambda>(space, s). length s)"
    using length_dropWhile_le [of "\<lambda>c. \<not> space c" cs] by simp
qed simp

declare fields_of.simps [simp del]

text \<open>\<^verbatim>\<open>strings.Split\<close> by a non-empty separator.\<close>

fun split_by :: "string \<Rightarrow> string \<Rightarrow> string \<Rightarrow> string list" where
  "split_by sep acc [] = [rev acc]"
| "split_by sep acc (c # cs) =
     (if sep \<noteq> [] \<and> has_prefix (c # cs) sep then rev acc # split_by sep [] (drop (length sep - 1) cs)
      else split_by sep (c # acc) cs)"

definition trim_space :: "(char \<Rightarrow> bool) \<Rightarrow> string \<Rightarrow> string" where
  "trim_space space s = rev (dropWhile space (rev (dropWhile space s)))"

subsection \<open>Lines to keys\<close>

text \<open>\<^verbatim>\<open>fields[f.KeyColumn]\<close> panics for a negative column: the outer option.\<close>

definition trace_field :: "(char \<Rightarrow> bool) \<Rightarrow> trace_format \<Rightarrow> string \<Rightarrow> string option option" where
  "trace_field space f line =
     (if tf_Comment f \<noteq> '''' \<and> has_prefix line (tf_Comment f) then Some None
      else let fields = (if tf_Delimiter f = '''' then fields_of space line else split_by (tf_Delimiter f) [] line)
           in if tf_KeyColumn f \<ge> int (length fields) then Some None
              else do {
                s \<leftarrow> slice_get fields (tf_KeyColumn f);
                let key = trim_space space s;
                Some (if key = '''' then None else Some key)
              })"

text \<open>The scanning loop: interning only shares storage, the interned keys are a set.\<close>

fun trace_loop ::
  "(char \<Rightarrow> bool) \<Rightarrow> trace_format \<Rightarrow> int \<Rightarrow> string list \<Rightarrow> bool \<Rightarrow> string list \<times> string set \<Rightarrow> (string list \<times> string set) option"
  where
  "trace_loop space f limit [] skippedHeader s = Some s"
| "trace_loop space f limit (line # lines) skippedHeader s = do {
     r \<leftarrow> trace_field space f line;
     case r of
       None \<Rightarrow> trace_loop space f limit lines skippedHeader s
     | Some key \<Rightarrow>
         if tf_SkipHeader f \<and> \<not> skippedHeader then trace_loop space f limit lines True s
         else let (keys, intern) = s; intern = insert key intern; keys = keys @ [key]
              in if limit > 0 \<and> int (length keys) \<ge> limit then Some (keys, intern)
                 else trace_loop space f limit lines skippedHeader (keys, intern)
   }"

datatype 'e trace_error = ReadTrace 'e | NoKeys string

definition trim_suffix :: "string \<Rightarrow> string \<Rightarrow> string" where
  "trim_suffix s suf = (if has_prefix (rev s) (rev suf) then take (length s - length suf) s else s)"

text \<open>
  What \<^verbatim>\<open>LoadTrace\<close> makes of an opened file of base name \<open>base\<close>. The scanner's error is looked at after
  the loop; a loop that stopped at its limit has not met it.
\<close>

definition LoadTrace ::
  "(char \<Rightarrow> bool) \<Rightarrow> (string list \<Rightarrow> 'e option) \<Rightarrow> string \<Rightarrow> string list \<Rightarrow> trace_format \<Rightarrow> int \<Rightarrow> ('e trace_error + workload) option"
  where
  "LoadTrace space scan_err base lines format limit = do {
     (keys, intern) \<leftarrow> trace_loop space format limit lines False ([], {});
     Some (case scan_err keys of
         Some err \<Rightarrow> Inl (ReadTrace err)
       | None \<Rightarrow>
           if length keys = 0 then Inl (NoKeys base)
           else Inr \<lparr>wl_Name = trim_suffix (trim_suffix base ''.gz'') ''.txt'', wl_Keys = keys,
             wl_Description = ''real trace: '' @ format_int (int (length keys)) @ '' requests over '' @
               format_int (int (card intern)) @ '' distinct keys''\<rparr>)
   }"

subsection \<open>ARC traces\<close>

text \<open>One record: \<open>blocks\<close> accesses from \<open>start\<close> on, block numbers wrapping at 64 bits, until the limit.\<close>

fun arc_expand :: "int \<Rightarrow> nat \<Rightarrow> 64 word \<Rightarrow> string list \<Rightarrow> string list" where
  "arc_expand limit 0 block keys = keys"
| "arc_expand limit (Suc n) block keys =
     (let keys = keys @ [format_uint block]
      in if limit > 0 \<and> int (length keys) \<ge> limit then keys else arc_expand limit n (block + 1) keys)"

text \<open>The first two fields of a line, where both are numbers.\<close>

definition arc_record :: "(char \<Rightarrow> bool) \<Rightarrow> string \<Rightarrow> (64 word \<times> nat) option" where
  "arc_record space line =
     (let fields = fields_of space line
      in if length fields < 2 then None
         else case (parse_uint (fields ! 0), parse_uint (fields ! 1)) of
                (Some start, Some blocks) \<Rightarrow> Some (of_nat start, blocks)
              | _ \<Rightarrow> None)"

fun arc_loop :: "(char \<Rightarrow> bool) \<Rightarrow> int \<Rightarrow> string list \<Rightarrow> int \<times> string list \<Rightarrow> int \<times> string list" where
  "arc_loop space limit [] s = s"
| "arc_loop space limit (line # lines) s =
     (case arc_record space line of
        None \<Rightarrow> arc_loop space limit lines s
      | Some (start, blocks) \<Rightarrow>
          let (records, keys) = s; records = records + 1; keys = arc_expand limit blocks start keys
          in if limit > 0 \<and> int (length keys) \<ge> limit then (records, keys)
             else arc_loop space limit lines (records, keys))"

definition LoadARCTrace ::
  "(char \<Rightarrow> bool) \<Rightarrow> (string list \<Rightarrow> 'e option) \<Rightarrow> string \<Rightarrow> string list \<Rightarrow> int \<Rightarrow> 'e trace_error + workload"
  where
  "LoadARCTrace space scan_err base lines limit =
     (let (records, keys) = arc_loop space limit lines (0, [])
      in case scan_err keys of
           Some err \<Rightarrow> Inl (ReadTrace err)
         | None \<Rightarrow>
             if length keys = 0 then Inl (NoKeys base)
             else Inr \<lparr>wl_Name = trim_suffix base ''.gz'', wl_Keys = keys,
               wl_Description = ''ARC trace: '' @ format_int records @ '' records expanded to '' @
                 format_int (int (length keys)) @ '' accesses over '' @ format_int (int (card (set keys))) @
                 '' distinct blocks''\<rparr>)"

subsection \<open>What is loaded\<close>

text \<open>A limit of zero or less reads everything.\<close>

definition cut :: "int \<Rightarrow> 'a list \<Rightarrow> 'a list" where
  "cut limit xs = (if limit > 0 then take (nat limit) xs else xs)"

text \<open>The accesses a line of an ARC trace stands for.\<close>

definition arc_accesses :: "(char \<Rightarrow> bool) \<Rightarrow> string \<Rightarrow> string list" where
  "arc_accesses space line =
     (case arc_record space line of
        None \<Rightarrow> []
      | Some (start, blocks) \<Rightarrow> map (\<lambda>i. format_uint (start + of_nat i)) [0 ..< blocks])"

lemma blocks_Suc:
  "map (\<lambda>i. format_uint (block + of_nat i)) [0 ..< Suc n] =
    format_uint block # map (\<lambda>i. format_uint (block + 1 + of_nat i)) [0 ..< n]"
  by (simp add: upt_conv_Cons map_Suc_upt [symmetric] comp_def add.assoc del: upt_Suc)

lemma arc_expand_cut:
  "limit \<le> 0 \<or> int (length keys) < limit \<Longrightarrow>
    arc_expand limit n block keys = cut limit (keys @ map (\<lambda>i. format_uint (block + of_nat i)) [0 ..< n])"
proof (induction n arbitrary: block keys)
  case (Suc n)
  show ?case
  proof (cases "limit > 0 \<and> int (length (keys @ [format_uint block])) \<ge> limit")
    case True
    with Suc.prems have "nat limit = Suc (length keys)" by auto
    with True show ?thesis unfolding blocks_Suc by (simp add: cut_def)
  next
    case False
    then have "arc_expand limit n (block + 1) (keys @ [format_uint block]) =
        cut limit ((keys @ [format_uint block]) @ map (\<lambda>i. format_uint (block + 1 + of_nat i)) [0 ..< n])"
      by (intro Suc.IH) auto
    moreover have "arc_expand limit (Suc n) block keys = arc_expand limit n (block + 1) (keys @ [format_uint block])"
      by (simp only: arc_expand.simps Let_def if_not_P [OF False])
    ultimately show ?thesis unfolding blocks_Suc by simp
  qed
qed (auto simp: cut_def)

lemma cut_append: "limit \<le> 0 \<or> int (length (cut limit xs)) < limit \<Longrightarrow> cut limit (cut limit xs @ ys) = cut limit (xs @ ys)"
  by (cases "limit > 0") (auto simp: cut_def min_def split: if_splits)

lemma cut_full: "limit > 0 \<Longrightarrow> int (length (cut limit xs)) \<ge> limit \<Longrightarrow> cut limit (xs @ ys) = cut limit xs"
  by (auto simp: cut_def)

lemma arc_loop_cut:
  "limit \<le> 0 \<or> int (length keys) < limit \<Longrightarrow>
    snd (arc_loop space limit lines (records, keys)) = cut limit (keys @ concat (map (arc_accesses space) lines))"
proof (induction lines arbitrary: records keys)
  case Nil
  then show ?case by (auto simp: cut_def)
next
  case (Cons line lines)
  show ?case
  proof (cases "arc_record space line")
    case None
    with Cons show ?thesis by (simp add: arc_accesses_def)
  next
    case (Some r)
    obtain start blocks where r: "r = (start, blocks)" by fastforce
    let ?all = "keys @ arc_accesses space line"
    have e: "arc_expand limit blocks start keys = cut limit ?all"
      using arc_expand_cut [OF Cons.prems] by (simp add: arc_accesses_def Some r)
    show ?thesis
    proof (cases "limit > 0 \<and> int (length (cut limit ?all)) \<ge> limit")
      case True
      with cut_full [of limit ?all "concat (map (arc_accesses space) lines)"] show ?thesis by (simp add: Some r e)
    next
      case False
      then have le: "limit \<le> 0 \<or> int (length (cut limit ?all)) < limit" by auto
      from Cons.IH [OF le] cut_append [OF le, of "concat (map (arc_accesses space) lines)"] False show ?thesis
        by (auto simp: Some r e Let_def)
    qed
  qed
qed

lemma LoadARCTrace_keys:
  assumes "LoadARCTrace space scan_err base lines limit = Inr w"
  shows "wl_Keys w = cut limit (concat (map (arc_accesses space) lines)) \<and> wl_Keys w \<noteq> []"
proof -
  have "limit \<le> 0 \<or> int (length ([] :: string list)) < limit" by auto
  from arc_loop_cut [OF this, of space lines 0] assms show ?thesis
    by (auto simp: LoadARCTrace_def Let_def split_beta split: option.splits if_splits)
qed

end
