(* ===== verification/EpochClock.thy ===== *)
theory EpochClock
  imports Epoch
begin

text \<open>
  The request-driven clock of \<^verbatim>\<open>countRequest\<close> (\<^verbatim>\<open>src/epoch.go\<close>) under concurrency. Its two atomic updates
  are two steps, and any number of goroutines may count requests between them. A state has the atomic
  counter, the goroutines that saw the limit and have not yet subtracted it, and, to state what happens,
  the requests counted and the epochs run. The counter is an unbounded integer: wrapping it takes
  \<open>2 ^ 63\<close> requests.
\<close>

record clock =
  ck_counter :: int
  ck_crossing :: nat
  ck_requests :: nat
  ck_epochs :: nat

definition clock_start :: clock where
  "clock_start = \<lparr>ck_counter = 0, ck_crossing = 0, ck_requests = 0, ck_epochs = 0\<rparr>"

text \<open>\<^verbatim>\<open>c.epochRequests.Add(1) != limit\<close>: the caller returns, or it goes on to the second update.\<close>

definition clock_count :: "int \<Rightarrow> clock \<Rightarrow> clock" where
  "clock_count limit s =
     (let s = s\<lparr>ck_counter := ck_counter s + 1, ck_requests := ck_requests s + 1\<rparr>
      in if ck_counter s \<noteq> limit then s else s\<lparr>ck_crossing := ck_crossing s + 1\<rparr>)"

text \<open>\<^verbatim>\<open>c.epochRequests.Add(-limit)\<close> and the epoch.\<close>

definition clock_run :: "int \<Rightarrow> clock \<Rightarrow> clock" where
  "clock_run limit s = s\<lparr>ck_counter := ck_counter s - limit, ck_crossing := ck_crossing s - 1, ck_epochs := ck_epochs s + 1\<rparr>"

inductive clock_step :: "int \<Rightarrow> clock \<Rightarrow> clock \<Rightarrow> bool" for limit where
  Request: "clock_step limit s (clock_count limit s)"
| Cross: "0 < ck_crossing s \<Longrightarrow> clock_step limit s (clock_run limit s)"

inductive_cases clock_stepE: "clock_step limit s t"

abbreviation clock_reach :: "int \<Rightarrow> clock \<Rightarrow> clock \<Rightarrow> bool" where
  "clock_reach limit \<equiv> (clock_step limit)\<^sup>*\<^sup>*"

text \<open>
  The counter is what the epochs have not used up, at most one goroutine is crossing, and only while the
  counter is at the limit or past it.
\<close>

definition clock_inv :: "int \<Rightarrow> clock \<Rightarrow> bool" where
  "clock_inv limit s \<longleftrightarrow> ck_counter s = int (ck_requests s) - limit * int (ck_epochs s) \<and> 0 \<le> ck_counter s \<and>
     ck_crossing s \<le> 1 \<and> (0 < ck_crossing s \<longrightarrow> limit \<le> ck_counter s)"

lemma clock_inv_start: "clock_inv limit clock_start"
  by (simp add: clock_inv_def clock_start_def)

lemma clock_inv_step: "clock_step limit s t \<Longrightarrow> 0 < limit \<Longrightarrow> clock_inv limit s \<Longrightarrow> clock_inv limit t"
  by (erule clock_stepE) (auto simp: clock_inv_def clock_count_def clock_run_def Let_def algebra_simps)

lemma clock_inv_reach: "clock_reach limit s t \<Longrightarrow> 0 < limit \<Longrightarrow> clock_inv limit s \<Longrightarrow> clock_inv limit t"
  by (induction rule: rtranclp_induct) (auto intro: clock_inv_step)

text \<open>An epoch takes \<open>limit\<close> requests: it never runs early, however the updates interleave.\<close>

lemma epochs_paid_for:
  assumes "0 < limit" and "clock_reach limit clock_start s"
  shows "limit * int (ck_epochs s) \<le> int (ck_requests s)"
  using clock_inv_reach [OF assms(2,1) clock_inv_start] by (simp add: clock_inv_def)

text \<open>With nobody crossing and the counter past the limit, no epoch ever runs again.\<close>

definition stalled :: "int \<Rightarrow> clock \<Rightarrow> bool" where
  "stalled limit s \<longleftrightarrow> ck_crossing s = 0 \<and> limit \<le> ck_counter s"

lemma stalled_step: "clock_step limit s t \<Longrightarrow> stalled limit s \<Longrightarrow> stalled limit t \<and> ck_epochs t = ck_epochs s"
  by (erule clock_stepE) (auto simp: stalled_def clock_count_def clock_run_def Let_def)

lemma stalled_forever: "clock_reach limit s t \<Longrightarrow> stalled limit s \<Longrightarrow> stalled limit t \<and> ck_epochs t = ck_epochs s"
  by (induction rule: rtranclp_induct) (auto dest: stalled_step)

text \<open>Requests alone.\<close>

lemma requests_reach: "clock_reach limit s ((clock_count limit ^^ n) s)"
  by (induction n) (auto intro: rtranclp.rtrancl_into_rtrancl Request)

lemma requests_state:
  "(clock_count limit ^^ n) clock_start =
    \<lparr>ck_counter = int n, ck_crossing = (if 0 < limit \<and> limit \<le> int n then 1 else 0), ck_requests = n, ck_epochs = 0\<rparr>"
  by (induction n) (auto simp: clock_start_def clock_count_def Let_def)

text \<open>As many requests again between the two updates of one goroutine stall the clock.\<close>

lemma reach_stalled:
  assumes "0 < limit"
  shows "\<exists>s. clock_reach limit clock_start s \<and> stalled limit s \<and> int (ck_requests s) = 2 * limit \<and> ck_epochs s = 1"
proof -
  let ?s = "(clock_count limit ^^ nat (2 * limit)) clock_start"
  have "clock_step limit ?s (clock_run limit ?s)" by (rule Cross) (use assms in \<open>simp add: requests_state\<close>)
  with requests_reach have "clock_reach limit clock_start (clock_run limit ?s)" by (rule rtranclp.rtrancl_into_rtrancl)
  with assms show ?thesis
    by (intro exI [of _ "clock_run limit ?s"]) (simp add: requests_state clock_run_def stalled_def)
qed

text \<open>
  Run without interference, as the model of \<^verbatim>\<open>countRequest\<close> is, the clock stays below the limit and
  every \<open>limit\<close>-th request runs an epoch.
\<close>

definition clock_alone :: "int \<Rightarrow> clock \<Rightarrow> clock" where
  "clock_alone limit s = (let t = clock_count limit s in if ck_counter t \<noteq> limit then t else clock_run limit t)"

lemma clock_alone_steps: "clock_reach limit s (clock_alone limit s)"
proof -
  have "clock_reach limit s (clock_count limit s)" by (simp add: r_into_rtranclp Request)
  moreover have "clock_step limit (clock_count limit s) (clock_run limit (clock_count limit s))"
    if "ck_counter (clock_count limit s) = limit"
    by (rule Cross) (use that in \<open>auto simp: clock_count_def Let_def split: if_splits\<close>)
  ultimately show ?thesis by (auto simp: clock_alone_def Let_def intro: rtranclp.rtrancl_into_rtrancl)
qed

lemma clock_alone_sel:
  "ck_epochs (clock_alone limit s) = (if ck_counter s + 1 = limit then ck_epochs s + 1 else ck_epochs s)"
  "ck_counter (clock_alone limit s) = (if ck_counter s + 1 = limit then 0 else ck_counter s + 1)"
  by (simp_all add: clock_alone_def clock_count_def clock_run_def Let_def)

lemma clock_alone_exact:
  assumes "0 < n"
  shows "ck_epochs ((clock_alone (int n) ^^ m) clock_start) = m div n \<and>
    ck_counter ((clock_alone (int n) ^^ m) clock_start) = int (m mod n)"
proof (induction m)
  case (Suc m)
  let ?s = "(clock_alone (int n) ^^ m) clock_start"
  have next_: "(clock_alone (int n) ^^ Suc m) clock_start = clock_alone (int n) ?s" by simp
  show ?case
  proof (cases "Suc (m mod n) = n")
    case True
    with Suc.IH have "ck_counter ?s + 1 = int n" by linarith
    moreover have "Suc m mod n = 0" using True by (simp add: mod_Suc)
    ultimately show ?thesis unfolding next_ using Suc.IH
      by (simp add: clock_alone_sel div_Suc)
  next
    case False
    with Suc.IH have "ck_counter ?s + 1 \<noteq> int n" by linarith
    moreover have "Suc m mod n = Suc (m mod n)" using False by (simp add: mod_Suc)
    ultimately show ?thesis unfolding next_ using Suc.IH
      by (simp add: clock_alone_sel div_Suc)
  qed
qed (simp add: clock_start_def)

end
