(* ===== verification/MonitorTheorems.thy ===== *)
theory MonitorTheorems
  imports Monitoring BenchFacts Trace EpochClock BanditTheorems
begin

text \<open>
  The request-driven clock under concurrency, and what monitoring reports.
\<close>

subsection \<open>The request-driven clock\<close>

text \<open>C32: However the two atomic updates of concurrent \<^verbatim>\<open>countRequest\<close> calls interleave, no epoch runs before
  its \<open>limit\<close> requests were counted; but the clock can stop: after \<open>2 * limit\<close> requests, half of them
  between the two updates of the goroutine that met the limit, one epoch has run and no continuation,
  however long, runs another.\<close>

theorem request_clock_paid_but_stallable:
  assumes "0 < limit"
  shows "(\<forall>s. clock_reach limit clock_start s \<longrightarrow> limit * int (ck_epochs s) \<le> int (ck_requests s)) \<and>
    (\<exists>s. clock_reach limit clock_start s \<and> int (ck_requests s) = 2 * limit \<and>
      (\<forall>t. clock_reach limit s t \<longrightarrow> ck_epochs t = 1))"
  using epochs_paid_for [OF assms] reach_stalled [OF assms] stalled_forever [of limit] by metis

lemma request_clock_paid_but_stallable_witness:
  "\<exists>s. clock_reach 10 clock_start s \<and> ck_requests s = 20 \<and> (\<forall>t. clock_reach 10 s t \<longrightarrow> ck_epochs t = 1)"
  using request_clock_paid_but_stallable [of 10] by auto

subsection \<open>Snapshots\<close>

text \<open>An unchanged bandit renders identically on every scrape: whatever order the map of pooled evidence is
  ranged over in, \<^verbatim>\<open>Snapshot\<close> returns the same snapshot, the same text, or the same panic.\<close>

theorem snapshot_any_order:
  assumes "distinct order" and "distinct order'" and "set order = Mapping.keys (st_fleet (d_state d))"
    and "set order' = Mapping.keys (st_fleet (d_state d))"
  shows "Snapshot error_text now order d = Snapshot error_text now order' d"
  by (rule snapshot_any_order_eq) (simp_all add: assms)

definition scraped :: "(unit, unit) distributed" where
  "scraped = (demo_replica ''a'')\<lparr>d_state := (d_state (demo_replica ''a''))
     \<lparr>st_fleet := Mapping.update LFU \<lparr>w_Hits = 3, w_Misses = 1\<rparr>
        (Mapping.update LRU \<lparr>w_Hits = 6, w_Misses = 2\<rparr> Mapping.empty)\<rparr>\<rparr>"

lemma snapshot_any_order_witness:
  "map_option (map ae_Policy \<circ> sn_Fleet) (Snapshot (\<lambda>_. ''x'') 0 [LRU, LFU] scraped) = Some [''LFU'', ''LRU'']"
proof -
  have "Snapshot (\<lambda>_. ''x'') 0 [LRU, LFU] scraped = Snapshot (\<lambda>_. ''x'') 0 [LFU, LRU] scraped"
    by (rule snapshot_any_order) (auto simp: scraped_def names)
  moreover have "map_option (map ae_Policy \<circ> sn_Fleet) (Snapshot (\<lambda>_. ''x'') 0 [LFU, LRU] scraped) = Some [''LFU'', ''LRU'']"
    by code_simp
  ultimately show ?thesis by simp
qed

end
