(* ===== verification/ExportedLfu.thy ===== *)
theory ExportedLfu
  imports LfuCache
begin

text \<open>
  The exported LFU cache as a \<^verbatim>\<open>Cacher\<close>: the value \<^verbatim>\<open>policies.NewLFU\<close> wraps is not the simple cache of theory
  \<^verbatim>\<open>SimpleLFU\<close> but the one around it. It keeps the exact books of the cache inside, with or without a
  callback. A panic would leave the receiver unspecified; none occurs.
\<close>

definition lfu_cache_ops :: "('k set \<Rightarrow> 'k list) \<Rightarrow> 'k \<Rightarrow> 'v \<Rightarrow> (('k, 'v) lfu_cache, 'k, 'v) cacher_ops" where
  "lfu_cache_ops order zk zv =
     \<lparr>op_add = (\<lambda>c k v. or_else (c, False) (cache_add c k v)),
      op_contains = cache_contains,
      op_get = (\<lambda>c k. or_else (c, None) (cache_get c k)),
      op_keys = (\<lambda>c. or_else [] (cache_keys zk c)),
      op_len = cache_len,
      op_peek = cache_peek,
      op_purge = (\<lambda>c. or_else c (cache_purge order c)),
      op_remove = (\<lambda>c k. or_else (c, False) (cache_remove c k)),
      op_resize = (\<lambda>c n. or_else (c, 0) (cache_resize c n)),
      op_values = (\<lambda>c. or_else [] (cache_values zv c))\<rparr>"

definition exported_inv :: "('k, 'v) lfu_cache \<Rightarrow> bool" where
  "exported_inv c \<longleftrightarrow> lfu_inv (lc_lfu c) \<and> same_cache c (after (delivered c) (lc_lfu c))"

definition exported_content :: "('k, 'v) lfu_cache \<Rightarrow> 'k \<rightharpoonup> 'v" where
  "exported_content c = lfu_content (lc_lfu c)"

definition exported_capacity :: "('k, 'v) lfu_cache \<Rightarrow> int" where
  "exported_capacity c = lfu_capacity (lc_lfu c)"

text \<open>The invariant and the contents of the simple cache do not look at its log.\<close>

lemma after_inv [simp]:
  "lfu_inv (after xs l) = lfu_inv l" "lfu_content (after xs l) = lfu_content l" "lfu_capacity (after xs l) = lfu_capacity l"
  by (simp_all add: lfu_inv_def lfu_wf_def lfu_shape_def lfu_min_def lfu_content_def lfu_capacity_def)

definition stands_for :: "('k, 'v) lfu_cache \<Rightarrow> ('k, 'v) lfu \<Rightarrow> bool" where
  "stands_for c l \<longleftrightarrow> (lfu_inv l \<longrightarrow> exported_inv c) \<and> exported_content c = lfu_content l \<and> exported_capacity c = lfu_capacity l"

lemma same_stands: "same_cache c (after xs l) \<Longrightarrow> stands_for c l"
proof -
  assume same: "same_cache c (after xs l)"
  then have e: "after xs l = after (delivered c) (lc_lfu c)" by (simp add: same_cache_def)
  have "lfu_inv (lc_lfu c) = lfu_inv l" "lfu_content (lc_lfu c) = lfu_content l" "lfu_capacity (lc_lfu c) = lfu_capacity l"
    using arg_cong [OF e, of lfu_inv] arg_cong [OF e, of lfu_content] arg_cong [OF e, of lfu_capacity] by simp_all
  with same e show ?thesis by (simp add: stands_for_def exported_inv_def exported_content_def exported_capacity_def)
qed

lemma exported_call:
  assumes "exported_inv c" and "inner_step order zk zv call (lc_lfu c) = Some (l, a)"
  shows "\<exists>c'. cache_step order zk zv call c = Some (c', a) \<and> stands_for c' l"
  using step_same [of c "after (delivered c) (lc_lfu c)" order zk zv call] assms
  by (auto simp: exported_inv_def answers_same_def intro: same_stands)

text \<open>Each operation does what the simple cache's does.\<close>

lemma exported_ops:
  assumes inv: "exported_inv c" and X: "X = lfu_cache_ops order zk zv" and L: "L = lfu_ops order zk zv"
  shows "stands_for (fst (op_add X c k v)) (fst (op_add L (lc_lfu c) k v)) \<and> snd (op_add X c k v) = snd (op_add L (lc_lfu c) k v)"
    and "stands_for (fst (op_get X c k)) (fst (op_get L (lc_lfu c) k)) \<and> snd (op_get X c k) = snd (op_get L (lc_lfu c) k)"
    and "stands_for (fst (op_remove X c k)) (fst (op_remove L (lc_lfu c) k)) \<and> snd (op_remove X c k) = snd (op_remove L (lc_lfu c) k)"
    and "stands_for (fst (op_resize X c n)) (fst (op_resize L (lc_lfu c) n)) \<and> snd (op_resize X c n) = snd (op_resize L (lc_lfu c) n)"
    and "stands_for (op_purge X c) (op_purge L (lc_lfu c))"
proof -
  note call = exported_call [OF inv, of order zk zv]
  have lfu: "lfu_inv (lc_lfu c)" using inv by (simp add: exported_inv_def)
  obtain l ev where add: "lfu_add (lc_lfu c) k v = Some (l, ev)" using lfu_add_refines [OF lfu, of k v] by fastforce
  with call [of "Plain (LfuAdd k v)"] show
    "stands_for (fst (op_add X c k v)) (fst (op_add L (lc_lfu c) k v)) \<and> snd (op_add X c k v) = snd (op_add L (lc_lfu c) k v)"
    by (auto simp: X L lfu_cache_ops_def lfu_ops_def)
  obtain l r where get: "lfu_get (lc_lfu c) k = Some (l, r)" using lfu_get_refines [OF lfu, of k] by fastforce
  with call [of "Plain (LfuGet k)"] show
    "stands_for (fst (op_get X c k)) (fst (op_get L (lc_lfu c) k)) \<and> snd (op_get X c k) = snd (op_get L (lc_lfu c) k)"
    by (auto simp: X L lfu_cache_ops_def lfu_ops_def)
  show "stands_for (fst (op_remove X c k)) (fst (op_remove L (lc_lfu c) k)) \<and> snd (op_remove X c k) = snd (op_remove L (lc_lfu c) k)"
    using call [of "Plain (LfuRemove k)"] by (auto simp: X L lfu_cache_ops_def lfu_ops_def map_prod_def split_beta)
  show "stands_for (fst (op_resize X c n)) (fst (op_resize L (lc_lfu c) n)) \<and> snd (op_resize X c n) = snd (op_resize L (lc_lfu c) n)"
    using call [of "Plain (LfuResize n)"] by (auto simp: X L lfu_cache_ops_def lfu_ops_def map_prod_def split_beta)
  show "stands_for (op_purge X c) (op_purge L (lc_lfu c))"
    using call [of "Plain LfuPurge"] by (auto simp: X L lfu_cache_ops_def lfu_ops_def)
qed

lemma exported_reads:
  "op_contains (lfu_cache_ops order zk zv) c = op_contains (lfu_ops order zk zv) (lc_lfu c)"
  "op_peek (lfu_cache_ops order zk zv) c = op_peek (lfu_ops order zk zv) (lc_lfu c)"
  "op_keys (lfu_cache_ops order zk zv) c = op_keys (lfu_ops order zk zv) (lc_lfu c)"
  "op_values (lfu_cache_ops order zk zv) c = op_values (lfu_ops order zk zv) (lc_lfu c)"
  "op_len (lfu_cache_ops order zk zv) c = op_len (lfu_ops order zk zv) (lc_lfu c)"
  by (simp_all add: lfu_cache_ops_def lfu_ops_def cache_contains_def cache_peek_def cache_keys_def cache_values_def cache_len_def fun_eq_iff)

interpretation exported: cacher_contract "lfu_cache_ops order zk zv" exported_inv exported_content for order zk zv
proof unfold_locales
  fix c :: "('a, 'b) lfu_cache" and k :: 'a and v :: 'b and n :: int
  assume inv: "exported_inv c"
  then have lfu: "lfu_inv (lc_lfu c)" by (simp add: exported_inv_def)
  have con: "exported_content c = lfu_content (lc_lfu c)" by (simp add: exported_content_def)
  note ops = exported_ops [OF inv refl refl, where order = order and zk = zk and zv = zv, unfolded stands_for_def]
  show "exported_inv (fst (op_add (lfu_cache_ops order zk zv) c k v))" using ops(1) lfu.add_inv [OF lfu] by blast
  show "exported_inv (fst (op_get (lfu_cache_ops order zk zv) c k))" using ops(2) lfu.get_inv [OF lfu] by blast
  show "exported_inv (op_purge (lfu_cache_ops order zk zv) c)" using ops(5) lfu.purge_inv [OF lfu] by blast
  show "exported_inv (fst (op_remove (lfu_cache_ops order zk zv) c k))" using ops(3) lfu.remove_inv [OF lfu] by blast
  show "exported_inv (fst (op_resize (lfu_cache_ops order zk zv) c n))" using ops(4) lfu.resize_inv [OF lfu] by blast
  show "exported_content (fst (op_add (lfu_cache_ops order zk zv) c k v)) \<subseteq>\<^sub>m (exported_content c)(k \<mapsto> v)"
    using ops(1) lfu.add_content [OF lfu] unfolding con by metis
  show "exported_content (fst (op_get (lfu_cache_ops order zk zv) c k)) \<subseteq>\<^sub>m exported_content c"
    "snd (op_get (lfu_cache_ops order zk zv) c k) = Some v \<Longrightarrow> exported_content c k = Some v"
    using ops(2) lfu.get_content [OF lfu] lfu.get_result [OF lfu] unfolding con by metis+
  show "exported_content (op_purge (lfu_cache_ops order zk zv) c) = Map.empty"
    using ops(5) lfu.purge_content [OF lfu] by metis
  show "exported_content (fst (op_remove (lfu_cache_ops order zk zv) c k)) \<subseteq>\<^sub>m (exported_content c)(k := None)"
    using ops(3) lfu.remove_content [OF lfu] unfolding con by metis
  show "exported_content (fst (op_resize (lfu_cache_ops order zk zv) c n)) \<subseteq>\<^sub>m exported_content c"
    using ops(4) lfu.resize_content [OF lfu] unfolding con by metis
  show "op_peek (lfu_cache_ops order zk zv) c k = Some v \<Longrightarrow> exported_content c k = Some v"
    "op_contains (lfu_cache_ops order zk zv) c k \<Longrightarrow> k \<in> dom (exported_content c)"
    "dom (exported_content c) \<subseteq> set (op_keys (lfu_cache_ops order zk zv) c)"
    "set (op_values (lfu_cache_ops order zk zv) c) \<subseteq> ran (exported_content c)"
    unfolding exported_reads con by (simp_all add: lfu.peek_result [OF lfu] lfu.contains_result [OF lfu]
      lfu.keys_content [OF lfu] lfu.values_content [OF lfu] del: domIff)
qed

lemma exported_new: "NewCacheLFU n = Inr c \<Longrightarrow> exported_inv c \<and> exported_content c = Map.empty \<and> 0 < n"
  using NewLFU_inv [of n False "lc_lfu c"]
  by (auto simp: NewCacheLFU_def NewWithEvict_def exported_inv_def exported_content_def same_cache_def after_def NewLFU_def
      lfu_content_def fun_eq_iff split: if_splits)

lemma exported_builds: "(\<exists>c. NewCacheLFU n = Inr c) \<longleftrightarrow> 0 < n"
  by (auto simp: NewCacheLFU_def NewWithEvict_def NewLFU_def)

end
