(* ===== verification/BenchClient.thy ===== *)
theory BenchClient
  imports ExportedLfu Adapters Arms Thompson
begin

text \<open>
  \<^verbatim>\<open>src/benchclient/benchclient.go\<close>: the adaptive cache behind the five methods a benchmark harness drives.
  It brings the parts together: the shipped policies wrapped as arms, a Thompson bandit, the adaptive cache
  with epochs driven by requests. A panic with a message is \<^term>\<open>Inl\<close>; the panic of a method called before
  \<^verbatim>\<open>Init\<close> or after \<^verbatim>\<open>Close\<close>, a nil dereference, is \<^term>\<open>None\<close>.
\<close>

definition DefaultName :: string where "DefaultName = ''as-cache''"
definition DefaultEpochRequests :: int where "DefaultEpochRequests = 10000"
definition DefaultDiscount :: float64 where "DefaultDiscount = rnd (9 / 10)"
definition DefaultSeed :: "64 word" where "DefaultSeed = 1"

record ('a, 'k, 'r, 'e) bench_client =
  cl_Arms :: "(int \<Rightarrow> 'e + 'a option list) option"
  cl_Label :: string
  cl_EpochRequests :: int
  cl_ShadowSampleRate :: float64
  cl_MigrationStrategy :: migration_strategy
  cl_Discount :: float64
  cl_Seed :: "64 word"
  cl_cache :: "('a, 'k, 'r thompson) cache option"

subsection \<open>The arms\<close>

text \<open>
  The arms are interface values of five dynamic types: hashicorp's LRU, the LFU cache, an adapted 2Q, the
  random-eviction cache and otter's cache, each in its wrapper.
\<close>

type_synonym ('l, 'p, 'x, 'o, 'k, 'v) client_arm =
  "'l cache_wrapper + ('k, 'v) lfu_cache cache_wrapper + ('p, 'x) adapted cache_wrapper +
   ('k, 'v) random_cache cache_wrapper + 'o cache_wrapper"

definition client_ops ::
  "('l, 'k, 'v) cacher_ops \<Rightarrow> ('p, 'k, 'v) partial_ops \<Rightarrow> ('o, 'k, 'v) otter_ops \<Rightarrow> ('k set \<Rightarrow> 'k list) \<Rightarrow> 'k \<Rightarrow> 'v
    \<Rightarrow> (('l, 'p, 'x, 'o, 'k, 'v) client_arm, 'k, 'v) policy_ops" where
  "client_ops lru pops oops order zk zv =
     sum_ops (wrapper_ops lru)
       (sum_ops (wrapper_ops (lfu_cache_ops order zk zv))
         (sum_ops (wrapper_ops (adapted_ops pops))
           (sum_ops (wrapper_ops (random_ops zv)) (wrapper_ops (tiny_ops oops)))))"

datatype 'e arms_error =
    BuildLRUArm "'e build_error"
  | BuildLFUArm "'e build_error"
  | BuildTwoQueueArm "'e build_error"
  | BuildTinyLFUArm "'e build_error"

definition DefaultArms ::
  "(int \<Rightarrow> 'e + 'l) \<Rightarrow> (int \<Rightarrow> 'e + 'p) \<Rightarrow> (nat \<Rightarrow> nat) \<Rightarrow> int \<Rightarrow> 'e arms_error + ('l, 'p, 'e, 'o, 'k, 'v) client_arm option list" where
  "DefaultArms lru_New lru_New2Q seed capacity =
     (case NewLRU lru_New capacity of
        Inl err \<Rightarrow> Inl (BuildLRUArm err)
      | Inr lru \<Rightarrow>
     (case NewLFU_policy capacity of
        Inl err \<Rightarrow> Inl (BuildLFUArm err)
      | Inr lfu \<Rightarrow>
     (case NewTwoQueue lru_New2Q capacity of
        Inl err \<Rightarrow> Inl (BuildTwoQueueArm err)
      | Inr twoQueue \<Rightarrow>
          Inr [Some (Inl lru), Some (Inr (Inl lfu)), Some (Inr (Inr (Inl twoQueue))),
               Some (Inr (Inr (Inr (Inl (NewRandomPolicy seed capacity)))))])))"

definition ArmsWithWindowTinyLFU ::
  "(int \<Rightarrow> 'e + 'l) \<Rightarrow> (int \<Rightarrow> 'e + 'p) \<Rightarrow> (int \<Rightarrow> 'e + 'o) \<Rightarrow> (nat \<Rightarrow> nat) \<Rightarrow> int
    \<Rightarrow> 'e arms_error + ('l, 'p, 'e, 'o, 'k, 'v) client_arm option list" where
  "ArmsWithWindowTinyLFU lru_New lru_New2Q otter_New seed capacity =
     (case DefaultArms lru_New lru_New2Q seed capacity of
        Inl err \<Rightarrow> Inl err
      | Inr arms \<Rightarrow>
     (case tiny_NewPolicy otter_New capacity of
        Inl err \<Rightarrow> Inl (BuildTinyLFUArm err)
      | Inr windowTinyLFU \<Rightarrow> Inr (arms @ [Some (Inr (Inr (Inr (Inr windowTinyLFU))))])))"

subsection \<open>The five methods\<close>

datatype 'e client_panic = BuildArms int 'e | BuildCache int construct_error

definition client_settings :: "('a, 'k, 'r, 'e) bench_client \<Rightarrow> cache_settings" where
  "client_settings c =
     \<lparr>EpochDuration = 0,
      EpochRequests = (if cl_EpochRequests c \<le> 0 then DefaultEpochRequests else cl_EpochRequests c),
      EvictPartialCapacityFilling = True, MigrationStrategy = cl_MigrationStrategy c,
      MinHitRateImprovement = 0, SwitchCooldownEpochs = 0, MinEpochRequests = 0,
      ShadowSampleRate = cl_ShadowSampleRate c, ObserveOnly = False, MinShadowCapacity = 0\<rparr>"

text \<open>
  \<^verbatim>\<open>default_arms\<close> is \<^const>\<open>DefaultArms\<close> on the libraries' constructors, and \<open>source\<close> the generator
  \<^verbatim>\<open>NewThompson\<close> seeds.
\<close>

definition client_init ::
  "('a, 'k, 'v, 'r thompson) env \<Rightarrow> ('k \<Rightarrow> 64 word) \<Rightarrow> (64 word \<Rightarrow> 'r) \<Rightarrow> (int \<Rightarrow> 'e + 'a option list) \<Rightarrow> int
    \<Rightarrow> ('a, 'k, 'r, 'e) bench_client \<Rightarrow> 'e client_panic + ('a, 'k, 'r, 'e) bench_client" where
  "client_init e hash source default_arms capacity c =
     (let arms = (case cl_Arms c of None \<Rightarrow> default_arms | Some arms \<Rightarrow> arms)
      in case arms capacity of
           Inl err \<Rightarrow> Inl (BuildArms capacity err)
         | Inr built \<Rightarrow>
             (let discount = (if cl_Discount c \<le> 0 \<or> cl_Discount c > 1 then DefaultDiscount else cl_Discount c);
                  seed = (if cl_Seed c = 0 then DefaultSeed else cl_Seed c)
              in case NewAdaptiveCache e hash built (Some (NewThompson discount (source seed))) (Some (client_settings c)) of
                   Inl err \<Rightarrow> Inl (BuildCache capacity err)
                 | Inr cache \<Rightarrow> Inr (c\<lparr>cl_cache := Some cache\<rparr>)))"

definition client_get ::
  "('a, 'k, 'v, 'r thompson) env \<Rightarrow> 'k \<Rightarrow> ('a, 'k, 'r, 'e) bench_client \<Rightarrow> (('a, 'k, 'r, 'e) bench_client \<times> 'v option) option" where
  "client_get e key c = do {
     cache \<leftarrow> cl_cache c;
     (cache, r) \<leftarrow> Get e key cache;
     Some (c\<lparr>cl_cache := Some cache\<rparr>, r)
   }"

definition client_set ::
  "('a, 'k, 'v, 'r thompson) env \<Rightarrow> 'k \<Rightarrow> 'v \<Rightarrow> ('a, 'k, 'r, 'e) bench_client \<Rightarrow> ('a, 'k, 'r, 'e) bench_client option" where
  "client_set e key value c = do {
     cache \<leftarrow> cl_cache c;
     (cache, _) \<leftarrow> Add e key value cache;
     Some (c\<lparr>cl_cache := Some cache\<rparr>)
   }"

definition client_name :: "('a, 'k, 'r, 'e) bench_client \<Rightarrow> string" where
  "client_name c = (if cl_Label c \<noteq> [] then cl_Label c else DefaultName)"

text \<open>Closing the cache itself only stops its goroutine.\<close>

definition client_close :: "('a, 'k, 'r, 'e) bench_client \<Rightarrow> ('a, 'k, 'r, 'e) bench_client" where
  "client_close c = (if cl_cache c = None then c else c\<lparr>cl_cache := None\<rparr>)"

definition client_active :: "('a, 'k, 'r, 'e) bench_client \<Rightarrow> policy_type" where
  "client_active c = (case cl_cache c of None \<Rightarrow> Undefined | Some cache \<Rightarrow> ActivePolicy cache)"

subsection \<open>A harness's run\<close>

text \<open>What a harness does between \<^verbatim>\<open>Init\<close> and \<^verbatim>\<open>Close\<close>, and the map it may compare the answers with.\<close>

datatype ('k, 'v) client_call = ClientGet 'k | ClientSet 'k 'v

fun client_request :: "('k, 'v) client_call \<Rightarrow> ('k, 'v) request" where
  "client_request (ClientGet k) = ReqGet k"
| "client_request (ClientSet k v) = ReqAdd k v"

fun client_step ::
  "('a, 'k, 'v, 'r thompson) env \<Rightarrow> ('k, 'v) client_call \<Rightarrow> ('a, 'k, 'r, 'e) bench_client
    \<Rightarrow> (('a, 'k, 'r, 'e) bench_client \<times> 'v option) option" where
  "client_step e (ClientGet k) c = client_get e k c"
| "client_step e (ClientSet k v) c = map_option (\<lambda>c. (c, None)) (client_set e k v c)"

fun client_run ::
  "('a, 'k, 'v, 'r thompson) env \<Rightarrow> ('k, 'v) client_call list \<Rightarrow> ('a, 'k, 'r, 'e) bench_client
    \<Rightarrow> (('a, 'k, 'r, 'e) bench_client \<times> 'v option list) option" where
  "client_run e [] c = Some (c, [])"
| "client_run e (x # xs) c = do {
     (c, r) \<leftarrow> client_step e x c;
     (c, rs) \<leftarrow> client_run e xs c;
     Some (c, r # rs)
   }"

fun last_set :: "'k \<Rightarrow> ('k, 'v) client_call list \<Rightarrow> 'v option" where
  "last_set k [] = None"
| "last_set k (ClientGet j # xs) = last_set k xs"
| "last_set k (ClientSet j v # xs) = (case last_set k xs of None \<Rightarrow> if j = k then Some v else None | Some w \<Rightarrow> Some w)"

subsection \<open>Building the arms\<close>

definition client_good ::
  "('l \<Rightarrow> bool) \<Rightarrow> (('p, 'x) adapted \<Rightarrow> bool) \<Rightarrow> ('o \<Rightarrow> bool) \<Rightarrow> ('l, 'p, 'x, 'o, 'k, 'v) client_arm \<Rightarrow> bool" where
  "client_good good1 good2 good3 =
     case_sum (wrapped good1) (case_sum (wrapped exported_inv) (case_sum (wrapped good2) (case_sum (wrapped random_inv) (wrapped good3))))"

definition client_content ::
  "('l \<Rightarrow> 'k \<rightharpoonup> 'v) \<Rightarrow> (('p, 'x) adapted \<Rightarrow> 'k \<rightharpoonup> 'v) \<Rightarrow> ('o \<Rightarrow> 'k \<rightharpoonup> 'v) \<Rightarrow> ('l, 'p, 'x, 'o, 'k, 'v) client_arm \<Rightarrow> 'k \<rightharpoonup> 'v" where
  "client_content con1 con2 con3 =
     case_sum (wrapped con1) (case_sum (wrapped exported_content) (case_sum (wrapped con2) (case_sum (wrapped random_content) (wrapped con3))))"

text \<open>Whatever the libraries' caches are, if they return only what was stored the arms meet the contract.\<close>

lemma client_contract:
  assumes "cacher_contract lru good1 con1" and "cacher_contract (adapted_ops pops) good2 con2" and "otter_contract oops good3 con3"
  shows "policy_contract (client_ops lru pops oops order zk zv) (client_good good1 good2 good3) (client_content con1 con2 con3)"
  unfolding client_ops_def client_good_def client_content_def
  by (intro sum_policy cacher_contract.wrapped_policy assms exported.cacher_contract_axioms random.cacher_contract_axioms
      otter_contract.tiny_contract)

lemma arm_types:
  "op_get_type (client_ops lru pops oops order zk zv) (Inl (NewCache a pt n)) = pt"
  "op_get_type (client_ops lru pops oops order zk zv) (Inr (Inl (NewCache b pt n))) = pt"
  "op_get_type (client_ops lru pops oops order zk zv) (Inr (Inr (Inl (NewCache c pt n)))) = pt"
  "op_get_type (client_ops lru pops oops order zk zv) (Inr (Inr (Inr (Inl (NewCache d pt n))))) = pt"
  "op_get_type (client_ops lru pops oops order zk zv) (Inr (Inr (Inr (Inr (NewCache f pt n))))) = pt"
  by (simp_all add: client_ops_def sum_ops_def NewCache_def)

lemma default_arms_built:
  assumes "DefaultArms lru_New lru_New2Q seed n = Inr built"
  shows "\<exists>l c q. lru_New n = Inr l \<and> NewCacheLFU n = Inr c \<and> Adapt n (Some lru_New2Q) = Inr q \<and>
    built = [Some (Inl (NewCache l LRU n)), Some (Inr (Inl (NewCache c LFU n))), Some (Inr (Inr (Inl (NewCache q TwoQueue n)))),
      Some (Inr (Inr (Inr (Inl (NewCache (NewRandom seed n) Random n)))))]"
  using assms
  by (auto simp: DefaultArms_def NewLRU_def NewLFU_policy_def NewTwoQueue_def NewRandomPolicy_def split: sum.splits)

lemma default_arms_iff:
  "(\<exists>built. DefaultArms lru_New lru_New2Q seed n = Inr built) \<longleftrightarrow>
    0 < n \<and> (\<exists>l. lru_New n = Inr l) \<and> (\<exists>q. lru_New2Q n = Inr q)"
  using exported_builds [of n]
  by (auto simp: DefaultArms_def NewLRU_def NewLFU_policy_def NewTwoQueue_def Adapt_def split: sum.splits)

text \<open>The settings and the bandit are always acceptable: only the arms can make \<^verbatim>\<open>Init\<close> panic.\<close>

lemma client_init_accepts:
  assumes "(case cl_Arms c of None \<Rightarrow> default_arms | Some arms \<Rightarrow> arms) capacity = Inr built"
  shows "(\<exists>c'. client_init e hash source default_arms capacity c = Inr c') \<longleftrightarrow>
    built \<noteq> [] \<and> None \<notin> set built \<and> distinct (map (\<lambda>p. op_get_type (policy_iface e) (the p)) built)"
proof -
  let ?b = "Some (NewThompson (if cl_Discount c \<le> 0 \<or> cl_Discount c > 1 then DefaultDiscount else cl_Discount c)
      (source (if cl_Seed c = 0 then DefaultSeed else cl_Seed c)))"
  let ?new = "NewAdaptiveCache e hash built ?b (Some (client_settings c))"
  have "0 \<le> EpochRequests (client_settings c)" "0 < EpochRequests (client_settings c)"
    by (simp_all add: client_settings_def DefaultEpochRequests_def)
  then have "(\<exists>cache. ?new = Inr cache) \<longleftrightarrow>
      built \<noteq> [] \<and> None \<notin> set built \<and> distinct (map (\<lambda>p. op_get_type (policy_iface e) (the p)) built)"
    unfolding construct_accepts by (simp add: max_def)
  moreover have "client_init e hash source default_arms capacity c =
      (case ?new of Inl err \<Rightarrow> Inl (BuildCache capacity err) | Inr cache \<Rightarrow> Inr (c\<lparr>cl_cache := Some cache\<rparr>))"
    using assms by (simp add: client_init_def Let_def)
  ultimately show ?thesis by (cases ?new) simp_all
qed

lemma client_init_cache:
  assumes "client_init e hash source default_arms capacity c = Inr c'"
  shows "\<exists>built b cache. (case cl_Arms c of None \<Rightarrow> default_arms | Some arms \<Rightarrow> arms) capacity = Inr built \<and>
    NewAdaptiveCache e hash built (Some b) (Some (client_settings c)) = Inr cache \<and> c' = c\<lparr>cl_cache := Some cache\<rparr>"
  using assms by (auto simp: client_init_def Let_def split: sum.splits)

subsection \<open>A driven client is a run of the cache\<close>

fun read_value :: "('k, 'v) response \<Rightarrow> 'v option" where
  "read_value (RespValue r) = r"
| "read_value _ = None"

lemma client_step_handle:
  assumes "cl_cache c = Some cache"
  shows "client_step e x c =
    map_option (\<lambda>(cache, r). (c\<lparr>cl_cache := Some cache\<rparr>, read_value r)) (handle e (client_request x) cache)"
  using assms by (cases x) (simp_all add: client_get_def client_set_def option.map_comp comp_def split_beta split: option.split Option.bind_split)

lemma client_run_is_run:
  assumes "cl_cache c = Some cache"
  shows "client_run e xs c =
    map_option (\<lambda>(cache, rs). (c\<lparr>cl_cache := Some cache\<rparr>, map read_value rs)) (run e (map client_request xs) cache)"
  using assms
proof (induction xs arbitrary: c cache)
  case (Cons x xs)
  show ?case
  proof (cases "handle e (client_request x) cache")
    case (Some r)
    obtain cache' resp where r: "handle e (client_request x) cache = Some (cache', resp)" using Some by (cases r) auto
    show ?thesis using Cons.IH [of "c\<lparr>cl_cache := Some cache'\<rparr>" cache']
      by (cases "run e (map client_request xs) cache'") (auto simp: client_step_handle [OF Cons.prems] r)
  qed (simp add: client_step_handle [OF Cons.prems])
qed simp

lemma spec_last_set:
  "fold spec_step (map client_request xs) \<sigma> k = (case last_set k xs of None \<Rightarrow> \<sigma> k | Some v \<Rightarrow> Some v)"
proof (induction xs arbitrary: \<sigma>)
  case (Cons x xs)
  then show ?case by (cases x) (auto split: option.splits)
qed simp

lemma agree_at:
  "all_agree \<sigma> (map client_request xs) resps \<Longrightarrow> i < length xs \<Longrightarrow> xs ! i = ClientGet k \<Longrightarrow> resps ! i = RespValue (Some v) \<Longrightarrow>
    (case last_set k (take i xs) of None \<Rightarrow> \<sigma> k | Some w \<Rightarrow> Some w) = Some v"
proof (induction xs arbitrary: \<sigma> resps i)
  case (Cons x xs)
  obtain r rs where r: "resps = r # rs" using Cons.prems(1) by (cases resps) auto
  show ?case
  proof (cases i)
    case 0
    with Cons.prems r show ?thesis by simp
  next
    case (Suc j)
    from Cons.IH [of "spec_step (client_request x) \<sigma>" rs j] Cons.prems r Suc
    have "(case last_set k (take j xs) of None \<Rightarrow> spec_step (client_request x) \<sigma> k | Some w \<Rightarrow> Some w) = Some v" by simp
    then show ?thesis using Suc by (cases x) (auto split: option.splits if_splits)
  qed
qed simp

lemma agree_length: "all_agree \<sigma> reqs resps \<Longrightarrow> length resps = length reqs"
  by (induction \<sigma> reqs resps rule: all_agree.induct) simp_all

lemma gets_answered:
  assumes "run e (map client_request xs) cache = Some (cache', resps)" and "i < length xs" and "xs ! i = ClientGet k"
  shows "\<exists>r. resps ! i = RespValue r"
  using assms
proof (induction xs arbitrary: cache resps i)
  case (Cons x xs)
  obtain c1 r rs where r: "handle e (client_request x) cache = Some (c1, r)" "run e (map client_request xs) c1 = Some (cache', rs)"
      "resps = r # rs"
    using Cons.prems(1) by (auto simp: bind_eq_Some_conv)
  show ?case
  proof (cases i)
    case 0
    with Cons.prems(3) r show ?thesis by auto
  next
    case (Suc j)
    with Cons.IH [OF r(2), of j] Cons.prems(2,3) r(3) show ?thesis by simp
  qed
qed simp

end
