(* ===== verification/ClientTheorems.thy ===== *)
theory ClientTheorems
  imports BenchClient
begin

text \<open>
  The whole library put together the way the benchmark client does: shipped policies over other libraries'
  caches, wrapped as arms of an adaptive cache with a Thompson bandit and request-driven epochs.
\<close>

text \<open>With its default arms a client builds exactly when the capacity is positive and both libraries accept it.\<close>

lemma default_client_builds:
  fixes e :: "(('l, 'p, 'e, 'o, 'k, 'v) client_arm, 'k, 'v, 'r thompson) env"
    and lru_New :: "int \<Rightarrow> 'e + 'l" and lru_New2Q :: "int \<Rightarrow> 'e + 'p"
  assumes "cl_Arms c = None" and "policy_iface e = client_ops lru pops oops order zk zv"
  shows "(\<exists>c'. client_init e hash source (DefaultArms lru_New lru_New2Q seed) n c = Inr c') \<longleftrightarrow>
    0 < n \<and> (\<exists>l. lru_New n = Inr l) \<and> (\<exists>q. lru_New2Q n = Inr q)"
proof -
  let ?arms = "DefaultArms lru_New lru_New2Q seed n :: 'e arms_error + ('l, 'p, 'e, 'o, 'k, 'v) client_arm option list"
  have iff: "(\<exists>built. ?arms = Inr built) \<longleftrightarrow> 0 < n \<and> (\<exists>l. lru_New n = Inr l) \<and> (\<exists>q. lru_New2Q n = Inr q)"
    by (rule default_arms_iff)
  show ?thesis
  proof (cases ?arms)
    case (Inl err)
    with iff assms(1) show ?thesis by (simp add: client_init_def)
  next
    case (Inr built)
    from default_arms_built [OF Inr] obtain l d q where built:
      "built = [Some (Inl (NewCache l LRU n)), Some (Inr (Inl (NewCache d LFU n))), Some (Inr (Inr (Inl (NewCache q TwoQueue n)))),
        Some (Inr (Inr (Inr (Inl (NewCache (NewRandom seed n) Random n)))))]" by blast
    have "distinct [LRU, LFU, TwoQueue, Random]" by (simp add: names)
    then have "\<exists>c'. client_init e hash source (DefaultArms lru_New lru_New2Q seed) n c = Inr c'"
      using client_init_accepts [where c = c and built = built and e = e] assms Inr by (simp add: built arm_types)
    with iff Inr show ?thesis by metis
  qed
qed

text \<open>C3: A benchmark client with its default arms can be driven at any capacity the libraries accept:
  \<^verbatim>\<open>Init\<close> does not panic, no sequence of \<^verbatim>\<open>Get\<close> and \<^verbatim>\<open>Set\<close> calls panics, and every value a \<^verbatim>\<open>Get\<close> returns is
  the one last set under its key, whatever the epochs and switches it drives along the way and whatever
  the random draws. The libraries' caches need only return what was stored in them.\<close>

theorem client_serves_last_set:
  fixes lru_New2Q :: "int \<Rightarrow> 'e + 'p"
  assumes "cacher_contract lru good1 con1" and "\<And>n l. lru_New n = Inr l \<Longrightarrow> good1 l \<and> con1 l = Map.empty"
    and "partial_contract pops good2 con2 bound lru_New2Q" and "otter_contract oops good3 con3"
    and "policy_iface e = client_ops lru pops oops order zk zv" and "cl_Arms c0 = None"
    and "0 < n" and "lru_New n = Inr l" and "lru_New2Q n = Inr q"
  shows "\<exists>c c' rs. client_init e hash source (DefaultArms lru_New lru_New2Q seed) n c0 = Inr c \<and>
    client_run e xs c = Some (c', rs) \<and> length rs = length xs \<and>
    (\<forall>i k v. i < length xs \<and> xs ! i = ClientGet k \<and> rs ! i = Some v \<longrightarrow> last_set k (take i xs) = Some v)"
proof -
  obtain c where c: "client_init e hash source (DefaultArms lru_New lru_New2Q seed) n c0 = Inr c"
    using default_client_builds [OF assms(6,5)] assms(7-9) by blast
  from client_init_cache [OF c] obtain built b cache where
    built: "DefaultArms lru_New lru_New2Q seed n = Inr built" and
    new: "NewAdaptiveCache e hash built (Some b) (Some (client_settings c0)) = Inr cache" and cc: "cl_cache c = Some cache"
    using assms(6) by auto
  from default_arms_built [OF built] obtain d a l' where arms: "lru_New n = Inr l'" "NewCacheLFU n = Inr d" "Adapt n (Some lru_New2Q) = Inr a"
    "built = [Some (Inl (NewCache l' LRU n)), Some (Inr (Inl (NewCache d LFU n))), Some (Inr (Inr (Inl (NewCache a TwoQueue n)))),
      Some (Inr (Inr (Inr (Inl (NewCache (NewRandom seed n) Random n)))))]" by blast
  let ?ok2 = "adapted_ok good2 con2 bound lru_New2Q" and ?con2 = "\<lambda>c :: ('p, 'e) adapted. con2 (ad_cache c)"
  have contract: "policy_contract (policy_iface e) (client_good good1 ?ok2 good3) (client_content con1 ?con2 con3)"
    unfolding assms(5) by (rule client_contract [OF assms(1) partial_contract.adapted_contract [OF assms(3)] assms(4)])
  have good: "client_good good1 ?ok2 good3 p" if "Some p \<in> set built" for p
    using that assms(2) [OF arms(1)] exported_new [OF arms(2)] partial_contract.Adapt_ok [OF assms(3) arms(3)] NewRandom_inv(1)
    by (auto simp: arms(4) client_good_def NewCache_def)
  have ac: "adaptive_cache e (client_good good1 ?ok2 good3) (client_content con1 ?con2 con3)"
    using contract by (simp add: adaptive_cache_def)
  have empty: "client_content con1 ?con2 con3 (Inl (NewCache l' LRU n)) = Map.empty"
    using assms(2) [OF arms(1)] by (simp add: client_content_def NewCache_def)
  have "hd built = Some (Inl (NewCache l' LRU n))" by (simp add: arms(4))
  with adaptive_cache.construct_ok [OF ac new good] have
    start: "cache_inv e (client_good good1 ?ok2 good3) (client_content con1 ?con2 con3)
      (client_content con1 ?con2 con3 (Inl (NewCache l' LRU n))) cache" "window_open cache" by simp_all
  from adaptive_cache.run_ok [OF ac start(1) [unfolded empty] start(2)] obtain cache' resps where
    run: "run e (map client_request xs) cache = Some (cache', resps)" "all_agree Map.empty (map client_request xs) resps" by blast
  have len: "length resps = length xs" using agree_length [OF run(2)] by simp
  have "last_set k (take i xs) = Some v" if at: "i < length xs" "xs ! i = ClientGet k" "map read_value resps ! i = Some v" for i k v
  proof -
    obtain r where "resps ! i = RespValue r" using gets_answered [OF run(1) at(1,2)] by blast
    with at(1,3) len have "resps ! i = RespValue (Some v)" by simp
    from agree_at [OF run(2) at(1,2) this] show ?thesis by (simp split: option.splits)
  qed
  moreover have "client_run e xs c = Some (c\<lparr>cl_cache := Some cache'\<rparr>, map read_value resps)"
    by (simp add: client_run_is_run [OF cc] run(1))
  ultimately show ?thesis using c len by auto
qed

text \<open>The LFU cache of this repository in the place of every library's.\<close>

definition demo_client :: "(('a, 'b, 'c, 'd, int, int) client_arm, int, unit, 'x) bench_client" where
  "demo_client =
     \<lparr>cl_Arms = None, cl_Label = [], cl_EpochRequests = 2, cl_ShadowSampleRate = 0, cl_MigrationStrategy = MigrationGradual,
      cl_Discount = 0, cl_Seed = 0, cl_cache = None\<rparr>"

definition demo_client_env where
  "demo_client_env =
     \<lparr>policy_iface = client_ops (lfu_ops (\<lambda>_. []) 0 0) (lfu_partial (\<lambda>_. []) 0 0) (lfu_otter (\<lambda>_. []) 0 0) (\<lambda>_. []) 0 (0 :: int),
      zero_value = 0, bandit_iface = thompson_ops (\<lambda>r a b. (r, 0))\<rparr>"

lemma client_serves_last_set_witness:
  "\<exists>c c' rs. client_init demo_client_env (\<lambda>_. 0) (\<lambda>_. ()) (DefaultArms build_lfu build_lfu (\<lambda>i. i)) 2 demo_client = Inr c \<and>
    client_run demo_client_env [ClientSet (1 :: int) 10, ClientGet 1, ClientGet 1, ClientGet 1] c = Some (c', rs) \<and> length rs = 4 \<and>
    (\<forall>v. rs ! 3 = Some v \<longrightarrow> v = 10)"
proof -
  let ?xs = "[ClientSet (1 :: int) 10, ClientGet 1, ClientGet 1, ClientGet 1] :: (int, int) client_call list"
  have new: "lfu_inv l \<and> lfu_content l = Map.empty" if "build_lfu n = Inr l" for n and l :: "(int, int) lfu"
    using adapted_lfu.build_law [OF that] by blast
  have two: "build_lfu 2 = Inr \<lparr>lsize = 2, minFreq = 0, items = Mapping.empty, evictList = Mapping.empty, onEvict = False, calls = []\<rparr>"
    by (simp add: build_lfu_def NewLFU_def)
  have iface: "policy_iface demo_client_env =
      client_ops (lfu_ops (\<lambda>_. []) 0 0) (lfu_partial (\<lambda>_. []) 0 0) (lfu_otter (\<lambda>_. []) 0 0) (\<lambda>_. []) 0 0"
    by (simp add: demo_client_env_def)
  have "\<exists>c c' rs. client_init demo_client_env (\<lambda>_. 0) (\<lambda>_. ()) (DefaultArms build_lfu build_lfu (\<lambda>i. i)) 2 demo_client = Inr c \<and>
    client_run demo_client_env ?xs c = Some (c', rs) \<and> length rs = length ?xs \<and>
    (\<forall>i k v. i < length ?xs \<and> ?xs ! i = ClientGet k \<and> rs ! i = Some v \<longrightarrow> last_set k (take i ?xs) = Some v)"
    by (rule client_serves_last_set [where lru_New = build_lfu and lru_New2Q = build_lfu, OF lfu.cacher_contract_axioms new
          adapted_lfu.partial_contract_axioms tiny_lfu.otter_contract_axioms iface _ _ two two])
      (simp_all add: demo_client_def)
  then obtain c c' rs where run: "client_init demo_client_env (\<lambda>_. 0) (\<lambda>_. ()) (DefaultArms build_lfu build_lfu (\<lambda>i. i)) 2 demo_client = Inr c"
    "client_run demo_client_env ?xs c = Some (c', rs)" "length rs = length ?xs"
    "\<forall>i k v. i < length ?xs \<and> ?xs ! i = ClientGet k \<and> rs ! i = Some v \<longrightarrow> last_set k (take i ?xs) = Some v"
    by (auto simp del: client_run.simps)
  have "\<forall>v. rs ! 3 = Some v \<longrightarrow> v = 10" using run(4) [rule_format, of 3 1] by (simp add: numeral_3_eq_3)
  with run(1-3) show ?thesis by (auto simp del: client_run.simps)
qed

end
