(* ===== verification/Examples.thy ===== *)
theory Examples
  imports ExportedLfu Arms PolicyNames
begin

text \<open>
  The two example servers (\<^verbatim>\<open>src/examples/basic/main.go\<close>, \<^verbatim>\<open>src/examples/migration/main.go\<close>): the adapter of a
  third-party bandit, the handlers, and the cache each program builds. A request is its method and its query,
  whose missing parameters read as the empty string; a response is its status, its content type where a handler
  sets one, and its body, whose rendering as JSON is not modelled. Log lines are dropped, and so are the server
  itself and its shutdown. The third-party bandit is a function \<open>select_arm\<close> from the unit and the rewards to
  the index of an arm, or an error. A panic is \<^term>\<open>None\<close>.
\<close>

subsection \<open>Requests and responses\<close>

record http_request =
  rq_Method :: string
  rq_query :: "string \<Rightarrow> string"

datatype 'b http_body = Plain_text string | Rendered 'b

record 'b http_response =
  rp_Status :: int
  rp_ContentType :: "string option"
  rp_Body :: "'b http_body"

definition respond :: "string \<Rightarrow> 'b http_response" where
  "respond s = \<lparr>rp_Status = 200, rp_ContentType = None, rp_Body = Plain_text s\<rparr>"

definition http_status :: "int \<Rightarrow> 'b http_response" where
  "http_status n = \<lparr>rp_Status = n, rp_ContentType = None, rp_Body = Plain_text []\<rparr>"

definition http_error :: "string \<Rightarrow> int \<Rightarrow> 'b http_response" where
  "http_error s n = \<lparr>rp_Status = n, rp_ContentType = Some ''text/plain; charset=utf-8'', rp_Body = Plain_text (s @ new_line)\<rparr>"

definition http_json :: "'b \<Rightarrow> 'b http_response" where
  "http_json b = \<lparr>rp_Status = 200, rp_ContentType = Some ''application/json'', rp_Body = Rendered b\<rparr>"

text \<open>\<^verbatim>\<open>time.Duration.String\<close>: a fraction without its trailing zeros, and the largest units that fit.\<close>

definition fmt_frac :: "nat \<Rightarrow> nat \<Rightarrow> string" where
  "fmt_frac prec f =
     (let s = rev (dropWhile (\<lambda>c. c = digit_char 0) (rev (pad_left prec (digits 10 f))))
      in if prec = 0 \<or> s = [] then [] else ''.'' @ s)"

definition duration_string :: "int \<Rightarrow> string" where
  "duration_string d =
     (let u = nat \<bar>d\<bar>; scaled = (\<lambda>prec. digits 10 (u div 10 ^ prec) @ fmt_frac prec (u mod 10 ^ prec))
      in (if d < 0 then [minus_sign] else []) @
         (if u = 0 then ''0s''
          else if u < 1000 then scaled 0 @ ''ns''
          else if u < 1000000 then scaled 3 @ [CHR 0xC2, CHR 0xB5] @ ''s''
          else if u < 1000000000 then scaled 6 @ ''ms''
          else (let secs = u div 10 ^ 9; mins = secs div 60; hours = mins div 60
                in (if hours > 0 then digits 10 hours @ ''h'' else []) @
                   (if mins > 0 then digits 10 (mins mod 60) @ ''m'' else []) @
                   digits 10 (secs mod 60) @ fmt_frac 9 (u mod 10 ^ 9) @ ''s'')))"

subsection \<open>The basic example\<close>

record arm_stats =
  as_Hits :: float64
  as_Misses :: float64

type_synonym reward_source = "(policy_type, arm_stats) mapping"

definition NewCacheRewardSource :: "policy_type list \<Rightarrow> reward_source" where
  "NewCacheRewardSource armNames = fold (\<lambda>name. Mapping.update name \<lparr>as_Hits = 0, as_Misses = 0\<rparr>) armNames Mapping.empty"

text \<open>
  The loop of \<^verbatim>\<open>GetRewards\<close> ranges over a map from policy types, so the key, not a position, indexes the
  slice of distributions. \<open>Beta\<close> builds a distribution; a slice element not assigned yet is nil.
\<close>

definition put_reward ::
  "(float64 \<Rightarrow> float64 \<Rightarrow> 'd) \<Rightarrow> reward_source \<Rightarrow> policy_type \<Rightarrow> 'd option list \<Rightarrow> 'd option list option" where
  "put_reward Beta crs i distributions = do {
     arm \<leftarrow> Mapping.lookup crs i;
     slice_set distributions (uint (policy_num i)) (Some (Beta (f64_add (as_Hits arm) 1) (f64_add (as_Misses arm) 1)))
   }"

fun put_rewards ::
  "(float64 \<Rightarrow> float64 \<Rightarrow> 'd) \<Rightarrow> reward_source \<Rightarrow> policy_type list \<Rightarrow> 'd option list \<Rightarrow> 'd option list option" where
  "put_rewards Beta crs [] distributions = Some distributions"
| "put_rewards Beta crs (i # is) distributions = Option.bind (put_reward Beta crs i distributions) (put_rewards Beta crs is)"

definition basic_GetRewards ::
  "(float64 \<Rightarrow> float64 \<Rightarrow> 'd) \<Rightarrow> policy_type list \<Rightarrow> reward_source \<Rightarrow> 'd option list option" where
  "basic_GetRewards Beta order crs = put_rewards Beta crs order (replicate (Mapping.size crs) None)"

definition updateStats :: "policy_type \<Rightarrow> int \<Rightarrow> int \<Rightarrow> reward_source \<Rightarrow> reward_source" where
  "updateStats policy hits misses crs =
     (case Mapping.lookup crs policy of
        None \<Rightarrow> crs
      | Some s \<Rightarrow> Mapping.update policy
          \<lparr>as_Hits = f64_add (as_Hits s) (f64_of_int hits), as_Misses = f64_add (as_Misses s) (f64_of_int misses)\<rparr> crs)"

record basic_adapter =
  ba_rewardStore :: reward_source
  ba_armNames :: "policy_type list"
  ba_unitID :: string

definition NewThompsonBanditAdapter :: "policy_type list \<Rightarrow> basic_adapter" where
  "NewThompsonBanditAdapter armNames =
     \<lparr>ba_rewardStore = NewCacheRewardSource armNames, ba_armNames = armNames, ba_unitID = ''adaptive-selection-cache''\<rparr>"

definition basic_RecordStats :: "basic_adapter \<Rightarrow> shadow_stats \<Rightarrow> basic_adapter" where
  "basic_RecordStats s stats =
     s\<lparr>ba_rewardStore := updateStats (ss_policy stats) (ss_hits stats) (ss_misses stats) (ba_rewardStore s)\<rparr>"

definition basic_SelectPolicy ::
  "(float64 \<Rightarrow> float64 \<Rightarrow> 'd) \<Rightarrow> (string \<Rightarrow> 'd option list \<Rightarrow> int option) \<Rightarrow> policy_type list \<Rightarrow> basic_adapter \<Rightarrow> policy_type option"
  where
  "basic_SelectPolicy Beta select_arm order s = do {
     rewards \<leftarrow> basic_GetRewards Beta order (ba_rewardStore s);
     case select_arm (ba_unitID s) rewards of
       None \<Rightarrow> slice_get (ba_armNames s) 0
     | Some arm \<Rightarrow> slice_get (ba_armNames s) arm
   }"

record user_profile =
  up_Name :: string
  up_Email :: string
  up_CreatedAt :: int

text \<open>Two arms: hashicorp's LRU and the exported LFU cache, wrapped.\<close>

type_synonym ('l, 'k, 'v) example_arm = "'l cache_wrapper + ('k, 'v) lfu_cache cache_wrapper"

definition example_ops ::
  "('l, 'k, 'v) cacher_ops \<Rightarrow> ('k set \<Rightarrow> 'k list) \<Rightarrow> 'k \<Rightarrow> 'v \<Rightarrow> (('l, 'k, 'v) example_arm, 'k, 'v) policy_ops" where
  "example_ops lru order zk zv = sum_ops (wrapper_ops lru) (wrapper_ops (lfu_cache_ops order zk zv))"

datatype 'e main_error = LRUInit 'e | LFUInit lfu_error | CacheInit construct_error | UnknownStrategy string

definition basic_main ::
  "(('l, string, user_profile option) example_arm, string, user_profile option, basic_adapter) env \<Rightarrow> (string \<Rightarrow> 64 word) \<Rightarrow> (int \<Rightarrow> 'e + 'l)
    \<Rightarrow> 'e main_error + (('l, string, user_profile option) example_arm, string, basic_adapter) cache" where
  "basic_main e hash lru_New =
     (case lru_New 100 of
        Inl err \<Rightarrow> Inl (LRUInit err)
      | Inr lruCache \<Rightarrow>
     (case NewCacheLFU 100 of
        Inl err \<Rightarrow> Inl (LFUInit err)
      | Inr lfuCache \<Rightarrow>
          (let policiesList = [Some (Inl (NewCache lruCache LRU 100)), Some (Inr (NewCache lfuCache LFU 100))];
               myBandit = NewThompsonBanditAdapter [LRU, LFU]
           in case NewAdaptiveCache e hash policiesList (Some myBandit)
                     (Some \<lparr>EpochDuration = 5 * 60 * 10 ^ 9, EpochRequests = 0, EvictPartialCapacityFilling = False,
                            MigrationStrategy = MigrationOther 0, MinHitRateImprovement = 0, SwitchCooldownEpochs = 0,
                            MinEpochRequests = 0, ShadowSampleRate = 0, ObserveOnly = False, MinShadowCapacity = 0\<rparr>) of
                Inl err \<Rightarrow> Inl (CacheInit err)
              | Inr cache \<Rightarrow> Inr cache)))"

text \<open>The values are pointers to profiles; printing the name of a nil pointer panics.\<close>

definition basic_get ::
  "('a, string, user_profile option, 'b) env \<Rightarrow> http_request \<Rightarrow> ('a, string, 'b) cache \<Rightarrow> (('a, string, 'b) cache \<times> unit http_response) option"
  where
  "basic_get e r cache =
     (let key = rq_query r ''key'' in
      if key = [] then Some (cache, http_status 400)
      else do {
        (cache, val) \<leftarrow> Get e key cache;
        case val of
          None \<Rightarrow> Some (cache, http_status 404)
        | Some ptr \<Rightarrow> map_option (\<lambda>profile. (cache, respond (up_Name profile))) ptr
      })"

definition basic_set ::
  "('a, string, user_profile option, 'b) env \<Rightarrow> int \<Rightarrow> http_request \<Rightarrow> ('a, string, 'b) cache
    \<Rightarrow> (('a, string, 'b) cache \<times> unit http_response) option"
  where
  "basic_set e now r cache =
     (let key = rq_query r ''key'' in
      if key = [] then Some (cache, http_status 400)
      else let name = rq_query r ''name'' in
      if name = [] then Some (cache, http_status 400)
      else let email = rq_query r ''email'' in
      if email = [] then Some (cache, http_status 400)
      else do {
        (cache, _) \<leftarrow> Add e key (Some \<lparr>up_Name = name, up_Email = email, up_CreatedAt = now\<rparr>) cache;
        Some (cache, respond ''ok'')
      })"

end
