(* ===== verification/ExampleMigration.thy ===== *)
theory ExampleMigration
  imports Examples
begin

text \<open>
  \<^verbatim>\<open>src/examples/migration/main.go\<close>: a bandit whose next selection an operator can force, and the server that
  demonstrates the migration strategies with it. The server and the cache share the bandit, so the server's
  state is the cache, which holds it.
\<close>

subsection \<open>The bandit\<close>

record migration_rewards =
  mr_arms :: "policy_type list"
  mr_stats :: reward_source

definition newCacheRewardSource :: "policy_type list \<Rightarrow> migration_rewards" where
  "newCacheRewardSource arms = \<lparr>mr_arms = arms, mr_stats = NewCacheRewardSource arms\<rparr>"

text \<open>In the order of the arms; an arm without counters would be a nil dereference.\<close>

definition migration_GetRewards :: "(float64 \<Rightarrow> float64 \<Rightarrow> 'd) \<Rightarrow> migration_rewards \<Rightarrow> 'd list option" where
  "migration_GetRewards Beta crs =
     those (map (\<lambda>arm. map_option (\<lambda>s. Beta (f64_add (as_Hits s) 1) (f64_add (as_Misses s) 1)) (Mapping.lookup (mr_stats crs) arm))
       (mr_arms crs))"

definition migration_update :: "policy_type \<Rightarrow> int \<Rightarrow> int \<Rightarrow> migration_rewards \<Rightarrow> migration_rewards" where
  "migration_update p hits misses crs = crs\<lparr>mr_stats := updateStats p hits misses (mr_stats crs)\<rparr>"

record stitchfix_adapter =
  sa_rewardStore :: migration_rewards
  sa_arms :: "policy_type list"
  sa_unitID :: string

definition newStitchfixAdapter :: "policy_type list \<Rightarrow> stitchfix_adapter" where
  "newStitchfixAdapter arms =
     \<lparr>sa_rewardStore = newCacheRewardSource arms, sa_arms = arms, sa_unitID = ''migration-example''\<rparr>"

definition adapter_RecordStats :: "stitchfix_adapter \<Rightarrow> shadow_stats \<Rightarrow> stitchfix_adapter" where
  "adapter_RecordStats a stats =
     a\<lparr>sa_rewardStore := migration_update (ss_policy stats) (ss_hits stats) (ss_misses stats) (sa_rewardStore a)\<rparr>"

definition adapter_SelectPolicy ::
  "(float64 \<Rightarrow> float64 \<Rightarrow> 'd) \<Rightarrow> (string \<Rightarrow> 'd list \<Rightarrow> int option) \<Rightarrow> stitchfix_adapter \<Rightarrow> policy_type option" where
  "adapter_SelectPolicy Beta select_arm a = do {
     rewards \<leftarrow> migration_GetRewards Beta (sa_rewardStore a);
     case select_arm (sa_unitID a) rewards of
       None \<Rightarrow> slice_get (sa_arms a) 0
     | Some arm \<Rightarrow> slice_get (sa_arms a) arm
   }"

record controllable_bandit =
  cb_forced :: policy_type
  cb_inner :: stitchfix_adapter

definition forced_RecordStats :: "controllable_bandit \<Rightarrow> shadow_stats \<Rightarrow> controllable_bandit" where
  "forced_RecordStats b stats = b\<lparr>cb_inner := adapter_RecordStats (cb_inner b) stats\<rparr>"

definition forced_SelectPolicy ::
  "(float64 \<Rightarrow> float64 \<Rightarrow> 'd) \<Rightarrow> (string \<Rightarrow> 'd list \<Rightarrow> int option) \<Rightarrow> controllable_bandit \<Rightarrow> (controllable_bandit \<times> policy_type) option"
  where
  "forced_SelectPolicy Beta select_arm b =
     (let forced = cb_forced b; b = b\<lparr>cb_forced := Undefined\<rparr>
      in if forced \<noteq> Undefined then Some (b, forced)
         else map_option (Pair b) (adapter_SelectPolicy Beta select_arm (cb_inner b)))"

definition force_bandit :: "policy_type \<Rightarrow> controllable_bandit \<Rightarrow> controllable_bandit" where
  "force_bandit p b = b\<lparr>cb_forced := p\<rparr>"

text \<open>
  As a \<^verbatim>\<open>Bandit\<close>. Its selection runs in the goroutine of the epochs, where a panic ends the program: the bandit
  is then \<^term>\<open>None\<close>, and the epoch that asked it panics (\<open>server_tick\<close>).
\<close>

definition controllable_ops ::
  "(float64 \<Rightarrow> float64 \<Rightarrow> 'd) \<Rightarrow> (string \<Rightarrow> 'd list \<Rightarrow> int option) \<Rightarrow> controllable_bandit option bandit_ops" where
  "controllable_ops Beta select_arm =
     \<lparr>bo_record_stats = (\<lambda>b stats. map_option (\<lambda>b. forced_RecordStats b stats) b),
      bo_select_policy = (\<lambda>b. case Option.bind b (forced_SelectPolicy Beta select_arm) of
        None \<Rightarrow> (None, Undefined) | Some (b, p) \<Rightarrow> (Some b, p)),
      bo_record_epoch = None\<rparr>"

subsection \<open>Names\<close>

definition policyName :: "policy_type \<Rightarrow> string" where
  "policyName p = (if p = LRU then ''LRU'' else if p = LFU then ''LFU'' else ''unknown'')"

fun strategyName :: "migration_strategy \<Rightarrow> string" where
  "strategyName MigrationCold = ''cold''"
| "strategyName MigrationWarm = ''warm''"
| "strategyName MigrationGradual = ''gradual''"
| "strategyName (MigrationOther _) = ''unknown''"

fun migrationNote :: "migration_strategy \<Rightarrow> int \<Rightarrow> int \<Rightarrow> string" where
  "migrationNote MigrationCold survived nKeys =
     ''Cold migration: new policy started empty. '' @ format_int (nKeys - survived) @ ''/'' @ format_int nKeys @
     '' keys were lost (expected: all keys lost on first switch).''"
| "migrationNote MigrationWarm survived nKeys =
     ''Warm migration: all key/value pairs were copied at switch time. '' @ format_int survived @ ''/'' @ format_int nKeys @
     '' keys survived immediately.''"
| "migrationNote MigrationGradual survived nKeys =
     ''Gradual migration: each Get() promoted a key from the old policy on first access. '' @ format_int survived @ ''/'' @
     format_int nKeys @ '' keys survived (promoted on demand).''"
| "migrationNote (MigrationOther _) survived nKeys = []"

subsection \<open>The server\<close>

record 'a example_server =
  sv_cache :: "('a, string, controllable_bandit option) cache"
  sv_epochDur :: int
  sv_strategy :: migration_strategy

definition forceNext :: "policy_type \<Rightarrow> 'a example_server \<Rightarrow> 'a example_server" where
  "forceNext p s =
     s\<lparr>sv_cache := (sv_cache s)\<lparr>bandit := (case bandit (sv_cache s) of
        ObserverBandit \<Rightarrow> ObserverBandit | CallerBandit b \<Rightarrow> CallerBandit (map_option (force_bandit p) b))\<rparr>\<rparr>"

record stats_response =
  sr_ActivePolicy :: string
  sr_MigrationStrategy :: string
  sr_EpochDuration :: string
  sr_KeyCount :: int
  sr_Hits :: int
  sr_Misses :: int
  sr_HitRatePct :: string

record demo_report =
  dr_MigrationStrategy :: string
  dr_PolicyBefore :: string
  dr_PolicyAfter :: string
  dr_SeededKeys :: "string list"
  dr_Results :: "(string, string) mapping"
  dr_SurvivedCount :: int
  dr_TotalKeys :: int
  dr_Note :: string

datatype server_json = KeyList "string list" | StatsResponse stats_response | DemoReport demo_report

type_synonym server_response = "server_json http_response"
type_synonym 'a server_env = "('a, string, string, controllable_bandit option) env"

definition handleGet :: "'a server_env \<Rightarrow> http_request \<Rightarrow> 'a example_server \<Rightarrow> ('a example_server \<times> server_response) option" where
  "handleGet e r s =
     (let key = rq_query r ''key'' in
      if key = [] then Some (s, http_error ''key query param is required'' 400)
      else do {
        (cache, val) \<leftarrow> Get e key (sv_cache s);
        let s = s\<lparr>sv_cache := cache\<rparr>;
        case val of
          None \<Rightarrow> Some (s, http_error ''404 page not found'' 404)
        | Some val \<Rightarrow> Some (s, (respond val)\<lparr>rp_ContentType := Some ''text/plain''\<rparr>)
      })"

definition handleSet :: "'a server_env \<Rightarrow> http_request \<Rightarrow> 'a example_server \<Rightarrow> ('a example_server \<times> server_response) option" where
  "handleSet e r s =
     (if rq_Method r \<noteq> ''POST'' then Some (s, http_error ''POST required'' 405)
      else let key = rq_query r ''key''; val = rq_query r ''value'' in
      if key = [] \<or> val = [] then Some (s, http_error ''key and value query params are required'' 400)
      else do {
        (cache, existed) \<leftarrow> Add e key val (sv_cache s);
        let s = s\<lparr>sv_cache := cache\<rparr>;
        if existed then Some (s, respond ''updated'')
        else Some (s, (respond ''created'')\<lparr>rp_Status := 201\<rparr>)
      })"

definition handleKeys :: "'a server_env \<Rightarrow> 'a example_server \<Rightarrow> ('a example_server \<times> server_response) option" where
  "handleKeys e s = map_option (\<lambda>keys. (s, http_json (KeyList keys))) (Keys e (sv_cache s))"

definition handleStats :: "'a server_env \<Rightarrow> 'a example_server \<Rightarrow> ('a example_server \<times> server_response) option" where
  "handleStats e s = do {
     gs \<leftarrow> Stats e (sv_cache s);
     let total = Hits gs + Misses gs;
     let rate = (if total > 0
                 then format_fixed 1 (f64_mul (f64_div (f64_of_int (Hits gs)) (f64_of_int total)) 100) @ ''%'' else ''N/A'');
     n \<leftarrow> Len e (sv_cache s);
     Some (s, http_json (StatsResponse
       \<lparr>sr_ActivePolicy = policyName (ActivePolicy (sv_cache s)), sr_MigrationStrategy = strategyName (sv_strategy s),
        sr_EpochDuration = duration_string (sv_epochDur s), sr_KeyCount = n, sr_Hits = Hits gs, sr_Misses = Misses gs,
        sr_HitRatePct = rate\<rparr>))
   }"

definition switch_target :: "string \<Rightarrow> policy_type option" where
  "switch_target s =
     (if s = ''lru'' \<or> s = ''LRU'' then Some LRU else if s = ''lfu'' \<or> s = ''LFU'' then Some LFU else None)"

definition handleSwitch :: "http_request \<Rightarrow> 'a example_server \<Rightarrow> 'a example_server \<times> server_response" where
  "handleSwitch r s =
     (if rq_Method r \<noteq> ''POST'' then (s, http_error ''POST required'' 405)
      else let dest = rq_query r ''to'' in
      case switch_target dest of
        None \<Rightarrow> (s, http_error (''to must be '' @ [CHR 0x22] @ ''lru'' @ [CHR 0x22] @ '' or '' @ [CHR 0x22] @ ''lfu'' @ [CHR 0x22]) 400)
      | Some policy \<Rightarrow>
          (forceNext policy s,
           respond (''policy switch to '' @ dest @ '' scheduled; takes effect within '' @ duration_string (sv_epochDur s) @ new_line)))"

subsection \<open>The demonstration\<close>

definition demo_key :: "int \<Rightarrow> string" where
  "demo_key i = ''demo-key-'' @ pad_left 2 (format_int i)"

definition demo_value :: "int \<Rightarrow> string" where
  "demo_value i = ''value-'' @ pad_left 2 (format_int i)"

fun seed_keys ::
  "'a server_env \<Rightarrow> int list \<Rightarrow> ('a, string, controllable_bandit option) cache \<Rightarrow> ('a, string, controllable_bandit option) cache option" where
  "seed_keys e [] cache = Some cache"
| "seed_keys e (i # is) cache = do { (cache, _) \<leftarrow> Add e (demo_key i) (demo_value i) cache; seed_keys e is cache }"

fun check_keys ::
  "'a server_env \<Rightarrow> string list \<Rightarrow> ('a, string, controllable_bandit option) cache \<Rightarrow> (string, string) mapping \<Rightarrow> int
    \<Rightarrow> (('a, string, controllable_bandit option) cache \<times> (string, string) mapping \<times> int) option" where
  "check_keys e [] cache results survived = Some (cache, results, survived)"
| "check_keys e (key # keys) cache results survived = do {
     (cache, r) \<leftarrow> Get e key cache;
     if r \<noteq> None then check_keys e keys cache (Mapping.update key ''hit'' results) (survived + 1)
     else check_keys e keys cache (Mapping.update key ''miss'' results) survived
   }"

definition demo_dest :: "string \<Rightarrow> policy_type" where
  "demo_dest policyBefore = (if policyBefore = ''LFU'' then LRU else LFU)"

text \<open>\<open>wait\<close> is what happens to the server while the handler sleeps for an epoch: ticks and other requests.\<close>

definition handleDemo ::
  "'a server_env \<Rightarrow> ('a example_server \<Rightarrow> 'a example_server option) \<Rightarrow> 'a example_server \<Rightarrow> ('a example_server \<times> server_response) option"
  where
  "handleDemo e wait s = do {
     let policyBefore = policyName (ActivePolicy (sv_cache s));
     cache \<leftarrow> seed_keys e [0 .. 9] (sv_cache s);
     let seeds = map demo_key [0 .. 9];
     let s = s\<lparr>sv_cache := cache\<rparr>;
     let s = forceNext (demo_dest policyBefore) s;
     s \<leftarrow> wait s;
     let policyAfter = policyName (ActivePolicy (sv_cache s));
     (cache, results, survived) \<leftarrow> check_keys e seeds (sv_cache s) Mapping.empty 0;
     Some (s\<lparr>sv_cache := cache\<rparr>, http_json (DemoReport
       \<lparr>dr_MigrationStrategy = strategyName (sv_strategy s), dr_PolicyBefore = policyBefore, dr_PolicyAfter = policyAfter,
        dr_SeededKeys = seeds, dr_Results = results, dr_SurvivedCount = survived, dr_TotalKeys = 10,
        dr_Note = migrationNote (sv_strategy s) survived 10\<rparr>))
   }"

subsection \<open>Requests and ticks in any order\<close>

text \<open>
  What can happen to the server: a request for one of its endpoints, or an epoch's tick. The handler of
  \<^verbatim>\<open>GET /demo\<close> takes the locks of the cache and of the bandit one at a time and sleeps, so it counts as its
  parts, between which other requests and ticks can come: ten keys seeded, a selection forced, ten keys read.
\<close>

datatype server_call =
  SrvGet http_request
| SrvSet http_request
| SrvKeys
| SrvStats
| SrvSwitch http_request
| SrvSeed int
| SrvForce policy_type
| SrvCheck int
| SrvTick

text \<open>The epoch's goroutine; when the bandit panicked, so has the program.\<close>

definition server_tick :: "'a server_env \<Rightarrow> 'a example_server \<Rightarrow> 'a example_server option" where
  "server_tick e s = do {
     cache \<leftarrow> runEpoch e (sv_cache s);
     case bandit cache of
       CallerBandit None \<Rightarrow> None
     | _ \<Rightarrow> Some (s\<lparr>sv_cache := cache\<rparr>)
   }"

fun server_step :: "'a server_env \<Rightarrow> server_call \<Rightarrow> 'a example_server \<Rightarrow> 'a example_server option" where
  "server_step e (SrvGet r) s = map_option fst (handleGet e r s)"
| "server_step e (SrvSet r) s = map_option fst (handleSet e r s)"
| "server_step e SrvKeys s = map_option fst (handleKeys e s)"
| "server_step e SrvStats s = map_option fst (handleStats e s)"
| "server_step e (SrvSwitch r) s = Some (fst (handleSwitch r s))"
| "server_step e (SrvSeed i) s = map_option (\<lambda>(cache, _). s\<lparr>sv_cache := cache\<rparr>) (Add e (demo_key i) (demo_value i) (sv_cache s))"
| "server_step e (SrvForce p) s = Some (forceNext p s)"
| "server_step e (SrvCheck i) s = map_option (\<lambda>(cache, _). s\<lparr>sv_cache := cache\<rparr>) (Get e (demo_key i) (sv_cache s))"
| "server_step e SrvTick s = server_tick e s"

fun server_run :: "'a server_env \<Rightarrow> server_call list \<Rightarrow> 'a example_server \<Rightarrow> 'a example_server option" where
  "server_run e [] s = Some s"
| "server_run e (call # rest) s = Option.bind (server_step e call s) (server_run e rest)"

lemma server_run_append: "server_run e (xs @ ys) s = Option.bind (server_run e xs s) (server_run e ys)"
proof (induction xs arbitrary: s)
  case (Cons x xs)
  then show ?case by (cases "server_step e x s") simp_all
qed simp

lemma seed_steps:
  "map_option (\<lambda>cache. s\<lparr>sv_cache := cache\<rparr>) (seed_keys e is (sv_cache s)) = server_run e (map SrvSeed is) s"
proof (induction "is" arbitrary: s)
  case (Cons i rest)
  show ?case
  proof (cases "Add e (demo_key i) (demo_value i) (sv_cache s)")
    case (Some x)
    with Cons [of "s\<lparr>sv_cache := fst x\<rparr>"] show ?thesis by (cases x) simp
  qed simp
qed simp

lemma check_steps:
  "map_option (\<lambda>(cache, _). s\<lparr>sv_cache := cache\<rparr>) (check_keys e (map demo_key is) (sv_cache s) results n) =
    server_run e (map SrvCheck is) s"
proof (induction "is" arbitrary: s results n)
  case (Cons i rest)
  show ?case
  proof (cases "Get e (demo_key i) (sv_cache s)")
    case (Some x)
    then show ?thesis
      using Cons [of "s\<lparr>sv_cache := fst x\<rparr>" "Mapping.update (demo_key i) ''hit'' results" "n + 1"]
        Cons [of "s\<lparr>sv_cache := fst x\<rparr>" "Mapping.update (demo_key i) ''miss'' results" n]
      by (cases x) simp
  qed simp
qed simp

text \<open>The handler is its parts: whatever comes while it sleeps.\<close>

theorem demo_as_steps:
  "map_option fst (handleDemo e (server_run e between) s) =
    server_run e (map SrvSeed [0 .. 9] @ SrvForce (demo_dest (policyName (ActivePolicy (sv_cache s)))) # between @
      map SrvCheck [0 .. 9]) s"
proof (cases "seed_keys e [0 .. 9] (sv_cache s)")
  case None
  then have "server_run e (map SrvSeed [0 .. 9]) s = None" using seed_steps [of s e "[0 .. 9]"] by simp
  with None show ?thesis by (simp add: handleDemo_def server_run_append Let_def)
next
  case (Some cache)
  let ?s = "forceNext (demo_dest (policyName (ActivePolicy (sv_cache s)))) (s\<lparr>sv_cache := cache\<rparr>)"
  have seeded: "server_run e (map SrvSeed [0 .. 9]) s = Some (s\<lparr>sv_cache := cache\<rparr>)"
    using seed_steps [of s e "[0 .. 9]"] Some by simp
  show ?thesis
  proof (cases "server_run e between ?s")
    case None
    with Some seeded show ?thesis by (simp add: handleDemo_def server_run_append Let_def)
  next
    case (Some t)
    with \<open>seed_keys e [0 .. 9] (sv_cache s) = Some cache\<close> seeded show ?thesis
      using check_steps [of t e "[0 .. 9]" Mapping.empty 0]
      by (cases "check_keys e (map demo_key [0 .. 9]) (sv_cache t) Mapping.empty 0")
        (auto simp: handleDemo_def server_run_append Let_def)
  qed
qed

subsection \<open>The program\<close>

definition strategy_flag :: "string \<Rightarrow> migration_strategy option" where
  "strategy_flag s =
     (if s = ''cold'' then Some MigrationCold else if s = ''warm'' then Some MigrationWarm
      else if s = ''gradual'' then Some MigrationGradual else None)"

text \<open>What \<^verbatim>\<open>main\<close> builds from its flags before it serves.\<close>

definition migration_main ::
  "('l, string, string) example_arm server_env \<Rightarrow> (string \<Rightarrow> 64 word) \<Rightarrow> (int \<Rightarrow> 'e + 'l) \<Rightarrow> string \<Rightarrow> int
    \<Rightarrow> 'e main_error + ('l, string, string) example_arm example_server" where
  "migration_main e hash lru_New strategyFlag epochSec =
     (case strategy_flag strategyFlag of
        None \<Rightarrow> Inl (UnknownStrategy strategyFlag)
      | Some migrationStrategy \<Rightarrow>
     (let epochDur = epochSec * 10 ^ 9
      in case lru_New 100 of
           Inl err \<Rightarrow> Inl (LRUInit err)
         | Inr lruCache \<Rightarrow>
     (case NewCacheLFU 100 of
        Inl err \<Rightarrow> Inl (LFUInit err)
      | Inr lfuCache \<Rightarrow>
          (let bandit = \<lparr>cb_forced = Undefined, cb_inner = newStitchfixAdapter [LRU, LFU]\<rparr>;
               pols = [Some (Inl (NewCache lruCache LRU 100)), Some (Inr (NewCache lfuCache LFU 100))]
           in case NewAdaptiveCache e hash pols (Some (Some bandit))
                     (Some \<lparr>EpochDuration = epochDur, EpochRequests = 0, EvictPartialCapacityFilling = True,
                            MigrationStrategy = migrationStrategy, MinHitRateImprovement = 0, SwitchCooldownEpochs = 0,
                            MinEpochRequests = 0, ShadowSampleRate = 0, ObserveOnly = False, MinShadowCapacity = 0\<rparr>) of
                Inl err \<Rightarrow> Inl (CacheInit err)
              | Inr cache \<Rightarrow> Inr \<lparr>sv_cache = cache, sv_epochDur = epochDur, sv_strategy = migrationStrategy\<rparr>))))"

end
