(* ===== verification/ExampleFacts.thy ===== *)
theory ExampleFacts
  imports ExampleMigration RunFacts Adapters
begin

text \<open>
  What the example programs do: the basic example's bandit indexes a slice by policy numbers, which its two arms
  overrun, so its first selection panics; the migration example's forced switch is obeyed by the next epoch.
\<close>

subsection \<open>Reward sources\<close>

lemma new_rewards_keys: "Mapping.keys (NewCacheRewardSource arms) = set arms"
proof -
  have "Mapping.keys (fold (\<lambda>name. Mapping.update name z) arms m) = set arms \<union> Mapping.keys m" for z :: arm_stats and m
    by (induction arms arbitrary: m) auto
  then show ?thesis by (simp add: NewCacheRewardSource_def)
qed

lemma update_rewards_keys [simp]: "Mapping.keys (updateStats p h m crs) = Mapping.keys crs"
  by (auto simp: updateStats_def in_mapping_keys split: option.splits if_splits)

subsection \<open>The basic example\<close>

lemma put_rewards_panic:
  assumes "set order \<subseteq> Mapping.keys crs"
  shows "put_rewards Beta crs order ds = None \<longleftrightarrow> (\<exists>i \<in> set order. int (length ds) \<le> uint (policy_num i))"
  using assms
proof (induction order arbitrary: ds)
  case (Cons i rest)
  obtain arm where arm: "Mapping.lookup crs i = Some arm" using Cons.prems by (auto simp: in_mapping_keys)
  show ?case
  proof (cases "uint (policy_num i) < int (length ds)")
    case True
    with Cons arm show ?thesis by (auto simp: put_reward_def slice_set_def)
  next
    case False
    then show ?thesis by (auto simp: put_reward_def slice_set_def arm)
  qed
qed simp

text \<open>
  Whatever the order the map is ranged over in, the rewards are computed exactly when every policy number is
  below the number of arms. LRU and LFU are numbered one and two.
\<close>

lemma basic_rewards_panic:
  assumes "set order = Mapping.keys crs"
  shows "basic_GetRewards Beta order crs = None \<longleftrightarrow>
    (\<exists>i \<in> Mapping.keys crs. int (card (Mapping.keys crs)) \<le> uint (policy_num i))"
proof -
  have "finite (Mapping.keys crs)" using assms by (metis List.finite_set)
  then show ?thesis using assms put_rewards_panic [of order crs Beta] by (simp add: basic_GetRewards_def Mapping.size_def)
qed

theorem basic_selection_panics:
  assumes "set order = {LRU, LFU}"
  shows "basic_SelectPolicy Beta select_arm order
    (fold (\<lambda>s b. basic_RecordStats b s) reports (NewThompsonBanditAdapter [LRU, LFU])) = None"
proof -
  have keys: "Mapping.keys (ba_rewardStore (fold (\<lambda>s b. basic_RecordStats b s) reports a)) = Mapping.keys (ba_rewardStore a)" for a
    by (induction reports arbitrary: a) (simp_all add: basic_RecordStats_def)
  have "card {LRU, LFU} = 2" by (simp add: names)
  moreover have "uint (policy_num LFU) = 2" by (simp add: names)
  ultimately have "basic_GetRewards Beta order (ba_rewardStore
      (fold (\<lambda>s b. basic_RecordStats b s) reports (NewThompsonBanditAdapter [LRU, LFU]))) = None"
    using assms by (subst basic_rewards_panic) (simp_all add: keys NewThompsonBanditAdapter_def new_rewards_keys)
  then show ?thesis by (simp add: basic_SelectPolicy_def)
qed

subsection \<open>The migration example's adapter\<close>

definition adapter_ok :: "stitchfix_adapter \<Rightarrow> bool" where
  "adapter_ok a \<longleftrightarrow> sa_arms a \<noteq> [] \<and> mr_arms (sa_rewardStore a) = sa_arms a \<and>
     Mapping.keys (mr_stats (sa_rewardStore a)) = set (sa_arms a)"

lemma adapter_new: "arms \<noteq> [] \<Longrightarrow> adapter_ok (newStitchfixAdapter arms)"
  by (simp add: adapter_ok_def newStitchfixAdapter_def newCacheRewardSource_def new_rewards_keys)

lemma adapter_records: "adapter_ok (adapter_RecordStats a s) \<longleftrightarrow> adapter_ok a"
  by (simp add: adapter_ok_def adapter_RecordStats_def migration_update_def)

text \<open>It answers with one of its arms whenever the library names one of the rewards it was given.\<close>

lemma those_total: "(\<And>x. x \<in> set xs \<Longrightarrow> f x \<noteq> None) \<Longrightarrow> \<exists>ys. those (map f xs) = Some ys \<and> length ys = length xs"
  by (induction xs) (auto split: option.splits)

definition arm_in_range :: "(string \<Rightarrow> 'd list \<Rightarrow> int option) \<Rightarrow> bool" where
  "arm_in_range select_arm \<longleftrightarrow>
     (\<forall>unit rewards arm. select_arm unit rewards = Some arm \<longrightarrow> 0 \<le> arm \<and> arm < int (length rewards))"

lemma adapter_selects:
  assumes "adapter_ok a" and "arm_in_range select_arm"
  shows "\<exists>p \<in> set (sa_arms a). adapter_SelectPolicy Beta select_arm a = Some p"
proof -
  let ?f = "\<lambda>arm. map_option (\<lambda>s. Beta (f64_add (as_Hits s) 1) (f64_add (as_Misses s) 1))
    (Mapping.lookup (mr_stats (sa_rewardStore a)) arm)"
  have "?f p \<noteq> None" if "p \<in> set (sa_arms a)" for p using that assms(1) by (auto simp: adapter_ok_def in_mapping_keys)
  then obtain rewards where r: "those (map ?f (sa_arms a)) = Some rewards" "length rewards = length (sa_arms a)"
    using those_total [of "sa_arms a" ?f] by blast
  then have g: "migration_GetRewards Beta (sa_rewardStore a) = Some rewards"
    using assms(1) by (simp add: migration_GetRewards_def adapter_ok_def)
  show ?thesis
  proof (cases "select_arm (sa_unitID a) rewards")
    case None
    with g assms(1) show ?thesis by (auto simp: adapter_SelectPolicy_def adapter_ok_def hd_conv_nth [symmetric])
  next
    case (Some arm)
    then have "0 \<le> arm" "arm < int (length rewards)" using assms(2) by (auto simp: arm_in_range_def)
    with g r Some show ?thesis by (auto simp: adapter_SelectPolicy_def)
  qed
qed

text \<open>The forced policy is selected once, whatever was reported in between; then the adapter decides again.\<close>

lemma forced_once:
  assumes "cb_forced b \<noteq> Undefined"
  shows "forced_SelectPolicy Beta select_arm (fold (\<lambda>s b. forced_RecordStats b s) reports b) =
    Some (fold (\<lambda>s b. forced_RecordStats b s) reports (b\<lparr>cb_forced := Undefined\<rparr>), cb_forced b)"
proof -
  have keep: "cb_forced (forced_RecordStats b s) = cb_forced b"
    "(forced_RecordStats b s)\<lparr>cb_forced := p\<rparr> = forced_RecordStats (b\<lparr>cb_forced := p\<rparr>) s" for b s p
    by (simp_all add: forced_RecordStats_def)
  have "cb_forced (fold (\<lambda>s b. forced_RecordStats b s) reports b) = cb_forced b \<and>
      (fold (\<lambda>s b. forced_RecordStats b s) reports b)\<lparr>cb_forced := Undefined\<rparr> =
        fold (\<lambda>s b. forced_RecordStats b s) reports (b\<lparr>cb_forced := Undefined\<rparr>)" for b
    by (induction reports arbitrary: b) (simp_all add: keep)
  with assms show ?thesis by (simp add: forced_SelectPolicy_def Let_def)
qed

text \<open>Reports leave a bandit alive, and it stays alive when asked.\<close>

lemma controllable_records:
  "fold (\<lambda>s b. bo_record_stats (controllable_ops Beta select_arm) b s) reports (Some b) =
    Some (fold (\<lambda>s b. forced_RecordStats b s) reports b)"
  by (induction reports arbitrary: b) (simp_all add: controllable_ops_def)

lemma records_inner: "adapter_ok (cb_inner (fold (\<lambda>s b. forced_RecordStats b s) reports b)) \<longleftrightarrow> adapter_ok (cb_inner b)"
  by (induction reports arbitrary: b) (simp_all add: forced_RecordStats_def adapter_records)

lemma controllable_selects:
  assumes "adapter_ok (cb_inner b)" and "arm_in_range select_arm"
  obtains b' where "fst (bo_select_policy (controllable_ops Beta select_arm) (Some b)) = Some b'" "adapter_ok (cb_inner b')"
proof -
  obtain p where "adapter_SelectPolicy Beta select_arm (cb_inner b) = Some p" using adapter_selects [OF assms] by blast
  with assms(1) that [of "b\<lparr>cb_forced := Undefined\<rparr>"] show thesis
    by (simp add: controllable_ops_def forced_SelectPolicy_def Let_def)
qed

subsection \<open>An epoch without gates obeys the bandit\<close>

context adaptive_cache begin

lemma runEpoch_obeys:
  assumes c: "ok \<sigma> c" and st: "\<not> ObserveOnly (settings c)" "EvictPartialCapacityFilling (settings c)" "\<not> switchGated (settings c)"
    and b: "\<And>b. told e (closeMigrationLocked e c) b \<Longrightarrow> snd (held_select_policy (bandit_iface e) b) = p"
    and p: "p \<in> set (policyOrder c)" and r: "runEpoch e c = Some c'"
  shows "activePolicy c' = p"
proof -
  let ?d = "closeMigrationLocked e c"
  have d: "ok \<sigma> ?d" by (rule closeMigration_inv [OF c])
  obtain f selected where f: "selectPolicyLocked e ?d = Some (f, selected)" "ok \<sigma> f" "same_roles ?d f"
    using select_ok [OF d] by blast
  have ff: "\<not> migrating f" "settings f = settings c" "policyOrder f = policyOrder c"
    using f(3) by (simp_all add: same_roles_def frames)
  have ns: "\<not> skipped e ?d" using st(2) by (simp add: skipped_def frames)
  have sel: "selected = p" using select_result [OF d f(1)] ns b by (auto simp: prod_eq_iff)
  have has: "hasPolicy p f" using f(2) p ff(3) by (auto simp: hasPolicy_def cache_inv_def well_formed_def)
  have allow: "allowSwitchLocked p f" using st(3) ff(2) by (simp add: allowSwitchLocked_def)
  show ?thesis
  proof (cases "activePolicy f = p")
    case True
    then show ?thesis using r f(1) st(1) ff(2) sel by (auto simp: runEpoch_def)
  next
    case False
    then obtain g where g: "switchLocked e (activePolicy f) p f = Some g" "c' = g\<lparr>lastSwitchEpoch := epochID g, epochID := epochID g + 1\<rparr>"
      using r f(1) st(1) ff(2) sel has allow by (auto simp: runEpoch_def bind_eq_Some_conv)
    from switch_result [OF ok_typed [OF f(2)] ff(1) _ g(1)] False show ?thesis by (simp add: g(2))
  qed
qed

end

subsection \<open>The migration server\<close>

definition server_ok ::
  "'a server_env \<Rightarrow> ('a \<Rightarrow> bool) \<Rightarrow> ('a \<Rightarrow> string \<rightharpoonup> string) \<Rightarrow> 'a example_server \<Rightarrow> bool" where
  "server_ok e good content s \<longleftrightarrow>
     (\<exists>\<sigma>. cache_inv e good content \<sigma> (sv_cache s)) \<and> window_open (sv_cache s) \<and>
     (\<exists>b. bandit (sv_cache s) = CallerBandit (Some b) \<and> adapter_ok (cb_inner b)) \<and>
     policyOrder (sv_cache s) = [LRU, LFU] \<and> EpochRequests (settings (sv_cache s)) = 0 \<and>
     \<not> ObserveOnly (settings (sv_cache s)) \<and> EvictPartialCapacityFilling (settings (sv_cache s)) \<and>
     \<not> switchGated (settings (sv_cache s))"

definition forced_in :: "'a example_server \<Rightarrow> policy_type" where
  "forced_in s = (case bandit (sv_cache s) of CallerBandit (Some b) \<Rightarrow> cb_forced b | _ \<Rightarrow> Undefined)"

lemma fold_records [simp]:
  "fold (\<lambda>s b. held_record_stats bo b s) reports (CallerBandit b) = CallerBandit (fold (\<lambda>s b. bo_record_stats bo b s) reports b)"
  by (induction reports arbitrary: b) simp_all

lemma told_caller:
  "told e c b \<Longrightarrow> \<not> epochBandit c \<Longrightarrow> bandit c = CallerBandit x \<Longrightarrow>
    \<exists>reports. b = CallerBandit (fold (\<lambda>s b. bo_record_stats (bandit_iface e) b s) reports x)"
  by (auto simp: told_def Let_def)

lemma select_caller:
  "held_select_policy bo (CallerBandit b) = (CallerBandit (fst (bo_select_policy bo b)), snd (bo_select_policy bo b))"
  by (simp add: split_beta)

lemma force_cache_inv:
  assumes "cache_inv e good content \<sigma> c" and "bo_record_epoch (bandit_iface e) = None"
  shows "cache_inv e good content \<sigma> (c\<lparr>bandit := b\<rparr>)"
proof -
  have none: "held_record_epoch (bandit_iface e) x = None" for x using assms(2) by (cases x) simp_all
  with assms(1) show ?thesis by (simp add: inv_defs)
qed

context adaptive_cache begin

text \<open>A lookup without a request-driven clock, and a write, leave the control state alone.\<close>

lemma Get_quiet:
  assumes "EpochRequests (settings c) = 0" and "Get e k c = Some (c', r)"
  shows "control c' = control c"
proof -
  obtain d where d: "get_key e k c = Some (d, r)" "countRequest e d = Some c'"
    using assms(2) by (auto simp: Get_def bind_eq_Some_conv)
  note ctl = control_get_key [OF d(1)]
  with assms(1) have "EpochRequests (settings d) = 0" using controlD(6) [OF ctl] by simp
  with d(2) ctl show ?thesis by (simp add: countRequest_def)
qed

end

text \<open>No call panics, each keeps the invariant, and only a switch, a demonstration or a tick touches what is forced.\<close>

fun forces :: "server_call \<Rightarrow> bool" where
  "forces (SrvSwitch r) \<longleftrightarrow> True"
| "forces (SrvForce p) \<longleftrightarrow> True"
| "forces SrvTick \<longleftrightarrow> True"
| "forces _ \<longleftrightarrow> False"

lemma server_kept:
  assumes "server_ok e good content s" and "cache_inv e good content \<sigma> c" "window_open c" "policyOrder c = policyOrder (sv_cache s)"
    and "control c = control (sv_cache s)"
  shows "server_ok e good content (s\<lparr>sv_cache := c\<rparr>) \<and> forced_in (s\<lparr>sv_cache := c\<rparr>) = forced_in s"
  using assms controlD [OF assms(5)] by (auto simp: server_ok_def forced_in_def)

lemma force_ok:
  assumes none: "bo_record_epoch (bandit_iface e) = None" and s: "server_ok e good content s"
  shows "server_ok e good content (forceNext p s)"
proof -
  obtain \<sigma> where ok: "cache_inv e good content \<sigma> (sv_cache s)" using s by (auto simp: server_ok_def)
  have "cache_inv e good content \<sigma> ((sv_cache s)\<lparr>bandit := b\<rparr>)" for b by (rule force_cache_inv [OF ok none])
  with s show ?thesis by (auto simp: server_ok_def forceNext_def force_bandit_def window_open_def intro!: exI [of _ \<sigma>])
qed

text \<open>The bandit an epoch leaves behind.\<close>

lemma tick_ok:
  assumes contract: "policy_contract (policy_iface e) good content" and ops: "bandit_iface e = controllable_ops Beta select_arm"
    and arms: "arm_in_range select_arm" and s: "server_ok e good content s"
  shows "\<exists>s'. server_tick e s = Some s' \<and> server_ok e good content s'"
proof -
  have ac: "adaptive_cache e good content" using contract by (simp add: adaptive_cache_def)
  let ?c = "sv_cache s"
  let ?d = "closeMigrationLocked e ?c"
  obtain \<sigma> where ok: "cache_inv e good content \<sigma> ?c" using s by (auto simp: server_ok_def)
  obtain b where b: "bandit ?c = CallerBandit (Some b)" "adapter_ok (cb_inner b)" using s by (auto simp: server_ok_def)
  obtain c' where t: "runEpoch e ?c = Some c'" "cache_inv e good content \<sigma> c'" "window_open c'"
      "settings c' = settings ?c" "policyOrder c' = policyOrder ?c" using adaptive_cache.runEpoch_ok [OF ac ok] by blast
  have eb: "\<not> epochBandit ?d"
  proof -
    have "cache_inv e good content \<sigma> ?d" by (rule adaptive_cache.closeMigration_inv [OF ac ok])
    moreover have "held_record_epoch (bandit_iface e) x = None" for x by (cases x) (simp_all add: ops controllable_ops_def)
    ultimately show ?thesis by (simp add: cache_inv_def well_formed_def)
  qed
  have bd: "bandit ?d = CallerBandit (Some b)" using controlD(7) [OF control_close [of e ?c]] b by simp
  have asked: "\<exists>b'. fst (held_select_policy (bandit_iface e) x) = CallerBandit (Some b') \<and> adapter_ok (cb_inner b')"
    if told: "told e ?d x" for x
  proof -
    obtain reports where x: "x = CallerBandit (Some (fold (\<lambda>s b. forced_RecordStats b s) reports b))"
      using told_caller [OF told eb bd] by (auto simp: ops controllable_records)
    have "adapter_ok (cb_inner (fold (\<lambda>s b. forced_RecordStats b s) reports b))" using b(2) by (simp add: records_inner)
    from controllable_selects [OF this arms] show ?thesis
      unfolding x select_caller ops by (metis fst_conv)
  qed
  have "\<exists>b'. bandit c' = CallerBandit (Some b') \<and> adapter_ok (cb_inner b')"
    using adaptive_cache.runEpoch_result [OF ac ok t(1)] b asked by (auto split: if_splits)
  with t s show ?thesis by (auto simp: server_tick_def server_ok_def)
qed

lemma server_step_ok:
  assumes contract: "policy_contract (policy_iface e) good content" and ops: "bandit_iface e = controllable_ops Beta select_arm"
    and arms: "arm_in_range select_arm" and s: "server_ok e good content s"
  shows "\<exists>s'. server_step e call s = Some s' \<and> server_ok e good content s' \<and> (\<not> forces call \<longrightarrow> forced_in s' = forced_in s)"
proof -
  have ac: "adaptive_cache e good content" using contract by (simp add: adaptive_cache_def)
  have none: "bo_record_epoch (bandit_iface e) = None" by (simp add: ops controllable_ops_def)
  let ?c = "sv_cache s"
  obtain \<sigma> where ok: "cache_inv e good content \<sigma> ?c" "window_open ?c" using s by (auto simp: server_ok_def)
  have quiet: "EpochRequests (settings ?c) = 0" using s by (simp add: server_ok_def)
  have active: "policies ?c (activePolicy ?c) \<noteq> None" using ok(1) by (simp add: cache_inv_def well_formed_def)
  have get: "\<exists>c' v. Get e k ?c = Some (c', v) \<and> server_ok e good content (s\<lparr>sv_cache := c'\<rparr>) \<and>
      forced_in (s\<lparr>sv_cache := c'\<rparr>) = forced_in s" for k
  proof -
    obtain c' v where g: "Get e k ?c = Some (c', v)" "cache_inv e good content \<sigma> c'" "window_open c'"
      "policyOrder c' = policyOrder ?c" using adaptive_cache.Get_ok [OF ac ok] by blast
    from server_kept [OF s g(2-4) adaptive_cache.Get_quiet [OF ac quiet g(1)]] g(1) show ?thesis by blast
  qed
  have add: "\<exists>c' ev. Add e k v ?c = Some (c', ev) \<and> server_ok e good content (s\<lparr>sv_cache := c'\<rparr>) \<and>
      forced_in (s\<lparr>sv_cache := c'\<rparr>) = forced_in s" for k v
  proof -
    obtain c' ev \<tau> where a: "Add e k v ?c = Some (c', ev)" "cache_inv e good content \<tau> c'"
        "window_open c'" "policyOrder c' = policyOrder ?c" using adaptive_cache.Add_ok [OF ac ok] by blast
    from server_kept [OF s a(2-4) control_Add [OF a(1)]] a(1) show ?thesis by blast
  qed
  show ?thesis
  proof (cases call)
    case (SrvGet r)
    then show ?thesis using s get [of "rq_query r ''key''"] by (auto simp: handleGet_def Let_def split: option.splits)
  next
    case (SrvSet r)
    then show ?thesis using s add [of "rq_query r ''key''" "rq_query r ''value''"] by (auto simp: handleSet_def Let_def)
  next
    case SrvKeys
    then show ?thesis using s active by (auto simp: handleKeys_def Keys_def)
  next
    case SrvStats
    then show ?thesis using s active by (auto simp: handleStats_def Stats_def Len_def Let_def)
  next
    case (SrvSwitch r)
    then show ?thesis using s force_ok [OF none s] by (auto simp: handleSwitch_def Let_def split: option.splits)
  next
    case (SrvSeed i)
    then show ?thesis using add [of "demo_key i" "demo_value i"] by auto
  next
    case (SrvForce p)
    then show ?thesis using force_ok [OF none s] by simp
  next
    case (SrvCheck i)
    then show ?thesis using get [of "demo_key i"] by auto
  next
    case SrvTick
    then show ?thesis using tick_ok [OF contract ops arms s] by simp
  qed
qed

lemma server_run_ok:
  assumes "policy_contract (policy_iface e) good content" and "bandit_iface e = controllable_ops Beta select_arm"
    and "arm_in_range select_arm" and "server_ok e good content s"
  shows "\<exists>s'. server_run e xs s = Some s' \<and> server_ok e good content s' \<and>
    ((\<forall>x \<in> set xs. \<not> forces x) \<longrightarrow> forced_in s' = forced_in s)"
  using assms(4)
proof (induction xs arbitrary: s)
  case (Cons x xs)
  from server_step_ok [OF assms(1-3) Cons.prems, of x] obtain s1 where
    1: "server_step e x s = Some s1" "server_ok e good content s1" "\<not> forces x \<longrightarrow> forced_in s1 = forced_in s" by blast
  from Cons.IH [OF 1(2)] 1 show ?case by fastforce
qed simp

text \<open>The tick after a forced selection makes the forced policy the active one.\<close>

lemma forced_tick:
  assumes contract: "policy_contract (policy_iface e) good content" and ops: "bandit_iface e = controllable_ops Beta select_arm"
    and arms: "arm_in_range select_arm"
    and s: "server_ok e good content s" and p: "forced_in s = p" "p \<noteq> Undefined" "p \<in> {LRU, LFU}"
  shows "\<exists>s'. server_step e SrvTick s = Some s' \<and> ActivePolicy (sv_cache s') = p"
proof -
  have ac: "adaptive_cache e good content" using contract by (simp add: adaptive_cache_def)
  let ?c = "sv_cache s"
  let ?d = "closeMigrationLocked e ?c"
  obtain \<sigma> where ok: "cache_inv e good content \<sigma> ?c" using s by (auto simp: server_ok_def)
  obtain b where b: "bandit ?c = CallerBandit (Some b)" "cb_forced b = p" using s p(1) by (auto simp: server_ok_def forced_in_def)
  have bd: "bandit ?d = CallerBandit (Some b)" using controlD(7) [OF control_close [of e ?c]] b by simp
  have "cache_inv e good content \<sigma> ?d" by (rule adaptive_cache.closeMigration_inv [OF ac ok])
  moreover have "held_record_epoch (bandit_iface e) x = None" for x by (cases x) (simp_all add: ops controllable_ops_def)
  ultimately have eb: "\<not> epochBandit ?d" by (simp add: cache_inv_def well_formed_def)
  have sel: "snd (held_select_policy (bandit_iface e) x) = p" if told: "told e ?d x" for x
  proof -
    obtain reports where x: "x = CallerBandit (Some (fold (\<lambda>s b. forced_RecordStats b s) reports b))"
      using told_caller [OF told eb bd] by (auto simp: ops controllable_records)
    show ?thesis using forced_once [of b Beta select_arm reports] b(2) p(2)
      unfolding x select_caller ops by (simp add: controllable_ops_def)
  qed
  obtain s' where t: "server_tick e s = Some s'" using tick_ok [OF contract ops arms s] by blast
  obtain c' where "runEpoch e ?c = Some c'" using adaptive_cache.runEpoch_ok [OF ac ok] by blast
  with t have r: "runEpoch e ?c = Some c'" "sv_cache s' = c'"
    by (auto simp: server_tick_def split: held_bandit.splits option.splits)
  have "p \<in> set (policyOrder ?c)" using s p(3) by (simp add: server_ok_def)
  then have "activePolicy c' = p"
    using s by (intro adaptive_cache.runEpoch_obeys [OF ac ok _ _ _ sel _ r(1)]) (simp_all add: server_ok_def)
  with r t show ?thesis by (simp add: ActivePolicy_def)
qed

subsection \<open>The server the program builds\<close>

lemma demote_fold_fields:
  "policyOrder (fold (\<lambda>pt c. if pt \<noteq> activePolicy c then demoteLocked e pt c else c) pts c) = policyOrder c"
  "bandit (fold (\<lambda>pt c. if pt \<noteq> activePolicy c then demoteLocked e pt c else c) pts c) = bandit c"
  by (induction pts arbitrary: c) (simp_all add: frames controlD(7) [OF control_demote])

lemma construct_fields:
  assumes "NewAdaptiveCache e hash pols b (Some st) = Inr c"
    and "register_policies (policy_iface e) pols Map.empty [] = Inr (available, order)"
  shows "policyOrder c = sort order \<and> bandit c = (case b of None \<Rightarrow> ObserverBandit | Some b \<Rightarrow> CallerBandit b)"
  using assms
  by (auto simp: NewAdaptiveCache_def Let_def initShadowDutyLocked_def demote_fold_fields split: if_splits option.splits)

lemma migration_main_builds:
  assumes "cacher_contract lru good content" and "good l"
    and e: "policy_iface e = example_ops lru order zk zv" "bandit_iface e = controllable_ops Beta select_arm"
    and flag: "strategy_flag flag = Some strategy" and "0 < sec" and l: "lru_New 100 = Inr l"
  shows "\<exists>s. migration_main e hash lru_New flag sec = Inr s \<and> sv_strategy s = strategy \<and>
    server_ok e (case_sum (wrapped good) (wrapped exported_inv)) (case_sum (wrapped content) (wrapped exported_content)) s"
proof -
  let ?good = "case_sum (wrapped good) (wrapped exported_inv)" and ?con = "case_sum (wrapped content) (wrapped exported_content)"
  have contract: "policy_contract (policy_iface e) ?good ?con"
    unfolding e(1) example_ops_def
    by (intro sum_policy cacher_contract.wrapped_policy assms(1) exported.cacher_contract_axioms)
  then have ac: "adaptive_cache e ?good ?con" by (simp add: adaptive_cache_def)
  obtain d :: "(string, string) lfu_cache" where d: "NewCacheLFU 100 = Inr d" using exported_builds [of 100] by auto
  let ?pols = "[Some (Inl (NewCache l LRU 100)), Some (Inr (NewCache d LFU 100))]"
  let ?bandit = "\<lparr>cb_forced = Undefined, cb_inner = newStitchfixAdapter [LRU, LFU]\<rparr>"
  let ?st = "\<lparr>EpochDuration = sec * 10 ^ 9, EpochRequests = 0, EvictPartialCapacityFilling = True,
    MigrationStrategy = strategy, MinHitRateImprovement = 0, SwitchCooldownEpochs = 0,
    MinEpochRequests = 0, ShadowSampleRate = 0, ObserveOnly = False, MinShadowCapacity = 0\<rparr>"
  have types: "op_get_type (policy_iface e) (Inl (NewCache l LRU 100)) = LRU" "op_get_type (policy_iface e) (Inr (NewCache d LFU 100)) = LFU"
    by (simp_all add: e(1) example_ops_def sum_ops_def NewCache_def)
  have "LRU \<noteq> LFU" by (simp add: names)
  with assms(6) have "\<exists>c. NewAdaptiveCache e hash ?pols (Some (Some ?bandit)) (Some ?st) = Inr c"
    unfolding construct_accepts by (simp add: types)
  then obtain c where new: "NewAdaptiveCache e hash ?pols (Some (Some ?bandit)) (Some ?st) = Inr c" by blast
  have good: "?good p" if "Some p \<in> set ?pols" for p
    using that assms(2) exported_new [OF d] by (auto simp: NewCache_def)
  from adaptive_cache.construct_ok [OF ac new good] obtain \<sigma> where
    ok: "cache_inv e ?good ?con \<sigma> c" "window_open c" "settings c = ?st" by auto
  have reg: "register_policies (policy_iface e) ?pols Map.empty [] =
      Inr ([LRU \<mapsto> Inl (NewCache l LRU 100), LFU \<mapsto> Inr (NewCache d LFU 100)], [LRU, LFU])"
    using \<open>LRU \<noteq> LFU\<close> by (simp add: types)
  have order: "policyOrder c = sort [LRU, LFU]" and b: "bandit c = CallerBandit (Some ?bandit)"
    using construct_fields [OF new reg] by simp_all
  have "sort [LRU, LFU] = [LRU, LFU]" by (simp add: names)
  with order ok b have "server_ok e ?good ?con \<lparr>sv_cache = c, sv_epochDur = sec * 10 ^ 9, sv_strategy = strategy\<rparr>"
    using adapter_new [of "[LRU, LFU]"] by (auto simp: server_ok_def switchGated_def)
  moreover have "migration_main e hash lru_New flag sec = Inr \<lparr>sv_cache = c, sv_epochDur = sec * 10 ^ 9, sv_strategy = strategy\<rparr>"
    using new by (simp add: migration_main_def flag l d Let_def)
  ultimately show ?thesis by auto
qed

end
