(* ===== verification/ExampleTheorems.thy ===== *)
theory ExampleTheorems
  imports ExampleFacts
begin

text \<open>
  The migration example's promise to its operator: a policy switch scheduled over HTTP takes effect at the next
  epoch's tick.
\<close>

text \<open>C31: A scheduled switch takes effect: from the server the migration example builds with any strategy, after
  any requests and ticks, demonstrations among them, a \<^verbatim>\<open>POST /switch\<close> to a policy, followed by any requests that
  schedule no other switch (neither another \<^verbatim>\<open>POST /switch\<close> nor the forcing step of a \<^verbatim>\<open>GET /demo\<close>), makes that
  policy the active one at the next tick, whatever the adaptive bandit would have selected. No request and no
  tick of such a run panics, given that the third-party bandit selects one of the arms it is given rewards for.\<close>

theorem forced_switch_obeyed:
  assumes "cacher_contract lru good content" and "good l"
    and "policy_iface e = example_ops lru order zk zv" and "bandit_iface e = controllable_ops Beta select_arm"
    and "strategy_flag flag = Some strategy" and "0 < sec" and "lru_New 100 = Inr l"
    and "arm_in_range select_arm" and "rq_Method r = ''POST''" and "switch_target (rq_query r ''to'') = Some p"
    and "\<forall>call \<in> set later. \<not> forces call"
  shows "\<exists>s s'. migration_main e hash lru_New flag sec = Inr s \<and>
    server_run e (before @ SrvSwitch r # later @ [SrvTick]) s = Some s' \<and> ActivePolicy (sv_cache s') = p"
proof -
  let ?good = "case_sum (wrapped good) (wrapped exported_inv)" and ?con = "case_sum (wrapped content) (wrapped exported_content)"
  have contract: "policy_contract (policy_iface e) ?good ?con"
    unfolding assms(3) example_ops_def
    by (intro sum_policy cacher_contract.wrapped_policy assms(1) exported.cacher_contract_axioms)
  note step_ok = server_step_ok [OF contract assms(4,8)] and run_ok = server_run_ok [OF contract assms(4,8)]
  obtain s where s: "migration_main e hash lru_New flag sec = Inr s" "server_ok e ?good ?con s"
    using migration_main_builds [where lru_New = lru_New and good = good and l = l, OF assms(1-7)] by blast
  obtain s1 where s1: "server_run e before s = Some s1" "server_ok e ?good ?con s1"
    using run_ok [OF s(2)] by blast
  let ?s2 = "fst (handleSwitch r s1)"
  have s2: "server_ok e ?good ?con ?s2" using step_ok [OF s1(2), of "SrvSwitch r"] by simp
  have forced: "forced_in ?s2 = p"
    using s1(2) assms(9,10) by (auto simp: handleSwitch_def Let_def forced_in_def forceNext_def force_bandit_def server_ok_def)
  obtain s3 where s3: "server_run e later ?s2 = Some s3" "server_ok e ?good ?con s3" "forced_in s3 = p"
    using run_ok [OF s2, of later] assms(11) forced by auto
  have "p \<noteq> Undefined" "p \<in> {LRU, LFU}" using assms(10) by (auto simp: switch_target_def names split: if_splits)
  then obtain s' where "server_step e SrvTick s3 = Some s'" "ActivePolicy (sv_cache s') = p"
    using forced_tick [OF contract assms(4,8) s3(2,3)] by blast
  then have "server_run e [SrvTick] s3 = Some s'" "ActivePolicy (sv_cache s') = p" by auto
  then show ?thesis using s(1) s1(1) s3(1)
    by (simp add: server_run_append del: server_run.simps(2) add: server_run.simps(2) [of e "SrvSwitch r"])
qed

text \<open>On the LFU cache in the place of hashicorp's LRU, with a bandit that always prefers the first arm.\<close>

definition demo_server_env :: "((string, string) lfu, string, string) example_arm server_env" where
  "demo_server_env =
     \<lparr>policy_iface = example_ops (lfu_ops (\<lambda>_. []) [] []) (\<lambda>_. []) [] [], zero_value = [],
      bandit_iface = controllable_ops (\<lambda>a b. a / (a + b)) (\<lambda>_ rewards. if rewards = [] then None else Some 0)\<rparr>"

definition demo_request :: "string \<Rightarrow> (string \<times> string) list \<Rightarrow> http_request" where
  "demo_request m ps = \<lparr>rq_Method = m, rq_query = (\<lambda>x. case map_of ps x of None \<Rightarrow> [] | Some v \<Rightarrow> v)\<rparr>"

lemma forced_switch_obeyed_witness:
  "\<exists>s s'. migration_main demo_server_env (\<lambda>_. 0) build_lfu ''gradual'' 5 = Inr s \<and>
    server_run demo_server_env ([SrvSet (demo_request ''POST'' [(''key'', ''a''), (''value'', ''b'')]), SrvForce LRU, SrvTick] @
      SrvSwitch (demo_request ''POST'' [(''to'', ''lfu'')]) # [SrvGet (demo_request ''GET'' [(''key'', ''a'')]), SrvCheck 3] @ [SrvTick]) s = Some s' \<and>
    ActivePolicy (sv_cache s') = LFU"
proof (rule forced_switch_obeyed [OF lfu.cacher_contract_axioms])
  show "policy_iface demo_server_env = example_ops (lfu_ops (\<lambda>_. []) [] []) (\<lambda>_. []) [] []"
    "bandit_iface demo_server_env = controllable_ops (\<lambda>a b. a / (a + b)) (\<lambda>_ rewards. if rewards = [] then None else Some 0)"
    by (simp_all add: demo_server_env_def)
  show build: "build_lfu 100 = Inr \<lparr>lsize = 100, minFreq = 0, items = Mapping.empty, evictList = Mapping.empty, onEvict = False, calls = []\<rparr>"
    by (simp add: build_lfu_def NewLFU_def)
  show "lfu_inv \<lparr>lsize = 100, minFreq = 0, items = Mapping.empty, evictList = Mapping.empty, onEvict = False, calls = []\<rparr>"
    using adapted_lfu.build_law [OF build] by blast
qed (simp_all add: strategy_flag_def demo_request_def switch_target_def arm_in_range_def)

end
