(* ===== verification/BenchFleet.thy ===== *)
theory BenchFleet
  imports BenchFacts BenchClient Distributed Trace
begin

text \<open>
  What the benchmarks replay against (\<^verbatim>\<open>src/bench/harness.go\<close>, \<^verbatim>\<open>src/bench/fleet.go\<close>, \<^verbatim>\<open>src/bench/competitors.go\<close>): one
  builder per shipped policy, the fleets of adaptive caches with local or pooled bandits, the fixed-policy
  baseline, and the rival libraries seen through the harness's two methods; and the discovery of trace files
  (\<^verbatim>\<open>src/bench/trace.go\<close>). Other projects' caches, their constructors and the file system are parameters.
\<close>

subsection \<open>Every shipped policy\<close>

text \<open>A builder that panics has no result, \<^term>\<open>None\<close>: \<^verbatim>\<open>NewTTL\<close> panics where the others return an error.\<close>

record ('a, 'e) policy_builder =
  pb_Name :: string
  pb_Build :: "int \<Rightarrow> ('e + 'a) option"

text \<open>The dynamic types of the seven policies: those of the benchmark client's arms, the expiring cache and ARC.\<close>

type_synonym ('l, 'p, 'x, 'o, 't, 'q, 'k, 'v) bench_arm =
  "('l, 'p, 'x, 'o, 'k, 'v) client_arm + 't ttl_cache cache_wrapper + ('q, 'x) adapted cache_wrapper"

definition bench_ops ::
  "('l, 'k, 'v) cacher_ops \<Rightarrow> ('p, 'k, 'v) partial_ops \<Rightarrow> ('o, 'k, 'v) otter_ops \<Rightarrow> ('t ttl_cache, 'k, 'v) cacher_ops \<Rightarrow>
    ('q, 'k, 'v) partial_ops \<Rightarrow> ('k set \<Rightarrow> 'k list) \<Rightarrow> 'k \<Rightarrow> 'v \<Rightarrow> (('l, 'p, 'x, 'o, 't, 'q, 'k, 'v) bench_arm, 'k, 'v) policy_ops" where
  "bench_ops lru twoq oops ttl arc order zk zv =
     sum_ops (client_ops lru twoq oops order zk zv) (sum_ops (wrapper_ops ttl) (wrapper_ops (adapted_ops arc)))"

text \<open>The libraries' constructors.\<close>

record ('l, 'p, 'o, 't, 'q, 'e) libraries =
  lib_LRU :: "int \<Rightarrow> 'e + 'l"
  lib_2Q :: "int \<Rightarrow> 'e + 'p"
  lib_TTL :: "int \<Rightarrow> 't option"
  lib_ARC :: "int \<Rightarrow> 'e + 'q"
  lib_otter :: "int \<Rightarrow> 'e + 'o"

definition built :: "('a \<Rightarrow> 'b) \<Rightarrow> 'e + 'a \<Rightarrow> ('e + 'b) option" where
  "built f r = Some (map_sum id f r)"

definition FixedPolicies ::
  "('l, 'p, 'o, 't, 'q, 'e) libraries \<Rightarrow> (nat \<Rightarrow> nat)
    \<Rightarrow> (('l, 'p, 'e, 'o, 't, 'q, 'k, 'v) bench_arm, 'e build_error) policy_builder list" where
  "FixedPolicies lib seed =
     [\<lparr>pb_Name = ''LRU'', pb_Build = (\<lambda>sz. built (\<lambda>w. Inl (Inl w)) (NewLRU (lib_LRU lib) sz))\<rparr>,
      \<lparr>pb_Name = ''LFU'', pb_Build = (\<lambda>sz. built (\<lambda>w. Inl (Inr (Inl w))) (NewLFU_policy sz))\<rparr>,
      \<lparr>pb_Name = ''2Q'', pb_Build = (\<lambda>sz. built (\<lambda>w. Inl (Inr (Inr (Inl w)))) (NewTwoQueue (lib_2Q lib) sz))\<rparr>,
      \<lparr>pb_Name = ''Random'', pb_Build = (\<lambda>sz. Some (Inr (Inl (Inr (Inr (Inr (Inl (NewRandomPolicy seed sz))))))))\<rparr>,
      \<lparr>pb_Name = ''TTL'', pb_Build = (\<lambda>sz. map_option (\<lambda>w. Inr (Inr (Inl w))) (NewTTL (lib_TTL lib) sz (3600 * 10 ^ 9)))\<rparr>,
      \<lparr>pb_Name = ''ARC'', pb_Build = (\<lambda>sz. built (\<lambda>w. Inr (Inr w)) (arc_NewPolicy (lib_ARC lib) sz))\<rparr>,
      \<lparr>pb_Name = ''W-TinyLFU'', pb_Build = (\<lambda>sz. built (\<lambda>w. Inl (Inr (Inr (Inr (Inr w))))) (tiny_NewPolicy (lib_otter lib) sz))\<rparr>]"

text \<open>A build that failed, under the name of its builder.\<close>

datatype 'e fleet_error =
    BuildArm string 'e
  | BuildFixed string 'e
  | BuildBandit config_error
  | BuildReplica construct_error

text \<open>\<^verbatim>\<open>AdaptiveArms\<close>: the loop over the builders, left at the first error.\<close>

fun adaptive_arms ::
  "('a, 'e) policy_builder list \<Rightarrow> int \<Rightarrow> 'a option list \<Rightarrow> ('e fleet_error + 'a option list) option" where
  "adaptive_arms [] sz arms = Some (Inr arms)"
| "adaptive_arms (builder # builders) sz arms = do {
     r \<leftarrow> pb_Build builder sz;
     case r of
       Inl err \<Rightarrow> Some (Inl (BuildArm (pb_Name builder) err))
     | Inr policy \<Rightarrow> adaptive_arms builders sz (arms @ [Some policy])
   }"

definition AdaptiveArms ::
  "('a, 'e) policy_builder list \<Rightarrow> int \<Rightarrow> ('e fleet_error + 'a option list) option" where
  "AdaptiveArms fixed_policies sz = adaptive_arms fixed_policies sz []"

subsection \<open>Fleets of adaptive caches\<close>

text \<open>A setup: its name, and the bandit of a replica. Closing a bandit stops its goroutine and is not modelled.\<close>

record 'b fleet_setup =
  fs_Name :: string
  fs_Bandit :: "int \<Rightarrow> config_error + 'b"

definition LocalFleet :: "(64 word \<Rightarrow> 'r) \<Rightarrow> float64 \<Rightarrow> 64 word \<Rightarrow> 'r thompson fleet_setup" where
  "LocalFleet source discount seed =
     \<lparr>fs_Name = ''local'', fs_Bandit = (\<lambda>replica. Inr (NewThompson discount (source (seed + word_of_int replica))))\<rparr>"

definition PooledFleet ::
  "process \<Rightarrow> (64 word \<Rightarrow> 64 word \<Rightarrow> 'r) \<Rightarrow> string \<Rightarrow> mode \<Rightarrow> int \<Rightarrow> 64 word \<Rightarrow> ('r, 'e) distributed fleet_setup" where
  "PooledFleet sys seed_rng name mode epoch seed =
     \<lparr>fs_Name = name,
      fs_Bandit = (\<lambda>replica. newDistributed sys seed_rng
        \<lparr>cfg_HasStore = True, cfg_Namespace = ''bench'', cfg_NodeID = ''r'' @ format_int replica,
         cfg_CoordinationEpoch = epoch, cfg_Window = 8, cfg_Decay = 0, cfg_MaxEvidence = 0, cfg_Mode = mode,
         cfg_Evidence = EvidenceMode 0, cfg_FallbackAfter = 0, cfg_SyncTimeout = 0, cfg_LocalDiscount = 0,
         cfg_Jitter = 0, cfg_Seed = seed + word_of_int replica\<rparr>)\<rparr>"

text \<open>The loop of \<^verbatim>\<open>replayFleet\<close> that builds the replicas, before any of them serves.\<close>

fun build_replicas ::
  "('a, 'k, 'v, 'b) env \<Rightarrow> ('k \<Rightarrow> 64 word) \<Rightarrow> ('a, 'e) policy_builder list \<Rightarrow> 'b fleet_setup \<Rightarrow> int \<Rightarrow> cache_settings
    \<Rightarrow> int list \<Rightarrow> ('a, 'k, 'b) cache list \<Rightarrow> ('e fleet_error + ('a, 'k, 'b) cache list) option" where
  "build_replicas e hash fixed_policies setup sz st [] caches = Some (Inr caches)"
| "build_replicas e hash fixed_policies setup sz st (i # is) caches = do {
     r \<leftarrow> AdaptiveArms fixed_policies sz;
     case r of
       Inl err \<Rightarrow> Some (Inl err)
     | Inr arms \<Rightarrow>
    (case fs_Bandit setup i of
       Inl err \<Rightarrow> Some (Inl (BuildBandit err))
     | Inr policyBandit \<Rightarrow>
    (case NewAdaptiveCache e hash arms (Some policyBandit) (Some st) of
       Inl err \<Rightarrow> Some (Inl (BuildReplica err))
     | Inr cache \<Rightarrow> build_replicas e hash fixed_policies setup sz st is (caches @ [cache])))
   }"

text \<open>
  The replicas then run concurrently: \<open>serve\<close> is what came of the caches and the shards, the outcome of
  each replica, which \<^const>\<open>fleet_outcome\<close> adds up.
\<close>

definition replayFleet ::
  "('a, 'k, 'v, 'b) env \<Rightarrow> ('k \<Rightarrow> 64 word) \<Rightarrow> ('a, 'e) policy_builder list \<Rightarrow> 'b fleet_setup \<Rightarrow> int \<Rightarrow> cache_settings
    \<Rightarrow> (('a, 'k, 'b) cache list \<Rightarrow> workload list \<Rightarrow> (bench_result \<times> string) list) \<Rightarrow> int \<Rightarrow> workload list
    \<Rightarrow> ('e fleet_error + fleet_result) option" where
  "replayFleet e hash fixed_policies setup sz st serve elapsed shards = do {
     r \<leftarrow> build_replicas e hash fixed_policies setup sz st [0 .. int (length shards) - 1] [];
     case r of
       Inl err \<Rightarrow> Some (Inl err)
     | Inr caches \<Rightarrow> Some (Inr (fleet_outcome (fs_Name setup) elapsed (serve caches shards)))
   }"

text \<open>
  The baseline: the shards one after another, each on a fresh policy. \<open>took\<close> are the clock readings of the
  replays; the fleet's own duration is \<open>elapsed\<close>.
\<close>

fun fixed_loop ::
  "('a, string, int, 'z) cacher_ops_scheme \<Rightarrow> ('a, 'e) policy_builder \<Rightarrow> int \<Rightarrow> workload list \<Rightarrow> fleet_result
    \<Rightarrow> ('e fleet_error + fleet_result) option" where
  "fixed_loop ops builder sz [] fleet = Some (Inr fleet)"
| "fixed_loop ops builder sz (shard # shards) fleet = do {
     r \<leftarrow> pb_Build builder sz;
     case r of
       Inl err \<Rightarrow> Some (Inl (BuildFixed (pb_Name builder) err))
     | Inr policy \<Rightarrow>
         (let result = snd (Replay (pb_Name builder) (policyCache ops) 0 policy (wl_Keys shard));
              fleet = fleet\<lparr>rs_Hits := rs_Hits fleet + rs_Hits result\<rparr>;
              fleet = fleet\<lparr>rs_Misses := rs_Misses fleet + rs_Misses result\<rparr>;
              fleet = fleet\<lparr>fr_Ending := fr_Ending fleet @ [pb_Name builder]\<rparr>
          in fixed_loop ops builder sz shards fleet)
   }"

definition ReplayFixedFleet ::
  "('a, string, int, 'z) cacher_ops_scheme \<Rightarrow> ('a, 'e) policy_builder \<Rightarrow> workload list \<Rightarrow> int \<Rightarrow> int
    \<Rightarrow> ('e fleet_error + fleet_result) option" where
  "ReplayFixedFleet ops builder shards sz elapsed = do {
     r \<leftarrow> fixed_loop ops builder sz shards
       \<lparr>rs_Policy = pb_Name builder, rs_Hits = 0, rs_Misses = 0, rs_Duration = 0,
        fr_Replicas = int (length shards), fr_Policies = 0, fr_Ending = []\<rparr>;
     Some (map_sum id (\<lambda>fleet. fleet\<lparr>rs_Duration := elapsed, fr_Policies := 1\<rparr>) r)
   }"

text \<open>Pacing sleeps between requests and changes nothing else; \<open>sleep\<close> is what the cache does meanwhile.\<close>

definition paced_request ::
  "(int \<Rightarrow> 'c \<Rightarrow> 'c) \<Rightarrow> ('c, 'k, int) bench_cache \<Rightarrow> int \<times> 'k \<Rightarrow> 'c \<times> bench_result \<Rightarrow> 'c \<times> bench_result" where
  "paced_request sleep ops x s = replay_request ops x (sleep (fst x) (fst s), snd s)"

definition ReplayPaced ::
  "(int \<Rightarrow> 'c \<Rightarrow> 'c) \<Rightarrow> string \<Rightarrow> ('c, 'k, int) bench_cache \<Rightarrow> int \<Rightarrow> 'c \<Rightarrow> 'k list \<Rightarrow> float64 \<Rightarrow> 'c \<times> bench_result" where
  "ReplayPaced sleep name ops elapsed c keys perSecond =
     (if perSecond \<le> 0 then Replay name ops elapsed c keys
      else let result = \<lparr>rs_Policy = name, rs_Hits = 0, rs_Misses = 0, rs_Duration = 0\<rparr>;
               (c, result) = fold (paced_request sleep ops) (zip [0 .. int (length keys) - 1] keys) (c, result)
           in (c, result\<lparr>rs_Duration := elapsed\<rparr>))"

subsection \<open>Other libraries\<close>

text \<open>
  \<^verbatim>\<open>src/bench/competitors.go\<close>: each rival through the two methods the harness drives. None of them reports an
  eviction. The rivals' operations are parameters; the constants are the code's.
\<close>

definition sturdycShards :: int where "sturdycShards = 8"
definition sturdycEvictionPercent :: int where "sturdycEvictionPercent = 10"

definition bench_hour :: int where "bench_hour = 3600 * 10 ^ 9"

datatype 'e competitor_error = BuildOtter 'e | BuildTheine 'e | BuildRistretto 'e | SturdycTooSmall int int

definition newOtterCompetitor :: "(int \<Rightarrow> 'e + 'o) \<Rightarrow> int \<Rightarrow> 'e competitor_error + 'o" where
  "newOtterCompetitor otter_New sz = map_sum BuildOtter id (otter_New sz)"

text \<open>otter evicts on a maintenance pass, which the adapter forces after every write.\<close>

definition otterCompetitor :: "('o, 'k, 'v) otter_ops \<Rightarrow> ('o, 'k, 'v) bench_cache" where
  "otterCompetitor ops =
     \<lparr>bc_get = ot_GetIfPresent ops, bc_add = (\<lambda>c key val. let c = ot_Set ops c key val; c = ot_CleanUp ops c in (c, False))\<rparr>"

definition newTheineCompetitor :: "(int \<Rightarrow> 'e + 'c) \<Rightarrow> int \<Rightarrow> 'e competitor_error + 'c" where
  "newTheineCompetitor theine_Build sz = map_sum BuildTheine id (theine_Build sz)"

text \<open>theine and ristretto share a shape: a get, and a set with a cost and a time to live.\<close>

definition timedCompetitor ::
  "('c \<Rightarrow> 'k \<Rightarrow> 'c \<times> 'v option) \<Rightarrow> ('c \<Rightarrow> 'k \<Rightarrow> 'v \<Rightarrow> int \<Rightarrow> int \<Rightarrow> 'c) \<Rightarrow> ('c, 'k, 'v) bench_cache" where
  "timedCompetitor get SetWithTTL = \<lparr>bc_get = get, bc_add = (\<lambda>c key val. (SetWithTTL c key val 1 bench_hour, False))\<rparr>"

record ristretto_config =
  NumCounters :: int
  MaxCost :: int
  BufferItems :: int
  IgnoreInternalCost :: bool

definition newRistrettoCompetitor :: "(ristretto_config \<Rightarrow> 'e + 'c) \<Rightarrow> int \<Rightarrow> 'e competitor_error + 'c" where
  "newRistrettoCompetitor ristretto_NewCache sz =
     map_sum BuildRistretto id (ristretto_NewCache
       \<lparr>NumCounters = go_int64 (sz * 10), MaxCost = sz, BufferItems = 64, IgnoreInternalCost = True\<rparr>)"

definition newSturdycCompetitor :: "(int \<Rightarrow> int \<Rightarrow> int \<Rightarrow> int \<Rightarrow> 'c) \<Rightarrow> int \<Rightarrow> 'e competitor_error + 'c" where
  "newSturdycCompetitor sturdyc_New sz =
     (if sz < sturdycShards then Inl (SturdycTooSmall sturdycShards sz)
      else Inr (sturdyc_New sz sturdycShards bench_hour sturdycEvictionPercent))"

definition sturdycCompetitor :: "('c \<Rightarrow> 'k \<Rightarrow> 'c \<times> 'v option) \<Rightarrow> ('c \<Rightarrow> 'k \<Rightarrow> 'v \<Rightarrow> 'c) \<Rightarrow> ('c, 'k, 'v) bench_cache" where
  "sturdycCompetitor get put = \<lparr>bc_get = get, bc_add = (\<lambda>c key val. (put c key val, False))\<rparr>"

subsection \<open>Finding trace files\<close>

datatype 'e trace_dir_error = ErrNoTraceDir | StatFailed 'e | NotADirectory string | ReadDirFailed 'e

text \<open>\<open>dir\<close> is the environment variable's value, \<open>stat\<close> whether a path is a directory, or an error.\<close>

definition TraceDir :: "string \<Rightarrow> (string \<Rightarrow> 'e + bool) \<Rightarrow> 'e trace_dir_error + string" where
  "TraceDir dir stat =
     (if dir = '''' then Inl ErrNoTraceDir
      else case stat dir of
             Inl err \<Rightarrow> Inl (StatFailed err)
           | Inr is_dir \<Rightarrow> if \<not> is_dir then Inl (NotADirectory dir) else Inr dir)"

definition has_suffix :: "string \<Rightarrow> string \<Rightarrow> bool" where
  "has_suffix s p \<longleftrightarrow> length p \<le> length s \<and> drop (length s - length p) s = p"

text \<open>A directory's entries are their names and whether they are directories; \<open>join\<close> is \<^verbatim>\<open>filepath.Join\<close>.\<close>

definition trace_entry :: "(string \<Rightarrow> string \<Rightarrow> string) \<Rightarrow> string \<Rightarrow> string \<times> bool \<Rightarrow> string list \<Rightarrow> string list" where
  "trace_entry join dir entry paths =
     (let (name, is_dir) = entry in
      if is_dir then paths
      else if has_prefix name ''.'' \<or> has_suffix name ''.md'' then paths
      else paths @ [join dir name])"

definition DiscoverTraces ::
  "string \<Rightarrow> (string \<Rightarrow> 'e + bool) \<Rightarrow> (string \<Rightarrow> 'e + (string \<times> bool) list) \<Rightarrow> (string \<Rightarrow> string \<Rightarrow> string)
    \<Rightarrow> 'e trace_dir_error + string list" where
  "DiscoverTraces env_dir stat read_dir join =
     (case TraceDir env_dir stat of
        Inl err \<Rightarrow> Inl err
      | Inr dir \<Rightarrow>
     (case read_dir dir of
        Inl err \<Rightarrow> Inl (ReadDirFailed err)
      | Inr entries \<Rightarrow> Inr (fold (trace_entry join dir) entries [])))"

subsection \<open>What the runs report\<close>

text \<open>Pacing changes the clock, not the score, of a cache that does nothing while it is not called.\<close>

lemma paced_same: "(\<And>i c. sleep i c = c) \<Longrightarrow> ReplayPaced sleep name ops elapsed c keys perSecond = Replay name ops elapsed c keys"
  by (simp add: ReplayPaced_def Replay_def paced_request_def [abs_def])

text \<open>The fixed-policy baseline counts every request of every shard once, and names one policy.\<close>

lemma fixed_loop_counts:
  assumes "fixed_loop ops builder sz shards fleet = Some (Inr fleet')"
  shows "rs_Hits fleet' + rs_Misses fleet' = rs_Hits fleet + rs_Misses fleet + (\<Sum>w \<leftarrow> shards. workload_len w) \<and>
    fr_Ending fleet' = fr_Ending fleet @ replicate (length shards) (pb_Name builder) \<and> fr_Replicas fleet' = fr_Replicas fleet"
  using assms
proof (induction shards arbitrary: fleet)
  case (Cons shard shards)
  obtain policy where b: "pb_Build builder sz = Some (Inr policy)"
  proof (cases "pb_Build builder sz")
    case (Some r)
    with Cons.prems that show ?thesis by (cases r) auto
  qed (use Cons.prems in simp)
  let ?r = "snd (Replay (pb_Name builder) (policyCache ops) 0 policy (wl_Keys shard))"
  have "rs_Hits ?r + rs_Misses ?r = workload_len shard"
    using replay_counts [of "policyCache ops" "zip [0 .. int (length (wl_Keys shard)) - 1] (wl_Keys shard)" policy
      "\<lparr>rs_Policy = pb_Name builder, rs_Hits = 0, rs_Misses = 0, rs_Duration = 0\<rparr>"]
    by (simp add: Replay_def Let_def split_beta workload_len_def)
  moreover note Cons.IH [of "fleet\<lparr>rs_Hits := rs_Hits fleet + rs_Hits ?r, rs_Misses := rs_Misses fleet + rs_Misses ?r,
      fr_Ending := fr_Ending fleet @ [pb_Name builder]\<rparr>"]
  ultimately show ?case using Cons.prems by (simp add: b Let_def)
qed simp

lemma fixed_fleet_counts:
  assumes "ReplayFixedFleet ops builder shards sz elapsed = Some (Inr fleet)"
  shows "rs_Hits fleet + rs_Misses fleet = (\<Sum>w \<leftarrow> shards. workload_len w) \<and>
    fr_Ending fleet = replicate (length shards) (pb_Name builder) \<and> fr_Policies fleet = 1"
proof -
  obtain fleet' where f: "fixed_loop ops builder sz shards
      \<lparr>rs_Policy = pb_Name builder, rs_Hits = 0, rs_Misses = 0, rs_Duration = 0,
        fr_Replicas = int (length shards), fr_Policies = 0, fr_Ending = []\<rparr> = Some (Inr fleet')"
      "fleet = fleet'\<lparr>rs_Duration := elapsed, fr_Policies := 1\<rparr>"
  proof -
    let ?f = "fixed_loop ops builder sz shards
      \<lparr>rs_Policy = pb_Name builder, rs_Hits = 0, rs_Misses = 0, rs_Duration = 0,
        fr_Replicas = int (length shards), fr_Policies = 0, fr_Ending = []\<rparr>"
    obtain r where "?f = Some r" using assms by (cases ?f) (simp_all add: ReplayFixedFleet_def)
    with assms that show ?thesis by (cases r) (auto simp: ReplayFixedFleet_def)
  qed
  from fixed_loop_counts [OF f(1)] show ?thesis by (simp add: f(2))
qed

text \<open>A fleet that is built has one cache per shard, each built from arms of its own.\<close>

lemma build_replicas_length:
  "build_replicas e hash fixed_policies setup sz st is caches = Some (Inr caches') \<Longrightarrow> length caches' = length caches + length is"
proof (induction "is" arbitrary: caches)
  case (Cons i "is")
  obtain r where r: "AdaptiveArms fixed_policies sz = Some r"
    using Cons.prems by (cases "AdaptiveArms fixed_policies sz") simp_all
  obtain arms where arms: "r = Inr arms" using Cons.prems r by (cases r) simp_all
  obtain b where b: "fs_Bandit setup i = Inr b" using Cons.prems r arms by (cases "fs_Bandit setup i") simp_all
  obtain c where "NewAdaptiveCache e hash arms (Some b) (Some st) = Inr c"
    using Cons.prems r arms b by (cases "NewAdaptiveCache e hash arms (Some b) (Some st)") simp_all
  with Cons.prems r arms b Cons.IH [of "caches @ [c]"] show ?case by simp
qed simp

end
