(* ===== verification/Spec2Isabelle.thy ===== *)
theory Spec2Isabelle
  imports CacheTheorems BanditTheorems RedisTheorems AdviceTheorems MigrationTheorems ArmTheorems PolicyTheorems MonitorTheorems ClientTheorems ExampleTheorems BenchFleet
begin

text \<open>
  A verification library for \<^verbatim>\<open>as-cache\<close>, a Go cache that runs several eviction policies side by side,
  measures all of them on the traffic it serves, and lets a multi-armed bandit choose which one serves.
  All paths below are under \<^verbatim>\<open>src/\<close>.

  \<^bold>\<open>The program.\<close> An \<^verbatim>\<open>AdaptiveCache\<close> (\<^verbatim>\<open>cache.go\<close>) holds one arm per policy type. The active arm serves; the
  others are shadows: they replay a sample of the keys (\<^verbatim>\<open>sampling.go\<close>) at a proportionally smaller
  capacity and store zero values only (\<^verbatim>\<open>shadow.go\<close>). An epoch (\<^verbatim>\<open>epoch.go\<close>), started by a ticker or by a
  count of requests, tells the bandit what each arm hit and missed, asks it for a policy, and switches to it
  if the gates of \<^verbatim>\<open>stability.go\<close> allow. A switch moves the old arm's entries by the migration strategy
  (\<^verbatim>\<open>migration.go\<close>): not at all, all at once, or gradually through a window in which reads promote and
  writes drain. The bandit is local (\<^verbatim>\<open>bandit/thompson.go\<close>) or one replica's part of a fleet
  (\<^verbatim>\<open>bandit/distributed.go\<close>, \<^verbatim>\<open>bandit/coordinate.go\<close>) that pools its evidence and elects, per time bucket, the
  leader whose decision all replicas follow, through a store in memory (\<^verbatim>\<open>bandit/memstore.go\<close>) or in Redis
  (\<^verbatim>\<open>bandit/redis\<close>). Around it stand the policies themselves (\<^verbatim>\<open>lfu\<close>, \<^verbatim>\<open>policies\<close>), the advice and metrics
  an operator reads, a benchmark harness, a client of somebody else's harness, and two example servers.

  \<^bold>\<open>Conventions.\<close> A Go interface value is an object of a type variable plus a record with the operations of
  its dynamic type; what callers may assume of one is a locale, and every locale is interpreted on the
  program's own implementations. An operation that mutates its receiver returns the new receiver first.
  A pair \<open>(value, ok)\<close> is an option. An error is the \<^term>\<open>Inl\<close> of a sum; \<^term>\<open>None\<close> as the result of a step is a
  panic (a nil dereference, an index out of range, a call of a nil interface). Each critical section is one
  step. Go's random map order is an argument, with a lemma that it does not matter where the code relies
  on that. Sizes, counts and times are \<^typ>\<open>int\<close> where the code cannot overflow them in any reachable state
  worth considering, and words or explicit wrap-around where it can (policy numbers, hashes, lifetimes,
  W-TinyLFU's capacities); the one known exception is a \<^verbatim>\<open>Resize\<close> of the LFU cache to about \<open>- 2^63\<close>, where its
  subtraction wraps around and the model's does not. A \<^verbatim>\<open>float64\<close> is a rational number and every arithmetic operation rounds to the nearest
  53-bit number, ties to even; infinities, NaN and subnormals do not occur in the code's uses.

  \<^bold>\<open>Theories and what they model.\<close>
  \<^item> \<open>Prelude\<close>: the hint collections and the lemmas on maps, lists and options that the components share.
  \<^item> \<open>PolicyTypes\<close>, \<open>PolicyNames\<close> (\<^verbatim>\<open>models.go\<close>, \<^verbatim>\<open>policytype_string.go\<close>): the policy numbers, their names,
    statistics and migration strategies.
  \<^item> \<open>PolicyIface\<close> (\<^verbatim>\<open>interfaces.go\<close>, \<^verbatim>\<open>wrapper.go\<close>): the interfaces \<^verbatim>\<open>Cacher\<close> and \<^verbatim>\<open>Policy\<close>, the wrapper that counts hits
    and misses, and the contracts \<open>cacher_contract\<close> (an arm may drop entries but never invent one),
    \<open>exact_cacher\<close>, \<open>policy_contract\<close> and \<open>exact_policy\<close>.
  \<^item> \<open>Float64\<close>, \<open>Sampling\<close> (\<^verbatim>\<open>sampling.go\<close>): binary floating point, the key sampler, the miniature capacities.
  \<^item> \<open>CacheState\<close>, \<open>Migration\<close>, \<open>DataPlane\<close>, \<open>Epoch\<close>, \<open>Construct\<close> (\<^verbatim>\<open>cache.go\<close>, \<^verbatim>\<open>settings.go\<close>, \<^verbatim>\<open>shadow.go\<close>, \<^verbatim>\<open>migration.go\<close>,
    \<^verbatim>\<open>stability.go\<close>, \<^verbatim>\<open>epoch.go\<close>, \<^verbatim>\<open>advice.go\<close>): the state of the adaptive cache, every handler, the epoch and
    \<^verbatim>\<open>NewAdaptiveCache\<close>. \<open>Requests\<close> composes them into runs (\<open>run\<close>: any list of requests and epoch ticks).
    \<open>EpochClock\<close> interleaves the two atomic updates of \<^verbatim>\<open>countRequest\<close> between goroutines.
  \<^item> \<open>CacheInv\<close>, \<open>CacheSteps\<close>, \<open>EpochSteps\<close>: the invariant of the cache (roles, window, blank shadows, served values)
    over the locale \<open>adaptive_cache\<close>, kept by every step; \<open>Accounting\<close>, \<open>EpochFacts\<close>, \<open>RunFacts\<close>,
    \<open>MigrationFacts\<close>: the counters, the epoch's reports, the distance of switches, the exact effect of a migration.
  \<^item> \<open>SimpleLFU\<close> (\<^verbatim>\<open>lfu/simplelfu/lfu.go\<close>) with \<open>LFUOrder\<close>, \<open>LFUContract\<close>, \<open>LfuRuns\<close>: the frequency buckets and their
    refinement of one list in eviction order; \<open>LinkedList\<close> (\<^verbatim>\<open>lfu/internal/list.go\<close>): the intrusive list on an
    explicit heap; \<open>LfuCache\<close> (\<^verbatim>\<open>lfu/lfu.go\<close>): the exported cache and its callbacks; \<open>ExportedLfu\<close>: that cache as a
    \<^verbatim>\<open>Cacher\<close>, with the contract of its own.
  \<^item> \<open>RandomCache\<close>, \<open>TtlCache\<close>, \<open>AdaptCache\<close>, \<open>Adapters\<close> (\<^verbatim>\<open>policies/random.go\<close>, \<^verbatim>\<open>ttl.go\<close>, \<^verbatim>\<open>adapt.go\<close>, \<^verbatim>\<open>adapters.go\<close>,
    \<^verbatim>\<open>policies/arc/arc.go\<close>, \<^verbatim>\<open>policies/tinylfu/tinylfu.go\<close>): the shipped policies. \<open>Arms\<close> builds a cache of two of them.
  \<^item> \<open>BetaSample\<close>, \<open>Evidence\<close>, \<open>Thompson\<close>, \<open>BanditStore\<close>, \<open>BanditConfig\<close>, \<open>Fingerprint\<close>, \<open>GoFormat\<close>, \<open>MemStore\<close>, \<open>Distributed\<close>
    (\<^verbatim>\<open>bandit/*.go\<close>): Beta sampling, pooled evidence, the local bandits, the store interface and its contracts,
    configuration, regimes and their fingerprints, Go's number formats, the store in memory, the replica.
    \<open>DistributedFacts\<close> and \<open>Fleet\<close>: a round's facts, and fleets as lists of events in any order; \<open>Resends\<close>: fleets whose
    store may execute a request again at any later time, as it does when a client sends it again.
  \<^item> \<open>RedisKeys\<close>, \<open>RedisStore\<close>, \<open>RedisLaws\<close>, \<open>RedisCoordination\<close>, \<open>RedisCounts\<close>, \<open>RedisDemo\<close> (\<^verbatim>\<open>bandit/redis/*.go\<close>): the key layout,
    both Lua scripts and the Go side over a documented server; \<open>RedisDemo\<close> is a server that meets the laws.
  \<^item> \<open>AdviceReports\<close>, \<open>Monitoring\<close> (\<^verbatim>\<open>advice.go\<close>, \<^verbatim>\<open>bandit/snapshot.go\<close>, \<^verbatim>\<open>metrics/metrics.go\<close>): what an operator reads.
  \<^item> \<open>Bench\<close>, \<open>BenchFacts\<close>, \<open>Trace\<close>, \<open>BenchFleet\<close> (\<^verbatim>\<open>bench/*.go\<close>): workloads, replays, trace files and their discovery,
    the builders of every policy, fleets of replicas with local or pooled bandits, and the rivals' adapters.
  \<^item> \<open>BenchClient\<close> (\<^verbatim>\<open>benchclient/benchclient.go\<close>): the default arms, a Thompson bandit and the adaptive cache put
    together behind the five methods a harness drives.
  \<^item> \<open>Examples\<close>, \<open>ExampleMigration\<close>, \<open>ExampleFacts\<close> (\<^verbatim>\<open>examples/basic/main.go\<close>, \<^verbatim>\<open>examples/migration/main.go\<close>): the adapter
    of a third-party bandit, the bandit an operator can force, the caches both programs build, their handlers, and
    the migration server as a sequence of requests and ticks, a panic of its bandit ending the program.

  \<^bold>\<open>What the theorems show.\<close>
  \<^item> \<open>CacheTheorems\<close>, \<open>MigrationTheorems\<close>, \<open>EpochTheorems\<close>: over any run from the constructor, with any arms
    that meet the contract and any bandit: no panic, no value but the last one written under a key, no value in a
    shadow; switches only through the gates, apart by the cooldown, never in observe-only mode; a window that
    closes within one epoch and after as many writes as it has keys; a warm switch that keeps everything
    and a gradual one that serves everything; counters that count each \<^verbatim>\<open>Get\<close> once.
  \<^item> \<open>BanditTheorems\<close>, \<open>RedisTheorems\<close>: one leader and one decision per bucket and fleet agreement in every
    interleaving, over both stores, for coordination epochs of at least a millisecond, and over Redis with repeated
    requests; how long leadership of a bucket lasts; measurements published exactly once; adoption and fallback; the configuration's
    checks; the key layout's round trip.
  \<^item> \<open>ArmTheorems\<close>, \<open>PolicyTheorems\<close>: the caches against reference lists and contracts, their callbacks, bounds
    and resizes.
  \<^item> \<open>AdviceTheorems\<close>, \<open>MonitorTheorems\<close>: the advice names the best rate; reports do not depend on map
    order; the request-driven clock never runs early, and the schedule under which it stops.
  \<^item> \<open>ClientTheorems\<close>, \<open>ExampleTheorems\<close>: the parts composed: a client over other libraries' caches serves the
    last value set or nothing, through every epoch; a switch scheduled over HTTP is obeyed at the next tick,
    unless another is scheduled before it.

  \<^bold>\<open>Bounds and fuel.\<close> Gamma sampling rejects in a loop that ends with probability one only: it has fuel, and
  \<open>gamma_loop_fuel\<close> shows that every fuel past an accepting draw gives the same result. The trimming loop of
  \<^verbatim>\<open>adapt.go\<close> is a partial function, shown to return whenever the wrapped cache meets its contract. Every other loop is
  structural. The laws of the Redis server bound its clock by
  \<open>10^11\<close> seconds, where the doubles Lua computes with are exact.

  \<^bold>\<open>Parameters.\<close> hashicorp's LRU, 2Q and ARC, otter, the Redis server and client, the key hash, the random
  generators, \<^verbatim>\<open>math.Pow\<close>, \<^verbatim>\<open>math.Log\<close>, \<^verbatim>\<open>math.Sqrt\<close> and the clock are arguments; what the code relies on is the hypothesis
  of the theorems that need it, and each has a witness with a concrete instance.

  \<^bold>\<open>Not modelled.\<close> Locks, goroutines, timers and the background work \<^verbatim>\<open>Close\<close> stops: their effect is which steps
  may interleave, and the theorems quantify over all sequences of steps. Rendering reports as JSON, opening and
  decompressing files, starting and stopping the HTTP servers, log lines and command-line parsing are input and output
  around the modelled functions. The wall clock of the paced replays is a parameter, and so are the caches of other
  projects behind \<^verbatim>\<open>bench/competitors.go\<close>, of which only the adapters are this program's.
\<close>

end
